(* ===== verification/Prelude.thy ===== *)
theory Prelude
  imports Main "HOL-Library.Word"
begin

text \<open>
  Shared vocabulary of the development: the machine-integer types of the C++ sources, the
  result type of \<^verbatim>\<open>include/ssim/core/result.hpp\<close>, big-endian byte strings (used by both
  wire formats), and the fact collections the component proofs draw on.
\<close>

unbundle bit_operations_syntax

named_theorems wire_simps \<open>unfolding rules for wire encoders and decoders\<close>
named_theorems length_simps \<open>lengths of encoded byte strings\<close>
named_theorems inv_intros \<open>preservation rules for component invariants\<close>

section \<open>Types\<close>

type_synonym byte = "8 word"
type_synonym u16 = "16 word"
type_synonym u32 = "32 word"
type_synonym u64 = "64 word"

text \<open>
  \<^verbatim>\<open>struct Error\<close> and \<^verbatim>\<open>Result<T>\<close>: a stable reason code with a message, or a value.
  \<open>Err\<close> and \<open>Ok\<close> are the two variants; \<^verbatim>\<open>has_value()\<close> is \<open>has_value\<close>.
\<close>

record error =
  code :: int
  message :: string

type_synonym 'a result = "error + 'a"

abbreviation Ok :: "'a \<Rightarrow> 'a result" where
  "Ok \<equiv> Inr"

definition Err :: "int \<Rightarrow> string \<Rightarrow> 'a result" where
  "Err c m = Inl \<lparr>code = c, message = m\<rparr>"

fun has_value :: "'a result \<Rightarrow> bool" where
  "has_value (Inr _) = True"
| "has_value (Inl _) = False"

text \<open>The reason code of a failed result, as the tests of the repository observe it.\<close>

fun reason :: "'a result \<Rightarrow> int option" where
  "reason (Inl e) = Some (code e)"
| "reason (Inr _) = None"

lemma Err_neq_Ok [simp]: "Err c m \<noteq> Inr x" "Inr x \<noteq> Err c m"
  by (simp_all add: Err_def)

lemma Err_eq_Inl [simp]: "Err c m = Inl e \<longleftrightarrow> e = \<lparr>code = c, message = m\<rparr>"
  by (auto simp: Err_def)

lemma has_value_Err [simp]: "\<not> has_value (Err c m)"
  by (simp add: Err_def)

lemma reason_Err [simp]: "reason (Err c m) = Some c"
  by (simp add: Err_def)

lemma case_sum_Err [simp]: "case_sum f g (Err c m) = f \<lparr>code = c, message = m\<rparr>"
  by (simp add: Err_def)

lemma map_sum_Err [simp]: "map_sum id g (Err c m) = Err c m"
  by (simp add: Err_def)

lemma has_value_iff: "has_value r \<longleftrightarrow> (\<exists>x. r = Inr x)"
  by (cases r) auto

lemma reason_None_iff [simp]: "reason r = None \<longleftrightarrow> has_value r"
  by (cases r) auto

section \<open>Characters and bytes\<close>

text \<open>A \<^verbatim>\<open>std::string\<close> is a sequence of bytes; HOL's \<open>char\<close> is an 8-bit value.\<close>

definition byte_of_char :: "char \<Rightarrow> byte" where
  "byte_of_char c = word_of_nat (of_char c)"

definition char_of_byte :: "byte \<Rightarrow> char" where
  "char_of_byte b = char_of (unat b)"

lemma char_of_byte_of_char [simp]: "char_of_byte (byte_of_char c) = c"
proof -
  have "(of_char c :: nat) < 256" by simp
  then show ?thesis
    by (simp add: char_of_byte_def byte_of_char_def unat_of_nat take_bit_eq_mod)
qed

lemma byte_of_char_of_byte [simp]: "byte_of_char (char_of_byte b) = b"
proof -
  have "unat b < 256" using unsigned_less [of b] by simp
  then show ?thesis
    by (simp add: char_of_byte_def byte_of_char_def)
qed

lemma map_char_of_byte_of_char [simp]: "map char_of_byte (map byte_of_char s) = s"
  by (simp add: comp_def)

lemma map_byte_of_char_of_byte [simp]: "map byte_of_char (map char_of_byte s) = s"
  by (simp add: comp_def)

section \<open>Big-endian byte strings\<close>

text \<open>
  \<open>be_bytes n v\<close> is the value \<open>v\<close> in \<open>n\<close> bytes, most significant first, as the
  shift-and-mask loops of the codecs produce it; \<open>be_value\<close> is the shift-and-or loop that
  reads it back. Both sides of the wire (SECS-II elements, HSMS headers, item lengths) are
  instances at their own widths.
\<close>

definition be_bytes :: "nat \<Rightarrow> 'a::len word \<Rightarrow> byte list" where
  "be_bytes n v = map (\<lambda>i. ucast (drop_bit (i * 8) v AND 0xFF)) (rev [0..<n])"

definition be_value :: "byte list \<Rightarrow> 'a::len word" where
  "be_value bs = foldl (\<lambda>v b. push_bit 8 v OR ucast b) 0 bs"

lemma length_be_bytes [simp, length_simps]: "length (be_bytes n v) = n"
  by (simp add: be_bytes_def)

lemma be_bytes_0 [simp]: "be_bytes 0 v = []"
  by (simp add: be_bytes_def)

lemma be_bytes_Suc: "be_bytes (Suc n) v = ucast (drop_bit (n * 8) v AND 0xFF) # be_bytes n v"
  by (simp add: be_bytes_def)

lemma be_value_Nil [simp]: "be_value [] = 0"
  by (simp add: be_value_def)

lemma be_value_snoc: "be_value (bs @ [b]) = push_bit 8 (be_value bs) OR ucast b"
  by (simp add: be_value_def)

lemma mask_byte: "(0xFF :: 'a::len word) = mask 8"
  by (simp add: mask_eq_exp_minus_1)

lemma be_bytes_Suc_snoc:
  fixes v :: "'a::len word"
  shows "be_bytes (Suc n) v = be_bytes n (drop_bit 8 v) @ [ucast (v AND 0xFF)]"
proof (induction n)
  case 0
  then show ?case by (simp add: be_bytes_Suc)
next
  case (Suc n)
  then show ?case
    by (simp add: be_bytes_Suc [of "Suc n"] be_bytes_Suc [of n "drop_bit 8 v"] add.commute)
qed

lemma be_value_be_bytes_take:
  fixes v :: "'a::len word"
  shows "be_value (be_bytes n v) = take_bit (8 * n) v"
proof (induction n arbitrary: v)
  case 0
  then show ?case by simp
next
  case (Suc n)
  have "be_value (be_bytes (Suc n) v) =
      push_bit 8 (take_bit (8 * n) (drop_bit 8 v)) OR ucast (ucast (v AND 0xFF) :: byte)"
    by (simp add: be_bytes_Suc_snoc be_value_snoc Suc.IH)
  also have "\<dots> = take_bit (8 * Suc n) v"
    by (rule bit_word_eqI) (auto simp: bit_simps mask_byte)
  finally show ?case .
qed

lemma be_value_be_bytes:
  fixes v :: "'a::len word"
  assumes "8 * n \<ge> LENGTH('a)"
  shows "be_value (be_bytes n v) = v"
  using assms by (simp add: be_value_be_bytes_take take_bit_word_eq_self)

lemma be_bytes_be_value:
  assumes "length bs = n" and "8 * n \<le> LENGTH('a::len)"
  shows "be_bytes n (be_value bs :: 'a word) = bs"
  using assms
proof (induction n arbitrary: bs)
  case 0
  then show ?case by simp
next
  case (Suc n)
  from Suc.prems(1) obtain cs b where bs: "bs = cs @ [b]" and len: "length cs = n"
    by (cases bs rule: rev_cases) auto
  let ?v = "be_value cs :: 'a word"
  have top: "take_bit (8 * n) ?v = ?v"
    using Suc.IH [OF len] Suc.prems(2) be_value_be_bytes_take [of n ?v] by simp
  have "drop_bit 8 (push_bit 8 ?v OR ucast b) = ?v"
  proof (rule bit_word_eqI)
    fix k assume k: "k < LENGTH('a)"
    have *: "bit ?v k \<Longrightarrow> k < 8 * n"
      using arg_cong [OF top, of "\<lambda>w. bit w k"] by (simp add: bit_take_bit_iff)
    show "bit (drop_bit 8 (push_bit 8 ?v OR ucast b)) k = bit ?v k"
      using * Suc.prems(2) k by (auto simp: bit_simps dest: bit_imp_le_length)
  qed
  moreover have "(ucast ((push_bit 8 ?v OR ucast b) AND 0xFF) :: byte) = b"
    using Suc.prems(2) by (intro bit_word_eqI) (auto simp: bit_simps mask_byte)
  ultimately show ?case
    using Suc.IH [OF len] Suc.prems(2) by (simp add: bs be_value_snoc be_bytes_Suc_snoc)
qed

section \<open>Lists\<close>

lemma take_drop_append: "length xs = n \<Longrightarrow> take n (xs @ ys) = xs \<and> drop n (xs @ ys) = ys"
  by auto

lemma list_split_at: "n \<le> length xs \<Longrightarrow> \<exists>ys zs. xs = ys @ zs \<and> length ys = n"
  by (rule exI [of _ "take n xs"], rule exI [of _ "drop n xs"]) simp

end
