(* ===== verification/Secs2_Item.thy ===== *)
theory Secs2_Item
  imports Prelude
begin

text \<open>
  SECS-II data items: \<^verbatim>\<open>include/ssim/secsgem/secs2/item.hpp\<close>,
  \<^verbatim>\<open>src/secsgem/secs2/item.cpp\<close> and \<^verbatim>\<open>message.hpp\<close>. An \<open>item\<close> is a list or a typed
  array; the constructors are the class's factory functions, which are the only way to build
  one. Signed integers are kept as words (their two's-complement reading is \<open>sint\<close>), and
  \<^verbatim>\<open>float\<close> / \<^verbatim>\<open>double\<close> elements as their IEEE-754 bit patterns, which is what the codec
  copies.
\<close>

datatype format =
    kList | kBinary | kBoolean | kAscii | kJis8
  | kI8 | kI1 | kI2 | kI4 | kF8 | kF4 | kU8 | kU1 | kU2 | kU4

text \<open>The enumerator values of \<^verbatim>\<open>enum class Format : std::uint8_t\<close>.\<close>

fun format_code :: "format \<Rightarrow> byte" where
  "format_code kList = 0x00"
| "format_code kBinary = 0x08"
| "format_code kBoolean = 0x09"
| "format_code kAscii = 0x10"
| "format_code kJis8 = 0x11"
| "format_code kI8 = 0x18"
| "format_code kI1 = 0x19"
| "format_code kI2 = 0x1A"
| "format_code kI4 = 0x1C"
| "format_code kF8 = 0x20"
| "format_code kF4 = 0x24"
| "format_code kU8 = 0x28"
| "format_code kU1 = 0x29"
| "format_code kU2 = 0x2A"
| "format_code kU4 = 0x2C"

fun format_to_string :: "format \<Rightarrow> string" where
  "format_to_string kList = ''L''"
| "format_to_string kBinary = ''B''"
| "format_to_string kBoolean = ''BOOLEAN''"
| "format_to_string kAscii = ''A''"
| "format_to_string kJis8 = ''J''"
| "format_to_string kI8 = ''I8''"
| "format_to_string kI1 = ''I1''"
| "format_to_string kI2 = ''I2''"
| "format_to_string kI4 = ''I4''"
| "format_to_string kF8 = ''F8''"
| "format_to_string kF4 = ''F4''"
| "format_to_string kU8 = ''U8''"
| "format_to_string kU1 = ''U1''"
| "format_to_string kU2 = ''U2''"
| "format_to_string kU4 = ''U4''"

text \<open>Bytes per element, or 0 for a list.\<close>

fun element_size :: "format \<Rightarrow> nat" where
  "element_size kList = 0"
| "element_size kBinary = 1"
| "element_size kBoolean = 1"
| "element_size kAscii = 1"
| "element_size kJis8 = 1"
| "element_size kI1 = 1"
| "element_size kU1 = 1"
| "element_size kI2 = 2"
| "element_size kU2 = 2"
| "element_size kI4 = 4"
| "element_size kU4 = 4"
| "element_size kF4 = 4"
| "element_size kI8 = 8"
| "element_size kU8 = 8"
| "element_size kF8 = 8"

definition is_supported :: "format \<Rightarrow> bool" where
  "is_supported f \<longleftrightarrow> f \<noteq> kJis8"

datatype item =
    LIST "item list"
  | BINARY "byte list"
  | BOOLEAN "byte list"
  | ASCII string
  | I1 "8 word list"
  | I2 "16 word list"
  | I4 "32 word list"
  | I8 "64 word list"
  | U1 "8 word list"
  | U2 "16 word list"
  | U4 "32 word list"
  | U8 "64 word list"
  | F4 "32 word list"
  | F8 "64 word list"

fun item_format :: "item \<Rightarrow> format" where
  "item_format (LIST _) = kList"
| "item_format (BINARY _) = kBinary"
| "item_format (BOOLEAN _) = kBoolean"
| "item_format (ASCII _) = kAscii"
| "item_format (I1 _) = kI1"
| "item_format (I2 _) = kI2"
| "item_format (I4 _) = kI4"
| "item_format (I8 _) = kI8"
| "item_format (U1 _) = kU1"
| "item_format (U2 _) = kU2"
| "item_format (U4 _) = kU4"
| "item_format (U8 _) = kU8"
| "item_format (F4 _) = kF4"
| "item_format (F8 _) = kF8"

definition is_list :: "item \<Rightarrow> bool" where
  "is_list i \<longleftrightarrow> item_format i = kList"

text \<open>\<^verbatim>\<open>Item::count\<close>: list entries or array elements.\<close>

fun item_count :: "item \<Rightarrow> nat" where
  "item_count (LIST xs) = length xs"
| "item_count (BINARY v) = length v"
| "item_count (BOOLEAN v) = length v"
| "item_count (ASCII s) = length s"
| "item_count (I1 v) = length v"
| "item_count (I2 v) = length v"
| "item_count (I4 v) = length v"
| "item_count (I8 v) = length v"
| "item_count (U1 v) = length v"
| "item_count (U2 v) = length v"
| "item_count (U4 v) = length v"
| "item_count (U8 v) = length v"
| "item_count (F4 v) = length v"
| "item_count (F8 v) = length v"

text \<open>\<^verbatim>\<open>Item()\<close> is an empty list; \<^verbatim>\<open>boolean(bool)\<close> is the single-value convenience.\<close>

definition default_item :: item where
  "default_item = LIST []"

definition boolean1 :: "bool \<Rightarrow> item" where
  "boolean1 v = BOOLEAN [if v then 1 else 0]"

subsection \<open>Equality\<close>

text \<open>
  \<^verbatim>\<open>operator==\<close> compares the format and the stored vectors. Float elements compare as IEEE
  numbers: a NaN equals nothing and the two zeros are equal.
\<close>

definition f4_is_nan :: "32 word \<Rightarrow> bool" where
  "f4_is_nan w \<longleftrightarrow> 0x7F800000 < w AND 0x7FFFFFFF"

definition f4_eq :: "32 word \<Rightarrow> 32 word \<Rightarrow> bool" where
  "f4_eq a b \<longleftrightarrow> \<not> f4_is_nan a \<and> \<not> f4_is_nan b \<and> (a = b \<or> (a OR b) AND 0x7FFFFFFF = 0)"

definition f8_is_nan :: "64 word \<Rightarrow> bool" where
  "f8_is_nan w \<longleftrightarrow> 0x7FF0000000000000 < w AND 0x7FFFFFFFFFFFFFFF"

definition f8_eq :: "64 word \<Rightarrow> 64 word \<Rightarrow> bool" where
  "f8_eq a b \<longleftrightarrow>
     \<not> f8_is_nan a \<and> \<not> f8_is_nan b \<and> (a = b \<or> (a OR b) AND 0x7FFFFFFFFFFFFFFF = 0)"

fun item_equals :: "item \<Rightarrow> item \<Rightarrow> bool" where
  "item_equals (LIST xs) (LIST ys) = list_all2 item_equals xs ys"
| "item_equals (F4 xs) (F4 ys) = list_all2 f4_eq xs ys"
| "item_equals (F8 xs) (F8 ys) = list_all2 f8_eq xs ys"
| "item_equals a b = (a = b)"

section \<open>Messages\<close>

text \<open>\<^verbatim>\<open>struct Message\<close>: stream, function, the reply-wanted bit and an optional body.\<close>

record secs_message =
  stream :: byte
  func :: byte
  w_bit :: bool
  body :: "item option"

section \<open>Measures of items\<close>

text \<open>How many lists are nested inside one another.\<close>

fun item_depth :: "item \<Rightarrow> nat" where
  "item_depth (LIST xs) = Suc (foldr max (map item_depth xs) 0)"
| "item_depth _ = 0"

text \<open>The number of items a decoder had to build, and the data bytes it had to store.\<close>

fun item_nodes :: "item \<Rightarrow> nat" where
  "item_nodes (LIST xs) = Suc (sum_list (map item_nodes xs))"
| "item_nodes _ = 1"

fun item_bytes :: "item \<Rightarrow> nat" where
  "item_bytes (LIST xs) = sum_list (map item_bytes xs)"
| "item_bytes i = item_count i * element_size (item_format i)"

text \<open>
  What survives the wire: BOOLEAN elements are sent as 0 or 1, everything else unchanged.
\<close>

fun wire_norm :: "item \<Rightarrow> item" where
  "wire_norm (LIST xs) = LIST (map wire_norm xs)"
| "wire_norm (BOOLEAN v) = BOOLEAN (map (\<lambda>b. if b \<noteq> 0 then 1 else 0) v)"
| "wire_norm i = i"

lemma item_format_wire_norm [simp]: "item_format (wire_norm i) = item_format i"
  by (cases i) auto

lemma item_count_wire_norm [simp]: "item_count (wire_norm i) = item_count i"
  by (cases i) auto

lemma wire_norm_idem [simp]: "wire_norm (wire_norm i) = wire_norm i"
  by (induction i rule: wire_norm.induct) auto

lemma foldr_max_ge: "x \<in> set xs \<Longrightarrow> x \<le> foldr max xs (0::nat)"
  by (induction xs) auto

lemma foldr_max_le: "(\<And>x. x \<in> set xs \<Longrightarrow> x \<le> b) \<Longrightarrow> foldr max xs (0::nat) \<le> b"
  by (induction xs) auto

lemma item_depth_not_list [simp]: "\<not> is_list i \<Longrightarrow> item_depth i = 0"
  by (cases i) (auto simp: is_list_def)

lemma item_nodes_not_list [simp]: "\<not> is_list i \<Longrightarrow> item_nodes i = 1"
  by (cases i) (auto simp: is_list_def)

lemma item_bytes_not_list:
  "\<not> is_list i \<Longrightarrow> item_bytes i = item_count i * element_size (item_format i)"
  by (cases i) (auto simp: is_list_def)

lemma is_list_iff: "is_list i \<longleftrightarrow> (\<exists>xs. i = LIST xs)"
  by (cases i) (auto simp: is_list_def)

lemma element_size_pos: "f \<noteq> kList \<Longrightarrow> 0 < element_size f"
  by (cases f) auto

lemma item_format_supported [simp]: "is_supported (item_format i)"
  by (cases i) (auto simp: is_supported_def)

lemma format_code_inj: "format_code f = format_code g \<longleftrightarrow> f = g"
  by (cases f; cases g) auto

end
