(* ===== verification/Std_Map.thy ===== *)
theory Std_Map
  imports Prelude "HOL-Library.Product_Lexorder"
begin

text \<open>
  \<^verbatim>\<open>std::map<K, V>\<close>, which the session (open transactions), the GEM service (open requests)
  and the message factory (catalogue entries) use: an association list in ascending key order,
  so that iteration order is the container's. The locale \<open>keyed_store\<close> states what its
  clients rely on.
\<close>

type_synonym ('k, 'v) omap = "('k \<times> 'v) list"

definition omap_inv :: "('k::linorder, 'v) omap \<Rightarrow> bool" where
  "omap_inv m \<longleftrightarrow> sorted_wrt (<) (map fst m)"

text \<open>\<^verbatim>\<open>m[k] = v\<close>\<close>

fun omap_put :: "'k::linorder \<Rightarrow> 'v \<Rightarrow> ('k, 'v) omap \<Rightarrow> ('k, 'v) omap" where
  "omap_put k v [] = [(k, v)]"
| "omap_put k v ((k', v') # m) =
     (if k < k' then (k, v) # (k', v') # m
      else if k = k' then (k, v) # m
      else (k', v') # omap_put k v m)"

text \<open>\<^verbatim>\<open>m.erase(k)\<close>\<close>

definition omap_erase :: "'k \<Rightarrow> ('k, 'v) omap \<Rightarrow> ('k, 'v) omap" where
  "omap_erase k m = filter (\<lambda>e. fst e \<noteq> k) m"

text \<open>\<^verbatim>\<open>m.find(k)\<close>: the mapped value, \<open>None\<close> for \<^verbatim>\<open>end()\<close>.\<close>

definition omap_find :: "('k, 'v) omap \<Rightarrow> 'k \<Rightarrow> 'v option" where
  "omap_find m k = map_of m k"

text \<open>\<^verbatim>\<open>m.lower_bound(k)\<close>: the first entry whose key is not below \<open>k\<close>.\<close>

definition omap_lower_bound :: "('k::linorder, 'v) omap \<Rightarrow> 'k \<Rightarrow> ('k \<times> 'v) option" where
  "omap_lower_bound m k = List.find (\<lambda>e. \<not> fst e < k) m"

abbreviation omap_keys :: "('k, 'v) omap \<Rightarrow> 'k set" where
  "omap_keys m \<equiv> fst ` set m"

section \<open>The interface\<close>

locale keyed_store =
  fixes emp :: "'m"
    and lookup :: "'m \<Rightarrow> 'k \<Rightarrow> 'v option"
    and put :: "'k \<Rightarrow> 'v \<Rightarrow> 'm \<Rightarrow> 'm"
    and del :: "'k \<Rightarrow> 'm \<Rightarrow> 'm"
    and card_of :: "'m \<Rightarrow> nat"
    and inv :: "'m \<Rightarrow> bool"
  assumes inv_emp: "inv emp"
    and inv_put: "inv m \<Longrightarrow> inv (put k v m)"
    and inv_del: "inv m \<Longrightarrow> inv (del k m)"
    and lookup_emp: "lookup emp k = None"
    and lookup_put: "inv m \<Longrightarrow> lookup (put k v m) k' = (if k' = k then Some v else lookup m k')"
    and lookup_del: "inv m \<Longrightarrow> lookup (del k m) k' = (if k' = k then None else lookup m k')"
    and card_put: "inv m \<Longrightarrow>
      card_of (put k v m) = (if lookup m k = None then Suc (card_of m) else card_of m)"
    and card_del: "card_of (del k m) \<le> card_of m"
    and ext: "inv m \<Longrightarrow> inv m' \<Longrightarrow> lookup m = lookup m' \<Longrightarrow> m = m'"
begin

text \<open>Opening an entry under a fresh key and closing it again leaves no trace.\<close>

lemma del_put_fresh:
  assumes "inv m" "lookup m k = None"
  shows "del k (put k v m) = m"
  by (rule ext) (auto simp: assms inv_put inv_del lookup_put lookup_del)

text \<open>Entries under different keys do not disturb each other.\<close>

lemma put_commute:
  assumes "inv m" "k \<noteq> k'"
  shows "put k v (put k' v' m) = put k' v' (put k v m)"
  by (rule ext) (auto simp: assms inv_put lookup_put)

lemma del_del: "inv m \<Longrightarrow> del k (del k m) = del k m"
  by (rule ext) (auto simp: inv_del lookup_del)

end

section \<open>The association list implements it\<close>

lemma omap_inv_Nil [simp]: "omap_inv []"
  by (simp add: omap_inv_def)

lemma omap_inv_Cons [simp]:
  "omap_inv (e # m) \<longleftrightarrow> (\<forall>e' \<in> set m. fst e < fst e') \<and> omap_inv m"
  by (auto simp: omap_inv_def)

lemma omap_keys_put [simp]: "omap_keys (omap_put k v m) = insert k (omap_keys m)"
  by (induction k v m rule: omap_put.induct) auto

lemma omap_erase_Nil [simp]: "omap_erase k [] = []"
  by (simp add: omap_erase_def)

lemma omap_keys_erase [simp]: "omap_keys (omap_erase k m) = omap_keys m - {k}"
  by (auto simp: omap_erase_def)

lemma set_omap_put_subset: "set (omap_put k v m) \<subseteq> insert (k, v) (set m)"
  by (induction k v m rule: omap_put.induct) auto

lemma omap_inv_put: "omap_inv m \<Longrightarrow> omap_inv (omap_put k v m)"
proof (induction k v m rule: omap_put.induct)
  case (2 k v k' v' m)
  show ?case
  proof (cases "k < k' \<or> k = k'")
    case True
    with "2.prems" show ?thesis by (auto intro: less_trans)
  next
    case False
    then have "k' < k" by auto
    with "2.prems" set_omap_put_subset [of k v m] have "\<forall>e \<in> set (omap_put k v m). k' < fst e"
      by fastforce
    with 2 False show ?thesis by auto
  qed
qed simp

lemma omap_inv_erase: "omap_inv m \<Longrightarrow> omap_inv (omap_erase k m)"
  by (simp add: omap_inv_def omap_erase_def sorted_wrt_map sorted_wrt_filter)

lemma omap_find_Nil [simp]: "omap_find [] k = None"
  by (simp add: omap_find_def)

lemma omap_find_None_iff: "omap_find m k = None \<longleftrightarrow> k \<notin> omap_keys m"
  by (simp add: omap_find_def map_of_eq_None_iff)

lemma omap_find_put:
  "omap_inv m \<Longrightarrow> omap_find (omap_put k v m) k' = (if k' = k then Some v else omap_find m k')"
  unfolding omap_find_def by (induction k v m rule: omap_put.induct) auto

lemma omap_find_erase:
  "omap_find (omap_erase k m) k' = (if k' = k then None else omap_find m k')"
  unfolding omap_find_def omap_erase_def by (induction m) auto

lemma length_omap_put:
  "omap_inv m \<Longrightarrow>
    length (omap_put k v m) = (if omap_find m k = None then Suc (length m) else length m)"
  by (induction k v m rule: omap_put.induct)
    (auto simp: omap_find_def, metis map_of_SomeD less_irrefl fst_conv not_less_iff_gr_or_eq)

lemma length_omap_erase: "length (omap_erase k m) \<le> length m"
  by (simp add: omap_erase_def)

lemma omap_distinct: "omap_inv m \<Longrightarrow> distinct (map fst m)"
  by (induction m) auto

lemma card_omap_keys: "omap_inv m \<Longrightarrow> card (omap_keys m) = length m"
  using distinct_card [OF omap_distinct, of m] by simp

lemma omap_ext:
  assumes "omap_inv m" "omap_inv m'" "omap_find m = omap_find m'"
  shows "m = m'"
proof -
  have sets: "set m = set m'"
    using assms map_of_inject_set [OF omap_distinct omap_distinct, of m m']
    by (simp add: omap_find_def [abs_def])
  have "inj_on fst (set m)" using omap_distinct [OF assms(1)] by (simp add: distinct_map)
  then show ?thesis
    using assms(1,2) sets omap_distinct [OF assms(1)] omap_distinct [OF assms(2)]
    by (intro map_sorted_distinct_set_unique [of fst])
      (auto simp: omap_inv_def strict_sorted_iff)
qed

interpretation omap: keyed_store "[]" omap_find omap_put omap_erase length omap_inv
  by unfold_locales
    (auto simp: omap_inv_put omap_inv_erase omap_find_put omap_find_erase length_omap_put
      length_omap_erase intro: omap_ext)

lemmas omap_simps = omap_find_put omap_find_erase omap_inv_put omap_inv_erase length_omap_put

lemma omap_lower_bound_Some:
  assumes "omap_inv m" "omap_lower_bound m k = Some e"
  shows "e \<in> set m \<and> k \<le> fst e \<and> (\<forall>e' \<in> set m. k \<le> fst e' \<longrightarrow> fst e \<le> fst e')"
  using assms unfolding omap_lower_bound_def
  by (induction m) (auto split: if_splits)

lemma omap_lower_bound_None:
  "omap_lower_bound m k = None \<longleftrightarrow> (\<forall>e \<in> set m. fst e < k)"
  by (auto simp: omap_lower_bound_def find_None_iff)

end
