(* ===== verification/Secs2_Factory.thy ===== *)
theory Secs2_Factory
  imports Secs2_Item Std_Map
begin

text \<open>
  The message factory, \<^verbatim>\<open>src/secsgem/secs2/message_factory.cpp\<close>: which (stream, function)
  pairs a side understands and what body layout each one needs. The unknown-stream test walks
  the ordered map with \<^verbatim>\<open>lower_bound\<close>; the theorems show that it answers the question it is
  meant to answer.
\<close>

datatype validation = kOk | kUnknownStream | kUnknownFunction | kIllegalData

text \<open>\<^verbatim>\<open>Entry\<close>: a \<^verbatim>\<open>std::function\<close> that may be empty is an optional predicate.\<close>

record fac_entry =
  ent_name :: string
  ent_check :: "(item option \<Rightarrow> bool) option"

type_synonym factory = "(byte \<times> byte, fac_entry) omap"

definition empty_factory :: factory where
  "empty_factory = []"

definition register_message ::
    "byte \<Rightarrow> byte \<Rightarrow> string \<Rightarrow> (item option \<Rightarrow> bool) option \<Rightarrow> factory \<Rightarrow> factory" where
  "register_message s f name chk fac =
     omap_put (s, f) \<lparr>ent_name = name, ent_check = chk\<rparr> fac"

definition factory_check :: "factory \<Rightarrow> secs_message \<Rightarrow> validation" where
  "factory_check fac m =
     (case omap_find fac (stream m, func m) of
        Some e \<Rightarrow>
          (case ent_check e of
             None \<Rightarrow> kOk
           | Some chk \<Rightarrow> if chk (body m) then kOk else kIllegalData)
      | None \<Rightarrow>
          (case omap_lower_bound fac (stream m, 0) of
             Some (k, _) \<Rightarrow> if fst k = stream m then kUnknownFunction else kUnknownStream
           | None \<Rightarrow> kUnknownStream))"

definition factory_name :: "factory \<Rightarrow> byte \<Rightarrow> byte \<Rightarrow> string" where
  "factory_name fac s f =
     (case omap_find fac (s, f) of None \<Rightarrow> [] | Some e \<Rightarrow> ent_name e)"

lemma omap_inv_register [simp]: "omap_inv fac \<Longrightarrow> omap_inv (register_message s f n c fac)"
  by (simp add: register_message_def omap.inv_put)

lemma omap_inv_empty_factory [simp]: "omap_inv empty_factory"
  by (simp add: empty_factory_def)

lemma find_register:
  "omap_inv fac \<Longrightarrow> omap_find (register_message s f n c fac) k =
     (if k = (s, f) then Some \<lparr>ent_name = n, ent_check = c\<rparr> else omap_find fac k)"
  by (simp add: register_message_def omap.lookup_put)

lemma keys_register [simp]:
  "omap_keys (register_message s f n c fac) = insert (s, f) (omap_keys fac)"
  by (simp add: register_message_def)

lemma lower_bound_stream:
  fixes fac :: factory
  assumes "omap_inv fac"
  shows "(\<exists>k e. omap_lower_bound fac (s, 0) = Some (k, e) \<and> fst k = s) \<longleftrightarrow>
    (\<exists>f. (s, f) \<in> omap_keys fac)"
proof
  assume "\<exists>k e. omap_lower_bound fac (s, 0) = Some (k, e) \<and> fst k = s"
  then obtain f e where "omap_lower_bound fac (s, 0) = Some ((s, f), e)" by auto
  then have "((s, f), e) \<in> set fac" using omap_lower_bound_Some [OF assms] by blast
  then show "\<exists>f. (s, f) \<in> omap_keys fac" by force
next
  assume "\<exists>f. (s, f) \<in> omap_keys fac"
  then obtain f e where e: "((s, f), e) \<in> set fac" by auto
  have "(0 :: byte) \<le> f" by (rule word_zero_le)
  then have ge: "(s, 0) \<le> (s, f)" by (simp add: less_eq_prod_def)
  have "\<not> (\<forall>e \<in> set fac. fst e < (s, 0))"
    using e ge leD by fastforce
  then have "omap_lower_bound fac (s, 0) \<noteq> None" by (simp only: omap_lower_bound_None not_False_eq_True)
  then obtain k x where lb: "omap_lower_bound fac (s, 0) = Some (k, x)" by auto
  have "(s, 0) \<le> k \<and> k \<le> (s, f)"
    using omap_lower_bound_Some [OF assms lb] e ge by fastforce
  then have "fst k = s" by (auto simp: less_eq_prod_def)
  then show "\<exists>k e. omap_lower_bound fac (s, 0) = Some (k, e) \<and> fst k = s" using lb by blast
qed

lemma factory_check_unknown:
  assumes "omap_inv fac" "omap_find fac (stream m, func m) = None"
  shows "factory_check fac m =
    (if \<exists>f. (stream m, f) \<in> omap_keys fac then kUnknownFunction else kUnknownStream)"
  using assms(2) lower_bound_stream [OF assms(1), of "stream m"]
  by (auto simp: factory_check_def split: option.splits)

lemma factory_check_verdict_parts:
  assumes "omap_inv fac"
  shows "factory_check fac m = kOk \<longleftrightarrow>
      (\<exists>e. omap_find fac (stream m, func m) = Some e \<and>
        (\<forall>chk. ent_check e = Some chk \<longrightarrow> chk (body m)))"
    and "factory_check fac m = kIllegalData \<longleftrightarrow>
      (\<exists>e chk. omap_find fac (stream m, func m) = Some e \<and> ent_check e = Some chk \<and>
        \<not> chk (body m))"
    and "factory_check fac m = kUnknownFunction \<longleftrightarrow>
      (stream m, func m) \<notin> omap_keys fac \<and> (\<exists>f. (stream m, f) \<in> omap_keys fac)"
    and "factory_check fac m = kUnknownStream \<longleftrightarrow> (\<forall>f. (stream m, f) \<notin> omap_keys fac)"
proof -
  show "factory_check fac m = kOk \<longleftrightarrow>
      (\<exists>e. omap_find fac (stream m, func m) = Some e \<and>
        (\<forall>chk. ent_check e = Some chk \<longrightarrow> chk (body m)))"
    by (auto simp: factory_check_def split: option.splits)
  show "factory_check fac m = kIllegalData \<longleftrightarrow>
      (\<exists>e chk. omap_find fac (stream m, func m) = Some e \<and> ent_check e = Some chk \<and>
        \<not> chk (body m))"
    by (auto simp: factory_check_def split: option.splits)
  show "factory_check fac m = kUnknownFunction \<longleftrightarrow>
      (stream m, func m) \<notin> omap_keys fac \<and> (\<exists>f. (stream m, f) \<in> omap_keys fac)"
  proof (cases "omap_find fac (stream m, func m)")
    case None
    then show ?thesis using factory_check_unknown [OF assms None] by (auto simp: omap_find_None_iff)
  next
    case (Some e)
    then have "(stream m, func m) \<in> omap_keys fac" using omap_find_None_iff by (metis option.distinct(1))
    with Some show ?thesis by (auto simp: factory_check_def split: option.splits)
  qed
  show "factory_check fac m = kUnknownStream \<longleftrightarrow> (\<forall>f. (stream m, f) \<notin> omap_keys fac)"
  proof (cases "omap_find fac (stream m, func m)")
    case None
    then show ?thesis using factory_check_unknown [OF assms None] by auto
  next
    case (Some e)
    then have "(stream m, func m) \<in> omap_keys fac" using omap_find_None_iff by (metis option.distinct(1))
    with Some show ?thesis by (auto simp: factory_check_def split: option.splits)
  qed
qed

text \<open>
  The factory's verdict is the one the three S9 answers need: accepted exactly for a
  registered pair whose layout check passes, illegal data exactly when that check fails, unknown
  function exactly when only other functions of the stream are registered, and unknown stream
  exactly when nothing of the stream is.
\<close>

theorem factory_check_verdict:
  assumes "omap_inv fac"
  shows "(factory_check fac m = kOk \<longleftrightarrow>
      (\<exists>e. omap_find fac (stream m, func m) = Some e \<and>
        (\<forall>chk. ent_check e = Some chk \<longrightarrow> chk (body m)))) \<and>
    (factory_check fac m = kIllegalData \<longleftrightarrow>
      (\<exists>e chk. omap_find fac (stream m, func m) = Some e \<and> ent_check e = Some chk \<and>
        \<not> chk (body m))) \<and>
    (factory_check fac m = kUnknownFunction \<longleftrightarrow>
      (stream m, func m) \<notin> omap_keys fac \<and> (\<exists>f. (stream m, f) \<in> omap_keys fac)) \<and>
    (factory_check fac m = kUnknownStream \<longleftrightarrow> (\<forall>f. (stream m, f) \<notin> omap_keys fac))"
  by (rule conjI [OF _ conjI [OF _ conjI]]; (intro impI)?; rule factory_check_verdict_parts [OF assms]; assumption?)

theorem factory_check_verdict_witness:
  "let fac = register_message 1 3 ''S1F3'' None empty_factory;
       m = \<lparr>stream = 1, func = 5, w_bit = True, body = None\<rparr>
   in omap_inv fac \<and> factory_check fac m = kUnknownFunction"
proof -
  let ?fac = "register_message 1 3 ''S1F3'' None empty_factory"
  let ?m = "\<lparr>stream = 1, func = 5, w_bit = True, body = None\<rparr>"
  have i: "omap_inv ?fac" by simp
  have "factory_check ?fac ?m = kUnknownFunction"
    using factory_check_verdict [OF i, of ?m] by (auto simp: empty_factory_def)
  with i show ?thesis by simp
qed

end
