(* ===== verification/Gem_Messages.thy ===== *)
theory Gem_Messages
  imports Secs2_Factory
begin

text \<open>
  The typed messages of the GEM subset, \<^verbatim>\<open>src/secsgem/gem/messages.cpp\<close>: builders, parsers, and
  the two catalogues that tell a message factory what each side understands.
\<close>

definition kErrIllegalData :: int where "kErrIllegalData = 500"

record identity =
  model :: string
  softrev :: string

record command_param =
  cp_name :: string
  cp_value :: item

record remote_command =
  rcmd :: string
  rc_params :: "command_param list"

record param_ack =
  pa_name :: string
  cpack :: byte

record command_ack =
  hcack :: byte
  ca_params :: "param_ack list"

record report =
  rptid :: u32
  rpt_values :: "item list"

record event_report =
  dataid :: u32
  ceid :: u32
  reports :: "report list"

record alarm_report =
  alcd :: byte
  ar_alid :: u32
  altx :: string

section \<open>Items\<close>

definition illegal :: "string \<Rightarrow> 'a result" where
  "illegal what = Err kErrIllegalData what"

definition make_message :: "byte \<Rightarrow> byte \<Rightarrow> bool \<Rightarrow> item option \<Rightarrow> secs_message" where
  "make_message s f w b = \<lparr>stream = s, func = f, w_bit = w, body = b\<rparr>"

definition identity_item :: "identity \<Rightarrow> item" where
  "identity_item i = LIST [ASCII (model i), ASCII (softrev i)]"

text \<open>
  The accessors \<^verbatim>\<open>as_list\<close>, \<^verbatim>\<open>as_ascii\<close> and the first element of \<^verbatim>\<open>as_array<uint8_t>\<close>. In C++
  the wrong accessor throws; every use below is behind the matching format test.
\<close>

fun as_list :: "item \<Rightarrow> item list" where
  "as_list (LIST xs) = xs"
| "as_list _ = []"

fun as_ascii :: "item \<Rightarrow> string" where
  "as_ascii (ASCII s) = s"
| "as_ascii _ = []"

fun first_byte :: "item \<Rightarrow> byte" where
  "first_byte (BINARY (b # _)) = b"
| "first_byte _ = 0"

definition is_list_n :: "item \<Rightarrow> nat \<Rightarrow> bool" where
  "is_list_n i n \<longleftrightarrow> is_list i \<and> item_count i = n"

definition is_ascii :: "item \<Rightarrow> bool" where
  "is_ascii i \<longleftrightarrow> item_format i = kAscii"

definition is_byte :: "item \<Rightarrow> bool" where
  "is_byte i \<longleftrightarrow> item_format i = kBinary \<and> item_count i = 1"

text \<open>The signed branches of \<^verbatim>\<open>collect_uints\<close>: a negative element refuses the item.\<close>

definition collect_signed :: "'a::len word list \<Rightarrow> u64 list option" where
  "collect_signed vs = (if \<exists>v \<in> set vs. sint v < 0 then None else Some (map ucast vs))"

fun collect_uints :: "item \<Rightarrow> u64 list option" where
  "collect_uints (U1 vs) = Some (map ucast vs)"
| "collect_uints (U2 vs) = Some (map ucast vs)"
| "collect_uints (U4 vs) = Some (map ucast vs)"
| "collect_uints (U8 vs) = Some vs"
| "collect_uints (I1 vs) = collect_signed vs"
| "collect_uints (I2 vs) = collect_signed vs"
| "collect_uints (I4 vs) = collect_signed vs"
| "collect_uints (I8 vs) = collect_signed vs"
| "collect_uints _ = None"

definition one_u32 :: "item \<Rightarrow> u32 option" where
  "one_u32 i =
     (case collect_uints i of
        Some [v] \<Rightarrow> if v > 0xFFFFFFFF then None else Some (ucast v)
      | _ \<Rightarrow> None)"

section \<open>Body parsers\<close>

fun parse_params :: "item list \<Rightarrow> command_param list result" where
  "parse_params [] = Ok []"
| "parse_params (pair # rest) =
     (if \<not> is_list_n pair 2 \<or> \<not> is_ascii (as_list pair ! 0)
      then illegal ''each parameter must be L2{CPNAME A, CPVAL}''
      else map_sum id (\<lambda>ps. \<lparr>cp_name = as_ascii (as_list pair ! 0), cp_value = as_list pair ! 1\<rparr> # ps)
             (parse_params rest))"

definition parse_command_body :: "item option \<Rightarrow> remote_command result" where
  "parse_command_body b =
     (case b of
        None \<Rightarrow> illegal ''S2F41 must be L2''
      | Some i \<Rightarrow>
          if \<not> is_list_n i 2 then illegal ''S2F41 must be L2''
          else let top = as_list i
               in if \<not> is_ascii (top ! 0) then illegal ''RCMD must be ASCII''
                  else if \<not> is_list (top ! 1) then illegal ''S2F41 parameters must be a list''
                  else map_sum id (\<lambda>ps. \<lparr>rcmd = as_ascii (top ! 0), rc_params = ps\<rparr>)
                         (parse_params (as_list (top ! 1))))"

fun parse_svid_values :: "u64 list \<Rightarrow> u32 list result" where
  "parse_svid_values [] = Ok []"
| "parse_svid_values (x # xs) =
     (if x > 0xFFFFFFFF then illegal ''SVID out of range''
      else map_sum id (\<lambda>ys. ucast x # ys) (parse_svid_values xs))"

fun parse_svids :: "item list \<Rightarrow> u32 list result" where
  "parse_svids [] = Ok []"
| "parse_svids (i # is) =
     (case collect_uints i of
        None \<Rightarrow> illegal ''SVID must be an integer''
      | Some v \<Rightarrow>
          (case parse_svid_values v of
             Inl e \<Rightarrow> Inl e
           | Inr xs \<Rightarrow> map_sum id (\<lambda>ys. xs @ ys) (parse_svids is)))"

definition parse_svid_body :: "item option \<Rightarrow> u32 list result" where
  "parse_svid_body b =
     (case b of
        None \<Rightarrow> illegal ''S1F3 must be a list of SVIDs''
      | Some i \<Rightarrow>
          if \<not> is_list i then illegal ''S1F3 must be a list of SVIDs'' else parse_svids (as_list i))"

fun parse_reports :: "item list \<Rightarrow> report list result" where
  "parse_reports [] = Ok []"
| "parse_reports (rpt # rest) =
     (if \<not> is_list_n rpt 2 then illegal ''each report must be L2{RPTID, values}''
      else case one_u32 (as_list rpt ! 0) of
             None \<Rightarrow> illegal ''bad report''
           | Some r \<Rightarrow>
               if \<not> is_list (as_list rpt ! 1) then illegal ''bad report''
               else map_sum id (\<lambda>rs. \<lparr>rptid = r, rpt_values = as_list (as_list rpt ! 1)\<rparr> # rs)
                      (parse_reports rest))"

definition parse_event_body :: "item option \<Rightarrow> event_report result" where
  "parse_event_body b =
     (case b of
        None \<Rightarrow> illegal ''S6F11 must be L3''
      | Some i \<Rightarrow>
          if \<not> is_list_n i 3 then illegal ''S6F11 must be L3''
          else let top = as_list i
               in case (one_u32 (top ! 0), one_u32 (top ! 1)) of
                    (Some d, Some c) \<Rightarrow>
                      if \<not> is_list (top ! 2) then illegal ''S6F11 reports must be a list''
                      else map_sum id (\<lambda>rs. \<lparr>dataid = d, ceid = c, reports = rs\<rparr>)
                             (parse_reports (as_list (top ! 2)))
                  | _ \<Rightarrow> illegal ''DATAID and CEID must be integers'')"

definition parse_alarm_body :: "item option \<Rightarrow> alarm_report result" where
  "parse_alarm_body b =
     (case b of
        None \<Rightarrow> illegal ''S5F1 must be L3''
      | Some i \<Rightarrow>
          if \<not> is_list_n i 3 then illegal ''S5F1 must be L3''
          else let top = as_list i
               in case one_u32 (top ! 1) of
                    None \<Rightarrow> illegal ''S5F1 must be L3{ALCD B, ALID U4, ALTX A}''
                  | Some a \<Rightarrow>
                      if \<not> is_byte (top ! 0) \<or> \<not> is_ascii (top ! 2)
                      then illegal ''S5F1 must be L3{ALCD B, ALID U4, ALTX A}''
                      else Ok \<lparr>alcd = first_byte (top ! 0), ar_alid = a, altx = as_ascii (top ! 2)\<rparr>)"

fun parse_acks :: "item list \<Rightarrow> param_ack list result" where
  "parse_acks [] = Ok []"
| "parse_acks (pair # rest) =
     (if \<not> is_list_n pair 2 \<or> \<not> is_ascii (as_list pair ! 0) \<or> \<not> is_byte (as_list pair ! 1)
      then illegal ''each entry must be L2{CPNAME A, CPACK B}''
      else map_sum id (\<lambda>ps. \<lparr>pa_name = as_ascii (as_list pair ! 0),
                             cpack = first_byte (as_list pair ! 1)\<rparr> # ps)
             (parse_acks rest))"

definition parse_command_ack_body :: "item option \<Rightarrow> command_ack result" where
  "parse_command_ack_body b =
     (case b of
        None \<Rightarrow> illegal ''S2F42 must be L2{HCACK B, list}''
      | Some i \<Rightarrow>
          if \<not> is_list_n i 2 \<or> \<not> is_byte (as_list i ! 0) \<or> \<not> is_list (as_list i ! 1)
          then illegal ''S2F42 must be L2{HCACK B, list}''
          else map_sum id (\<lambda>ps. \<lparr>hcack = first_byte (as_list i ! 0), ca_params = ps\<rparr>)
                 (parse_acks (as_list (as_list i ! 1))))"

definition parse_ack_body :: "item option \<Rightarrow> byte result" where
  "parse_ack_body b =
     (case b of
        None \<Rightarrow> illegal ''acknowledge must be one binary byte''
      | Some i \<Rightarrow>
          if \<not> is_byte i then illegal ''acknowledge must be one binary byte'' else Ok (first_byte i))"

definition no_body :: "item option \<Rightarrow> bool" where
  "no_body b \<longleftrightarrow> b = None"

definition identity_ok :: "item \<Rightarrow> bool" where
  "identity_ok i \<longleftrightarrow> is_list_n i 2 \<and> is_ascii (as_list i ! 0) \<and> is_ascii (as_list i ! 1)"

definition comm_request_ok :: "item option \<Rightarrow> bool" where
  "comm_request_ok b =
     (case b of
        None \<Rightarrow> True
      | Some i \<Rightarrow>
          is_list_n i 0 \<or> (is_list_n i 2 \<and> is_ascii (as_list i ! 0) \<and> is_ascii (as_list i ! 1)))"

definition s1f14_ok :: "item option \<Rightarrow> bool" where
  "s1f14_ok b =
     (case b of
        None \<Rightarrow> False
      | Some i \<Rightarrow>
          is_list_n i 2 \<and> is_byte (as_list i ! 0) \<and>
          (is_list_n (as_list i ! 1) 0 \<or> identity_ok (as_list i ! 1)))"

definition s9_ok :: "item option \<Rightarrow> bool" where
  "s9_ok b = (case b of None \<Rightarrow> False | Some i \<Rightarrow> item_format i = kBinary \<and> item_count i = 10)"

section \<open>Builders\<close>

definition make_s1f1 :: secs_message where
  "make_s1f1 = make_message 1 1 True None"

definition make_s1f2 :: "identity \<Rightarrow> secs_message" where
  "make_s1f2 i = make_message 1 2 False (Some (identity_item i))"

definition make_s1f13 :: secs_message where
  "make_s1f13 = make_message 1 13 True (Some (LIST []))"

definition make_s1f14 :: "byte \<Rightarrow> identity \<Rightarrow> secs_message" where
  "make_s1f14 commack i = make_message 1 14 False (Some (LIST [BINARY [commack], identity_item i]))"

definition make_s1f3 :: "u32 list \<Rightarrow> secs_message" where
  "make_s1f3 svids = make_message 1 3 True (Some (LIST (map (\<lambda>v. U4 [v]) svids)))"

definition make_s1f4 :: "item list \<Rightarrow> secs_message" where
  "make_s1f4 vs = make_message 1 4 False (Some (LIST vs))"

definition make_s1f15 :: secs_message where
  "make_s1f15 = make_message 1 15 True None"

definition make_s1f16 :: "byte \<Rightarrow> secs_message" where
  "make_s1f16 oflack = make_message 1 16 False (Some (BINARY [oflack]))"

definition make_s1f17 :: secs_message where
  "make_s1f17 = make_message 1 17 True None"

definition make_s1f18 :: "byte \<Rightarrow> secs_message" where
  "make_s1f18 onlack = make_message 1 18 False (Some (BINARY [onlack]))"

definition make_s2f41 :: "remote_command \<Rightarrow> secs_message" where
  "make_s2f41 c =
     make_message 2 41 True (Some (LIST [ASCII (rcmd c),
       LIST (map (\<lambda>p. LIST [ASCII (cp_name p), cp_value p]) (rc_params c))]))"

definition make_s2f42 :: "byte \<Rightarrow> param_ack list \<Rightarrow> secs_message" where
  "make_s2f42 hc ps =
     make_message 2 42 False (Some (LIST [BINARY [hc],
       LIST (map (\<lambda>p. LIST [ASCII (pa_name p), BINARY [cpack p]]) ps)]))"

definition make_s5f1 :: "alarm_report \<Rightarrow> secs_message" where
  "make_s5f1 a = make_message 5 1 True (Some (LIST [BINARY [alcd a], U4 [ar_alid a], ASCII (altx a)]))"

definition make_s5f2 :: "byte \<Rightarrow> secs_message" where
  "make_s5f2 ackc5 = make_message 5 2 False (Some (BINARY [ackc5]))"

definition make_s6f11 :: "event_report \<Rightarrow> secs_message" where
  "make_s6f11 e =
     make_message 6 11 True (Some (LIST [U4 [dataid e], U4 [ceid e],
       LIST (map (\<lambda>r. LIST [U4 [rptid r], LIST (rpt_values r)]) (reports e))]))"

definition make_s6f12 :: "byte \<Rightarrow> secs_message" where
  "make_s6f12 ackc6 = make_message 6 12 False (Some (BINARY [ackc6]))"

definition make_s9 :: "byte \<Rightarrow> byte list \<Rightarrow> secs_message" where
  "make_s9 f hb = make_message 9 f False (Some (BINARY hb))"

section \<open>Parsers of messages and catalogues\<close>

definition parse_s2f41 where "parse_s2f41 m = parse_command_body (body m)"
definition parse_s2f42 where "parse_s2f42 m = parse_command_ack_body (body m)"
definition parse_s1f3 where "parse_s1f3 m = parse_svid_body (body m)"
definition parse_s6f11 where "parse_s6f11 m = parse_event_body (body m)"
definition parse_s5f1 where "parse_s5f1 m = parse_alarm_body (body m)"
definition parse_ack where "parse_ack m = parse_ack_body (body m)"

definition register_equipment_catalogue :: "factory \<Rightarrow> factory" where
  "register_equipment_catalogue f =
     (let f = register_message 1 1 ''S1F1'' (Some no_body) f;
          f = register_message 1 3 ''S1F3'' (Some (\<lambda>b. has_value (parse_svid_body b))) f;
          f = register_message 1 13 ''S1F13'' (Some comm_request_ok) f;
          f = register_message 1 15 ''S1F15'' (Some no_body) f;
          f = register_message 1 17 ''S1F17'' (Some no_body) f;
          f = register_message 2 41 ''S2F41'' (Some (\<lambda>b. has_value (parse_command_body b))) f;
          f = register_message 5 2 ''S5F2'' (Some (\<lambda>b. has_value (parse_ack_body b))) f
      in register_message 6 12 ''S6F12'' (Some (\<lambda>b. has_value (parse_ack_body b))) f)"

text \<open>The loop over the S9 functions, with the decimal names it builds.\<close>

definition s9_functions :: "(byte \<times> string) list" where
  "s9_functions =
     [(1, ''S9F1''), (3, ''S9F3''), (5, ''S9F5''), (7, ''S9F7''), (9, ''S9F9''), (11, ''S9F11'')]"

definition register_host_catalogue :: "factory \<Rightarrow> factory" where
  "register_host_catalogue f =
     (let f = register_message 1 2 ''S1F2'' (Some (\<lambda>b. case b of None \<Rightarrow> False | Some i \<Rightarrow> identity_ok i)) f;
          f = register_message 1 4 ''S1F4'' (Some (\<lambda>b. case b of None \<Rightarrow> False | Some i \<Rightarrow> is_list i)) f;
          f = register_message 1 14 ''S1F14'' (Some s1f14_ok) f;
          f = register_message 1 16 ''S1F16'' (Some (\<lambda>b. has_value (parse_ack_body b))) f;
          f = register_message 1 18 ''S1F18'' (Some (\<lambda>b. has_value (parse_ack_body b))) f;
          f = register_message 2 42 ''S2F42'' (Some (\<lambda>b. has_value (parse_command_ack_body b))) f;
          f = register_message 5 1 ''S5F1'' (Some (\<lambda>b. has_value (parse_alarm_body b))) f;
          f = register_message 6 11 ''S6F11'' (Some (\<lambda>b. has_value (parse_event_body b))) f
      in fold (\<lambda>(fn, name). register_message 9 fn name (Some s9_ok)) s9_functions f)"

section \<open>Parsing what was built\<close>

lemma item_tests [simp]:
  "is_list_n (LIST xs) n \<longleftrightarrow> length xs = n" "is_list (LIST xs)" "is_ascii (ASCII s)"
  "is_byte (BINARY bs) \<longleftrightarrow> length bs = 1"
  by (simp_all add: is_list_n_def is_list_def is_ascii_def is_byte_def)

lemma u32_in_u64: "\<not> ((ucast (v :: u32) :: u64) > 0xFFFFFFFF)" "ucast (ucast (v :: u32) :: u64) = v"
proof -
  have v: "unat v < 2 ^ 32" using unsigned_less [of v, where 'a = nat] by simp
  then have "unat (ucast v :: u64) = unat v" by (simp add: unsigned_ucast_eq take_bit_nat_eq_self)
  with v show "\<not> ((ucast v :: u64) > 0xFFFFFFFF)"
    by (simp add: word_less_nat_alt)
  show "ucast (ucast v :: u64) = v" by (rule bit_word_eqI) (simp add: bit_simps)
qed

lemma one_u32_U4 [simp]: "one_u32 (U4 [v]) = Some v"
  using u32_in_u64 [of v] by (simp add: one_u32_def)

lemma parse_params_built [simp]:
  "parse_params (map (\<lambda>p. LIST [ASCII (cp_name p), cp_value p]) ps) = Ok ps"
  by (induction ps) simp_all

lemma parse_acks_built [simp]:
  "parse_acks (map (\<lambda>p. LIST [ASCII (pa_name p), BINARY [cpack p]]) ps) = Ok ps"
  by (induction ps) simp_all

lemma parse_reports_built [simp]:
  "parse_reports (map (\<lambda>r. LIST [U4 [rptid r], LIST (rpt_values r)]) rs) = Ok rs"
  by (induction rs) simp_all

lemma parse_svids_built [simp]: "parse_svids (map (\<lambda>v. U4 [v]) vs) = Ok vs"
  using u32_in_u64 by (induction vs) simp_all

lemmas builder_defs = make_message_def make_s1f1_def make_s1f2_def make_s1f3_def make_s1f4_def
  make_s1f13_def make_s1f14_def make_s1f15_def make_s1f16_def make_s1f17_def make_s1f18_def
  make_s2f41_def make_s2f42_def make_s5f1_def make_s5f2_def make_s6f11_def make_s6f12_def make_s9_def

lemmas body_parser_defs = parse_command_body_def parse_command_ack_body_def parse_svid_body_def
  parse_event_body_def parse_alarm_body_def parse_ack_body_def

lemmas parser_defs = parse_s2f41_def parse_s2f42_def parse_s1f3_def parse_s6f11_def parse_s5f1_def
  parse_ack_def

text \<open>
  C17. Each parser inverts its builder: commands, command acknowledgements, status requests,
  event reports, alarm reports and single-byte acknowledgements come back exactly as they went
  in.
\<close>

theorem gem_messages_roundtrip:
  "parse_s2f41 (make_s2f41 c) = Ok c \<and>
   parse_s2f42 (make_s2f42 hc ps) = Ok \<lparr>hcack = hc, ca_params = ps\<rparr> \<and>
   parse_s1f3 (make_s1f3 svids) = Ok svids \<and>
   parse_s6f11 (make_s6f11 e) = Ok e \<and>
   parse_s5f1 (make_s5f1 a) = Ok a \<and>
   parse_ack (make_s1f16 b) = Ok b \<and> parse_ack (make_s1f18 b) = Ok b \<and>
   parse_ack (make_s5f2 b) = Ok b \<and> parse_ack (make_s6f12 b) = Ok b"
  by (simp add: builder_defs parser_defs body_parser_defs)

section \<open>The catalogues\<close>

definition equipment_factory :: factory where
  "equipment_factory = register_equipment_catalogue empty_factory"

definition host_factory :: factory where
  "host_factory = register_host_catalogue empty_factory"

text \<open>What the host may send and what the equipment may send.\<close>

definition host_messages :: "secs_message set" where
  "host_messages =
     {make_s1f1, make_s1f13, make_s1f15, make_s1f17} \<union> range make_s1f3 \<union> range make_s2f41 \<union>
     range make_s5f2 \<union> range make_s6f12"

definition equipment_messages :: "secs_message set" where
  "equipment_messages =
     range make_s1f2 \<union> range make_s1f4 \<union> {make_s1f14 c i | c i. True} \<union> range make_s1f16 \<union>
     range make_s1f18 \<union> {make_s2f42 h ps | h ps. True} \<union> range make_s5f1 \<union> range make_s6f11 \<union>
     {make_s9 f hb | f hb. f \<in> {1, 3, 5, 7, 9, 11} \<and> length hb = 10}"

lemma equipment_factory_inv: "omap_inv equipment_factory"
  by (simp add: equipment_factory_def register_equipment_catalogue_def Let_def)

lemma host_factory_inv: "omap_inv host_factory"
  by (simp add: host_factory_def register_host_catalogue_def Let_def s9_functions_def)

lemmas catalogue_defs = equipment_factory_def host_factory_def register_equipment_catalogue_def
  register_host_catalogue_def s9_functions_def

lemma equipment_find:
  "omap_find equipment_factory (1, 1) = Some \<lparr>ent_name = ''S1F1'', ent_check = Some no_body\<rparr>"
  "omap_find equipment_factory (1, 3) = Some \<lparr>ent_name = ''S1F3'', ent_check = Some (\<lambda>b. has_value (parse_svid_body b))\<rparr>"
  "omap_find equipment_factory (1, 13) = Some \<lparr>ent_name = ''S1F13'', ent_check = Some comm_request_ok\<rparr>"
  "omap_find equipment_factory (1, 15) = Some \<lparr>ent_name = ''S1F15'', ent_check = Some no_body\<rparr>"
  "omap_find equipment_factory (1, 17) = Some \<lparr>ent_name = ''S1F17'', ent_check = Some no_body\<rparr>"
  "omap_find equipment_factory (2, 41) = Some \<lparr>ent_name = ''S2F41'', ent_check = Some (\<lambda>b. has_value (parse_command_body b))\<rparr>"
  "omap_find equipment_factory (5, 2) = Some \<lparr>ent_name = ''S5F2'', ent_check = Some (\<lambda>b. has_value (parse_ack_body b))\<rparr>"
  "omap_find equipment_factory (6, 12) = Some \<lparr>ent_name = ''S6F12'', ent_check = Some (\<lambda>b. has_value (parse_ack_body b))\<rparr>"
  unfolding equipment_factory_def register_equipment_catalogue_def Let_def
  by (simp_all add: find_register)

lemma host_find:
  "omap_find host_factory (1, 2) =
     Some \<lparr>ent_name = ''S1F2'', ent_check = Some (\<lambda>b. case b of None \<Rightarrow> False | Some i \<Rightarrow> identity_ok i)\<rparr>"
  "omap_find host_factory (1, 4) =
     Some \<lparr>ent_name = ''S1F4'', ent_check = Some (\<lambda>b. case b of None \<Rightarrow> False | Some i \<Rightarrow> is_list i)\<rparr>"
  "omap_find host_factory (1, 14) = Some \<lparr>ent_name = ''S1F14'', ent_check = Some s1f14_ok\<rparr>"
  "omap_find host_factory (1, 16) = Some \<lparr>ent_name = ''S1F16'', ent_check = Some (\<lambda>b. has_value (parse_ack_body b))\<rparr>"
  "omap_find host_factory (1, 18) = Some \<lparr>ent_name = ''S1F18'', ent_check = Some (\<lambda>b. has_value (parse_ack_body b))\<rparr>"
  "omap_find host_factory (2, 42) = Some \<lparr>ent_name = ''S2F42'', ent_check = Some (\<lambda>b. has_value (parse_command_ack_body b))\<rparr>"
  "omap_find host_factory (5, 1) = Some \<lparr>ent_name = ''S5F1'', ent_check = Some (\<lambda>b. has_value (parse_alarm_body b))\<rparr>"
  "omap_find host_factory (6, 11) = Some \<lparr>ent_name = ''S6F11'', ent_check = Some (\<lambda>b. has_value (parse_event_body b))\<rparr>"
  "omap_find host_factory (9, 1) = Some \<lparr>ent_name = ''S9F1'', ent_check = Some s9_ok\<rparr>"
  "omap_find host_factory (9, 3) = Some \<lparr>ent_name = ''S9F3'', ent_check = Some s9_ok\<rparr>"
  "omap_find host_factory (9, 5) = Some \<lparr>ent_name = ''S9F5'', ent_check = Some s9_ok\<rparr>"
  "omap_find host_factory (9, 7) = Some \<lparr>ent_name = ''S9F7'', ent_check = Some s9_ok\<rparr>"
  "omap_find host_factory (9, 9) = Some \<lparr>ent_name = ''S9F9'', ent_check = Some s9_ok\<rparr>"
  "omap_find host_factory (9, 11) = Some \<lparr>ent_name = ''S9F11'', ent_check = Some s9_ok\<rparr>"
  unfolding host_factory_def register_host_catalogue_def Let_def s9_functions_def
  by (simp_all add: find_register)

text \<open>
  The two ends agree: every message a host builds is accepted by the equipment's
  catalogue, and every message the equipment builds, the S9 errors included, is accepted by the
  host's.
\<close>

theorem catalogues_agree:
  "(\<forall>m \<in> host_messages. factory_check equipment_factory m = kOk) \<and>
   (\<forall>m \<in> equipment_messages. factory_check host_factory m = kOk)"
proof (intro conjI ballI)
  fix m assume "m \<in> host_messages"
  then show "factory_check equipment_factory m = kOk"
    unfolding host_messages_def
    by (elim UnE insertE rangeE emptyE)
      (simp_all add: factory_check_def equipment_find builder_defs body_parser_defs no_body_def
        comm_request_ok_def)
next
  fix m assume "m \<in> equipment_messages"
  then show "factory_check host_factory m = kOk"
    unfolding equipment_messages_def
    by (elim UnE rangeE CollectE exE conjE)
      (auto simp: factory_check_def host_find builder_defs body_parser_defs identity_ok_def
        identity_item_def s1f14_ok_def s9_ok_def)
qed

theorem catalogues_agree_witness:
  "factory_check equipment_factory (make_s1f3 [4001, 4002]) = kOk \<and>
   factory_check host_factory (make_s9 5 (replicate 10 0)) = kOk"
proof -
  have "make_s1f3 [4001, 4002] \<in> host_messages" by (auto simp: host_messages_def)
  moreover have "make_s9 5 (replicate 10 0) \<in> equipment_messages"
    unfolding equipment_messages_def by (intro UnI2) (auto intro!: exI [of _ 5] exI [of _ "replicate 10 0"])
  ultimately show ?thesis using catalogues_agree by blast
qed

end
