(* ===== verification/Gem_Identifiers.thy ===== *)
theory Gem_Identifiers
  imports Prelude
begin

text \<open>
  The project's GEM identifiers and acknowledge codes, \<^verbatim>\<open>secsgem/gem/identifiers.hpp\<close>, and the
  lookups over them, \<^verbatim>\<open>identifiers.cpp\<close>.
\<close>

definition kCeidControlStateChanged :: u32 where "kCeidControlStateChanged = 2001"
definition kCeidProcessStateChanged :: u32 where "kCeidProcessStateChanged = 2002"
definition kCeidCassetteLoaded :: u32 where "kCeidCassetteLoaded = 2003"
definition kCeidWaferScanStarted :: u32 where "kCeidWaferScanStarted = 2004"
definition kCeidWaferScanComplete :: u32 where "kCeidWaferScanComplete = 2005"
definition kCeidWaferOutOfSpec :: u32 where "kCeidWaferOutOfSpec = 2006"
definition kCeidCassetteComplete :: u32 where "kCeidCassetteComplete = 2007"
definition kCeidRunAborted :: u32 where "kCeidRunAborted = 2008"
definition kRptidWaferResult :: u32 where "kRptidWaferResult = 3001"
definition kRptidStates :: u32 where "kRptidStates = 3002"
definition kRptidScanStarted :: u32 where "kRptidScanStarted = 3003"
definition kAlidInternalError :: u32 where "kAlidInternalError = 1008"
definition kSvidControlState :: u32 where "kSvidControlState = 4001"
definition kSvidProcessState :: u32 where "kSvidProcessState = 4002"
definition kSvidCurrentWaferId :: u32 where "kSvidCurrentWaferId = 4003"
definition kSvidCurrentSlot :: u32 where "kSvidCurrentSlot = 4004"
definition kSvidScanProgressPercent :: u32 where "kSvidScanProgressPercent = 4005"
definition kSvidLastStressMpa :: u32 where "kSvidLastStressMpa = 4006"
definition kSvidLastCurvature :: u32 where "kSvidLastCurvature = 4007"
definition kSvidLastFitRmsUm :: u32 where "kSvidLastFitRmsUm = 4008"
definition kSvidActiveAlarmCount :: u32 where "kSvidActiveAlarmCount = 4009"
definition kSvidSoftwareRevision :: u32 where "kSvidSoftwareRevision = 4010"
definition kSvidUptimeSeconds :: u32 where "kSvidUptimeSeconds = 4011"
definition kSvidWafersProcessed :: u32 where "kSvidWafersProcessed = 4012"
definition kEcidEdgeExclusionMm :: u32 where "kEcidEdgeExclusionMm = 5001"
definition kEcidNumScanLines :: u32 where "kEcidNumScanLines = 5002"
definition kEcidStressSpecLowMpa :: u32 where "kEcidStressSpecLowMpa = 5003"
definition kEcidStressSpecHighMpa :: u32 where "kEcidStressSpecHighMpa = 5004"
definition kEcidFitRmsLimitUm :: u32 where "kEcidFitRmsLimitUm = 5005"
definition kEcidPointsPerMm :: u32 where "kEcidPointsPerMm = 5006"
definition kCommackAccepted :: byte where "kCommackAccepted = 0"
definition kCommackDenied :: byte where "kCommackDenied = 1"
definition kOflackOk :: byte where "kOflackOk = 0"
definition kOnlackAccepted :: byte where "kOnlackAccepted = 0"
definition kOnlackNotAllowed :: byte where "kOnlackNotAllowed = 1"
definition kOnlackAlreadyOnline :: byte where "kOnlackAlreadyOnline = 2"
definition kHcackDone :: byte where "kHcackDone = 0"
definition kHcackUnknownCommand :: byte where "kHcackUnknownCommand = 1"
definition kHcackCannotPerformNow :: byte where "kHcackCannotPerformNow = 2"
definition kHcackInvalidParameter :: byte where "kHcackInvalidParameter = 3"
definition kHcackAcceptedLater :: byte where "kHcackAcceptedLater = 4"
definition kCpackOk :: byte where "kCpackOk = 0"
definition kCpackUnknownName :: byte where "kCpackUnknownName = 1"
definition kCpackIllegalValue :: byte where "kCpackIllegalValue = 2"
definition kCpackIllegalFormat :: byte where "kCpackIllegalFormat = 3"
definition kAckAccepted :: byte where "kAckAccepted = 0"
definition kAlcdSetBit :: byte where "kAlcdSetBit = 0x80"
definition kAlarmCategory :: byte where "kAlarmCategory = 0x05"

lemmas ceid_defs = kCeidControlStateChanged_def kCeidProcessStateChanged_def kCeidCassetteLoaded_def kCeidWaferScanStarted_def kCeidWaferScanComplete_def kCeidWaferOutOfSpec_def kCeidCassetteComplete_def kCeidRunAborted_def

lemmas rptid_defs = kRptidWaferResult_def kRptidStates_def kRptidScanStarted_def

lemmas svid_defs = kSvidControlState_def
  kSvidProcessState_def
  kSvidCurrentWaferId_def
  kSvidCurrentSlot_def
  kSvidScanProgressPercent_def
  kSvidLastStressMpa_def
  kSvidLastCurvature_def
  kSvidLastFitRmsUm_def
  kSvidActiveAlarmCount_def
  kSvidSoftwareRevision_def
  kSvidUptimeSeconds_def
  kSvidWafersProcessed_def

lemmas ack_defs = kCommackAccepted_def
  kCommackDenied_def
  kOflackOk_def
  kOnlackAccepted_def
  kOnlackNotAllowed_def
  kOnlackAlreadyOnline_def
  kHcackDone_def
  kHcackUnknownCommand_def
  kHcackCannotPerformNow_def
  kHcackInvalidParameter_def
  kHcackAcceptedLater_def
  kCpackOk_def
  kCpackUnknownName_def
  kCpackIllegalValue_def
  kCpackIllegalFormat_def
  kAckAccepted_def

record sv_info =
  svid :: u32
  sv_name :: string

definition status_variables :: "sv_info list" where
  "status_variables =
     [\<lparr>svid = kSvidControlState, sv_name = ''ControlState''\<rparr>,
      \<lparr>svid = kSvidProcessState, sv_name = ''ProcessState''\<rparr>,
      \<lparr>svid = kSvidCurrentWaferId, sv_name = ''CurrentWaferId''\<rparr>,
      \<lparr>svid = kSvidCurrentSlot, sv_name = ''CurrentSlot''\<rparr>,
      \<lparr>svid = kSvidScanProgressPercent, sv_name = ''ScanProgressPercent''\<rparr>,
      \<lparr>svid = kSvidLastStressMpa, sv_name = ''LastStressMPa''\<rparr>,
      \<lparr>svid = kSvidLastCurvature, sv_name = ''LastCurvature''\<rparr>,
      \<lparr>svid = kSvidLastFitRmsUm, sv_name = ''LastFitRmsUm''\<rparr>,
      \<lparr>svid = kSvidActiveAlarmCount, sv_name = ''ActiveAlarmCount''\<rparr>,
      \<lparr>svid = kSvidSoftwareRevision, sv_name = ''SoftwareRevision''\<rparr>,
      \<lparr>svid = kSvidUptimeSeconds, sv_name = ''UptimeSeconds''\<rparr>,
      \<lparr>svid = kSvidWafersProcessed, sv_name = ''WafersProcessed''\<rparr>]"

definition report_fields :: "u32 \<Rightarrow> string list" where
  "report_fields rptid =
     (if rptid = kRptidWaferResult
      then [''WAFER_ID'', ''SLOT'', ''STRESS_MPA'', ''STRESS_UNC_MPA'', ''CURVATURE'', ''FIT_RMS_UM'',
            ''OUT_OF_SPEC'']
      else if rptid = kRptidStates then [''CONTROL_STATE'', ''PROCESS_STATE'']
      else if rptid = kRptidScanStarted then [''WAFER_ID'', ''SLOT'', ''NUM_LINES'']
      else [])"

definition ceid_name :: "u32 \<Rightarrow> string" where
  "ceid_name c =
     (if c = kCeidControlStateChanged then ''ControlStateChanged''
      else if c = kCeidProcessStateChanged then ''ProcessStateChanged''
      else if c = kCeidCassetteLoaded then ''CassetteLoaded''
      else if c = kCeidWaferScanStarted then ''WaferScanStarted''
      else if c = kCeidWaferScanComplete then ''WaferScanComplete''
      else if c = kCeidWaferOutOfSpec then ''WaferOutOfSpec''
      else if c = kCeidCassetteComplete then ''CassetteComplete''
      else if c = kCeidRunAborted then ''RunAborted''
      else [])"

definition report_for_event :: "u32 \<Rightarrow> u32" where
  "report_for_event c =
     (if c = kCeidControlStateChanged \<or> c = kCeidProcessStateChanged \<or> c = kCeidRunAborted
      then kRptidStates
      else if c = kCeidWaferScanStarted then kRptidScanStarted
      else if c = kCeidWaferScanComplete \<or> c = kCeidWaferOutOfSpec then kRptidWaferResult
      else 0)"

text \<open>The SVIDs are distinct and ascending, as an empty S1F3 relies on.\<close>

lemma status_variables_sorted: "sorted_wrt (<) (map svid status_variables)"
  by (simp add: status_variables_def svid_defs)

end
