(* ===== verification/Secs2_Codec.thy ===== *)
theory Secs2_Codec
  imports Secs2_Item
begin

text \<open>
  The SECS-II codec, \<^verbatim>\<open>src/secsgem/secs2/codec.cpp\<close>: item header, bounds-checked reader,
  recursive decoder and encoder. \<^verbatim>\<open>std::size_t\<close> lengths are \<open>nat\<close> (a three-byte length
  cannot overflow 64 bits). The recursion is total because the nesting depth is bounded by
  \<^verbatim>\<open>kMaxNestingDepth\<close>. The theorems: decoding inverts encoding, decoding never reads past the
  input or builds more than the input pays for, every decoded item can be re-encoded in at
  most as many bytes, and no truncated encoding decodes.
\<close>

section \<open>Reason codes and limits\<close>

definition kErrTruncated :: int where "kErrTruncated = 300"
definition kErrBadLengthBytes :: int where "kErrBadLengthBytes = 301"
definition kErrUnsupportedFormat :: int where "kErrUnsupportedFormat = 302"
definition kErrBadLength :: int where "kErrBadLength = 303"
definition kErrListCountTooLarge :: int where "kErrListCountTooLarge = 304"
definition kErrTooDeep :: int where "kErrTooDeep = 305"
definition kErrTrailingBytes :: int where "kErrTrailingBytes = 306"
definition kErrTooLong :: int where "kErrTooLong = 307"

definition kMaxNestingDepth :: nat where "kMaxNestingDepth = 32"
definition kMaxItemLength :: nat where "kMaxItemLength = 0xFFFFFF"

section \<open>Elements\<close>

text \<open>
  \<^verbatim>\<open>load_be<UInt>\<close> reads \<^verbatim>\<open>sizeof(UInt)\<close> bytes at the pointer, \<^verbatim>\<open>store_be\<close> appends them.
  \<^verbatim>\<open>element_from_bytes\<close> and \<^verbatim>\<open>element_to_bytes\<close> go through the unsigned twin of a signed
  type and through the bit pattern of a float, so on words they are the same two functions.
\<close>

definition load_be :: "byte list \<Rightarrow> 'a::len word" where
  "load_be p = be_value (take (LENGTH('a) div 8) p)"

definition store_be :: "'a::len word \<Rightarrow> byte list \<Rightarrow> byte list" where
  "store_be v out = out @ be_bytes (LENGTH('a) div 8) v"

definition element_from_bytes :: "byte list \<Rightarrow> 'a::len word" where
  "element_from_bytes p = load_be p"

definition element_to_bytes :: "'a::len word \<Rightarrow> byte list \<Rightarrow> byte list" where
  "element_to_bytes v out = store_be v out"

definition collect :: "nat \<Rightarrow> byte list \<Rightarrow> 'a::len word list" where
  "collect n p = map (\<lambda>i. element_from_bytes (drop (i * (LENGTH('a) div 8)) p)) [0..<n]"

definition append_array :: "'a::len word list \<Rightarrow> byte list \<Rightarrow> byte list" where
  "append_array vs out = fold element_to_bytes vs out"

section \<open>The bounds-checked reader\<close>

record reader =
  rd_bytes :: "byte list"
  rd_pos :: nat

definition remaining :: "reader \<Rightarrow> nat" where
  "remaining r = length (rd_bytes r) - rd_pos r"

text \<open>\<^verbatim>\<open>Reader::take\<close>: the next \<open>n\<close> bytes and the advanced reader, or \<open>None\<close> (nullptr).\<close>

definition reader_take :: "nat \<Rightarrow> reader \<Rightarrow> (byte list \<times> reader) option" where
  "reader_take n r =
     (if n > remaining r then None
      else Some (take n (drop (rd_pos r) (rd_bytes r)), r\<lparr>rd_pos := rd_pos r + n\<rparr>))"

definition parse_format :: "byte \<Rightarrow> format result" where
  "parse_format c =
     (if c = 0x00 then Ok kList
      else if c = 0x08 then Ok kBinary
      else if c = 0x09 then Ok kBoolean
      else if c = 0x10 then Ok kAscii
      else if c = 0x18 then Ok kI8
      else if c = 0x19 then Ok kI1
      else if c = 0x1A then Ok kI2
      else if c = 0x1C then Ok kI4
      else if c = 0x20 then Ok kF8
      else if c = 0x24 then Ok kF4
      else if c = 0x28 then Ok kU8
      else if c = 0x29 then Ok kU1
      else if c = 0x2A then Ok kU2
      else if c = 0x2C then Ok kU4
      else if c = 0x11 then Err kErrUnsupportedFormat ''JIS-8 items are not supported''
      else Err kErrUnsupportedFormat ''unknown SECS-II format code'')"

section \<open>Decoding\<close>

text \<open>\<open>p\<close> are the \<open>byte_len\<close> data bytes of the item.\<close>

definition build_array :: "format \<Rightarrow> byte list \<Rightarrow> nat \<Rightarrow> item" where
  "build_array f p byte_len =
     (let n = byte_len div element_size f
      in case f of
           kBinary \<Rightarrow> BINARY p
         | kBoolean \<Rightarrow> BOOLEAN p
         | kAscii \<Rightarrow> ASCII (map char_of_byte p)
         | kU1 \<Rightarrow> U1 p
         | kI1 \<Rightarrow> I1 (collect n p)
         | kI2 \<Rightarrow> I2 (collect n p)
         | kI4 \<Rightarrow> I4 (collect n p)
         | kI8 \<Rightarrow> I8 (collect n p)
         | kU2 \<Rightarrow> U2 (collect n p)
         | kU4 \<Rightarrow> U4 (collect n p)
         | kU8 \<Rightarrow> U8 (collect n p)
         | kF4 \<Rightarrow> F4 (collect n p)
         | kF8 \<Rightarrow> F8 (collect n p)
         | _ \<Rightarrow> default_item)"

text \<open>The header part of \<^verbatim>\<open>decode_at_depth\<close>: format, length and the reader after them.\<close>

definition decode_header :: "reader \<Rightarrow> (format \<times> nat \<times> reader) result" where
  "decode_header r =
     (case reader_take 1 r of
        None \<Rightarrow> Err kErrTruncated ''no item header''
      | Some (header, r1) \<Rightarrow>
          let format_byte = hd header;
              length_bytes = unat (format_byte AND 0x03)
          in if length_bytes = 0
             then Err kErrBadLengthBytes ''item header has zero length bytes''
             else (case parse_format (drop_bit 2 format_byte) of
                     Inl e \<Rightarrow> Inl e
                   | Inr f \<Rightarrow>
                       (case reader_take length_bytes r1 of
                          None \<Rightarrow> Err kErrTruncated ''item length is cut off''
                        | Some (length_field, r2) \<Rightarrow>
                            Ok (f, unat (be_value length_field :: u64), r2))))"

text \<open>The array part; the last \<^verbatim>\<open>take\<close> cannot fail (lemma \<open>decode_array_take\<close>).\<close>

definition decode_array :: "format \<Rightarrow> nat \<Rightarrow> reader \<Rightarrow> (item \<times> reader) result" where
  "decode_array f len r =
     (if len > remaining r then Err kErrTruncated ''item data is cut off''
      else if len mod element_size f \<noteq> 0
      then Err kErrBadLength ''item length is not a multiple of its element size''
      else (case reader_take len r of
              None \<Rightarrow> Err kErrTruncated ''item data is cut off''
            | Some (data, r') \<Rightarrow> Ok (build_array f data len, r')))"

function (sequential)
  decode_at_depth :: "reader \<Rightarrow> nat \<Rightarrow> (item \<times> reader) result" and
  decode_children :: "reader \<Rightarrow> nat \<Rightarrow> nat \<Rightarrow> item list \<Rightarrow> (item list \<times> reader) result"
where
  "decode_at_depth r depth =
     (case decode_header r of
        Inl e \<Rightarrow> Inl e
      | Inr (f, len, r2) \<Rightarrow>
          if f = kList
          then if depth \<ge> kMaxNestingDepth then Err kErrTooDeep ''list nesting deeper than 32''
               else if len > remaining r2 div 2
               then Err kErrListCountTooLarge ''list count exceeds the bytes that remain''
               else (case decode_children r2 (Suc depth) len [] of
                       Inl e \<Rightarrow> Inl e
                     | Inr (items, r3) \<Rightarrow> Ok (LIST items, r3))
          else decode_array f len r2)"
| "decode_children r depth 0 items = Ok (items, r)"
| "decode_children r depth (Suc n) items =
     (case decode_at_depth r depth of
        Inl e \<Rightarrow> Inl e
      | Inr (child, r') \<Rightarrow> decode_children r' depth n (items @ [child]))"
  by pat_completeness auto
termination
  by (relation "measures
        [\<lambda>x. case x of Inl (r, d) \<Rightarrow> Suc kMaxNestingDepth - d
                      | Inr (r, d, n, is) \<Rightarrow> Suc kMaxNestingDepth - d,
         \<lambda>x. case x of Inl _ \<Rightarrow> 0 | Inr (r, d, n, is) \<Rightarrow> Suc n]") auto

definition decode_item :: "byte list \<Rightarrow> (item \<times> nat) result" where
  "decode_item bs =
     (case decode_at_depth \<lparr>rd_bytes = bs, rd_pos = 0\<rparr> 0 of
        Inl e \<Rightarrow> Inl e
      | Inr (i, r) \<Rightarrow> Ok (i, rd_pos r))"

definition decode_body :: "byte list \<Rightarrow> item result" where
  "decode_body bs =
     (case decode_item bs of
        Inl e \<Rightarrow> Inl e
      | Inr (i, consumed) \<Rightarrow>
          if consumed \<noteq> length bs then Err kErrTrailingBytes ''bytes left after the item''
          else Ok i)"

section \<open>Encoding\<close>

definition encode_header :: "format \<Rightarrow> nat \<Rightarrow> byte list \<Rightarrow> byte list result" where
  "encode_header f len out =
     (if len > kMaxItemLength then Err kErrTooLong ''item too long for three length bytes''
      else let length_bytes = (if len > 0xFFFF then 3 else if len > 0xFF then 2 else 1)
           in Ok (out @ [push_bit 2 (format_code f) OR word_of_nat length_bytes]
                      @ be_bytes length_bytes (word_of_nat len :: u64)))"

fun array_payload :: "item \<Rightarrow> byte list \<Rightarrow> byte list" where
  "array_payload (ASCII s) out = out @ map byte_of_char s"
| "array_payload (BINARY v) out = out @ v"
| "array_payload (U1 v) out = out @ v"
| "array_payload (BOOLEAN v) out = out @ map (\<lambda>b. if b \<noteq> 0 then 1 else 0) v"
| "array_payload (I1 v) out = append_array v out"
| "array_payload (I2 v) out = append_array v out"
| "array_payload (I4 v) out = append_array v out"
| "array_payload (I8 v) out = append_array v out"
| "array_payload (U2 v) out = append_array v out"
| "array_payload (U4 v) out = append_array v out"
| "array_payload (U8 v) out = append_array v out"
| "array_payload (F4 v) out = append_array v out"
| "array_payload (F8 v) out = append_array v out"
| "array_payload (LIST _) out = out"

definition encode_array :: "item \<Rightarrow> byte list \<Rightarrow> byte list result" where
  "encode_array i out =
     (if \<not> is_supported (item_format i)
      then Err kErrUnsupportedFormat ''cannot encode this format''
      else (case encode_header (item_format i)
                   (item_count i * element_size (item_format i)) out of
              Inl e \<Rightarrow> Inl e
            | Inr out' \<Rightarrow> Ok (array_payload i out')))"

fun encode_at_depth :: "item \<Rightarrow> nat \<Rightarrow> byte list \<Rightarrow> byte list result"
and encode_children :: "item list \<Rightarrow> nat \<Rightarrow> byte list \<Rightarrow> byte list result"
where
  "encode_at_depth (LIST items) depth out =
     (if depth \<ge> kMaxNestingDepth then Err kErrTooDeep ''list nesting deeper than 32''
      else (case encode_header kList (length items) out of
              Inl e \<Rightarrow> Inl e
            | Inr out' \<Rightarrow> encode_children items (Suc depth) out'))"
| "encode_at_depth i depth out = encode_array i out"
| "encode_children [] depth out = Ok out"
| "encode_children (i # is) depth out =
     (case encode_at_depth i depth out of
        Inl e \<Rightarrow> Inl e
      | Inr out' \<Rightarrow> encode_children is depth out')"

definition encode :: "item \<Rightarrow> byte list result" where
  "encode i = encode_at_depth i 0 []"

section \<open>Element lemmas\<close>

lemma append_array_eq:
  fixes vs :: "'a::len word list"
  shows "append_array vs out = out @ concat (map (be_bytes (LENGTH('a) div 8)) vs)"
  unfolding append_array_def
  by (induction vs arbitrary: out) (auto simp: element_to_bytes_def store_be_def)

lemma length_concat_be_bytes [length_simps]:
  "length (concat (map (be_bytes k) vs)) = length vs * k"
  by (induction vs) auto

lemma collect_0 [simp]: "collect 0 p = []"
  by (simp add: collect_def)

lemma collect_Suc:
  "(collect (Suc n) p :: 'a::len word list) =
     load_be p # collect n (drop (LENGTH('a) div 8) p)"
  unfolding collect_def
  by (simp add: element_from_bytes_def map_upt_Suc add.commute del: upt_Suc)

lemma length_collect [simp]: "length (collect n p) = n"
  by (simp add: collect_def)

lemma collect_concat:
  fixes vs :: "'a::len word list"
  assumes "8 dvd LENGTH('a)"
  shows "collect (length vs) (concat (map (be_bytes (LENGTH('a) div 8)) vs)) = vs"
proof (induction vs)
  case Nil
  then show ?case by simp
next
  case (Cons v vs)
  have "8 * (LENGTH('a) div 8) = LENGTH('a)" using assms by simp
  then show ?case
    using Cons by (simp add: collect_Suc load_be_def be_value_be_bytes)
qed

lemma concat_collect:
  fixes n :: nat
  assumes "8 dvd LENGTH('a::len)" "length p = n * (LENGTH('a) div 8)"
  shows "concat (map (be_bytes (LENGTH('a) div 8)) (collect n p :: 'a word list)) = p"
  using assms(2)
proof (induction n arbitrary: p)
  case 0
  then show ?case by simp
next
  case (Suc n)
  let ?k = "LENGTH('a) div 8"
  have "be_bytes ?k (load_be p :: 'a word) = take ?k p"
    unfolding load_be_def by (rule be_bytes_be_value) (use Suc.prems assms(1) in auto)
  moreover have "length (drop ?k p) = n * ?k" using Suc.prems by simp
  ultimately show ?case using Suc.IH [of "drop ?k p"] by (simp add: collect_Suc)
qed

section \<open>Reader lemmas\<close>

abbreviation rd_rest :: "reader \<Rightarrow> byte list" where
  "rd_rest r \<equiv> drop (rd_pos r) (rd_bytes r)"

lemma remaining_eq: "remaining r = length (rd_rest r)"
  by (simp add: remaining_def)

lemma reader_take_append:
  assumes "rd_rest r = xs @ ys" "length xs = n"
  shows "reader_take n r = Some (xs, r\<lparr>rd_pos := rd_pos r + n\<rparr>)"
    and "rd_rest (r\<lparr>rd_pos := rd_pos r + n\<rparr>) = ys"
proof -
  show "reader_take n r = Some (xs, r\<lparr>rd_pos := rd_pos r + n\<rparr>)"
    using assms by (simp add: reader_take_def remaining_eq del: length_drop)
  have "drop (rd_pos r + n) (rd_bytes r) = drop n (rd_rest r)" by (simp add: add.commute)
  then show "rd_rest (r\<lparr>rd_pos := rd_pos r + n\<rparr>) = ys"
    using assms by simp
qed

lemma reader_take_Some:
  assumes "reader_take n r = Some (d, r')"
  shows "n \<le> remaining r" "r' = r\<lparr>rd_pos := rd_pos r + n\<rparr>" "d = take n (rd_rest r)"
    "length d = n" "rd_rest r = d @ rd_rest r'" "remaining r' = remaining r - n"
    "rd_bytes r' = rd_bytes r" "rd_pos r' = rd_pos r + n"
  using assms
  by (auto simp: reader_take_def remaining_def add.commute min_def append_take_drop_id
      drop_drop [symmetric] simp del: drop_drop split: if_splits)

section \<open>Headers\<close>

definition length_bytes_for :: "nat \<Rightarrow> nat" where
  "length_bytes_for len = (if len > 0xFFFF then 3 else if len > 0xFF then 2 else 1)"

definition header_of :: "format \<Rightarrow> nat \<Rightarrow> byte list" where
  "header_of f len =
     (push_bit 2 (format_code f) OR word_of_nat (length_bytes_for len))
       # be_bytes (length_bytes_for len) (word_of_nat len :: u64)"

lemma encode_header_eq:
  "encode_header f len out =
     (if len > kMaxItemLength then Err kErrTooLong ''item too long for three length bytes''
      else Ok (out @ header_of f len))"
  by (simp add: encode_header_def header_of_def length_bytes_for_def Let_def)

lemma length_bytes_for_cases: "length_bytes_for len \<in> {1, 2, 3}"
  by (simp add: length_bytes_for_def)

lemma length_header_of [length_simps]: "length (header_of f len) = Suc (length_bytes_for len)"
  by (simp add: header_of_def)

lemma header_byte:
  assumes "n \<in> {1, 2, 3}"
  shows "drop_bit 2 (push_bit 2 (format_code f) OR word_of_nat n) = format_code f"
    and "unat ((push_bit 2 (format_code f) OR word_of_nat n) AND 0x03) = n"
  using assms by (cases f; auto)+

lemma parse_format_code: "is_supported f \<Longrightarrow> parse_format (format_code f) = Ok f"
  by (cases f) (auto simp: parse_format_def is_supported_def)

lemma parse_format_Ok: "parse_format c = Inr f \<Longrightarrow> c = format_code f \<and> is_supported f"
  by (auto simp: parse_format_def is_supported_def split: if_splits)

lemma be_value_length:
  assumes "len \<le> kMaxItemLength"
  shows "unat (be_value (be_bytes (length_bytes_for len) (word_of_nat len :: u64)) :: u64) = len"
proof -
  have "take_bit (8 * length_bytes_for len) len = len"
    using assms by (auto simp: length_bytes_for_def kMaxItemLength_def take_bit_nat_eq_self_iff)
  moreover have "len mod 18446744073709551616 = len"
    using assms by (simp add: kMaxItemLength_def)
  ultimately show ?thesis
    by (simp add: be_value_be_bytes_take unsigned_take_bit_eq unat_of_nat)
qed

lemma decode_header_encoded:
  assumes "rd_rest r = header_of f len @ rest" "is_supported f" "len \<le> kMaxItemLength"
  shows "decode_header r = Ok (f, len, r\<lparr>rd_pos := rd_pos r + length (header_of f len)\<rparr>)"
    and "rd_rest (r\<lparr>rd_pos := rd_pos r + length (header_of f len)\<rparr>) = rest"
proof -
  let ?n = "length_bytes_for len"
  let ?b = "push_bit 2 (format_code f) OR word_of_nat ?n"
  let ?lf = "be_bytes ?n (word_of_nat len :: u64)"
  let ?r1 = "r\<lparr>rd_pos := rd_pos r + 1\<rparr>"
  have rest0: "rd_rest r = [?b] @ (?lf @ rest)"
    using assms(1) by (simp add: header_of_def)
  note t1 = reader_take_append [OF rest0, of 1, simplified]
  have "rd_rest ?r1 = ?lf @ rest" using t1(2) by simp
  note t2 = reader_take_append [OF this, of ?n, simplified]
  have n0: "?n \<noteq> 0" using length_bytes_for_cases [of len] by auto
  obtain b where b: "b = ?b" and "drop_bit 2 b = format_code f" "unat (b AND 0x03) = ?n"
    using header_byte [OF length_bytes_for_cases] by blast
  show "decode_header r = Ok (f, len, r\<lparr>rd_pos := rd_pos r + length (header_of f len)\<rparr>)"
    using t1(1) [folded b] t2(1) n0 assms(2,3) \<open>drop_bit 2 b = _\<close> \<open>unat (b AND 0x03) = _\<close>
    by (simp add: decode_header_def parse_format_code be_value_length length_header_of)
  show "rd_rest (r\<lparr>rd_pos := rd_pos r + length (header_of f len)\<rparr>) = rest"
    using t2(2) by (simp add: length_header_of)
qed

lemma unat_be_value_less:
  assumes "length bs \<le> 8"
  shows "unat (be_value bs :: u64) < 2 ^ (8 * length bs)"
proof -
  have "be_bytes (length bs) (be_value bs :: u64) = bs"
    by (rule be_bytes_be_value) (use assms in auto)
  then have "take_bit (8 * length bs) (be_value bs :: u64) = be_value bs"
    using be_value_be_bytes_take [of "length bs" "be_value bs :: u64"] by simp
  then show ?thesis by (metis take_bit_nat_less_exp unsigned_take_bit_eq)
qed

lemma unat_be_value_bound:
  assumes "length bs \<le> 3"
  shows "unat (be_value bs :: u64) \<le> kMaxItemLength"
proof -
  have "unat (be_value bs :: u64) < 2 ^ (8 * length bs)"
    using assms by (intro unat_be_value_less) simp
  also have "(2::nat) ^ (8 * length bs) \<le> 2 ^ 24"
    using assms by (intro power_increasing) auto
  finally show ?thesis by (simp add: kMaxItemLength_def)
qed

text \<open>What a successfully decoded header says: at least two bytes were read, the length fits.\<close>

lemma decode_header_Ok:
  assumes "decode_header r = Inr (f, len, r')"
  shows "is_supported f" "len \<le> kMaxItemLength" "rd_bytes r' = rd_bytes r"
    "rd_pos r + 2 \<le> rd_pos r'" "rd_pos r' - rd_pos r \<le> remaining r"
    "length_bytes_for len \<le> rd_pos r' - rd_pos r - 1" "rd_pos r' \<le> rd_pos r + remaining r"
proof -
  from assms obtain h r1 lf where
    t1: "reader_take 1 r = Some (h, r1)"
    and nz: "unat (hd h AND 0x03) \<noteq> 0"
    and pf: "parse_format (drop_bit 2 (hd h)) = Inr f"
    and t2: "reader_take (unat (hd h AND 0x03)) r1 = Some (lf, r')"
    and len: "len = unat (be_value lf :: u64)"
    by (auto simp: decode_header_def Let_def split: option.splits if_splits sum.splits)
  note h1 = reader_take_Some [OF t1] and h2 = reader_take_Some [OF t2]
  have "unat (hd h AND 0x03) \<le> unat (3 :: byte)"
    by (rule word_and_le1 [THEN word_le_nat_alt [THEN iffD1]])
  then have le3: "length lf \<le> 3" using h2(4) by simp
  show "is_supported f" using parse_format_Ok [OF pf] by simp
  show "len \<le> kMaxItemLength" using unat_be_value_bound [OF le3] len by simp
  show "rd_bytes r' = rd_bytes r" "rd_pos r + 2 \<le> rd_pos r'"
    "rd_pos r' - rd_pos r \<le> remaining r" "rd_pos r' \<le> rd_pos r + remaining r"
    using h1(1,6,7,8) h2(1,7,8) nz by auto
  have less: "len < 2 ^ (8 * length lf)"
    unfolding len using le3 by (intro unat_be_value_less) simp
  have "length lf = 1 \<or> length lf = 2 \<or> length lf = 3"
    using le3 h2(4) nz by auto
  then have "length_bytes_for len \<le> length lf"
    using less by (elim disjE) (simp_all add: length_bytes_for_def)
  then show "length_bytes_for len \<le> rd_pos r' - rd_pos r - 1"
    using h1(8) h2(4,8) by linarith
qed

section \<open>Arrays\<close>

lemma array_payload_append: "array_payload i out = out @ array_payload i []"
  by (cases i) (auto simp: append_array_eq)

lemma length_array_payload [length_simps]:
  "\<not> is_list i \<Longrightarrow>
    length (array_payload i []) = item_count i * element_size (item_format i)"
  by (cases i) (auto simp: append_array_eq length_concat_be_bytes is_list_def)

lemma collect_append_array:
  fixes vs :: "'a::len word list"
  shows "8 dvd LENGTH('a) \<Longrightarrow> collect (length vs) (append_array vs []) = vs"
  by (simp add: append_array_eq collect_concat)

lemma build_array_payload:
  "\<not> is_list i \<Longrightarrow>
    build_array (item_format i) (array_payload i []) (item_count i * element_size (item_format i))
      = wire_norm i"
  by (cases i) (auto simp: build_array_def collect_append_array is_list_def comp_def)

lemma build_array_shape:
  assumes "f \<noteq> kList" "is_supported f" "length p = len" "len mod element_size f = 0"
  shows "item_format (build_array f p len) = f"
    and "item_count (build_array f p len) * element_size f = len"
    and "\<not> is_list (build_array f p len)"
  using assms by (cases f; auto simp: build_array_def is_supported_def is_list_def)+

lemma encode_array_eq:
  "encode_array i out =
     (if item_count i * element_size (item_format i) > kMaxItemLength
      then Err kErrTooLong ''item too long for three length bytes''
      else Ok (out @ header_of (item_format i) (item_count i * element_size (item_format i))
                   @ array_payload i []))"
  by (simp add: encode_array_def encode_header_eq Err_def array_payload_append [of i "_ @ _"])

lemma decode_array_take: "len \<le> remaining r \<Longrightarrow> reader_take len r \<noteq> None"
  by (simp add: reader_take_def)

lemma decode_array_encoded:
  assumes "\<not> is_list i" "rd_rest r = array_payload i [] @ rest"
  shows "decode_array (item_format i) (item_count i * element_size (item_format i)) r =
    Ok (wire_norm i, r\<lparr>rd_pos := rd_pos r + length (array_payload i [])\<rparr>)"
proof -
  let ?len = "item_count i * element_size (item_format i)"
  have "?len \<le> remaining r"
    using assms by (simp add: remaining_eq length_array_payload del: length_drop)
  then show ?thesis
    using assms reader_take_append(1) [OF assms(2), of ?len]
    by (simp add: decode_array_def length_array_payload build_array_payload)
qed

lemma decode_array_Ok:
  assumes "decode_array f len r = Inr (i, r')" "f \<noteq> kList" "is_supported f"
  shows "item_format i = f" "item_count i * element_size f = len" "\<not> is_list i"
    "rd_bytes r' = rd_bytes r" "rd_pos r' = rd_pos r + len" "len \<le> remaining r"
proof -
  from assms(1) obtain d where t: "reader_take len r = Some (d, r')"
    and m: "len mod element_size f = 0" and i: "i = build_array f d len"
    by (auto simp: decode_array_def split: if_splits option.splits)
  note h = reader_take_Some [OF t]
  show "item_format i = f" "item_count i * element_size f = len" "\<not> is_list i"
    unfolding i using build_array_shape [OF assms(2,3) h(4) m] by simp_all
  show "rd_bytes r' = rd_bytes r" "rd_pos r' = rd_pos r + len" "len \<le> remaining r"
    using h(1,7,8) by simp_all
qed

section \<open>Decoding inverts encoding\<close>

lemma encode_at_depth_not_list: "\<not> is_list i \<Longrightarrow> encode_at_depth i depth out = encode_array i out"
  by (cases i) (auto simp: is_list_def)

lemma decode_encoded_array:
  assumes "\<not> is_list i" "encode_array i out = Inr out'"
  shows "\<exists>enc. out' = out @ enc \<and> 2 \<le> length enc \<and>
    (\<forall>r rest. rd_rest r = enc @ rest \<longrightarrow>
       decode_at_depth r depth = Ok (wire_norm i, r\<lparr>rd_pos := rd_pos r + length enc\<rparr>))"
proof -
  let ?f = "item_format i"
  let ?len = "item_count i * element_size ?f"
  let ?enc = "header_of ?f ?len @ array_payload i []"
  from assms(2) have le: "?len \<le> kMaxItemLength" and out': "out' = out @ ?enc"
    by (auto simp: encode_array_eq split: if_splits)
  have "?f \<noteq> kList" using assms(1) by (simp add: is_list_def)
  have "decode_at_depth r depth = Ok (wire_norm i, r\<lparr>rd_pos := rd_pos r + length ?enc\<rparr>)"
    if "rd_rest r = ?enc @ rest" for r rest
  proof -
    from that have hr: "rd_rest r = header_of ?f ?len @ (array_payload i [] @ rest)" by simp
    note hdr = decode_header_encoded [OF hr item_format_supported le]
    show ?thesis
      using \<open>?f \<noteq> kList\<close> decode_array_encoded [OF assms(1) hdr(2)]
      by (simp add: hdr(1) add.assoc)
  qed
  moreover have "2 \<le> length ?enc"
    using length_bytes_for_cases [of ?len] by (auto simp: length_header_of)
  ultimately show ?thesis using out' by blast
qed

lemma decode_encoded_list:
  assumes depth: "depth < kMaxNestingDepth" and len: "length xs \<le> kMaxItemLength"
    and long: "2 * length xs \<le> length enc"
    and dec: "\<And>r rest. rd_rest r = enc @ rest \<Longrightarrow>
      decode_children r (Suc depth) (length xs) [] =
        Ok (ys, r\<lparr>rd_pos := rd_pos r + length enc\<rparr>)"
    and r: "rd_rest r = (header_of kList (length xs) @ enc) @ rest"
  shows "decode_at_depth r depth =
    Ok (LIST ys, r\<lparr>rd_pos := rd_pos r + length (header_of kList (length xs) @ enc)\<rparr>)"
proof -
  from r have hr: "rd_rest r = header_of kList (length xs) @ (enc @ rest)" by simp
  note hdr = decode_header_encoded [OF hr _ len, unfolded is_supported_def, simplified]
  let ?r1 = "r\<lparr>rd_pos := rd_pos r + length (header_of kList (length xs))\<rparr>"
  have rr: "rd_rest ?r1 = enc @ rest" using hdr(2) by simp
  have "length xs \<le> remaining ?r1 div 2"
    using long arg_cong [OF rr, of length] by (simp add: remaining_def)
  then show ?thesis
    using depth dec [OF rr] by (simp add: hdr(1) add.assoc)
qed

lemma decode_encoded:
  "encode_at_depth i depth out = Inr out' \<Longrightarrow>
    \<exists>enc. out' = out @ enc \<and> 2 \<le> length enc \<and>
      (\<forall>r rest. rd_rest r = enc @ rest \<longrightarrow>
         decode_at_depth r depth = Ok (wire_norm i, r\<lparr>rd_pos := rd_pos r + length enc\<rparr>))"
  "encode_children is depth out = Inr out' \<Longrightarrow>
    \<exists>enc. out' = out @ enc \<and> 2 * length is \<le> length enc \<and>
      (\<forall>r rest acc. rd_rest r = enc @ rest \<longrightarrow>
         decode_children r depth (length is) acc =
           Ok (acc @ map wire_norm is, r\<lparr>rd_pos := rd_pos r + length enc\<rparr>))"
proof (induction i depth out and "is" depth out arbitrary: out' and out'
    rule: encode_at_depth_encode_children.induct)
  case (1 items depth out)
  from "1.prems" have depth: "depth < kMaxNestingDepth" and len: "length items \<le> kMaxItemLength"
    and ch: "encode_children items (Suc depth) (out @ header_of kList (length items)) = Inr out'"
    by (auto simp: encode_header_eq Err_def split: if_splits)
  from "1.IH" [OF _ _ ch] depth len obtain enc where
    enc: "out' = (out @ header_of kList (length items)) @ enc" "2 * length items \<le> length enc"
    and dec: "\<And>r rest acc. rd_rest r = enc @ rest \<Longrightarrow>
      decode_children r (Suc depth) (length items) acc =
        Ok (acc @ map wire_norm items, r\<lparr>rd_pos := rd_pos r + length enc\<rparr>)"
    by (auto simp: encode_header_eq)
  have "2 \<le> length (header_of kList (length items) @ enc)"
    using length_bytes_for_cases [of "length items"] by (auto simp: length_header_of)
  moreover have "decode_at_depth r depth = Ok (wire_norm (LIST items),
      r\<lparr>rd_pos := rd_pos r + length (header_of kList (length items) @ enc)\<rparr>)"
    if "rd_rest r = (header_of kList (length items) @ enc) @ rest" for r rest
    using decode_encoded_list [OF depth len enc(2) dec [where acc = "[]", simplified] that] by simp
  ultimately show ?case using enc(1) by (intro exI [of _ "header_of kList (length items) @ enc"]) auto
next
  case (3 depth out)
  then show ?case by simp
next
  case (4 i "is" depth out)
  from "4.prems" obtain out1 where e1: "encode_at_depth i depth out = Inr out1"
    and e2: "encode_children is depth out1 = Inr out'"
    by (auto split: sum.splits)
  from "4.IH"(1) [OF e1] obtain enc1 where
    enc1: "out1 = out @ enc1" "2 \<le> length enc1"
    and d1: "\<And>r rest. rd_rest r = enc1 @ rest \<Longrightarrow>
      decode_at_depth r depth = Ok (wire_norm i, r\<lparr>rd_pos := rd_pos r + length enc1\<rparr>)"
    by blast
  from "4.IH"(2) [OF e1 e2] obtain enc2 where
    enc2: "out' = out1 @ enc2" "2 * length is \<le> length enc2"
    and d2: "\<And>r rest acc. rd_rest r = enc2 @ rest \<Longrightarrow>
      decode_children r depth (length is) acc =
        Ok (acc @ map wire_norm is, r\<lparr>rd_pos := rd_pos r + length enc2\<rparr>)"
    by blast
  have "decode_children r depth (length (i # is)) acc =
      Ok (acc @ map wire_norm (i # is), r\<lparr>rd_pos := rd_pos r + length (enc1 @ enc2)\<rparr>)"
    if "rd_rest r = (enc1 @ enc2) @ rest" for r rest acc
  proof -
    let ?r1 = "r\<lparr>rd_pos := rd_pos r + length enc1\<rparr>"
    from that have rr: "rd_rest r = enc1 @ (enc2 @ rest)" by simp
    have "rd_rest ?r1 = enc2 @ rest" using reader_take_append(2) [OF rr refl] by simp
    from d2 [OF this] d1 [OF rr] show ?thesis by (simp add: add.assoc)
  qed
  then show ?case using enc1 enc2 by (intro exI [of _ "enc1 @ enc2"]) auto
qed (simp only: encode_at_depth.simps, erule decode_encoded_array [rotated], simp add: is_list_def)+

section \<open>What a successful decode implies\<close>

definition advances :: "reader \<Rightarrow> reader \<Rightarrow> bool" where
  "advances r r' \<longleftrightarrow> rd_bytes r' = rd_bytes r \<and> rd_pos r \<le> rd_pos r' \<and>
     rd_pos r' \<le> rd_pos r + remaining r"

lemma advances_refl [simp]: "advances r r"
  by (simp add: advances_def)

lemma advances_trans: "advances r r' \<Longrightarrow> advances r' r'' \<Longrightarrow> advances r r''"
  by (auto simp: advances_def remaining_def)

lemma decode_header_advances: "decode_header r = Inr (f, len, r') \<Longrightarrow> advances r r'"
  using decode_header_Ok [of r f len r'] by (simp add: advances_def)

lemma decode_array_advances:
  "decode_array f len r = Inr (i, r') \<Longrightarrow> f \<noteq> kList \<Longrightarrow> is_supported f \<Longrightarrow> advances r r'"
  using decode_array_Ok [of f len r i r'] by (simp add: advances_def)

lemma decode_at_depth_cases [consumes 1, case_names list array]:
  assumes "decode_at_depth r depth = Inr (i, r')"
  obtains
    (list) len r2 items where "decode_header r = Inr (kList, len, r2)" "depth < kMaxNestingDepth"
      "len \<le> remaining r2 div 2" "decode_children r2 (Suc depth) len [] = Inr (items, r')"
      "i = LIST items"
  | (array) f len r2 where "decode_header r = Inr (f, len, r2)" "f \<noteq> kList" "is_supported f"
      "decode_array f len r2 = Inr (i, r')"
proof (cases "decode_header r")
  case (Inr h)
  obtain f len r2 where h: "h = (f, len, r2)" by (cases h)
  have sup: "is_supported f" using decode_header_Ok(1) [of r f len r2] Inr h by simp
  show ?thesis
  proof (cases "f = kList")
    case True
    with assms Inr h show ?thesis
      by (auto simp: Err_def not_le not_less intro: list split: if_splits sum.splits)
  next
    case False
    with assms Inr h sup show ?thesis by (intro array [of f len r2]) auto
  qed
qed (use assms in simp)

declare decode_at_depth.simps [simp del]

text \<open>
  The reader moves forward inside the input, the nesting stays within the limit, and every
  item built has been paid for by two header bytes and its data bytes.
\<close>

lemma decode_bounds:
  "decode_at_depth r depth = Inr (i, r') \<Longrightarrow> depth \<le> kMaxNestingDepth \<Longrightarrow>
    advances r r' \<and> depth + item_depth i \<le> kMaxNestingDepth \<and>
    2 * item_nodes i + item_bytes i \<le> rd_pos r' - rd_pos r"
  "decode_children r depth n acc = Inr (is, r') \<Longrightarrow> depth \<le> kMaxNestingDepth \<Longrightarrow>
    \<exists>new. is = acc @ new \<and> length new = n \<and> advances r r' \<and>
      (\<forall>x \<in> set new. depth + item_depth x \<le> kMaxNestingDepth) \<and>
      2 * sum_list (map item_nodes new) + sum_list (map item_bytes new) \<le> rd_pos r' - rd_pos r"
proof (induction r depth and r depth n acc arbitrary: i r' and "is" r'
    rule: decode_at_depth_decode_children.induct)
  case (1 r depth)
  from "1.prems"(1) show ?case
  proof (cases rule: decode_at_depth_cases)
    case (list len r2 items)
    from "1.IH" [OF list(1)] list "1.prems" obtain new where
      new: "items = [] @ new" "advances r2 r'"
      "\<forall>x \<in> set new. Suc depth + item_depth x \<le> kMaxNestingDepth"
      "2 * sum_list (map item_nodes new) + sum_list (map item_bytes new) \<le> rd_pos r' - rd_pos r2"
      by (force simp: not_le)
    have "foldr max (map item_depth new) 0 \<le> kMaxNestingDepth - Suc depth"
      using new(3) by (intro foldr_max_le) force
    moreover have "advances r r'"
      using decode_header_advances [OF list(1)] new(2) by (rule advances_trans)
    ultimately show ?thesis
      using new list decode_header_Ok(4) [OF list(1)] by (auto simp: advances_def)
  next
    case (array f len r2)
    note a = decode_array_Ok [OF array(4,2,3)]
    have "item_bytes i = len" using a by (simp add: item_bytes_not_list)
    moreover have "advances r r'"
      using decode_header_advances [OF array(1)] decode_array_advances [OF array(4,2,3)]
      by (rule advances_trans)
    moreover have "2 + len \<le> rd_pos r' - rd_pos r"
      using decode_header_Ok(4) [OF array(1)] a(5) by simp
    ultimately show ?thesis using a(3) "1.prems"(2) by simp
  qed
next
  case (2 r depth items)
  then show ?case by simp
next
  case (3 r depth n items)
  from "3.prems"(1) obtain c r1 where c: "decode_at_depth r depth = Inr (c, r1)"
    and rest: "decode_children r1 depth n (items @ [c]) = Inr (is, r')"
    by (auto split: sum.splits)
  from "3.IH"(1) [OF c "3.prems"(2)] "3.IH"(2) [OF c refl rest "3.prems"(2)] obtain new where
    "advances r r1" "depth + item_depth c \<le> kMaxNestingDepth"
    "2 * item_nodes c + item_bytes c \<le> rd_pos r1 - rd_pos r"
    "is = (items @ [c]) @ new" "length new = n" "advances r1 r'"
    "\<forall>x \<in> set new. depth + item_depth x \<le> kMaxNestingDepth"
    "2 * sum_list (map item_nodes new) + sum_list (map item_bytes new) \<le> rd_pos r' - rd_pos r1"
    by blast
  then show ?case
    by (intro exI [of _ "c # new"]) (auto simp: advances_def remaining_def)
qed

text \<open>A decoded item can be encoded again, in at most as many bytes.\<close>

lemma decode_reencodes:
  "decode_at_depth r depth = Inr (i, r') \<Longrightarrow>
    rd_pos r \<le> rd_pos r' \<and>
    (\<forall>out. \<exists>enc. encode_at_depth i depth out = Ok (out @ enc) \<and> length enc \<le> rd_pos r' - rd_pos r)"
  "decode_children r depth n acc = Inr (is, r') \<Longrightarrow>
    \<exists>new. is = acc @ new \<and> length new = n \<and> rd_pos r \<le> rd_pos r' \<and>
      (\<forall>out. \<exists>enc. encode_children new depth out = Ok (out @ enc) \<and>
         length enc \<le> rd_pos r' - rd_pos r)"
proof (induction r depth and r depth n acc arbitrary: i r' and "is" r'
    rule: decode_at_depth_decode_children.induct)
  case (1 r depth)
  from "1.prems" show ?case
  proof (cases rule: decode_at_depth_cases)
    case (list len r2 items)
    from "1.IH" [OF list(1)] list obtain new where
      new: "items = [] @ new" "length new = len" "rd_pos r2 \<le> rd_pos r'"
      and enc: "\<And>out. \<exists>enc. encode_children new (Suc depth) out = Ok (out @ enc) \<and>
         length enc \<le> rd_pos r' - rd_pos r2"
      by (force simp: not_le)
    note h = decode_header_Ok [OF list(1)]
    have "\<exists>enc. encode_at_depth i depth out = Ok (out @ enc) \<and> length enc \<le> rd_pos r' - rd_pos r"
      for out
    proof -
      from enc [of "out @ header_of kList len"] obtain e where
        "encode_children new (Suc depth) (out @ header_of kList len) =
           Ok ((out @ header_of kList len) @ e)" "length e \<le> rd_pos r' - rd_pos r2" by blast
      then show ?thesis
        using list new h by (intro exI [of _ "header_of kList len @ e"])
          (auto simp: encode_header_eq length_header_of)
    qed
    then show ?thesis using new h by auto
  next
    case (array f len r2)
    note a = decode_array_Ok [OF array(4,2,3)] and h = decode_header_Ok [OF array(1)]
    have "encode_at_depth i depth out =
        Ok (out @ header_of f len @ array_payload i [])" for out
      using a h(2) by (simp add: encode_at_depth_not_list encode_array_eq)
    then show ?thesis using a h by (auto simp: length_header_of length_array_payload)
  qed
next
  case (2 r depth items)
  then show ?case by simp
next
  case (3 r depth n items)
  from "3.prems"(1) obtain c r1 where c: "decode_at_depth r depth = Inr (c, r1)"
    and rest: "decode_children r1 depth n (items @ [c]) = Inr (is, r')"
    by (auto split: sum.splits)
  from "3.IH"(2) [OF c refl rest] obtain new where
    new: "is = (items @ [c]) @ new" "length new = n" "rd_pos r1 \<le> rd_pos r'"
    and e2: "\<And>out. \<exists>enc. encode_children new depth out = Ok (out @ enc) \<and>
         length enc \<le> rd_pos r' - rd_pos r1"
    by blast
  from "3.IH"(1) [OF c] have le: "rd_pos r \<le> rd_pos r1"
    and e1: "\<And>out. \<exists>enc. encode_at_depth c depth out = Ok (out @ enc) \<and>
      length enc \<le> rd_pos r1 - rd_pos r" by auto
  have "\<exists>enc. encode_children (c # new) depth out = Ok (out @ enc) \<and>
      length enc \<le> rd_pos r' - rd_pos r" for out
  proof -
    from e1 [of out] obtain x where x: "encode_at_depth c depth out = Ok (out @ x)"
      "length x \<le> rd_pos r1 - rd_pos r" by blast
    from e2 [of "out @ x"] obtain y where "encode_children new depth (out @ x) = Ok ((out @ x) @ y)"
      "length y \<le> rd_pos r' - rd_pos r1" by blast
    then show ?thesis using x le new(3) by (intro exI [of _ "x @ y"]) auto
  qed
  then show ?case using new le by (intro exI [of _ "c # new"]) auto
qed

section \<open>Decoding depends only on the bytes it consumes\<close>

definition rd_extend :: "byte list \<Rightarrow> reader \<Rightarrow> reader" where
  "rd_extend e r = r\<lparr>rd_bytes := rd_bytes r @ e\<rparr>"

lemma remaining_extend: "remaining r \<le> remaining (rd_extend e r)"
  by (simp add: remaining_def rd_extend_def)

lemma reader_take_extend:
  assumes "reader_take n r = Some (d, r')"
  shows "reader_take n (rd_extend e r) = Some (d, rd_extend e r')"
proof -
  have "n \<le> remaining (rd_extend e r)"
    using reader_take_Some(1) [OF assms] remaining_extend [of r e] by linarith
  moreover have "take n (rd_rest (rd_extend e r)) = take n (rd_rest r)"
    using reader_take_Some(1) [OF assms] by (auto simp: rd_extend_def remaining_def)
  ultimately show ?thesis
    using reader_take_Some(2,3) [OF assms] by (simp add: reader_take_def rd_extend_def)
qed

lemma decode_header_extend:
  assumes "decode_header r = Inr (f, len, r')"
  shows "decode_header (rd_extend e r) = Inr (f, len, rd_extend e r')"
proof -
  from assms obtain h r1 lf where
    t1: "reader_take 1 r = Some (h, r1)"
    and nz: "unat (hd h AND 0x03) \<noteq> 0"
    and pf: "parse_format (drop_bit 2 (hd h)) = Inr f"
    and t2: "reader_take (unat (hd h AND 0x03)) r1 = Some (lf, r')"
    and len: "len = unat (be_value lf :: u64)"
    by (auto simp: decode_header_def Let_def split: option.splits if_splits sum.splits)
  show ?thesis
    unfolding decode_header_def reader_take_extend [OF t1] option.case prod.case Let_def
      reader_take_extend [OF t2] pf sum.case len
    using nz by simp
qed

lemma decode_array_extend:
  assumes "decode_array f len r = Inr (i, r')"
  shows "decode_array f len (rd_extend e r) = Inr (i, rd_extend e r')"
proof -
  from assms obtain d where t: "reader_take len r = Some (d, r')"
    and m: "len mod element_size f = 0" and i: "i = build_array f d len"
    by (auto simp: decode_array_def split: if_splits option.splits)
  have "len \<le> remaining (rd_extend e r)"
    using reader_take_Some(1) [OF t] remaining_extend [of r e] by linarith
  then show ?thesis using m i reader_take_extend [OF t] by (simp add: decode_array_def)
qed

lemma decode_extend:
  "decode_at_depth r depth = Inr (i, r') \<Longrightarrow>
    decode_at_depth (rd_extend e r) depth = Inr (i, rd_extend e r')"
  "decode_children r depth n acc = Inr (is, r') \<Longrightarrow>
    decode_children (rd_extend e r) depth n acc = Inr (is, rd_extend e r')"
proof (induction r depth and r depth n acc arbitrary: i r' and "is" r'
    rule: decode_at_depth_decode_children.induct)
  case (1 r depth)
  from "1.prems" show ?case
  proof (cases rule: decode_at_depth_cases)
    case (list len r2 items)
    have "len \<le> remaining (rd_extend e r2) div 2"
      using list(3) remaining_extend [of r2 e] by linarith
    then show ?thesis
      using list "1.IH" [OF list(1)] decode_header_extend [OF list(1), of e]
      by (simp add: decode_at_depth.simps not_le)
  next
    case (array f len r2)
    then show ?thesis
      using decode_header_extend [OF array(1), of e] decode_array_extend [OF array(4), of e]
      by (simp add: decode_at_depth.simps)
  qed
next
  case (2 r depth items)
  then show ?case by simp
next
  case (3 r depth n items)
  then show ?case by (auto split: sum.splits)
qed

section \<open>Which items can be encoded\<close>

text \<open>Every length fits three length bytes.\<close>

fun item_fits :: "item \<Rightarrow> bool" where
  "item_fits (LIST xs) \<longleftrightarrow> length xs \<le> kMaxItemLength \<and> list_all item_fits xs"
| "item_fits i \<longleftrightarrow> item_count i * element_size (item_format i) \<le> kMaxItemLength"

lemma item_fits_array:
  "\<not> is_list i \<Longrightarrow> item_fits i \<longleftrightarrow> item_count i * element_size (item_format i) \<le> kMaxItemLength"
  by (cases i) (auto simp: is_list_def)

lemma encode_array_has_value:
  "\<not> is_list i \<Longrightarrow> has_value (encode_array i out) \<longleftrightarrow> item_fits i"
  by (simp add: encode_array_eq item_fits_array)

lemma foldr_max_le_iff: "foldr max xs 0 \<le> (b::nat) \<longleftrightarrow> (\<forall>x \<in> set xs. x \<le> b)"
  by (induction xs) auto

lemma encode_has_value:
  "depth \<le> kMaxNestingDepth \<Longrightarrow>
    has_value (encode_at_depth i depth out) \<longleftrightarrow>
      depth + item_depth i \<le> kMaxNestingDepth \<and> item_fits i"
  "depth \<le> kMaxNestingDepth \<Longrightarrow>
    has_value (encode_children is depth out) \<longleftrightarrow>
      (\<forall>i \<in> set is. depth + item_depth i \<le> kMaxNestingDepth \<and> item_fits i)"
proof (induction i depth out and "is" depth out rule: encode_at_depth_encode_children.induct)
  case (1 items depth out)
  show ?case
  proof (cases "depth < kMaxNestingDepth \<and> length items \<le> kMaxItemLength")
    case True
    then have "foldr max (map item_depth items) 0 \<le> kMaxNestingDepth - Suc depth \<longleftrightarrow>
        (\<forall>i \<in> set items. Suc depth + item_depth i \<le> kMaxNestingDepth)"
      by (auto simp: foldr_max_le_iff)
    then show ?thesis
      using True 1 by (auto simp: encode_header_eq list_all_iff)
  next
    case False
    with "1.prems" show ?thesis by (auto simp: encode_header_eq Err_def)
  qed
next
  case (4 i "is" depth out)
  then show ?case by (cases "encode_at_depth i depth out") auto
qed (simp_all add: encode_array_has_value [unfolded is_list_def] item_fits_array [unfolded is_list_def] del: item_fits.simps)

section \<open>Properties\<close>

definition sample_item :: item where
  "sample_item = LIST [U4 [2005], ASCII ''W001'', LIST [BOOLEAN [7], I2 [65533]]]"

definition sample_bytes :: "byte list" where
  "sample_bytes = [0x01, 3, 0xB1, 4, 0, 0, 7, 0xD5, 0x41, 4, 0x57, 0x30, 0x30, 0x31,
     0x01, 2, 0x25, 1, 1, 0x69, 2, 0xFF, 0xFD]"

lemma be_bytes_numeral:
  "be_bytes 1 v = [ucast (v AND 0xFF)]"
  "be_bytes (Suc 0) v = [ucast (v AND 0xFF)]"
  "be_bytes 2 v = [ucast (drop_bit 8 v AND 0xFF), ucast (v AND 0xFF)]"
  "be_bytes 3 v = [ucast (drop_bit 16 v AND 0xFF), ucast (drop_bit 8 v AND 0xFF), ucast (v AND 0xFF)]"
  "be_bytes 4 v = [ucast (drop_bit 24 v AND 0xFF), ucast (drop_bit 16 v AND 0xFF),
     ucast (drop_bit 8 v AND 0xFF), ucast (v AND 0xFF)]"
  by (simp_all add: be_bytes_def upt_rec numeral_eq_Suc)

lemmas encode_eval = encode_def encode_array_eq encode_header_eq header_of_def
  length_bytes_for_def kMaxItemLength_def kMaxNestingDepth_def append_array_eq be_bytes_numeral
  byte_of_char_def

lemma encode_sample: "encode sample_item = Ok sample_bytes"
  by (simp add: sample_item_def sample_bytes_def encode_eval)

lemma decode_encoded_body:
  assumes "encode i = Inr bs"
  shows "decode_body bs = Inr (wire_norm i)"
proof -
  from decode_encoded(1) [OF assms [unfolded encode_def]] obtain enc where "bs = enc"
    and dec: "\<And>r rest. rd_rest r = enc @ rest \<Longrightarrow>
      decode_at_depth r 0 = Ok (wire_norm i, r\<lparr>rd_pos := rd_pos r + length enc\<rparr>)"
    by auto
  with dec [of "\<lparr>rd_bytes = bs, rd_pos = 0\<rparr>" "[]"] show ?thesis
    by (simp add: decode_body_def decode_item_def)
qed

lemma encode_nonempty: "encode i = Inr bs \<Longrightarrow> bs \<noteq> []"
proof
  assume "encode i = Inr bs" "bs = []"
  moreover have "\<not> has_value (decode_body [])" by code_simp
  ultimately show False using decode_encoded_body [of i bs] by simp
qed

text \<open>
  C1. Round trip of a message body: whatever the encoder accepts, the strict body decoder
  returns unchanged, except that BOOLEAN elements come back as the 0 or 1 that was sent.
\<close>

theorem decode_body_encode:
  assumes "encode i = Inr bs"
  shows "decode_body bs = Inr (wire_norm i)"
  by (rule decode_encoded_body [OF assms])

theorem decode_body_encode_witness:
  "encode sample_item = Ok sample_bytes \<and>
   decode_body sample_bytes = Ok (LIST [U4 [2005], ASCII ''W001'', LIST [BOOLEAN [1], I2 [65533]]])"
  using encode_sample decode_body_encode [OF encode_sample] by (simp add: sample_item_def)

lemma decode_item_bounded_parts:
  assumes "decode_item bs = Inr (i, consumed)"
  shows "2 \<le> consumed" "consumed \<le> length bs" "item_depth i \<le> kMaxNestingDepth"
    "2 * item_nodes i + item_bytes i \<le> consumed"
proof -
  from assms obtain r where
    "decode_at_depth \<lparr>rd_bytes = bs, rd_pos = 0\<rparr> 0 = Inr (i, r)" "consumed = rd_pos r"
    by (auto simp: decode_item_def split: sum.splits)
  with decode_bounds(1) [OF this(1)] show *: "consumed \<le> length bs"
    "item_depth i \<le> kMaxNestingDepth" "2 * item_nodes i + item_bytes i \<le> consumed"
    by (auto simp: advances_def remaining_def)
  have "1 \<le> item_nodes i" by (cases i) auto
  with *(3) show "2 \<le> consumed" by linarith
qed

text \<open>
  C2. A decoder fed untrusted bytes stays inside them and never builds more than they pay for:
  a success consumes between 2 bytes and the whole input, nests at most 32 lists, and the items
  built (two bytes each) together with their data bytes fit the bytes consumed.
\<close>

theorem decode_item_bounded:
  assumes "decode_item bs = Inr (i, consumed)"
  shows "(2 \<le> consumed) \<and>
    (consumed \<le> length bs) \<and>
    (item_depth i \<le> kMaxNestingDepth) \<and>
    (2 * item_nodes i + item_bytes i \<le> consumed)"
  by (rule conjI [OF _ conjI [OF _ conjI]]; (intro impI)?; rule decode_item_bounded_parts [OF assms]; assumption?)

theorem decode_item_bounded_witness:
  "decode_item (sample_bytes @ [0xAA]) = Ok (wire_norm sample_item, 23) \<and>
   2 * item_nodes (wire_norm sample_item) + item_bytes (wire_norm sample_item) \<le> 23"
proof -
  have d: "decode_item (sample_bytes @ [0xAA]) = Ok (wire_norm sample_item, 23)" by code_simp
  show ?thesis using d decode_item_bounded [OF d] by simp
qed

text \<open>
  Everything the decoder accepts can be sent on: the decoded item encodes, in no more bytes
  than were consumed (the encoder uses the fewest length bytes), and decodes to itself again.
\<close>

theorem decode_item_reencodes:
  assumes "decode_item bs = Inr (i, consumed)"
  shows "\<exists>bs'. encode i = Inr bs' \<and> length bs' \<le> consumed \<and> decode_body bs' = Inr (wire_norm i)"
proof -
  from assms obtain r where
    d: "decode_at_depth \<lparr>rd_bytes = bs, rd_pos = 0\<rparr> 0 = Inr (i, r)" "consumed = rd_pos r"
    by (auto simp: decode_item_def split: sum.splits)
  from decode_reencodes(1) [OF d(1)] obtain bs' where
    "encode_at_depth i 0 [] = Ok bs'" "length bs' \<le> consumed"
    using d(2) by (metis append_Nil minus_nat.diff_0 reader.select_convs(2))
  then show ?thesis
    using decode_encoded(1) [of i 0 "[]" bs'] decode_at_depth.simps
    by (intro exI [of _ bs']) (auto simp: encode_def decode_body_def decode_item_def)
qed

theorem decode_item_reencodes_witness:
  "decode_item [0x03, 0, 0, 1, 0xA7, 0, 0, 1, 9] = Ok (LIST [U1 [9]], 9) \<and>
   (\<exists>bs'. encode (LIST [U1 [9]]) = Inr bs' \<and> length bs' \<le> 9 \<and>
     decode_body bs' = Inr (wire_norm (LIST [U1 [9]])))"
proof -
  have d: "decode_item [0x03, 0, 0, 1, 0xA7, 0, 0, 1, 9] = Ok (LIST [U1 [9]], 9)" by code_simp
  show ?thesis using d decode_item_reencodes [OF d] by blast
qed

text \<open>
  C3. Truncation is always detected, whoever encoded the bytes: if an item is decoded from the first \<open>n\<close> bytes of
  an input, in minimal encoding or not, then the decoder reports an error on every shorter prefix of it and
  never a smaller item.
\<close>

theorem decode_item_truncated:
  assumes "decode_item (p @ e) = Inr (i, n)" "length p < n"
  shows "\<not> has_value (decode_item p)"
proof
  assume "has_value (decode_item p)"
  then obtain j r where d: "decode_at_depth \<lparr>rd_bytes = p, rd_pos = 0\<rparr> 0 = Inr (j, r)"
    by (auto simp: has_value_iff decode_item_def split: sum.splits)
  have "rd_pos r \<le> length p"
    using decode_bounds(1) [OF d] by (simp add: advances_def remaining_def)
  moreover have "decode_at_depth \<lparr>rd_bytes = p @ e, rd_pos = 0\<rparr> 0 = Inr (j, rd_extend e r)"
    using decode_extend(1) [OF d, of e] by (simp add: rd_extend_def)
  with assms(1) have "n = rd_pos r" by (auto simp: decode_item_def rd_extend_def)
  ultimately show False using assms(2) by simp
qed

text \<open>The list of one byte again with three length bytes each, cut before its last byte.\<close>

theorem decode_item_truncated_witness:
  "decode_item ([0x03, 0, 0, 1, 0xA7, 0, 0, 1] @ [9]) = Ok (LIST [U1 [9]], 9) \<and>
   \<not> has_value (decode_item [0x03, 0, 0, 1, 0xA7, 0, 0, 1])"
proof -
  have d: "decode_item ([0x03, 0, 0, 1, 0xA7, 0, 0, 1] @ [9]) = Ok (LIST [U1 [9]], 9)" by code_simp
  show ?thesis using d decode_item_truncated [OF d] by simp
qed

text \<open>
  The encoder succeeds exactly on the items whose lists nest at most 32 deep and whose lengths
  all fit three length bytes; nothing else can make it fail.
\<close>

theorem encode_succeeds_iff:
  "has_value (encode i) \<longleftrightarrow> item_depth i \<le> kMaxNestingDepth \<and> item_fits i"
  unfolding encode_def using encode_has_value(1) [of 0 i "[]"] by simp

end
