(* ===== verification/Hsms_Frame.thy ===== *)
theory Hsms_Frame
  imports Secs2_Codec
begin

text \<open>
  HSMS frames: \<^verbatim>\<open>frame.hpp\<close> / \<^verbatim>\<open>frame.cpp\<close> (header layout, frame encoder),
  \<^verbatim>\<open>frame_decoder.cpp\<close> (the incremental decoder) and \<^verbatim>\<open>data_message.cpp\<close> (the bridge to
  SECS-II messages), all under \<^verbatim>\<open>src/secsgem/hsms/\<close>.
\<close>

definition kLengthFieldSize :: nat where "kLengthFieldSize = 4"
definition kHeaderSize :: nat where "kHeaderSize = 10"
definition kControlSessionId :: u16 where "kControlSessionId = 0xFFFF"

definition kErrFrameTooShort :: int where "kErrFrameTooShort = 400"
definition kErrFrameTooLong :: int where "kErrFrameTooLong = 401"
definition kErrFrameTooBig :: int where "kErrFrameTooBig = 402"
definition kErrNotADataFrame :: int where "kErrNotADataFrame = 403"

datatype stype =
    kData | kSelectReq | kSelectRsp | kDeselectReq | kDeselectRsp
  | kLinktestReq | kLinktestRsp | kRejectReq | kSeparateReq

fun stype_byte :: "stype \<Rightarrow> byte" where
  "stype_byte kData = 0"
| "stype_byte kSelectReq = 1"
| "stype_byte kSelectRsp = 2"
| "stype_byte kDeselectReq = 3"
| "stype_byte kDeselectRsp = 4"
| "stype_byte kLinktestReq = 5"
| "stype_byte kLinktestRsp = 6"
| "stype_byte kRejectReq = 7"
| "stype_byte kSeparateReq = 9"

fun stype_to_string :: "stype \<Rightarrow> string" where
  "stype_to_string kData = ''Data''"
| "stype_to_string kSelectReq = ''Select.req''"
| "stype_to_string kSelectRsp = ''Select.rsp''"
| "stype_to_string kDeselectReq = ''Deselect.req''"
| "stype_to_string kDeselectRsp = ''Deselect.rsp''"
| "stype_to_string kLinktestReq = ''Linktest.req''"
| "stype_to_string kLinktestRsp = ''Linktest.rsp''"
| "stype_to_string kRejectReq = ''Reject.req''"
| "stype_to_string kSeparateReq = ''Separate.req''"

definition stype_from_byte :: "byte \<Rightarrow> stype option" where
  "stype_from_byte b =
     (if b = 0 then Some kData
      else if b = 1 then Some kSelectReq
      else if b = 2 then Some kSelectRsp
      else if b = 3 then Some kDeselectReq
      else if b = 4 then Some kDeselectRsp
      else if b = 5 then Some kLinktestReq
      else if b = 6 then Some kLinktestRsp
      else if b = 7 then Some kRejectReq
      else if b = 9 then Some kSeparateReq
      else None)"

record header =
  session_id :: u16
  byte2 :: byte
  byte3 :: byte
  ptype :: byte
  stype :: byte
  system_bytes :: u32

definition header_w_bit :: "header \<Rightarrow> bool" where
  "header_w_bit h \<longleftrightarrow> byte2 h AND 0x80 \<noteq> 0"

definition header_stream :: "header \<Rightarrow> byte" where
  "header_stream h = byte2 h AND 0x7F"

definition header_function :: "header \<Rightarrow> byte" where
  "header_function h = byte3 h"

record frame =
  hdr :: header
  fbody :: "byte list"

definition make_control_frame :: "stype \<Rightarrow> u32 \<Rightarrow> byte \<Rightarrow> byte \<Rightarrow> frame" where
  "make_control_frame st sys b2 b3 =
     \<lparr>hdr = \<lparr>session_id = kControlSessionId, byte2 = b2, byte3 = b3, ptype = 0,
        stype = stype_byte st, system_bytes = sys\<rparr>, fbody = []\<rparr>"

definition make_data_frame ::
    "u16 \<Rightarrow> byte \<Rightarrow> byte \<Rightarrow> bool \<Rightarrow> u32 \<Rightarrow> byte list \<Rightarrow> frame" where
  "make_data_frame sid s f w sys bdy =
     \<lparr>hdr = \<lparr>session_id = sid, byte2 = (s AND 0x7F) OR (if w then 0x80 else 0), byte3 = f,
        ptype = 0, stype = stype_byte kData, system_bytes = sys\<rparr>, fbody = bdy\<rparr>"

definition put_be16 :: "u16 \<Rightarrow> byte list \<Rightarrow> byte list" where
  "put_be16 v out = out @ [ucast (drop_bit 8 v), ucast (v AND 0xFF)]"

definition put_be32 :: "u32 \<Rightarrow> byte list \<Rightarrow> byte list" where
  "put_be32 v out =
     out @ map (\<lambda>shift. ucast (drop_bit shift v AND 0xFF)) [24, 16, 8, 0]"

definition header_bytes :: "header \<Rightarrow> byte list" where
  "header_bytes h =
     put_be32 (system_bytes h)
       (put_be16 (session_id h) [] @ [byte2 h, byte3 h, ptype h, stype h])"

definition encode_frame :: "frame \<Rightarrow> byte list result" where
  "encode_frame fr =
     (let len = kHeaderSize + length (fbody fr)
      in if len > 0xFFFFFFFF then Err kErrFrameTooBig ''frame does not fit a 32-bit length''
         else let out = put_be32 (word_of_nat len) [];
                  out = put_be16 (session_id (hdr fr)) out;
                  out = out @ [byte2 (hdr fr), byte3 (hdr fr), ptype (hdr fr), stype (hdr fr)];
                  out = put_be32 (system_bytes (hdr fr)) out
              in Ok (out @ fbody fr))"

section \<open>The incremental decoder\<close>

definition load_be32 :: "byte list \<Rightarrow> u32" where
  "load_be32 p = push_bit 24 (ucast (p ! 0)) OR push_bit 16 (ucast (p ! 1)) OR
     push_bit 8 (ucast (p ! 2)) OR ucast (p ! 3)"

definition load_be16 :: "byte list \<Rightarrow> u16" where
  "load_be16 p = push_bit 8 (ucast (p ! 0)) OR ucast (p ! 1)"

record frame_decoder =
  max_frame_bytes :: nat
  buffer :: "byte list"
  failed :: bool
  dec_error :: error

definition new_decoder :: "nat \<Rightarrow> frame_decoder" where
  "new_decoder n =
     \<lparr>max_frame_bytes = n, buffer = [], failed = False, dec_error = \<lparr>code = 0, message = []\<rparr>\<rparr>"

definition has_partial :: "frame_decoder \<Rightarrow> bool" where
  "has_partial d \<longleftrightarrow> buffer d \<noteq> []"

text \<open>The frame at the front of \<open>p\<close>, whose length field says \<open>len\<close>.\<close>

definition frame_at :: "byte list \<Rightarrow> nat \<Rightarrow> frame" where
  "frame_at p len =
     (let h = drop kLengthFieldSize p
      in \<lparr>hdr = \<lparr>session_id = load_be16 h, byte2 = h ! 2, byte3 = h ! 3, ptype = h ! 4,
            stype = h ! 5, system_bytes = load_be32 (drop 6 h)\<rparr>,
          fbody = take (len - kHeaderSize) (drop kHeaderSize h)\<rparr>)"

text \<open>
  The loop of \<^verbatim>\<open>feed\<close>: from \<open>offset\<close>, collect complete frames; stop when the rest is
  shorter than a frame, or fail on a bad length field.
\<close>

function feed_loop :: "nat \<Rightarrow> byte list \<Rightarrow> nat \<Rightarrow> frame list \<Rightarrow> error + (frame list \<times> nat)" where
  "feed_loop maxb buf offset frames =
     (if length buf - offset \<ge> kLengthFieldSize
      then let p = drop offset buf;
               len = unat (load_be32 p)
           in if len < kHeaderSize
              then Err kErrFrameTooShort ''frame length is below the 10-byte header''
              else if len > maxb
              then Err kErrFrameTooLong ''frame length is above the configured maximum''
              else if length buf - offset < kLengthFieldSize + len
              then Ok (frames, offset)
              else feed_loop maxb buf (offset + kLengthFieldSize + len) (frames @ [frame_at p len])
      else Ok (frames, offset))"
  by pat_completeness auto
termination
  by (relation "measure (\<lambda>(maxb, buf, offset, frames). length buf - offset)")
    (auto simp: kLengthFieldSize_def)

declare feed_loop.simps [simp del]

definition feed :: "byte list \<Rightarrow> frame_decoder \<Rightarrow> frame list result \<times> frame_decoder" where
  "feed bs d =
     (if failed d then (Inl (dec_error d), d)
      else let buf = buffer d @ bs
           in case feed_loop (max_frame_bytes d) buf 0 [] of
                Inl e \<Rightarrow> (Inl e, d\<lparr>buffer := buf, failed := True, dec_error := e\<rparr>)
              | Inr (frames, offset) \<Rightarrow> (Ok frames, d\<lparr>buffer := drop offset buf\<rparr>))"

section \<open>Data messages\<close>

definition to_message :: "frame \<Rightarrow> secs_message result" where
  "to_message fr =
     (if stype (hdr fr) \<noteq> stype_byte kData
      then Err kErrNotADataFrame ''frame is not a data message''
      else if fbody fr \<noteq> []
      then (case decode_body (fbody fr) of
              Inl e \<Rightarrow> Inl e
            | Inr i \<Rightarrow> Ok \<lparr>stream = header_stream (hdr fr), func = header_function (hdr fr),
                          w_bit = header_w_bit (hdr fr), body = Some i\<rparr>)
      else Ok \<lparr>stream = header_stream (hdr fr), func = header_function (hdr fr),
              w_bit = header_w_bit (hdr fr), body = None\<rparr>)"

section \<open>Bytes of a frame\<close>

lemma stype_from_byte_byte [simp]: "stype_from_byte (stype_byte s) = Some s"
  by (cases s) (simp_all add: stype_from_byte_def)

lemma stype_from_byte_Some: "stype_from_byte b = Some s \<longleftrightarrow> b = stype_byte s"
  by (auto simp: stype_from_byte_def split: if_splits) (cases s; simp)+

lemma put_be16_eq: "put_be16 v out = out @ be_bytes 2 v"
proof -
  have "(ucast (drop_bit 8 v) :: byte) = ucast (drop_bit 8 v AND 0xFF)"
    by (rule bit_word_eqI) (auto simp: bit_simps mask_byte)
  then show ?thesis by (simp add: put_be16_def be_bytes_numeral)
qed

lemma put_be32_eq: "put_be32 v out = out @ be_bytes 4 v"
  by (simp add: put_be32_def be_bytes_numeral)

lemma load_be32_eq: "length p = 4 \<Longrightarrow> load_be32 (p @ q) = be_value p"
proof -
  assume "length p = 4"
  then obtain a b c d where p: "p = [a, b, c, d]"
    by (auto simp: numeral_eq_Suc length_Suc_conv)
  show ?thesis
    unfolding p be_value_def load_be32_def by (simp add: push_bit_or ac_simps)
qed

lemma load_be16_eq: "length p = 2 \<Longrightarrow> load_be16 (p @ q) = be_value p"
proof -
  assume "length p = 2"
  then obtain a b where p: "p = [a, b]" by (auto simp: numeral_eq_Suc length_Suc_conv)
  show ?thesis unfolding p be_value_def load_be16_def by simp
qed

lemma header_bytes_eq:
  "header_bytes h =
     be_bytes 2 (session_id h) @ [byte2 h, byte3 h, ptype h, stype h] @ be_bytes 4 (system_bytes h)"
  by (simp add: header_bytes_def put_be16_eq put_be32_eq)

lemma length_header_bytes [simp, length_simps]: "length (header_bytes h) = kHeaderSize"
  by (simp add: header_bytes_eq kHeaderSize_def)

lemma encode_frame_eq:
  "encode_frame fr =
     (if kHeaderSize + length (fbody fr) > 0xFFFFFFFF
      then Err kErrFrameTooBig ''frame does not fit a 32-bit length''
      else Ok (be_bytes 4 (word_of_nat (kHeaderSize + length (fbody fr)) :: u32)
                 @ header_bytes (hdr fr) @ fbody fr))"
  by (simp add: encode_frame_def Let_def put_be16_eq put_be32_eq header_bytes_eq)

section \<open>The decoder against a stream parser\<close>

text \<open>
  What the incremental decoder promises: the frames of the whole byte stream, by recursion on
  the stream, with no buffer, offset or chunk boundary in it.
\<close>

function parse_stream :: "nat \<Rightarrow> byte list \<Rightarrow> error + (frame list \<times> byte list)" where
  "parse_stream maxb p =
     (if length p < kLengthFieldSize then Ok ([], p)
      else let len = unat (load_be32 p)
           in if len < kHeaderSize
              then Err kErrFrameTooShort ''frame length is below the 10-byte header''
              else if len > maxb
              then Err kErrFrameTooLong ''frame length is above the configured maximum''
              else if length p < kLengthFieldSize + len then Ok ([], p)
              else map_sum id (\<lambda>(fs, r). (frame_at p len # fs, r))
                     (parse_stream maxb (drop (kLengthFieldSize + len) p)))"
  by pat_completeness auto
termination
  by (relation "measure (\<lambda>(maxb, p). length p)") (auto simp: kLengthFieldSize_def)

declare parse_stream.simps [simp del]

lemma feed_loop_parse:
  "map_sum id (\<lambda>(fs, off). (fs, drop off buf)) (feed_loop maxb buf offset frames) =
     map_sum id (\<lambda>(fs, r). (frames @ fs, r)) (parse_stream maxb (drop offset buf))"
proof (induction maxb buf offset frames rule: feed_loop.induct)
  case (1 maxb buf offset frames)
  show ?case
    using 1 [OF _ refl refl]
    by (subst feed_loop.simps, subst parse_stream.simps)
      (auto simp: Let_def Err_def not_le not_less sum.map_comp comp_def split_def drop_drop
        ac_simps id_def)
qed

lemma feed_parse:
  assumes "\<not> failed d"
  shows "feed bs d =
    (case parse_stream (max_frame_bytes d) (buffer d @ bs) of
       Inl e \<Rightarrow> (Inl e, d\<lparr>buffer := buffer d @ bs, failed := True, dec_error := e\<rparr>)
     | Inr (frames, r) \<Rightarrow> (Ok frames, d\<lparr>buffer := r\<rparr>))"
  using assms feed_loop_parse [of "buffer d @ bs" "max_frame_bytes d" 0 "[]"]
  by (cases "feed_loop (max_frame_bytes d) (buffer d @ bs) 0 []";
      cases "parse_stream (max_frame_bytes d) (buffer d @ bs)")
    (auto simp: feed_def Let_def split: prod.splits)

lemma load_be32_append [simp]: "4 \<le> length p \<Longrightarrow> load_be32 (p @ q) = load_be32 p"
  by (auto simp add: load_be32_def nth_append)

lemma load_be16_append [simp]: "2 \<le> length p \<Longrightarrow> load_be16 (p @ q) = load_be16 p"
  by (auto simp add: load_be16_def nth_append)

lemma frame_at_append:
  assumes "kHeaderSize \<le> len" "kLengthFieldSize + len \<le> length p"
  shows "frame_at (p @ q) len = frame_at p len"
proof -
  define h where "h = drop kLengthFieldSize p"
  have d: "drop kLengthFieldSize (p @ q) = h @ q" and len: "len \<le> length h" "10 \<le> length h"
    using assms by (auto simp: h_def kHeaderSize_def)
  have n: "(h @ q) ! i = h ! i" if "i < 10" for i using len that by (simp add: nth_append)
  have "load_be16 (h @ q) = load_be16 h" "load_be32 (drop 6 (h @ q)) = load_be32 (drop 6 h)"
    using len by simp_all
  then show ?thesis
    unfolding frame_at_def Let_def d h_def [symmetric] using len by (simp add: n kHeaderSize_def)
qed

lemma parse_stream_append:
  "parse_stream maxb (p @ q) =
     (case parse_stream maxb p of
        Inl e \<Rightarrow> Inl e
      | Inr (fs, r) \<Rightarrow> map_sum id (\<lambda>(gs, r'). (fs @ gs, r')) (parse_stream maxb (r @ q)))"
proof (induction maxb p rule: parse_stream.induct)
  case (1 maxb p)
  let ?len = "unat (load_be32 p)"
  have id: "map_sum id (\<lambda>(gs, r'). ([] @ gs, r')) x = x" for x :: "error + (frame list \<times> byte list)"
    by (cases x) auto
  show ?case
  proof (cases "kLengthFieldSize \<le> length p \<and> kHeaderSize \<le> ?len \<and> ?len \<le> maxb \<and>
      kLengthFieldSize + ?len \<le> length p")
    case True
    then have l: "load_be32 (p @ q) = load_be32 p" by (simp add: kLengthFieldSize_def)
    have IH: "parse_stream maxb (drop (kLengthFieldSize + ?len) p @ q) =
        (case parse_stream maxb (drop (kLengthFieldSize + ?len) p) of
           Inl e \<Rightarrow> Inl e
         | Inr (fs, r) \<Rightarrow> map_sum id (\<lambda>(gs, r'). (fs @ gs, r')) (parse_stream maxb (r @ q)))"
      using 1 [OF _ refl] True by (simp add: not_less)
    show ?thesis
      using True IH frame_at_append [of ?len p q]
      by (simp add: parse_stream.simps [of maxb "p @ q"] parse_stream.simps [of maxb p] l Let_def
          not_less sum.map_comp id_def comp_def split_def split: sum.splits)
  next
    case False
    then consider "length p < kLengthFieldSize \<or> (kHeaderSize \<le> ?len \<and> ?len \<le> maxb \<and>
        length p < kLengthFieldSize + ?len)"
      | "kLengthFieldSize \<le> length p" "\<not> (kHeaderSize \<le> ?len \<and> ?len \<le> maxb)"
      by linarith
    then show ?thesis
    proof cases
      case 1
      then have "parse_stream maxb p = Ok ([], p)"
        by (auto simp: parse_stream.simps [of maxb p] Let_def)
      then show ?thesis by (simp add: id [simplified])
    next
      case 2
      then show ?thesis
        by (auto simp: parse_stream.simps [of maxb p] parse_stream.simps [of maxb "p @ q"] Let_def
            Err_def not_less kLengthFieldSize_def)
    qed
  qed
qed

lemma parse_stream_rest:
  "parse_stream maxb p = Ok (fs, r) \<Longrightarrow>
     parse_stream maxb r = Ok ([], r) \<and> length r < kLengthFieldSize + maxb \<and>
     (\<forall>fr \<in> set fs. kHeaderSize + length (fbody fr) \<le> maxb)"
proof (induction maxb p arbitrary: fs rule: parse_stream.induct)
  case (1 maxb p)
  let ?len = "unat (load_be32 p)"
  consider (short) "length p < kLengthFieldSize"
    | (wait) "kLengthFieldSize \<le> length p" "kHeaderSize \<le> ?len" "?len \<le> maxb"
        "length p < kLengthFieldSize + ?len"
    | (frame) "kLengthFieldSize \<le> length p" "kHeaderSize \<le> ?len" "?len \<le> maxb"
        "kLengthFieldSize + ?len \<le> length p"
    | (bad) "kLengthFieldSize \<le> length p" "?len < kHeaderSize \<or> maxb < ?len"
    by linarith
  then show ?case
  proof cases
    case frame
    then have p: "parse_stream maxb p = map_sum id (\<lambda>(fs, r). (frame_at p ?len # fs, r))
        (parse_stream maxb (drop (kLengthFieldSize + ?len) p))"
      by (simp add: parse_stream.simps [of maxb p] Let_def)
    have body: "length (fbody (frame_at p ?len)) \<le> ?len - kHeaderSize"
      by (simp add: frame_at_def Let_def)
    show ?thesis
      using "1.IH" [OF _ refl] "1.prems" frame body
      by (cases "parse_stream maxb (drop (kLengthFieldSize + ?len) p)")
        (fastforce simp: p not_less)+
  qed (use "1.prems" in \<open>auto simp: parse_stream.simps [of maxb p] parse_stream.simps [of maxb r] Let_def split: if_splits\<close>)
qed

definition frame_fits :: "nat \<Rightarrow> frame \<Rightarrow> bool" where
  "frame_fits maxb fr \<longleftrightarrow>
     kHeaderSize + length (fbody fr) \<le> maxb \<and> kHeaderSize + length (fbody fr) \<le> 0xFFFFFFFF"

lemma encode_frame_fits:
  "frame_fits maxb fr \<Longrightarrow>
     encode_frame fr = Ok (be_bytes 4 (word_of_nat (kHeaderSize + length (fbody fr)) :: u32)
       @ header_bytes (hdr fr) @ fbody fr)"
  by (simp add: encode_frame_eq frame_fits_def)

lemma frame_at_encoded:
  assumes "length l = kLengthFieldSize" "n = kHeaderSize + length (fbody fr)"
  shows "frame_at (l @ header_bytes (hdr fr) @ fbody fr @ rest) n = fr"
proof -
  have "load_be16 (be_bytes 2 (session_id h) @ q) = session_id h"
    "load_be32 (be_bytes 4 (system_bytes h) @ q) = system_bytes h" for h :: header and q
    using load_be16_eq [of "be_bytes 2 (session_id h)" q]
      load_be32_eq [of "be_bytes 4 (system_bytes h)" q]
    by (simp_all add: be_value_be_bytes del: load_be16_append load_be32_append)
  moreover have "drop 6 (header_bytes h @ q) = be_bytes 4 (system_bytes h) @ q" for h :: header and q
    by (simp add: header_bytes_eq)
  moreover have "header_bytes h ! 2 = byte2 h" "header_bytes h ! 3 = byte3 h"
    "header_bytes h ! 4 = ptype h" "header_bytes h ! 5 = stype h" for h :: header
    by (simp_all add: header_bytes_eq nth_append nth_Cons')
  moreover have "load_be16 (header_bytes h @ q) = session_id h" for h :: header and q
    using calculation(1) by (simp add: header_bytes_eq)
  ultimately show ?thesis
    using assms by (simp add: frame_at_def Let_def nth_append kHeaderSize_def)
qed

lemma parse_stream_encoded:
  assumes "frame_fits maxb fr" "encode_frame fr = Ok bs"
  shows "parse_stream maxb (bs @ rest) = map_sum id (\<lambda>(fs, r). (fr # fs, r)) (parse_stream maxb rest)"
proof -
  define n where "n = kHeaderSize + length (fbody fr)"
  define l where "l = be_bytes 4 (word_of_nat n :: u32)"
  have bs: "bs = l @ header_bytes (hdr fr) @ fbody fr" and n: "n \<le> maxb" "n \<le> 0xFFFFFFFF" "kHeaderSize \<le> n"
    using assms encode_frame_fits [OF assms(1)]
    by (simp_all add: l_def n_def frame_fits_def del: of_nat_add)
  have len: "unat (load_be32 (bs @ rest)) = n"
    using n(2) load_be32_eq [of l "header_bytes (hdr fr) @ fbody fr @ rest"]
    by (simp add: bs l_def be_value_be_bytes unat_of_nat take_bit_eq_mod del: load_be32_append)
  have l: "length l = kLengthFieldSize" by (simp add: l_def kLengthFieldSize_def)
  have "frame_at (bs @ rest) n = fr"
    using frame_at_encoded [OF l n_def] by (simp add: bs)
  moreover have "length bs = kLengthFieldSize + n" by (simp add: bs l n_def)
  ultimately show ?thesis
    using n len by (simp add: parse_stream.simps [of maxb "bs @ rest"] Let_def)
qed

lemma parse_stream_encoded_list:
  assumes "list_all (frame_fits maxb) frs" "map encode_frame frs = map Ok wires"
  shows "parse_stream maxb (concat wires) = Ok (frs, [])"
  using assms
proof (induction frs arbitrary: wires)
  case Nil
  then show ?case by (simp add: parse_stream.simps [of maxb "[]"] kLengthFieldSize_def)
next
  case (Cons fr frs)
  then obtain w ws where "wires = w # ws" by (cases wires) auto
  with Cons parse_stream_encoded [of maxb fr w "concat ws"] show ?case by auto
qed

section \<open>Properties of the decoder\<close>

text \<open>What a connection does with the reads it gets, one after the other, until one fails.\<close>

fun feed_all :: "byte list list \<Rightarrow> frame_decoder \<Rightarrow> frame list result \<times> frame_decoder" where
  "feed_all [] d = (Ok [], d)"
| "feed_all (c # cs) d =
     (case feed c d of
        (Inl e, d') \<Rightarrow> (Inl e, d')
      | (Inr fs, d') \<Rightarrow>
          (case feed_all cs d' of
             (Inl e, d'') \<Rightarrow> (Inl e, d'')
           | (Inr gs, d'') \<Rightarrow> (Ok (fs @ gs), d'')))"

text \<open>Between reads a working decoder holds exactly the undecodable rest.\<close>

definition decoder_inv :: "frame_decoder \<Rightarrow> bool" where
  "decoder_inv d \<longleftrightarrow>
     \<not> failed d \<longrightarrow> parse_stream (max_frame_bytes d) (buffer d) = Ok ([], buffer d)"

lemma new_decoder_inv [simp]: "decoder_inv (new_decoder n)"
  by (simp add: decoder_inv_def new_decoder_def parse_stream.simps [of n "[]"] kLengthFieldSize_def)

lemma new_decoder_simps [simp]:
  "max_frame_bytes (new_decoder n) = n" "buffer (new_decoder n) = []" "\<not> failed (new_decoder n)"
  "(new_decoder n)\<lparr>buffer := []\<rparr> = new_decoder n"
  by (simp_all add: new_decoder_def)

lemma feed_inv [inv_intros]: "decoder_inv d \<Longrightarrow> feed bs d = (r, d') \<Longrightarrow> decoder_inv d'"
  by (cases "failed d")
    (force simp: feed_def, auto simp: decoder_inv_def feed_parse dest: parse_stream_rest
      split: sum.splits prod.splits)

lemma feed_all_parse:
  assumes "\<not> failed d" "decoder_inv d"
  shows "(case feed_all cs d of (r, d') \<Rightarrow> map_sum id (\<lambda>fs. (fs, buffer d')) r) =
      parse_stream (max_frame_bytes d) (buffer d @ concat cs) \<and>
    (has_value (fst (feed_all cs d)) \<longrightarrow>
      snd (feed_all cs d) = d\<lparr>buffer := buffer (snd (feed_all cs d))\<rparr>)"
  using assms
proof (induction cs arbitrary: d)
  case Nil
  then show ?case by (simp add: decoder_inv_def)
next
  case (Cons c cs)
  note f = feed_parse [OF Cons.prems(1), of c]
  have app: "buffer d @ concat (c # cs) = (buffer d @ c) @ concat cs" by simp
  show ?case
  proof (cases "parse_stream (max_frame_bytes d) (buffer d @ c)")
    case (Inl e)
    then show ?thesis unfolding app parse_stream_append [of _ "buffer d @ c" "concat cs"] by (simp add: f)
  next
    case (Inr x)
    obtain fs r where x: "x = (fs, r)" by force
    let ?d = "d\<lparr>buffer := r\<rparr>"
    have fd: "feed c d = (Ok fs, ?d)" by (simp add: f Inr x)
    have IH: "(case feed_all cs ?d of (r, d') \<Rightarrow> map_sum id (\<lambda>fs. (fs, buffer d')) r) =
          parse_stream (max_frame_bytes d) (r @ concat cs)"
        "has_value (fst (feed_all cs ?d)) \<longrightarrow>
          snd (feed_all cs ?d) = ?d\<lparr>buffer := buffer (snd (feed_all cs ?d))\<rparr>"
      using Cons.IH [of ?d] Cons.prems feed_inv [OF Cons.prems(2) fd] by (auto simp: id_def)
    obtain r' d' where fa: "feed_all cs ?d = (r', d')" by force
    show ?thesis
      unfolding app parse_stream_append [of _ "buffer d @ c" "concat cs"] using IH(2)
      by (cases r') (auto simp: fd fa Inr x IH(1) [symmetric])
  qed
qed

lemma feed_all_new:
  "map_sum id (\<lambda>fs. (fs, buffer (snd (feed_all cs (new_decoder n)))))
     (fst (feed_all cs (new_decoder n))) = parse_stream n (concat cs)"
  using feed_all_parse [of "new_decoder n" cs] by (simp add: split_def)

text \<open>
  C4. Reassembly: however the transport cuts a sequence of encoded frames into reads, a fresh
  decoder returns exactly those frames in order and is left empty.
\<close>

theorem decoder_reassembles:
  assumes "list_all (frame_fits n) frs" "map encode_frame frs = map Ok wires"
    and "concat chunks = concat wires"
  shows "feed_all chunks (new_decoder n) = (Ok frs, new_decoder n)"
proof -
  have p: "parse_stream n (concat chunks) = Ok (frs, [])"
    using parse_stream_encoded_list [OF assms(1,2)] by (simp add: assms(3))
  obtain r d where fa: "feed_all chunks (new_decoder n) = (r, d)" by force
  show ?thesis
    using feed_all_parse [of "new_decoder n" chunks] by (cases r) (auto simp: p fa)
qed

text \<open>
  Chunk boundaries do not matter for any byte stream, well-formed or not: reading it in
  pieces returns the frames, or the framing error, that reading it at once returns.
\<close>

theorem decoder_chunking_irrelevant:
  "fst (feed_all chunks (new_decoder n)) = fst (feed (concat chunks) (new_decoder n))"
proof -
  have "map_sum id fst (parse_stream n (concat chunks)) = fst (feed_all chunks (new_decoder n))"
    by (simp add: feed_all_new [symmetric] sum.map_comp comp_def id_def sum.map_ident)
  moreover have "map_sum id fst (parse_stream n (concat chunks)) = fst (feed (concat chunks) (new_decoder n))"
    by (simp add: feed_parse split: sum.splits prod.splits)
  ultimately show ?thesis by simp
qed

theorem decoder_reassembles_witness:
  "feed_all [[0], [0, 0, 12, 0, 1, 0x81, 1, 0, 0, 0, 0, 0], [5, 0x41], [0],
       [0, 0, 0, 10, 0xFF, 0xFF, 0, 0, 0, 5, 0, 0, 0, 6]] (new_decoder 64) =
     (Ok [make_data_frame 1 1 1 True 5 [0x41, 0], make_control_frame kLinktestReq 6 0 0],
      new_decoder 64)"
proof -
  have "map encode_frame [make_data_frame 1 1 1 True 5 [0x41, 0], make_control_frame kLinktestReq 6 0 0] =
      map Ok [[0, 0, 0, 12, 0, 1, 0x81, 1, 0, 0, 0, 0, 0, 5, 0x41, 0],
        [0, 0, 0, 10, 0xFF, 0xFF, 0, 0, 0, 5, 0, 0, 0, 6]]"
    by (simp add: encode_frame_def kHeaderSize_def make_data_frame_def make_control_frame_def
        put_be16_eq put_be32_eq be_bytes_numeral kControlSessionId_def)
  then show ?thesis
    by (rule decoder_reassembles [rotated])
      (simp_all add: frame_fits_def kHeaderSize_def make_data_frame_def make_control_frame_def)
qed

lemma feed_cases:
  assumes "feed bs d = (r, d')"
  obtains (stuck) "failed d" "r = Inl (dec_error d)" "d' = d"
  | (error) e where "\<not> failed d" "r = Inl e"
      "d' = d\<lparr>buffer := buffer d @ bs, failed := True, dec_error := e\<rparr>"
  | (frames) frs rest where "\<not> failed d" "r = Ok frs" "d' = d\<lparr>buffer := rest\<rparr>"
      "parse_stream (max_frame_bytes d) (buffer d @ bs) = Ok (frs, rest)"
proof (cases "failed d")
  case True
  then have "r = Inl (dec_error d) \<and> d' = d" using assms by (auto simp: feed_def)
  with True stuck show thesis by blast
next
  case False
  note f = assms [unfolded feed_parse [OF False]]
  show thesis
  proof (cases "parse_stream (max_frame_bytes d) (buffer d @ bs)")
    case (Inl e)
    with f False show thesis by (intro error) auto
  next
    case (Inr x)
    obtain frs rest where x: "x = (frs, rest)" by force
    with f Inr False show thesis by (intro frames) auto
  qed
qed

lemma decoder_bounded_parts:
  assumes "feed bs d = (r, d')"
  shows "has_value r \<Longrightarrow> length (buffer d') < kLengthFieldSize + max_frame_bytes d"
    and "r = Ok frs \<Longrightarrow> fr \<in> set frs \<Longrightarrow> kHeaderSize + length (fbody fr) \<le> max_frame_bytes d"
    and "\<not> has_value r \<Longrightarrow> failed d' \<and> feed bs' d' = (r, d')"
    and "max_frame_bytes d' = max_frame_bytes d"
proof -
  show "has_value r \<Longrightarrow> length (buffer d') < kLengthFieldSize + max_frame_bytes d"
    using assms by (cases rule: feed_cases) (auto dest: parse_stream_rest)
  show "r = Ok frs \<Longrightarrow> fr \<in> set frs \<Longrightarrow> kHeaderSize + length (fbody fr) \<le> max_frame_bytes d"
    using assms by (cases rule: feed_cases) (auto dest: parse_stream_rest)
  show "\<not> has_value r \<Longrightarrow> failed d' \<and> feed bs' d' = (r, d')"
    using assms by (cases rule: feed_cases) (auto simp: feed_def)
  show "max_frame_bytes d' = max_frame_bytes d"
    using assms by (cases rule: feed_cases) auto
qed

text \<open>
  C5. A hostile or broken peer cannot make the decoder grow or resynchronise on garbage: after
  a successful read less than one maximal frame is held back and every returned frame respects
  the limit; after a framing error the decoder is failed, and a failed decoder answers every
  later read with that error and changes no more.
\<close>

theorem decoder_bounded:
  assumes "feed bs d = (r, d')"
  shows "(has_value r \<longrightarrow> length (buffer d') < kLengthFieldSize + max_frame_bytes d) \<and>
    (r = Ok frs \<longrightarrow> fr \<in> set frs \<longrightarrow> kHeaderSize + length (fbody fr) \<le> max_frame_bytes d) \<and>
    (\<not> has_value r \<longrightarrow> failed d' \<and> feed bs' d' = (r, d')) \<and>
    (max_frame_bytes d' = max_frame_bytes d)"
  by (rule conjI [OF _ conjI [OF _ conjI]]; (intro impI)?; rule decoder_bounded_parts [OF assms]; assumption?)

theorem decoder_bounded_witness:
  "failed (snd (feed [0, 0, 0, 3, 7] (new_decoder 64))) \<and>
   feed [0, 0, 0, 10] (snd (feed [0, 0, 0, 3, 7] (new_decoder 64))) =
     feed [0, 0, 0, 3, 7] (new_decoder 64) \<and>
   length (buffer (snd (feed [0, 0, 0, 14, 7] (new_decoder 64)))) < 68"
proof -
  have f: "\<not> has_value (fst (feed [0, 0, 0, 3, 7] (new_decoder 64)))"
    "has_value (fst (feed [0, 0, 0, 14, 7] (new_decoder 64)))"
    by code_simp+
  show ?thesis
    using f decoder_bounded [of "[0, 0, 0, 3, 7]" "new_decoder 64", OF prod.collapse [symmetric]]
      decoder_bounded [of "[0, 0, 0, 14, 7]" "new_decoder 64", OF prod.collapse [symmetric]]
    by (simp add: kLengthFieldSize_def)
qed

section \<open>A message over the wire\<close>

lemma header_of_data_frame:
  assumes "s < 128"
  shows "header_stream (hdr (make_data_frame sid s f w sys b)) = s"
    and "header_function (hdr (make_data_frame sid s f w sys b)) = f"
    and "header_w_bit (hdr (make_data_frame sid s f w sys b)) = w"
proof -
  have m: "s = take_bit 7 s"
    using assms
    by (simp add: take_bit_eq_mod word_unat_eq_iff unat_mod_distrib word_less_nat_alt)
  have hi: "\<not> bit s 7" using m by (metis bit_take_bit_iff less_irrefl)
  have lo: "s AND 0x7F = s" using m by (simp add: take_bit_eq_mask mask_eq_exp_minus_1)
  have e: "s AND 0x80 = 0" using hi and_exp_eq_0_iff_not_bit [of s 7] by simp
  show "header_stream (hdr (make_data_frame sid s f w sys b)) = s"
    by (simp add: header_stream_def make_data_frame_def lo bit.conj_disj_distrib2)
  show "header_function (hdr (make_data_frame sid s f w sys b)) = f"
    by (simp add: header_function_def make_data_frame_def)
  show "header_w_bit (hdr (make_data_frame sid s f w sys b)) = w"
    by (simp add: header_w_bit_def make_data_frame_def lo e bit.conj_disj_distrib2)
qed

definition wire_message :: "secs_message \<Rightarrow> secs_message" where
  "wire_message m = m\<lparr>body := map_option wire_norm (body m)\<rparr>"

lemma to_message_data_frame:
  assumes "stream m < 128" "case body m of None \<Rightarrow> bs = [] | Some i \<Rightarrow> encode i = Ok bs"
  shows "to_message (make_data_frame sid (stream m) (func m) (w_bit m) sys bs) = Ok (wire_message m)"
proof -
  have st: "stype (hdr (make_data_frame sid s f w sys b)) = stype_byte kData"
    "fbody (make_data_frame sid s f w sys b) = b" for s f w b
    by (simp_all add: make_data_frame_def)
  show ?thesis
    using assms encode_nonempty
    by (cases m; cases "body m")
      (auto simp: to_message_def st header_of_data_frame wire_message_def decode_encoded_body)
qed

text \<open>
  End to end over the transport: a message whose stream fits seven bits and whose body
  encodes, sent as a data frame and received in any pieces, is decoded to the same message
  (with BOOLEAN bytes normalised to 0 and 1).
\<close>

theorem message_over_the_wire:
  assumes "stream m < 128" "case body m of None \<Rightarrow> bs = [] | Some i \<Rightarrow> encode i = Ok bs"
    and "fr = make_data_frame sid (stream m) (func m) (w_bit m) sys bs"
    and "frame_fits n fr" "encode_frame fr = Ok wire" "concat chunks = wire"
  shows "\<exists>fr'. feed_all chunks (new_decoder n) = (Ok [fr'], new_decoder n) \<and>
    to_message fr' = Ok (wire_message m) \<and> system_bytes (hdr fr') = sys \<and> session_id (hdr fr') = sid"
proof -
  have p: "parse_stream n (concat chunks) = Ok ([fr], [])"
    using parse_stream_encoded_list [of n "[fr]" "[wire]"] assms(4-6) by simp
  obtain r d where fa: "feed_all chunks (new_decoder n) = (r, d)" by force
  have "feed_all chunks (new_decoder n) = (Ok [fr], new_decoder n)"
    using feed_all_parse [of "new_decoder n" chunks] by (cases r) (auto simp: p fa)
  moreover have "to_message fr = Ok (wire_message m)"
    unfolding assms(3) by (rule to_message_data_frame [OF assms(1,2)])
  ultimately show ?thesis by (simp add: assms(3) make_data_frame_def)
qed

theorem message_over_the_wire_witness:
  "\<exists>fr. feed_all [[0, 0, 0, 33, 0, 1, 0x86, 11, 0, 0], [0, 0, 0, 9] @ sample_bytes] (new_decoder 100) =
      (Ok [fr], new_decoder 100) \<and>
    to_message fr = Ok \<lparr>stream = 6, func = 11, w_bit = True, body = Some (wire_norm sample_item)\<rparr> \<and>
    system_bytes (hdr fr) = 9 \<and> session_id (hdr fr) = 1"
  using message_over_the_wire [of "\<lparr>stream = 6, func = 11, w_bit = True, body = Some sample_item\<rparr>"
      sample_bytes _ 1 9 100 "[0, 0, 0, 33, 0, 1, 0x86, 11, 0, 0, 0, 0, 0, 9] @ sample_bytes"
      "[[0, 0, 0, 33, 0, 1, 0x86, 11, 0, 0], [0, 0, 0, 9] @ sample_bytes]", OF _ _ refl]
    encode_sample
  by (simp add: frame_fits_def encode_frame_def kHeaderSize_def make_data_frame_def put_be16_eq
      put_be32_eq be_bytes_numeral wire_message_def sample_bytes_def)

end
