(* ===== verification/Event_Machine.thy ===== *)
theory Event_Machine
  imports Prelude
begin

text \<open>
  The shape most components of the program share: an object whose methods are called one after
  the other, each returning outputs. \<open>reach\<close> is reachability of a state by such calls, \<open>run\<close>
  a concrete sequence of them. The locales state what a component has to show for its
  invariant and for its progress, and what it gets for it.
\<close>

text \<open>\<open>None\<close> stands for a call that never returns.\<close>

inductive reach :: "('s \<Rightarrow> bool) \<Rightarrow> ('e \<Rightarrow> 's \<Rightarrow> ('s \<times> 'o) option) \<Rightarrow> 's \<Rightarrow> bool"
  for init step where
  reach_init: "init s \<Longrightarrow> reach init step s"
| reach_step: "reach init step s \<Longrightarrow> step e s = Some (s', out) \<Longrightarrow> reach init step s'"

fun run :: "('e \<Rightarrow> 's \<Rightarrow> ('s \<times> 'o) option) \<Rightarrow> 'e list \<Rightarrow> 's \<Rightarrow> ('s \<times> 'o list) option" where
  "run step [] s = Some (s, [])"
| "run step (e # es) s =
     (case step e s of
        None \<Rightarrow> None
      | Some (s', out) \<Rightarrow> map_option (\<lambda>(s'', outs). (s'', out # outs)) (run step es s'))"

lemma run_reach: "reach init step s \<Longrightarrow> run step es s = Some (s', outs) \<Longrightarrow> reach init step s'"
  by (induction es arbitrary: s outs) (auto split: option.splits intro: reach_step)

lemma run_append:
  "run step (es @ fs) s =
     (case run step es s of
        None \<Rightarrow> None
      | Some (s', outs) \<Rightarrow> map_option (\<lambda>(s'', outs'). (s'', outs @ outs')) (run step fs s'))"
  by (induction es arbitrary: s) (auto split: option.splits simp: option.map_comp comp_def split_def
      option.map_ident)

lemma length_run: "run step es s = Some (s', outs) \<Longrightarrow> length outs = length es"
  by (induction es arbitrary: s s' outs) (auto split: option.splits)

locale event_machine =
  fixes init :: "'s \<Rightarrow> bool"
    and step :: "'e \<Rightarrow> 's \<Rightarrow> ('s \<times> 'o) option"
    and inv :: "'s \<Rightarrow> bool"
  assumes inv_init: "init s \<Longrightarrow> inv s"
    and inv_step: "inv s \<Longrightarrow> step e s = Some (s', out) \<Longrightarrow> inv s'"
begin

lemma reach_inv: "reach init step s \<Longrightarrow> inv s"
  by (induction rule: reach.induct) (auto intro: inv_init inv_step)

text \<open>A property of single calls holds for every call of a run.\<close>

lemma run_outputs:
  assumes "\<And>s e s' out. inv s \<Longrightarrow> step e s = Some (s', out) \<Longrightarrow> P e out"
    and "inv s" "run step es s = Some (s', outs)"
  shows "list_all2 P es outs"
  using assms(2,3)
proof (induction es arbitrary: s outs)
  case (Cons e es)
  then show ?case using assms(1) by (fastforce split: option.splits dest: inv_step)
qed simp

end

locale live_machine = event_machine +
  assumes step_returns: "inv s \<Longrightarrow> step e s \<noteq> None"
begin

lemma run_returns: "inv s \<Longrightarrow> \<exists>s' outs. run step es s = Some (s', outs) \<and> inv s'"
proof (induction es arbitrary: s)
  case (Cons e es)
  then obtain s1 o1 where "step e s = Some (s1, o1)" using step_returns by fastforce
  with Cons inv_step [OF Cons.prems this] show ?case by fastforce
qed simp

end

end
