(* ===== verification/Hsms_Session.thy ===== *)
theory Hsms_Session
  imports Hsms_Frame Std_Map Event_Machine
begin

text \<open>
  The HSMS session, \<^verbatim>\<open>src/secsgem/hsms/\<close>: the connection state machine
  (\<^verbatim>\<open>connection_state.cpp\<close>), the timers (\<^verbatim>\<open>timers.hpp\<close>) and the session itself
  (\<^verbatim>\<open>session.cpp\<close>). Operations take the session and return it updated; what a C++ method writes
  to its \<^verbatim>\<open>SessionOutput\<close> is threaded as a second value. A time point is a number of
  nanoseconds, a duration a number of milliseconds, both unbounded.
\<close>

section \<open>Connection state machine\<close>

datatype connection_state = kNotConnected | kNotSelected | kSelected

datatype connection_trigger = kConnect | kSelect | kDeselect | kDisconnect | kT7Timeout

fun connection_state_to_string :: "connection_state \<Rightarrow> string" where
  "connection_state_to_string kNotConnected = ''NOT_CONNECTED''"
| "connection_state_to_string kNotSelected = ''NOT_SELECTED''"
| "connection_state_to_string kSelected = ''SELECTED''"

fun connection_trigger_to_string :: "connection_trigger \<Rightarrow> string" where
  "connection_trigger_to_string kConnect = ''Connect''"
| "connection_trigger_to_string kSelect = ''Select''"
| "connection_trigger_to_string kDeselect = ''Deselect''"
| "connection_trigger_to_string kDisconnect = ''Disconnect''"
| "connection_trigger_to_string kT7Timeout = ''T7Timeout''"

definition kReasonIllegalConnectionTransition :: int where
  "kReasonIllegalConnectionTransition = 450"

text \<open>\<^verbatim>\<open>legal\<close> and \<^verbatim>\<open>next\<close> of the switch.\<close>

fun connection_table :: "connection_state \<Rightarrow> connection_trigger \<Rightarrow> bool \<times> connection_state" where
  "connection_table st kConnect = (st = kNotConnected, kNotSelected)"
| "connection_table st kSelect = (st = kNotSelected, kSelected)"
| "connection_table st kDeselect = (st = kSelected, kNotSelected)"
| "connection_table st kDisconnect = (st \<noteq> kNotConnected, kNotConnected)"
| "connection_table st kT7Timeout = (st = kNotSelected, kNotConnected)"

definition connection_apply ::
    "connection_trigger \<Rightarrow> connection_state \<Rightarrow> connection_state result \<times> connection_state" where
  "connection_apply tr st =
     (case connection_table st tr of
        (legal, nxt) \<Rightarrow>
          if \<not> legal
          then (Err kReasonIllegalConnectionTransition
                 (connection_trigger_to_string tr @ '' is not allowed in ''
                    @ connection_state_to_string st), st)
          else (Ok nxt, nxt))"

section \<open>Timers\<close>

type_synonym timer = "int option"

definition add_ms :: "int \<Rightarrow> int \<Rightarrow> int" where
  "add_ms now d = now + d * 1000000"

definition timer_start :: "int \<Rightarrow> int \<Rightarrow> timer" where
  "timer_start now d = Some (add_ms now d)"

definition timer_stop :: timer where
  "timer_stop = None"

definition timer_running :: "timer \<Rightarrow> bool" where
  "timer_running t \<longleftrightarrow> t \<noteq> None"

fun timer_expired :: "timer \<Rightarrow> int \<Rightarrow> bool" where
  "timer_expired None now = False"
| "timer_expired (Some deadline) now = (now \<ge> deadline)"

section \<open>The session\<close>

definition kRejectSTypeNotSupported :: byte where "kRejectSTypeNotSupported = 1"
definition kRejectPTypeNotSupported :: byte where "kRejectPTypeNotSupported = 2"
definition kRejectTransactionNotOpen :: byte where "kRejectTransactionNotOpen = 3"
definition kRejectEntityNotSelected :: byte where "kRejectEntityNotSelected = 4"

definition kSelectOk :: byte where "kSelectOk = 0"
definition kSelectAlreadyActive :: byte where "kSelectAlreadyActive = 1"
definition kDeselectOk :: byte where "kDeselectOk = 0"
definition kDeselectNotSelected :: byte where "kDeselectNotSelected = 1"

definition kErrNotSelected :: int where "kErrNotSelected = 410"
definition kErrTooManyTransactions :: int where "kErrTooManyTransactions = 411"
definition kErrMessageTooLarge :: int where "kErrMessageTooLarge = 412"

record session_config =
  cfg_t3 :: int
  cfg_t6 :: int
  cfg_t7 :: int
  cfg_t8 :: int
  linktest_interval :: int
  cfg_max_frame_bytes :: nat
  max_open_transactions :: nat
  device_id :: u16
  first_system_bytes :: u32

definition default_session_config :: session_config where
  "default_session_config =
     \<lparr>cfg_t3 = 45000, cfg_t6 = 5000, cfg_t7 = 10000, cfg_t8 = 5000, linktest_interval = 60000,
      cfg_max_frame_bytes = 1048576, max_open_transactions = 256, device_id = 0,
      first_system_bytes = 1\<rparr>"

record delivery =
  dlv_frame :: frame
  reply_to :: "u32 option"

record session_output =
  to_send :: "byte list list"
  deliveries :: "delivery list"
  timed_out :: "u32 list"
  close :: bool
  close_reason :: string

definition no_output :: session_output where
  "no_output = \<lparr>to_send = [], deliveries = [], timed_out = [], close = False, close_reason = []\<rparr>"

record session =
  config :: session_config
  fsm :: connection_state
  decoder :: frame_decoder
  t7 :: timer
  t8 :: timer
  t6 :: timer
  last_activity :: int
  pending_linktest :: "u32 option"
  transactions :: "(u32, int) omap"
  next_system_bytes :: u32

definition new_session :: "session_config \<Rightarrow> session" where
  "new_session cfg =
     \<lparr>config = cfg, fsm = kNotConnected, decoder = new_decoder (cfg_max_frame_bytes cfg),
      t7 = None, t8 = None, t6 = None, last_activity = 0, pending_linktest = None,
      transactions = [], next_system_bytes = first_system_bytes cfg\<rparr>"

definition reset_link_state :: "session \<Rightarrow> session" where
  "reset_link_state s =
     s\<lparr>t7 := timer_stop, t8 := timer_stop, t6 := timer_stop, pending_linktest := None,
       transactions := [], decoder := new_decoder (cfg_max_frame_bytes (config s))\<rparr>"

definition on_connect :: "int \<Rightarrow> session \<Rightarrow> session \<times> session_output" where
  "on_connect now s =
     (case connection_apply kConnect (fsm s) of
        (Inl _, _) \<Rightarrow> (s, no_output)
      | (Inr _, st) \<Rightarrow>
          let s = reset_link_state (s\<lparr>fsm := st\<rparr>)
          in (s\<lparr>last_activity := now, t7 := timer_start now (cfg_t7 (config s))\<rparr>, no_output))"

definition on_disconnect :: "session \<Rightarrow> session" where
  "on_disconnect s =
     (case connection_apply kDisconnect (fsm s) of
        (Inl _, _) \<Rightarrow> s
      | (Inr _, st) \<Rightarrow> reset_link_state (s\<lparr>fsm := st\<rparr>))"

definition close_connection ::
    "string \<Rightarrow> session \<times> session_output \<Rightarrow> session \<times> session_output" where
  "close_connection why = (\<lambda>(s, out). (on_disconnect s, out\<lparr>close := True, close_reason := why\<rparr>))"

text \<open>
  \<^verbatim>\<open>.value()\<close> of the encoded control frame: the encoder cannot fail on an empty body
  (\<open>control_frame_encodes\<close>), so the empty list of the error branch is never sent.
\<close>

definition send_control ::
    "stype \<Rightarrow> u32 \<Rightarrow> byte \<Rightarrow> byte \<Rightarrow> session_output \<Rightarrow> session_output" where
  "send_control st sys b2 b3 out =
     (case encode_frame (make_control_frame st sys b2 b3) of
        Inl _ \<Rightarrow> out
      | Inr bs \<Rightarrow> out\<lparr>to_send := to_send out @ [bs]\<rparr>)"

definition reject :: "frame \<Rightarrow> byte \<Rightarrow> session_output \<Rightarrow> session_output" where
  "reject offending rsn out =
     (let what = (if rsn = kRejectPTypeNotSupported then ptype (hdr offending)
                  else stype (hdr offending))
      in send_control kRejectReq (system_bytes (hdr offending)) what rsn out)"

fun handle_stype ::
    "int \<Rightarrow> frame \<Rightarrow> stype \<Rightarrow> session \<times> session_output \<Rightarrow> session \<times> session_output" where
  "handle_stype now fr kData (s, out) =
     (if fsm s \<noteq> kSelected then (s, reject fr kRejectEntityNotSelected out)
      else let sys = system_bytes (hdr fr)
           in if header_function (hdr fr) mod 2 = 0 \<and> omap_find (transactions s) sys \<noteq> None
              then (s\<lparr>transactions := omap_erase sys (transactions s)\<rparr>,
                    out\<lparr>deliveries := deliveries out @ [\<lparr>dlv_frame = fr, reply_to = Some sys\<rparr>]\<rparr>)
              else (s, out\<lparr>deliveries := deliveries out @ [\<lparr>dlv_frame = fr, reply_to = None\<rparr>]\<rparr>))"
| "handle_stype now fr kSelectReq (s, out) =
     (let sys = system_bytes (hdr fr)
      in if fsm s = kNotSelected
         then (s\<lparr>fsm := snd (connection_apply kSelect (fsm s)), t7 := timer_stop\<rparr>,
               send_control kSelectRsp sys 0 kSelectOk out)
         else (s, send_control kSelectRsp sys 0 kSelectAlreadyActive out))"
| "handle_stype now fr kDeselectReq (s, out) =
     (let sys = system_bytes (hdr fr)
      in if fsm s = kSelected
         then (s\<lparr>fsm := snd (connection_apply kDeselect (fsm s)), transactions := [],
                 t7 := timer_start now (cfg_t7 (config s))\<rparr>,
               send_control kDeselectRsp sys 0 kDeselectOk out)
         else (s, send_control kDeselectRsp sys 0 kDeselectNotSelected out))"
| "handle_stype now fr kLinktestReq (s, out) =
     (s, send_control kLinktestRsp (system_bytes (hdr fr)) 0 0 out)"
| "handle_stype now fr kLinktestRsp (s, out) =
     (if pending_linktest s = Some (system_bytes (hdr fr))
      then (s\<lparr>pending_linktest := None, t6 := timer_stop\<rparr>, out)
      else (s, reject fr kRejectTransactionNotOpen out))"
| "handle_stype now fr kSelectRsp (s, out) = (s, reject fr kRejectTransactionNotOpen out)"
| "handle_stype now fr kDeselectRsp (s, out) = (s, reject fr kRejectTransactionNotOpen out)"
| "handle_stype now fr kRejectReq (s, out) =
     (let sys = system_bytes (hdr fr);
          s = (if pending_linktest s = Some sys
               then s\<lparr>pending_linktest := None, t6 := timer_stop\<rparr> else s)
      in (s\<lparr>transactions := omap_erase sys (transactions s)\<rparr>, out))"
| "handle_stype now fr kSeparateReq (s, out) = close_connection ''Separate.req received'' (s, out)"

definition handle_frame ::
    "int \<Rightarrow> frame \<Rightarrow> session \<times> session_output \<Rightarrow> session \<times> session_output" where
  "handle_frame now fr = (\<lambda>(s, out).
     if ptype (hdr fr) \<noteq> 0 then (s, reject fr kRejectPTypeNotSupported out)
     else case stype_from_byte (stype (hdr fr)) of
            None \<Rightarrow> (s, reject fr kRejectSTypeNotSupported out)
          | Some st \<Rightarrow> handle_stype now fr st (s, out))"

text \<open>The frame loop of \<^verbatim>\<open>on_bytes\<close>: it stops at the first frame that closes the connection.\<close>

fun handle_frames ::
    "int \<Rightarrow> frame list \<Rightarrow> session \<times> session_output \<Rightarrow> session \<times> session_output" where
  "handle_frames now [] so = so"
| "handle_frames now (fr # frs) so =
     (let so' = handle_frame now fr so
      in if close (snd so') then so' else handle_frames now frs so')"

definition on_bytes :: "int \<Rightarrow> byte list \<Rightarrow> session \<Rightarrow> session \<times> session_output" where
  "on_bytes now bs s =
     (if fsm s = kNotConnected then (s, no_output)
      else let s = s\<lparr>last_activity := now\<rparr>
           in case feed bs (decoder s) of
                (Inl e, d) \<Rightarrow>
                  close_connection (''framing error: '' @ message e) (s\<lparr>decoder := d\<rparr>, no_output)
              | (Inr frs, d) \<Rightarrow>
                  (case handle_frames now frs (s\<lparr>decoder := d\<rparr>, no_output) of
                     (s, out) \<Rightarrow>
                       if close out then (s, out)
                       else if has_partial (decoder s)
                       then (s\<lparr>t8 := timer_start now (cfg_t8 (config s))\<rparr>, out)
                       else (s\<lparr>t8 := timer_stop\<rparr>, out)))"

text \<open>
  \<^verbatim>\<open>allocate_system_bytes\<close> is an unbounded loop; \<open>None\<close> would be the run that never returns.
\<close>

partial_function (option) allocate_loop ::
    "(u32 \<Rightarrow> bool) \<Rightarrow> u32 \<Rightarrow> (u32 \<times> u32) option" where
  "allocate_loop open_now nxt =
     (let candidate = nxt; nxt' = nxt + 1
      in if candidate = 0 then allocate_loop open_now nxt'
         else if \<not> open_now candidate then Some (candidate, nxt')
         else allocate_loop open_now nxt')"

definition system_bytes_open :: "session \<Rightarrow> u32 \<Rightarrow> bool" where
  "system_bytes_open s c \<longleftrightarrow>
     omap_find (transactions s) c \<noteq> None \<or> pending_linktest s = Some c"

definition allocate_system_bytes :: "session \<Rightarrow> (u32 \<times> session) option" where
  "allocate_system_bytes s =
     map_option (\<lambda>(c, nxt). (c, s\<lparr>next_system_bytes := nxt\<rparr>))
       (allocate_loop (system_bytes_open s) (next_system_bytes s))"

text \<open>The T3 loop of \<^verbatim>\<open>on_tick\<close>: the expired system bytes and what stays open.\<close>

fun expire_transactions :: "int \<Rightarrow> (u32, int) omap \<Rightarrow> u32 list \<times> (u32, int) omap" where
  "expire_transactions now [] = ([], [])"
| "expire_transactions now ((k, deadline) # m) =
     (case expire_transactions now m of
        (gone, kept) \<Rightarrow>
          if now \<ge> deadline then (k # gone, kept) else (gone, (k, deadline) # kept))"

definition on_tick :: "int \<Rightarrow> session \<Rightarrow> (session \<times> session_output) option" where
  "on_tick now s =
     (if fsm s = kNotConnected then Some (s, no_output)
      else if fsm s = kNotSelected \<and> timer_expired (t7 s) now
      then Some (reset_link_state (s\<lparr>fsm := snd (connection_apply kT7Timeout (fsm s))\<rparr>),
                 no_output\<lparr>close := True, close_reason := ''T7 timeout: not selected in time''\<rparr>)
      else if timer_expired (t8 s) now
      then Some (close_connection ''T8 timeout: frame stalled'' (s, no_output))
      else if pending_linktest s \<noteq> None \<and> timer_expired (t6 s) now
      then Some (close_connection ''T6 timeout: no Linktest.rsp'' (s, no_output))
      else case expire_transactions now (transactions s) of
             (gone, kept) \<Rightarrow>
               let s = s\<lparr>transactions := kept\<rparr>;
                   out = no_output\<lparr>timed_out := gone\<rparr>
               in if fsm s = kSelected \<and> pending_linktest s = None \<and>
                     now - last_activity s \<ge> linktest_interval (config s) * 1000000
                  then map_option (\<lambda>(sys, s).
                         (s\<lparr>pending_linktest := Some sys, t6 := timer_start now (cfg_t6 (config s)),
                            last_activity := now\<rparr>,
                          send_control kLinktestReq sys 0 0 out)) (allocate_system_bytes s)
                  else Some (s, out))"

definition queue_data ::
    "session_config \<Rightarrow> secs_message \<Rightarrow> u32 \<Rightarrow> session_output \<Rightarrow> bool result \<times> session_output" where
  "queue_data cfg m sys out =
     (case (case body m of None \<Rightarrow> Ok [] | Some i \<Rightarrow> encode i) of
        Inl e \<Rightarrow> (Inl e, out)
      | Inr bdy \<Rightarrow>
          if kHeaderSize + length bdy > cfg_max_frame_bytes cfg
          then (Err kErrMessageTooLarge ''message exceeds the maximum frame size'', out)
          else (case encode_frame (make_data_frame (device_id cfg) (stream m) (func m) (w_bit m)
                       sys bdy) of
                  Inl e \<Rightarrow> (Inl e, out)
                | Inr bs \<Rightarrow> (Ok True, out\<lparr>to_send := to_send out @ [bs]\<rparr>)))"

definition send_request ::
    "int \<Rightarrow> secs_message \<Rightarrow> session \<times> session_output
       \<Rightarrow> (u32 result \<times> session \<times> session_output) option" where
  "send_request now m = (\<lambda>(s, out).
     if fsm s \<noteq> kSelected
     then Some (Err kErrNotSelected ''data messages can only be sent while selected'', s, out)
     else if w_bit m \<and> length (transactions s) \<ge> max_open_transactions (config s)
     then Some (Err kErrTooManyTransactions ''too many open transactions'', s, out)
     else map_option (\<lambda>(sys, s).
            case queue_data (config s) m sys out of
              (Inl e, out) \<Rightarrow> (Inl e, s, out)
            | (Inr _, out) \<Rightarrow>
                let s = (if w_bit m
                         then s\<lparr>transactions :=
                                omap_put sys (add_ms now (cfg_t3 (config s))) (transactions s)\<rparr>
                         else s)
                in (Ok sys, s\<lparr>last_activity := now\<rparr>, out)) (allocate_system_bytes s))"

definition send_reply ::
    "u32 \<Rightarrow> secs_message \<Rightarrow> session \<times> session_output \<Rightarrow> bool result \<times> session \<times> session_output"
where
  "send_reply sys m = (\<lambda>(s, out).
     if fsm s \<noteq> kSelected
     then (Err kErrNotSelected ''data messages can only be sent while selected'', s, out)
     else case queue_data (config s) (m\<lparr>w_bit := False\<rparr>) sys out of (r, out) \<Rightarrow> (r, s, out))"

section \<open>Calls as events\<close>

datatype session_event =
    Connected int | Bytes int "byte list" | Tick int | Disconnected
  | Request int secs_message | Reply u32 secs_message

fun session_step :: "session_event \<Rightarrow> session \<Rightarrow> (session \<times> session_output) option" where
  "session_step (Connected now) s = Some (on_connect now s)"
| "session_step (Bytes now bs) s = Some (on_bytes now bs s)"
| "session_step (Tick now) s = on_tick now s"
| "session_step Disconnected s = Some (on_disconnect s, no_output)"
| "session_step (Request now m) s = map_option snd (send_request now m (s, no_output))"
| "session_step (Reply sys m) s = Some (snd (send_reply sys m (s, no_output)))"

text \<open>The open set must leave the generator a value to find.\<close>

definition session_config_ok :: "session_config \<Rightarrow> bool" where
  "session_config_ok cfg \<longleftrightarrow> max_open_transactions cfg + 3 \<le> 2 ^ 32"

definition session_init :: "session \<Rightarrow> bool" where
  "session_init s \<longleftrightarrow> (\<exists>cfg. s = new_session cfg \<and> session_config_ok cfg)"

section \<open>Invariant\<close>

text \<open>The transaction table: ordered, bounded, without 0, and disjoint from the linktest.\<close>

definition tx_inv :: "session \<Rightarrow> bool" where
  "tx_inv s \<longleftrightarrow>
     omap_inv (transactions s) \<and>
     (transactions s \<noteq> [] \<longrightarrow> fsm s = kSelected) \<and>
     length (transactions s) \<le> max_open_transactions (config s) \<and>
     0 \<notin> omap_keys (transactions s) \<and> pending_linktest s \<noteq> Some 0 \<and>
     (\<forall>p. pending_linktest s = Some p \<longrightarrow> p \<notin> omap_keys (transactions s))"

text \<open>Each timer runs exactly while its condition holds.\<close>

definition timer_inv :: "session \<Rightarrow> bool" where
  "timer_inv s \<longleftrightarrow>
     (timer_running (t7 s) \<longleftrightarrow> fsm s = kNotSelected) \<and>
     (timer_running (t6 s) \<longleftrightarrow> pending_linktest s \<noteq> None)"

definition t8_inv :: "session \<Rightarrow> bool" where
  "t8_inv s \<longleftrightarrow> (timer_running (t8 s) \<longleftrightarrow> has_partial (decoder s))"

definition link_inv :: "session \<Rightarrow> bool" where
  "link_inv s \<longleftrightarrow>
     (fsm s = kNotConnected \<longrightarrow> pending_linktest s = None \<and> buffer (decoder s) = []) \<and>
     \<not> failed (decoder s) \<and> decoder_inv (decoder s) \<and>
     max_frame_bytes (decoder s) = cfg_max_frame_bytes (config s)"

definition session_inv :: "session \<Rightarrow> bool" where
  "session_inv s \<longleftrightarrow>
     session_config_ok (config s) \<and> tx_inv s \<and> timer_inv s \<and> t8_inv s \<and> link_inv s"

lemmas session_inv_defs = tx_inv_def timer_inv_def t8_inv_def link_inv_def

lemmas timer_defs [simp] = timer_start_def timer_stop_def timer_running_def

lemma tx_inv_erase [inv_intros]:
  "tx_inv s \<Longrightarrow> tx_inv (s\<lparr>transactions := omap_erase k (transactions s)\<rparr>)"
  using length_omap_erase [of k "transactions s"]
  by (auto simp: tx_inv_def omap_inv_erase)

text \<open>A link that was reset and left unconnected satisfies everything.\<close>

lemma reset_link_state_inv [inv_intros]:
  "session_config_ok (config s) \<Longrightarrow> session_inv (reset_link_state (s\<lparr>fsm := kNotConnected\<rparr>))"
  by (simp add: session_inv_def session_inv_defs reset_link_state_def has_partial_def)

lemma on_disconnect_eq:
  "on_disconnect s =
     (if fsm s = kNotConnected then s else reset_link_state (s\<lparr>fsm := kNotConnected\<rparr>))"
  by (simp add: on_disconnect_def connection_apply_def)

lemma on_disconnect_inv [inv_intros]: "session_inv s \<Longrightarrow> session_inv (on_disconnect s)"
  using reset_link_state_inv [of s]
  by (cases "fsm s") (simp_all add: on_disconnect_eq session_inv_def)

lemma new_session_inv: "session_config_ok cfg \<Longrightarrow> session_inv (new_session cfg)"
  by (simp add: session_inv_def session_inv_defs new_session_def has_partial_def)

lemma on_connect_inv [inv_intros]: "session_inv s \<Longrightarrow> session_inv (fst (on_connect now s))"
  by (simp add: on_connect_def connection_apply_def session_inv_def session_inv_defs Let_def
      reset_link_state_def has_partial_def)

lemma send_control_simps [simp]:
  "deliveries (send_control st sys b2 b3 out) = deliveries out"
  "timed_out (send_control st sys b2 b3 out) = timed_out out"
  "close (send_control st sys b2 b3 out) = close out"
  by (auto simp: send_control_def split: sum.splits)

lemma reject_simps [simp]:
  "deliveries (reject fr rsn out) = deliveries out"
  "timed_out (reject fr rsn out) = timed_out out"
  "close (reject fr rsn out) = close out"
  by (simp_all add: reject_def Let_def)

text \<open>
  What one frame keeps while the connection stays open; T8 is only settled at the end of the
  read, so it is not part of it.
\<close>

definition frame_inv :: "session \<Rightarrow> bool" where
  "frame_inv s \<longleftrightarrow> session_config_ok (config s) \<and> tx_inv s \<and> timer_inv s \<and> link_inv s"

lemma session_inv_frame_inv: "session_inv s \<longleftrightarrow> frame_inv s \<and> t8_inv s"
  by (auto simp: session_inv_def frame_inv_def)

lemma frame_inv_erase [inv_intros]:
  "frame_inv s \<Longrightarrow> frame_inv (s\<lparr>transactions := omap_erase k (transactions s)\<rparr>)"
  using tx_inv_erase [of s k] by (simp add: frame_inv_def timer_inv_def link_inv_def)

lemma frame_inv_linktest_done [inv_intros]:
  "frame_inv s \<Longrightarrow> frame_inv (s\<lparr>pending_linktest := None, t6 := None\<rparr>)"
  by (simp add: frame_inv_def session_inv_defs)

definition frame_post :: "session \<Rightarrow> session_output \<Rightarrow> bool" where
  "frame_post s out \<longleftrightarrow>
     frame_inv s \<and>
     (if close out then session_inv s \<and> fsm s = kNotConnected else fsm s \<noteq> kNotConnected)"

lemma handle_stype_inv:
  assumes "frame_inv s" "fsm s \<noteq> kNotConnected" "\<not> close out" "handle_stype now fr st (s, out) = (s', out')"
  shows "frame_post s' out'"
proof (cases st)
  case kSeparateReq
  then show ?thesis
    using assms reset_link_state_inv [of s]
    by (auto simp: frame_post_def close_connection_def on_disconnect_eq frame_inv_def session_inv_def
        reset_link_state_def)
next
  case kRejectReq
  then show ?thesis
    using assms frame_inv_erase [OF assms(1)] frame_inv_erase [OF frame_inv_linktest_done [OF assms(1)]]
    by (cases "pending_linktest s = Some (system_bytes (hdr fr))") (auto simp: frame_post_def Let_def)
next
  case kData
  then show ?thesis
    using assms frame_inv_erase [OF assms(1)] by (auto simp: frame_post_def Let_def split: if_splits)
next
  case kLinktestRsp
  then show ?thesis
    using assms frame_inv_linktest_done [OF assms(1)] by (auto simp: frame_post_def split: if_splits)
qed (use assms in \<open>auto simp: frame_post_def frame_inv_def session_inv_defs connection_apply_def Let_def split: if_splits\<close>)

lemma handle_frame_inv:
  assumes "frame_inv s" "fsm s \<noteq> kNotConnected" "\<not> close out" "handle_frame now fr (s, out) = (s', out')"
  shows "frame_post s' out'"
proof (cases "ptype (hdr fr) = 0 \<and> stype_from_byte (stype (hdr fr)) \<noteq> None")
  case True
  then show ?thesis
    using assms(4) handle_stype_inv [OF assms(1-3)] by (auto simp: handle_frame_def)
next
  case False
  then show ?thesis
    using assms by (auto simp: handle_frame_def frame_post_def split: if_splits)
qed

lemma handle_frames_inv:
  assumes "frame_inv s" "fsm s \<noteq> kNotConnected" "\<not> close out" "handle_frames now frs (s, out) = (s', out')"
  shows "frame_post s' out'"
  using assms
proof (induction frs arbitrary: s out)
  case (Cons fr frs)
  obtain s1 o1 where 1: "handle_frame now fr (s, out) = (s1, o1)" by force
  show ?case
    using handle_frame_inv [OF Cons.prems(1-3) 1] Cons.IH [of s1 o1] Cons.prems(4)
    by (auto simp: 1 Let_def frame_post_def split: if_splits)
qed (simp add: frame_post_def)

lemma frame_inv_fed:
  assumes "frame_inv s" "feed bs (decoder s) = (Ok frs, d)" "fsm s \<noteq> kNotConnected"
  shows "frame_inv (s\<lparr>last_activity := now, decoder := d\<rparr>)"
proof -
  have "decoder_inv d" using assms feed_inv by (auto simp: frame_inv_def link_inv_def)
  moreover have "\<not> failed d \<and> max_frame_bytes d = max_frame_bytes (decoder s)"
    using assms(2) by (cases rule: feed_cases) auto
  ultimately show ?thesis
    using assms(1,3) by (simp add: frame_inv_def session_inv_defs)
qed

lemma on_bytes_inv [inv_intros]:
  assumes "session_inv s"
  shows "session_inv (fst (on_bytes now bs s))"
proof (cases "fsm s = kNotConnected")
  case True
  then show ?thesis using assms by (simp add: on_bytes_def)
next
  case False
  have fi: "frame_inv s" and ok: "session_config_ok (config s)"
    using assms by (auto simp: frame_inv_def session_inv_def)
  obtain r d where f: "feed bs (decoder s) = (r, d)" by force
  show ?thesis
  proof (cases r)
    case (Inl e)
    then show ?thesis
      using False ok f reset_link_state_inv [of "s\<lparr>last_activity := now, decoder := d\<rparr>"]
      by (simp add: on_bytes_def close_connection_def on_disconnect_eq)
  next
    case (Inr frs)
    obtain s' out' where h: "handle_frames now frs (s\<lparr>last_activity := now, decoder := d\<rparr>, no_output) = (s', out')"
      by force
    have "frame_post s' out'"
      using handle_frames_inv [OF frame_inv_fed [OF fi _ False] _ _ h] f False Inr
      by (simp add: no_output_def)
    moreover have "frame_inv s' \<Longrightarrow> frame_inv (s'\<lparr>t8 := x\<rparr>)" for x
      by (simp add: frame_inv_def session_inv_defs)
    ultimately show ?thesis
      using False f Inr h
      by (auto simp: on_bytes_def Let_def frame_post_def session_inv_frame_inv t8_inv_def
          has_partial_def split: if_splits)
  qed
qed

section \<open>The system-bytes generator\<close>

lemma allocate_loop_finds:
  assumes "c = nxt + of_nat i" "c \<noteq> 0" "\<not> open_now c"
    and "\<And>j. j < i \<Longrightarrow> nxt + of_nat j = 0 \<or> open_now (nxt + of_nat j)"
  shows "allocate_loop open_now nxt = Some (c, c + 1)"
  using assms
proof (induction i arbitrary: nxt)
  case 0
  then show ?case by (subst allocate_loop.simps) (simp add: Let_def)
next
  case (Suc i)
  have "nxt = 0 \<or> open_now nxt" using Suc.prems(4) [of 0] by simp
  moreover have "allocate_loop open_now (nxt + 1) = Some (c, c + 1)"
    by (rule Suc.IH) (use Suc.prems(1-3) Suc.prems(4) [of "Suc _"] in \<open>simp_all add: ac_simps\<close>)
  ultimately show ?case by (subst allocate_loop.simps) (auto simp: Let_def)
qed

text \<open>
  Pigeonhole: among as many consecutive candidates as there are forbidden values, plus one, one
  is free.
\<close>

lemma free_candidate:
  assumes "finite A" "card A < 2 ^ 32"
  shows "\<exists>i \<le> card A. nxt + of_nat i \<notin> (A :: u32 set)"
proof (rule ccontr)
  assume "\<not> ?thesis"
  then have sub: "(\<lambda>i. nxt + of_nat i) ` {..card A} \<subseteq> A" by auto
  have "inj_on (\<lambda>i. nxt + of_nat i) {..card A}"
    using assms(2) by (intro inj_onI) (auto simp: word_of_nat_eq_iff take_bit_eq_mod)
  then have "card ((\<lambda>i. nxt + of_nat i) ` {..card A}) = Suc (card A)" by (simp add: card_image)
  with card_mono [OF assms(1) sub] show False by simp
qed

definition taken :: "session \<Rightarrow> u32 set" where
  "taken s = insert 0 (set_option (pending_linktest s) \<union> omap_keys (transactions s))"

lemma taken_iff: "c \<in> taken s \<longleftrightarrow> c = 0 \<or> system_bytes_open s c"
  by (cases "pending_linktest s") (auto simp: taken_def system_bytes_open_def omap_find_None_iff)

lemma card_taken: "card (taken s) \<le> length (transactions s) + 2"
proof -
  have "card (omap_keys (transactions s)) \<le> length (transactions s)"
    using card_image_le [of "set (transactions s)" fst] card_length [of "transactions s"] by simp
  moreover have "card (set_option (pending_linktest s)) \<le> 1"
    by (cases "pending_linktest s") auto
  ultimately show ?thesis
    using card_Un_le [of "set_option (pending_linktest s)" "omap_keys (transactions s)"]
    by (simp add: taken_def card_insert_if)
qed

lemma allocate_system_bytes_returns:
  assumes "length (transactions s) + 3 \<le> 2 ^ 32"
  shows "\<exists>i c. i \<le> length (transactions s) + 2 \<and> c = next_system_bytes s + of_nat i \<and>
    c \<notin> taken s \<and> allocate_system_bytes s = Some (c, s\<lparr>next_system_bytes := c + 1\<rparr>)"
proof -
  let ?free = "\<lambda>i. next_system_bytes s + of_nat i \<notin> taken s"
  obtain i0 where i0: "i0 \<le> card (taken s)" "?free i0"
    using free_candidate [of "taken s" "next_system_bytes s"] card_taken [of s] assms
    by (auto simp: taken_def)
  define i where "i = (LEAST i. ?free i)"
  have i: "?free i" "i \<le> i0" "\<And>j. j < i \<Longrightarrow> \<not> ?free j"
    using i0(2) LeastI [of ?free i0] Least_le [of ?free i0] not_less_Least [of _ ?free]
    unfolding i_def by auto
  then have "allocate_loop (system_bytes_open s) (next_system_bytes s) =
      Some (next_system_bytes s + of_nat i, next_system_bytes s + of_nat i + 1)"
    by (intro allocate_loop_finds) (auto simp: taken_iff)
  with i i0 card_taken [of s] show ?thesis
    by (intro exI [of _ i] exI [of _ "next_system_bytes s + of_nat i"])
      (auto simp: allocate_system_bytes_def)
qed

lemma session_inv_allocates:
  assumes "tx_inv s" "session_config_ok (config s)"
  obtains c where "c \<noteq> 0" "\<not> system_bytes_open s c"
    "allocate_system_bytes s = Some (c, s\<lparr>next_system_bytes := c + 1\<rparr>)"
  using allocate_system_bytes_returns [of s] assms
  by (auto simp: tx_inv_def session_config_ok_def taken_iff)

lemma expire_transactions_eq:
  "expire_transactions now m =
     (map fst (filter (\<lambda>e. snd e \<le> now) m), filter (\<lambda>e. now < snd e) m)"
  by (induction now m rule: expire_transactions.induct) auto

lemma omap_inv_filter: "omap_inv m \<Longrightarrow> omap_inv (filter P m)"
  by (simp add: omap_inv_def sorted_wrt_map sorted_wrt_filter)

lemma tx_inv_expired [inv_intros]:
  "tx_inv s \<Longrightarrow> tx_inv (s\<lparr>transactions := filter P (transactions s)\<rparr>)"
  using le_trans [OF length_filter_le [of P "transactions s"]]
  by (fastforce simp: tx_inv_def omap_inv_filter)

text \<open>\<open>on_tick\<close> by cases, with the generator's answer in place.\<close>

lemma on_tick_cases:
  assumes "session_inv s"
  obtains (idle) "fsm s = kNotConnected" "on_tick now s = Some (s, no_output)"
  | (closes) why where "fsm s \<noteq> kNotConnected"
      "(fsm s = kNotSelected \<and> timer_expired (t7 s) now) \<or> timer_expired (t8 s) now \<or>
       (pending_linktest s \<noteq> None \<and> timer_expired (t6 s) now)"
      "on_tick now s = Some (reset_link_state (s\<lparr>fsm := kNotConnected\<rparr>),
         no_output\<lparr>close := True, close_reason := why\<rparr>)"
  | (runs) s1 out1 where "fsm s \<noteq> kNotConnected"
      "\<not> (fsm s = kNotSelected \<and> timer_expired (t7 s) now)" "\<not> timer_expired (t8 s) now"
      "\<not> (pending_linktest s \<noteq> None \<and> timer_expired (t6 s) now)"
      "s1 = s\<lparr>transactions := filter (\<lambda>e. now < snd e) (transactions s)\<rparr>"
      "out1 = no_output\<lparr>timed_out := map fst (filter (\<lambda>e. snd e \<le> now) (transactions s))\<rparr>"
      "on_tick now s = Some (s1, out1) \<or>
       (\<exists>c. c \<noteq> 0 \<and> \<not> system_bytes_open s1 c \<and> fsm s = kSelected \<and> pending_linktest s = None \<and>
         on_tick now s = Some (s1\<lparr>next_system_bytes := c + 1, pending_linktest := Some c,
             t6 := timer_start now (cfg_t6 (config s)), last_activity := now\<rparr>,
           send_control kLinktestReq c 0 0 out1))"
proof -
  define s1 where "s1 = s\<lparr>transactions := filter (\<lambda>e. now < snd e) (transactions s)\<rparr>"
  have s1: "tx_inv s1" "session_config_ok (config s1)"
    using assms tx_inv_expired by (auto simp: s1_def session_inv_def)
  then obtain c where c: "c \<noteq> 0" "\<not> system_bytes_open s1 c"
    "allocate_system_bytes s1 = Some (c, s1\<lparr>next_system_bytes := c + 1\<rparr>)"
    using session_inv_allocates by blast
  define e7 e8 e6 where "e7 \<longleftrightarrow> fsm s = kNotSelected \<and> timer_expired (t7 s) now"
    and "e8 = timer_expired (t8 s) now"
    and "e6 \<longleftrightarrow> pending_linktest s \<noteq> None \<and> timer_expired (t6 s) now"
  consider "fsm s = kNotConnected" | "fsm s \<noteq> kNotConnected" "e7 \<or> e8 \<or> e6"
    | "fsm s \<noteq> kNotConnected" "\<not> e7" "\<not> e8" "\<not> e6" by blast
  then show thesis
  proof cases
    case 1
    then show ?thesis using idle by (simp add: on_tick_def)
  next
    case 2
    have k: "e7 \<Longrightarrow> fsm s = kNotSelected" by (simp add: e7_def)
    from 2 have "on_tick now s = Some (reset_link_state (s\<lparr>fsm := kNotConnected\<rparr>),
        no_output\<lparr>close := True, close_reason :=
          if e7 then ''T7 timeout: not selected in time''
          else if e8 then ''T8 timeout: frame stalled'' else ''T6 timeout: no Linktest.rsp''\<rparr>)"
      unfolding on_tick_def e7_def [symmetric] e8_def [symmetric] e6_def [symmetric]
      using k by (cases e7; cases e8) (simp_all add: connection_apply_def close_connection_def on_disconnect_eq)
    with 2 closes show ?thesis unfolding e7_def e8_def e6_def by blast
  next
    case 3
    let ?out = "no_output\<lparr>timed_out := map fst (filter (\<lambda>e. snd e \<le> now) (transactions s))\<rparr>"
    have "on_tick now s =
        (if fsm s = kSelected \<and> pending_linktest s = None \<and>
            now - last_activity s \<ge> linktest_interval (config s) * 1000000
         then Some (s1\<lparr>next_system_bytes := c + 1, pending_linktest := Some c,
              t6 := timer_start now (cfg_t6 (config s)), last_activity := now\<rparr>,
            send_control kLinktestReq c 0 0 ?out)
         else Some (s1, ?out))"
      using 3 c(3)
      unfolding on_tick_def e7_def [symmetric] e8_def [symmetric] e6_def [symmetric]
      by (simp add: expire_transactions_eq Let_def s1_def [symmetric])
        (simp add: s1_def)
    then have "on_tick now s = Some (s1, ?out) \<or>
       (\<exists>c. c \<noteq> 0 \<and> \<not> system_bytes_open s1 c \<and> fsm s = kSelected \<and> pending_linktest s = None \<and>
         on_tick now s = Some (s1\<lparr>next_system_bytes := c + 1, pending_linktest := Some c,
             t6 := timer_start now (cfg_t6 (config s)), last_activity := now\<rparr>,
           send_control kLinktestReq c 0 0 ?out))"
      using c by (auto simp: s1_def)
    then show ?thesis
      using runs [OF 3(1) _ _ _ s1_def refl] 3(2-4) unfolding e7_def e8_def e6_def by blast
  qed
qed

lemma on_tick_inv [inv_intros]:
  assumes "session_inv s" "on_tick now s = Some (s', out)"
  shows "session_inv s'"
  using assms(1)
proof (cases rule: on_tick_cases [where now = now])
  case idle
  then show ?thesis using assms by simp
next
  case (closes why)
  then show ?thesis using assms reset_link_state_inv [of s] by (simp add: session_inv_def)
next
  case (runs s1 out1)
  have "session_inv s1"
    using assms(1) tx_inv_expired runs(5) by (auto simp: session_inv_def timer_inv_def t8_inv_def link_inv_def)
  moreover have "session_inv (s1\<lparr>next_system_bytes := n, pending_linktest := Some c,
      t6 := Some d, last_activity := a\<rparr>)"
    if "session_inv s1" "c \<noteq> 0" "\<not> system_bytes_open s1 c" "fsm s1 = kSelected" for n c d a
    using that by (auto simp: session_inv_def session_inv_defs system_bytes_open_def omap_find_None_iff)
  ultimately show ?thesis using runs(5,7) assms(2) by auto
qed

text \<open>\<open>send_request\<close> on its success branch.\<close>

lemma send_request_Ok:
  assumes "session_inv s" "send_request now m (s, out) = Some (r, s', out')"
  shows "if has_value r
    then \<exists>c bs. r = Ok c \<and> fsm s = kSelected \<and> c \<noteq> 0 \<and> \<not> system_bytes_open s c \<and>
        (w_bit m \<longrightarrow> length (transactions s) < max_open_transactions (config s)) \<and>
        queue_data (config s) m c out = (Ok True, out') \<and> out' = out\<lparr>to_send := to_send out @ [bs]\<rparr> \<and>
        s' = s\<lparr>next_system_bytes := c + 1, last_activity := now, transactions :=
          if w_bit m then omap_put c (add_ms now (cfg_t3 (config s))) (transactions s)
          else transactions s\<rparr>
    else out' = out \<and> (\<exists>n. s' = s\<lparr>next_system_bytes := n\<rparr>)"
proof -
  obtain c where c: "c \<noteq> 0" "\<not> system_bytes_open s c"
    "allocate_system_bytes s = Some (c, s\<lparr>next_system_bytes := c + 1\<rparr>)"
    using session_inv_allocates [of s] assms(1) by (auto simp: session_inv_def)
  have n: "\<exists>n. s = s\<lparr>next_system_bytes := n\<rparr>" by (rule exI [of _ "next_system_bytes s"]) simp
  have q: "(\<exists>e. queue_data (config s) m c out = (Inl e, out)) \<or>
      (\<exists>bs. queue_data (config s) m c out = (Ok True, out\<lparr>to_send := to_send out @ [bs]\<rparr>))"
    by (auto simp: queue_data_def Err_def split: sum.splits option.splits)
  consider (refused) e where "send_request now m (s, out) = Some (Inl e, s, out)"
    | (sends) "fsm s = kSelected" "w_bit m \<longrightarrow> length (transactions s) < max_open_transactions (config s)"
    by (cases "fsm s = kSelected"; cases "w_bit m \<longrightarrow> length (transactions s) < max_open_transactions (config s)")
      (auto simp: send_request_def Err_def)
  then show ?thesis
  proof cases
    case refused
    then show ?thesis using assms(2) n by simp
  next
    case sends
    then have eq: "send_request now m (s, out) = Some (case queue_data (config s) m c out of
        (Inl e, out) \<Rightarrow> (Inl e, s\<lparr>next_system_bytes := c + 1\<rparr>, out)
      | (Inr _, out) \<Rightarrow> (Ok c, s\<lparr>next_system_bytes := c + 1, last_activity := now, transactions :=
          if w_bit m then omap_put c (add_ms now (cfg_t3 (config s))) (transactions s)
          else transactions s\<rparr>, out))"
      using c(3) by (auto simp: send_request_def Let_def split: sum.splits prod.splits)
    from q show ?thesis
    proof (elim disjE exE)
      fix bs assume "queue_data (config s) m c out = (Ok True, out\<lparr>to_send := to_send out @ [bs]\<rparr>)"
      then show ?thesis
        using assms(2) c sends unfolding eq by (auto intro!: exI [of _ c] exI [of _ bs] split del: if_split)
    qed (use assms(2) in \<open>auto simp: eq\<close>)
  qed
qed

lemma tx_inv_open [inv_intros]:
  assumes "tx_inv s" "fsm s = kSelected" "c \<noteq> 0" "\<not> system_bytes_open s c"
    and "length (transactions s) < max_open_transactions (config s)"
  shows "tx_inv (s\<lparr>next_system_bytes := n, last_activity := a, transactions := omap_put c d (transactions s)\<rparr>)"
  using assms
  by (auto simp: tx_inv_def system_bytes_open_def omap_simps)

lemma send_request_inv [inv_intros]:
  assumes "session_inv s" "send_request now m (s, out) = Some (r, s', out')"
  shows "session_inv s'"
proof -
  have tx: "tx_inv s" using assms(1) by (simp add: session_inv_def)
  have other: "session_inv t" if "tx_inv t" "config t = config s" "fsm t = fsm s" "decoder t = decoder s"
    "t7 t = t7 s" "t8 t = t8 s" "t6 t = t6 s" "pending_linktest t = pending_linktest s" for t
    using assms(1) that by (simp add: session_inv_def timer_inv_def t8_inv_def link_inv_def)
  note S = send_request_Ok [OF assms]
  show ?thesis
  proof (cases "has_value r")
    case True
    then show ?thesis
      using S tx tx_inv_open [of s] by (cases "w_bit m") (auto intro!: other, auto simp: tx_inv_def)
  next
    case False
    then show ?thesis using S tx by (auto intro!: other simp: tx_inv_def)
  qed
qed

lemma send_reply_state: "send_reply sys m (s, out) = (r, s', out') \<Longrightarrow> s' = s"
  by (auto simp: send_reply_def split: if_splits prod.splits)

lemma session_step_inv:
  assumes "session_inv s" "session_step e s = Some (s', out)"
  shows "session_inv s'"
  using assms
proof (cases e)
  case (Request now m)
  then show ?thesis using assms by (auto intro: send_request_inv)
next
  case (Reply sys m)
  then show ?thesis
    using assms send_reply_state [of sys m s no_output] by (cases "send_reply sys m (s, no_output)") auto
qed (auto dest: on_connect_inv on_bytes_inv on_disconnect_inv intro: on_tick_inv
    simp del: timer_defs, (metis on_connect_inv on_bytes_inv fst_conv)+)

lemma session_step_returns:
  assumes "session_inv s"
  shows "session_step e s \<noteq> None"
proof (cases e)
  case (Tick now)
  show ?thesis using assms by (cases rule: on_tick_cases [where now = now]) (auto simp: Tick)
next
  case (Request now m)
  have "allocate_system_bytes s \<noteq> None"
    by (rule session_inv_allocates [of s]) (use assms in \<open>simp_all add: session_inv_def\<close>)
  then show ?thesis
    by (simp add: Request send_request_def del: not_None_eq)
qed auto

interpretation hsms: live_machine session_init session_step session_inv
  using new_session_inv session_step_inv session_step_returns
  by unfold_locales (auto simp: session_init_def simp del: not_None_eq)

section \<open>What happens to a transaction\<close>

definition replies :: "session_output \<Rightarrow> u32 list" where
  "replies out = List.map_filter reply_to (deliveries out)"

lemma replies_simps [simp]:
  "replies no_output = []"
  "replies (send_control st sys b2 b3 out) = replies out"
  "replies (reject fr rsn out) = replies out"
  "replies (out\<lparr>close := b, close_reason := why\<rparr>) = replies out"
  "replies (out\<lparr>timed_out := ks\<rparr>) = replies out"
  "replies (out\<lparr>to_send := bs\<rparr>) = replies out"
  by (simp_all add: replies_def no_output_def List.map_filter_def)

lemma replies_deliver [simp]:
  "replies (out\<lparr>deliveries := deliveries out @ [d]\<rparr>) =
     replies out @ (case reply_to d of None \<Rightarrow> [] | Some k \<Rightarrow> [k])"
  by (auto simp: replies_def List.map_filter_def split: option.splits)

text \<open>The frames by which a peer ends transactions without answering them.\<close>

definition ends_transaction :: "u32 \<Rightarrow> frame \<Rightarrow> bool" where
  "ends_transaction k fr \<longleftrightarrow>
     stype (hdr fr) = stype_byte kDeselectReq \<or>
     stype (hdr fr) = stype_byte kRejectReq \<and> system_bytes (hdr fr) = k"

definition tx_keys :: "(u32, int) omap \<Rightarrow> u32 set" where
  "tx_keys m = omap_keys m"

lemma tx_keys_simps [simp]:
  "tx_keys [] = {}"
  "tx_keys (omap_erase k m) = tx_keys m - {k}"
  "tx_keys (omap_put k d m) = insert k (tx_keys m)"
  "omap_find m k = None \<longleftrightarrow> k \<notin> tx_keys m"
  by (simp_all add: tx_keys_def omap_find_None_iff)

text \<open>
  The transactions a stretch of a read closed: each was open, each is accounted for, and none
  is answered twice.
\<close>

definition closed_by ::
    "session \<Rightarrow> u32 list \<Rightarrow> frame list \<Rightarrow> session \<Rightarrow> bool" where
  "closed_by s ks frs s' \<longleftrightarrow>
     tx_keys (transactions s') \<subseteq> tx_keys (transactions s) \<and>
     set ks \<subseteq> tx_keys (transactions s) - tx_keys (transactions s') \<and> distinct ks \<and>
     (\<forall>k \<in> tx_keys (transactions s) - tx_keys (transactions s').
        k \<in> set ks \<or> fsm s' = kNotConnected \<or> (\<exists>fr \<in> set frs. ends_transaction k fr))"

lemma closed_by_trans:
  assumes "closed_by s ks frs s1" "closed_by s1 ks' frs' s2" "fsm s1 \<noteq> kNotConnected"
  shows "closed_by s (ks @ ks') (frs @ frs') s2"
proof -
  let ?K = "tx_keys (transactions s)" and ?K1 = "tx_keys (transactions s1)"
    and ?K2 = "tx_keys (transactions s2)"
  have "?K2 \<subseteq> ?K" "set (ks @ ks') \<subseteq> ?K - ?K2" "distinct (ks @ ks')"
    using assms unfolding closed_by_def by auto
  moreover have "k \<in> set (ks @ ks') \<or> fsm s2 = kNotConnected \<or>
      (\<exists>fr \<in> set (frs @ frs'). ends_transaction k fr)" if "k \<in> ?K - ?K2" for k
    using assms that unfolding closed_by_def by (cases "k \<in> ?K1") auto
  ultimately show ?thesis unfolding closed_by_def by blast
qed

lemma handle_stype_closed:
  assumes "handle_stype now fr st (s, out) = (s', out')" "stype (hdr fr) = stype_byte st"
    "fsm s \<noteq> kNotConnected"
  shows "\<exists>ks. replies out' = replies out @ ks \<and> closed_by s ks [fr] s'"
  using assms
  by (cases st) (auto simp: closed_by_def ends_transaction_def Let_def close_connection_def
      on_disconnect_eq reset_link_state_def split: if_splits)

lemma handle_frame_closed:
  assumes "handle_frame now fr (s, out) = (s', out')" "fsm s \<noteq> kNotConnected"
  shows "\<exists>ks. replies out' = replies out @ ks \<and> closed_by s ks [fr] s'"
proof (cases "ptype (hdr fr) = 0 \<and> stype_from_byte (stype (hdr fr)) \<noteq> None")
  case True
  then show ?thesis
    using assms handle_stype_closed [OF _ _ assms(2)] by (auto simp: handle_frame_def stype_from_byte_Some)
next
  case False
  then have "s' = s" "replies out' = replies out"
    using assms(1) by (auto simp: handle_frame_def split: if_splits)
  then show ?thesis by (intro exI [of _ "[]"]) (simp add: closed_by_def)
qed

lemma handle_frames_closed:
  assumes "frame_inv s" "fsm s \<noteq> kNotConnected" "\<not> close out"
    and "handle_frames now frs (s, out) = (s', out')"
  shows "\<exists>ks. replies out' = replies out @ ks \<and> closed_by s ks frs s'"
  using assms
proof (induction frs arbitrary: s out)
  case Nil
  then show ?case by (intro exI [of _ "[]"]) (simp add: closed_by_def)
next
  case (Cons fr frs)
  obtain s1 o1 where 1: "handle_frame now fr (s, out) = (s1, o1)" by force
  obtain ks where ks: "replies o1 = replies out @ ks" "closed_by s ks [fr] s1"
    using handle_frame_closed [OF 1 Cons.prems(2)] by blast
  have post: "frame_post s1 o1" by (rule handle_frame_inv [OF Cons.prems(1-3) 1])
  show ?case
  proof (cases "close o1")
    case True
    then have "s' = s1" "out' = o1" using Cons.prems(4) by (simp_all add: 1 Let_def)
    then show ?thesis
      using ks by (intro exI [of _ ks]) (auto simp: closed_by_def)
  next
    case False
    then obtain ks' where "replies out' = replies o1 @ ks'" "closed_by s1 ks' frs s'"
      using Cons.IH [of s1 o1] post Cons.prems(4) by (auto simp: 1 Let_def frame_post_def)
    then show ?thesis
      using ks closed_by_trans [OF ks(2)] False post
      by (intro exI [of _ "ks @ ks'"]) (auto simp: frame_post_def)
  qed
qed
lemma handle_frames_timed_out: "timed_out (snd (handle_frames now frs so)) = timed_out (snd so)"
proof (induction frs arbitrary: so)
  case (Cons fr frs)
  have "timed_out (snd (handle_stype now fr st so)) = timed_out (snd so)" for st so
    by (cases so; cases st) (auto simp: Let_def close_connection_def)
  then have "timed_out (snd (handle_frame now fr so)) = timed_out (snd so)"
    by (cases so) (auto simp: handle_frame_def split: option.splits)
  with Cons show ?case by (simp add: Let_def)
qed simp

lemma on_bytes_closed:
  assumes "session_inv s" "on_bytes now bs s = (s', out)"
  shows "timed_out out = [] \<and>
    (closed_by s (replies out) [] s' \<or>
     (\<exists>frs. fst (feed bs (decoder s)) = Ok frs \<and> closed_by s (replies out) frs s'))"
proof (cases "fsm s = kNotConnected")
  case True
  then show ?thesis using assms by (auto simp: on_bytes_def closed_by_def) (simp add: no_output_def)
next
  case False
  obtain r d where f: "feed bs (decoder s) = (r, d)" by force
  show ?thesis
  proof (cases r)
    case (Inl e)
    then have "out = no_output\<lparr>close := True, close_reason := ''framing error: '' @ message e\<rparr>"
      "fsm s' = kNotConnected" "transactions s' = []"
      using assms(2) False f
      by (auto simp: on_bytes_def close_connection_def on_disconnect_eq reset_link_state_def)
    then show ?thesis by (simp add: closed_by_def) (simp add: no_output_def)
  next
    case (Inr frs)
    let ?s = "s\<lparr>last_activity := now, decoder := d\<rparr>"
    obtain s1 o1 where h: "handle_frames now frs (?s, no_output) = (s1, o1)" by force
    have "frame_inv ?s"
      using assms(1) f Inr False by (intro frame_inv_fed) (auto simp: session_inv_frame_inv)
    then obtain ks where "replies o1 = ks" "closed_by ?s ks frs s1"
      using handle_frames_closed [OF _ _ _ h] False by (auto simp: no_output_def replies_def List.map_filter_def)
    moreover have "timed_out o1 = []"
      using handle_frames_timed_out [of now frs "(?s, no_output)"] h by (simp add: no_output_def)
    moreover have "out = o1" "transactions s' = transactions s1" "fsm s' = fsm s1"
      using assms(2) False f h Inr by (auto simp: on_bytes_def Let_def split: if_splits)
    ultimately show ?thesis using f Inr by (simp add: closed_by_def)
  qed
qed

lemma on_tick_closed:
  assumes "session_inv s" "on_tick now s = Some (s', out)"
  shows "replies out = [] \<and> distinct (timed_out out) \<and>
    set (timed_out out) \<subseteq> tx_keys (transactions s) - tx_keys (transactions s') \<and>
    tx_keys (transactions s') \<subseteq> tx_keys (transactions s) \<and>
    (\<forall>k \<in> tx_keys (transactions s) - tx_keys (transactions s').
      k \<in> set (timed_out out) \<or> fsm s' = kNotConnected)"
  using assms(1)
proof (cases rule: on_tick_cases [where now = now])
  case (runs s1 out1)
  let ?m = "transactions s"
  have "omap_inv ?m" using assms(1) by (simp add: session_inv_def tx_inv_def)
  then have d: "distinct (map fst ?m)" by (rule omap_distinct)
  have 1: "replies out = []" "timed_out out = map fst (filter (\<lambda>e. snd e \<le> now) ?m)"
    "transactions s' = filter (\<lambda>e. now < snd e) ?m"
    using runs(5-7) assms(2) by auto
  have 2: "distinct (timed_out out)"
    using d by (auto simp: 1 distinct_map intro: inj_on_subset)
  have 3: "k \<in> tx_keys ?m \<longleftrightarrow> k \<in> set (timed_out out) \<or> k \<in> tx_keys (transactions s')" for k
    by (force simp: 1 tx_keys_def)
  have 4: "k \<notin> tx_keys (transactions s')" if "k \<in> set (timed_out out)" for k
    using that eq_key_imp_eq_value [OF d] by (fastforce simp: 1 tx_keys_def)
  show ?thesis using 1(1) 2 3 4 by blast
qed (use assms(2) in \<open>auto simp: no_output_def reset_link_state_def replies_def List.map_filter_def\<close>)

section \<open>Properties\<close>

lemma session_invariant_parts:
  assumes "reach session_init session_step s"
  shows "transactions s \<noteq> [] \<Longrightarrow> fsm s = kSelected"
    and "length (transactions s) \<le> max_open_transactions (config s)"
    and "0 \<notin> omap_keys (transactions s) \<and> pending_linktest s \<noteq> Some 0"
    and "pending_linktest s = Some p \<Longrightarrow> p \<notin> omap_keys (transactions s)"
    and "timer_running (t7 s) \<longleftrightarrow> fsm s = kNotSelected"
    and "timer_running (t6 s) \<longleftrightarrow> pending_linktest s \<noteq> None"
    and "timer_running (t8 s) \<longleftrightarrow> has_partial (decoder s)"
    and "length (buffer (decoder s)) < kLengthFieldSize + cfg_max_frame_bytes (config s)"
proof -
  note inv = hsms.reach_inv [OF assms, unfolded session_inv_def session_inv_defs]
  show "transactions s \<noteq> [] \<Longrightarrow> fsm s = kSelected" using inv by blast
  show "length (transactions s) \<le> max_open_transactions (config s)" using inv by blast
  show "0 \<notin> omap_keys (transactions s) \<and> pending_linktest s \<noteq> Some 0" using inv by blast
  show "pending_linktest s = Some p \<Longrightarrow> p \<notin> omap_keys (transactions s)" using inv by blast
  show "timer_running (t7 s) \<longleftrightarrow> fsm s = kNotSelected" using inv by blast
  show "timer_running (t6 s) \<longleftrightarrow> pending_linktest s \<noteq> None" using inv by blast
  show "timer_running (t8 s) \<longleftrightarrow> has_partial (decoder s)" using inv by blast
  show "length (buffer (decoder s)) < kLengthFieldSize + cfg_max_frame_bytes (config s)"
  proof -
    have "decoder_inv (decoder s)" "\<not> failed (decoder s)"
      and m: "max_frame_bytes (decoder s) = cfg_max_frame_bytes (config s)" using inv by blast+
    then show ?thesis
      unfolding decoder_inv_def m using parse_stream_rest by blast
  qed
qed

text \<open>
  C6. In every state a session can reach: requests are open only while SELECTED, never more
  than the configured number, never under system bytes 0 or those of the linktest in flight; T7
  runs exactly in NOT_SELECTED, T6 exactly while a linktest is unanswered, T8 exactly while a
  frame is incomplete, and the bytes held for it stay below one maximal frame.
\<close>

theorem session_invariant:
  assumes "reach session_init session_step s"
  shows "(transactions s \<noteq> [] \<longrightarrow> fsm s = kSelected) \<and>
    (length (transactions s) \<le> max_open_transactions (config s)) \<and>
    (0 \<notin> omap_keys (transactions s) \<and> pending_linktest s \<noteq> Some 0) \<and>
    (pending_linktest s = Some p \<longrightarrow> p \<notin> omap_keys (transactions s)) \<and>
    (timer_running (t7 s) \<longleftrightarrow> fsm s = kNotSelected) \<and>
    (timer_running (t6 s) \<longleftrightarrow> pending_linktest s \<noteq> None) \<and>
    (timer_running (t8 s) \<longleftrightarrow> has_partial (decoder s)) \<and>
    (length (buffer (decoder s)) < kLengthFieldSize + cfg_max_frame_bytes (config s))"
  by (rule conjI [OF _ conjI [OF _ conjI [OF _ conjI [OF _ conjI [OF _ conjI [OF _ conjI]]]]]]; (intro impI)?; rule session_invariant_parts [OF assms]; assumption?)

text \<open>A run used as evidence: connect, select, send S1F13 and wait for the answer.\<close>

definition sample_request :: secs_message where
  "sample_request = \<lparr>stream = 1, func = 13, w_bit = True, body = None\<rparr>"

definition sample_events :: "session_event list" where
  "sample_events =
     [Connected 0, Bytes 1 [0, 0, 0, 10, 0xFF, 0xFF, 0, 0, 0, 1, 0, 0, 0, 7],
      Request 2 sample_request]"

definition sample_session :: session where
  "sample_session = \<lparr>config = default_session_config, fsm = kSelected, decoder = new_decoder 1048576,
     t7 = None, t8 = None, t6 = None, last_activity = 2, pending_linktest = None,
     transactions = [(1, 45000000002)], next_system_bytes = 2\<rparr>"

lemma sample_run:
  "\<exists>outs. run session_step sample_events (new_session default_session_config) =
     Some (sample_session, outs)"
proof -
  have f: "feed [0, 0, 0, 10, 0xFF, 0xFF, 0, 0, 0, 1, 0, 0, 0, 7] (new_decoder 1048576) =
      (Ok [make_control_frame kSelectReq 7 0 0], new_decoder 1048576)"
  proof -
    have "encode_frame (make_control_frame kSelectReq 7 0 0) =
        Ok [0, 0, 0, 10, 0xFF, 0xFF, 0, 0, 0, 1, 0, 0, 0, 7]"
      by (simp add: encode_frame_def kHeaderSize_def make_control_frame_def put_be16_eq put_be32_eq
          be_bytes_numeral kControlSessionId_def)
    then have "parse_stream 1048576 [0, 0, 0, 10, 0xFF, 0xFF, 0, 0, 0, 1, 0, 0, 0, 7] =
        Ok ([make_control_frame kSelectReq 7 0 0], [])"
      using parse_stream_encoded_list [of 1048576 "[make_control_frame kSelectReq 7 0 0]"
          "[[0, 0, 0, 10, 0xFF, 0xFF, 0, 0, 0, 1, 0, 0, 0, 7]]"]
      by (simp add: frame_fits_def make_control_frame_def kHeaderSize_def)
    then show ?thesis by (simp add: feed_parse)
  qed
  have r: "encode_frame (make_data_frame 0 1 13 True 1 []) =
      Ok [0, 0, 0, 10, 0, 0, 0x81, 13, 0, 0, 0, 0, 0, 1]"
    by (simp add: encode_frame_def kHeaderSize_def make_data_frame_def put_be16_eq put_be32_eq
        be_bytes_numeral)
  have a: "allocate_loop (system_bytes_open s) 1 = Some (1, 2)"
    if "transactions s = []" "pending_linktest s = None" for s
    using that by (subst allocate_loop.simps) (simp add: system_bytes_open_def)
  show ?thesis
    by (simp add: sample_events_def new_session_def default_session_config_def on_connect_def
        connection_apply_def reset_link_state_def Let_def on_bytes_def f handle_frame_def
        make_control_frame_def [of kSelectReq] stype_from_byte_def has_partial_def send_request_def
        allocate_system_bytes_def a queue_data_def sample_request_def kHeaderSize_def r
        sample_session_def add_ms_def)
qed

lemma sample_reach: "reach session_init session_step sample_session"
proof -
  have "reach session_init session_step (new_session default_session_config)"
    by (rule reach_init) (auto simp: session_init_def session_config_ok_def default_session_config_def)
  moreover obtain outs where "run session_step sample_events (new_session default_session_config) =
      Some (sample_session, outs)" using sample_run by blast
  ultimately show ?thesis by (rule run_reach)
qed

theorem session_invariant_witness:
  "transactions sample_session \<noteq> [] \<and> fsm sample_session = kSelected \<and>
   length (transactions sample_session) \<le> 256 \<and> \<not> timer_running (t7 sample_session)"
  using session_invariant [OF sample_reach]
  by (simp add: sample_session_def default_session_config_def)

text \<open>
  C7. No call hangs: from a fresh session any sequence of calls runs to its end, although the
  system-bytes generator is an unbounded loop. The open set is small enough for it to find a
  free value.
\<close>

theorem session_calls_return:
  assumes "session_config_ok cfg"
  shows "\<exists>s outs. run session_step es (new_session cfg) = Some (s, outs) \<and> length outs = length es"
  using hsms.run_returns [OF new_session_inv [OF assms], of es] length_run by fastforce

theorem session_calls_return_witness:
  "\<exists>s outs. run session_step (sample_events @ [Tick 70000000000]) (new_session default_session_config) =
     Some (s, outs) \<and> length outs = 4"
proof -
  have "session_config_ok default_session_config"
    by (simp add: session_config_ok_def default_session_config_def)
  moreover have "length (sample_events @ [Tick 70000000000]) = 4" by (simp add: sample_events_def)
  ultimately show ?thesis
    using session_calls_return [of default_session_config "sample_events @ [Tick 70000000000]"]
    by (simp only:)
qed

lemma transactions_accounted_parts:
  assumes "reach session_init session_step s" "session_step e s = Some (s', out)"
    and "before = tx_keys (transactions s)" "after = tx_keys (transactions s')"
  shows "set (replies out) \<union> set (timed_out out) \<subseteq> before - after"
    and "distinct (replies out @ timed_out out)"
    and "k \<in> before - after \<Longrightarrow> k \<in> set (replies out) \<or> k \<in> set (timed_out out) \<or>
      fsm s' = kNotConnected \<or>
      (\<exists>now bs frs. e = Bytes now bs \<and> fst (feed bs (decoder s)) = Ok frs \<and>
        (\<exists>fr \<in> set frs. ends_transaction k fr))"
    and "k \<in> after - before \<Longrightarrow> \<exists>now m. e = Request now m \<and> w_bit m"
proof -
  have inv: "session_inv s" by (rule hsms.reach_inv [OF assms(1)])
  have quiet: "replies no_output = [] \<and> timed_out no_output = []"
    by (simp, simp add: no_output_def)
  have "set (replies out) \<union> set (timed_out out) \<subseteq> before - after \<and>
    distinct (replies out @ timed_out out) \<and>
    (\<forall>k \<in> before - after. k \<in> set (replies out) \<or> k \<in> set (timed_out out) \<or>
      fsm s' = kNotConnected \<or>
      (\<exists>now bs frs. e = Bytes now bs \<and> fst (feed bs (decoder s)) = Ok frs \<and>
        (\<exists>fr \<in> set frs. ends_transaction k fr))) \<and>
    (\<forall>k \<in> after - before. \<exists>now m. e = Request now m \<and> w_bit m)"
  proof (cases e)
    case (Connected now)
    then show ?thesis
      using assms inv quiet
      by (auto simp: on_connect_def connection_apply_def Let_def reset_link_state_def session_inv_def
          tx_inv_def split: if_splits)
  next
    case (Bytes now bs)
    then show ?thesis
      using on_bytes_closed [OF inv, of now bs s' out] assms(2-4) by (auto simp: closed_by_def)
  next
    case (Tick now)
    then show ?thesis using on_tick_closed [OF inv, of now s' out] assms(2-4) by auto
  next
    case Disconnected
    then show ?thesis
      using assms quiet by (auto simp: on_disconnect_eq reset_link_state_def split: if_splits)
  next
    case (Request now m)
    then obtain r where r: "send_request now m (s, no_output) = Some (r, s', out)" using assms(2) by auto
    from send_request_Ok [OF inv r] consider
        (queued) c d bs where "out = no_output\<lparr>to_send := bs\<rparr>"
          "transactions s' = (if w_bit m then omap_put c d (transactions s) else transactions s)"
      | (failed) "out = no_output" "transactions s' = transactions s"
      by (cases "has_value r") auto
    then show ?thesis
      using assms(3,4) quiet by cases (auto simp: Request)
  next
    case (Reply sys m)
    then obtain r where r: "send_reply sys m (s, no_output) = (r, s', out)"
      using assms(2) by (cases "send_reply sys m (s, no_output)") auto
    have "replies out = [] \<and> timed_out out = []"
      using r quiet
      by (auto simp: send_reply_def queue_data_def split: if_splits sum.splits option.splits)
    then show ?thesis using send_reply_state [OF r] assms(3,4) by simp
  qed
  note all = this
  show "set (replies out) \<union> set (timed_out out) \<subseteq> before - after" by (rule all [THEN conjunct1])
  show "distinct (replies out @ timed_out out)" by (rule all [THEN conjunct2, THEN conjunct1])
  show "k \<in> before - after \<Longrightarrow> k \<in> set (replies out) \<or> k \<in> set (timed_out out) \<or>
      fsm s' = kNotConnected \<or>
      (\<exists>now bs frs. e = Bytes now bs \<and> fst (feed bs (decoder s)) = Ok frs \<and>
        (\<exists>fr \<in> set frs. ends_transaction k fr))"
    by (rule all [THEN conjunct2, THEN conjunct2, THEN conjunct1, rule_format])
  show "k \<in> after - before \<Longrightarrow> \<exists>now m. e = Request now m \<and> w_bit m"
    by (rule all [THEN conjunct2, THEN conjunct2, THEN conjunct2, rule_format])
qed

text \<open>
  C8. Every transaction is accounted for exactly once. In one call, the requests reported as
  answered and those reported as timed out were open before and are not any more, none is
  reported twice, a request disappears otherwise only when the link goes down or the peer sends
  Deselect.req or a Reject.req for it, and a request appears only through a W-bit message.
\<close>

theorem transactions_accounted:
  assumes "reach session_init session_step s" "session_step e s = Some (s', out)"
    and "before = tx_keys (transactions s)" "after = tx_keys (transactions s')"
  shows "(set (replies out) \<union> set (timed_out out) \<subseteq> before - after) \<and>
    (distinct (replies out @ timed_out out)) \<and>
    (k \<in> before - after \<longrightarrow> k \<in> set (replies out) \<or> k \<in> set (timed_out out) \<or>
      fsm s' = kNotConnected \<or>
      (\<exists>now bs frs. e = Bytes now bs \<and> fst (feed bs (decoder s)) = Ok frs \<and>
        (\<exists>fr \<in> set frs. ends_transaction k fr))) \<and>
    (k \<in> after - before \<longrightarrow> (\<exists>now m. e = Request now m \<and> w_bit m))"
  by (rule conjI [OF _ conjI [OF _ conjI]]; (intro impI)?; rule transactions_accounted_parts [OF assms]; assumption?)

definition sample_reply :: frame where
  "sample_reply = make_data_frame 0 1 14 False 1 []"

lemma sample_reply_step:
  "session_step (Bytes 3 [0, 0, 0, 10, 0, 0, 1, 14, 0, 0, 0, 0, 0, 1]) sample_session =
     Some (sample_session\<lparr>transactions := [], last_activity := 3\<rparr>,
       no_output\<lparr>deliveries := [\<lparr>dlv_frame = sample_reply, reply_to = Some 1\<rparr>]\<rparr>)"
proof -
  have "encode_frame sample_reply = Ok [0, 0, 0, 10, 0, 0, 1, 14, 0, 0, 0, 0, 0, 1]"
    by (simp add: encode_frame_def kHeaderSize_def make_data_frame_def put_be16_eq put_be32_eq
        be_bytes_numeral sample_reply_def)
  then have "parse_stream 1048576 [0, 0, 0, 10, 0, 0, 1, 14, 0, 0, 0, 0, 0, 1] = Ok ([sample_reply], [])"
    using parse_stream_encoded_list [of 1048576 "[sample_reply]"
        "[[0, 0, 0, 10, 0, 0, 1, 14, 0, 0, 0, 0, 0, 1]]"]
    by (simp add: frame_fits_def sample_reply_def make_data_frame_def kHeaderSize_def)
  then have "feed [0, 0, 0, 10, 0, 0, 1, 14, 0, 0, 0, 0, 0, 1] (new_decoder 1048576) =
      (Ok [sample_reply], new_decoder 1048576)"
    by (simp add: feed_parse)
  then show ?thesis
    by (simp add: on_bytes_def sample_session_def Let_def handle_frame_def sample_reply_def
        make_data_frame_def stype_from_byte_def header_function_def omap_erase_def has_partial_def
        no_output_def) (simp add: tx_keys_def)
qed

theorem transactions_accounted_witness:
  "replies (no_output\<lparr>deliveries := [\<lparr>dlv_frame = sample_reply, reply_to = Some 1\<rparr>]\<rparr>) = [1] \<and>
   {1} \<subseteq> tx_keys (transactions sample_session) -
     tx_keys (transactions (sample_session\<lparr>transactions := [], last_activity := 3\<rparr>))"
proof -
  have "replies (no_output\<lparr>deliveries := [\<lparr>dlv_frame = sample_reply, reply_to = Some 1\<rparr>]\<rparr>) = [1]"
    by (simp add: replies_def List.map_filter_def)
  with transactions_accounted [OF sample_reach sample_reply_step refl refl] show ?thesis
    by (simp add: no_output_def)
qed

text \<open>
  One received frame in a connected session. A data message reaches the layer above exactly
  when its PType is supported and the session is SELECTED, and it is marked as a reply exactly
  when its function is even and a request with its system bytes is open.
\<close>

theorem delivery_rule:
  assumes "handle_frame now fr (s, out) = (s', out')"
  shows "deliveries out' = deliveries out @
    (if ptype (hdr fr) = 0 \<and> stype (hdr fr) = stype_byte kData \<and> fsm s = kSelected
     then [\<lparr>dlv_frame = fr, reply_to =
             if even (unat (header_function (hdr fr))) \<and> system_bytes (hdr fr) \<in> omap_keys (transactions s)
             then Some (system_bytes (hdr fr)) else None\<rparr>]
     else [])"
proof -
  have ev: "x mod 2 = 0 \<longleftrightarrow> even (unat x)" for x :: byte
    by (simp add: word_unat_eq_iff unat_mod_distrib even_iff_mod_2_eq_zero)
  show ?thesis
  proof (cases "stype_from_byte (stype (hdr fr))")
    case None
    then show ?thesis
      using assms by (auto simp: handle_frame_def split: if_splits) (simp add: stype_from_byte_def)+
  next
    case (Some st)
    then have "stype (hdr fr) = stype_byte st" by (simp add: stype_from_byte_Some)
    with Some assms show ?thesis
      by (cases st) (auto simp: handle_frame_def Let_def close_connection_def ev tx_keys_def
          split: if_splits)
  qed
qed

theorem delivery_rule_witness:
  "\<exists>s' out'. handle_frame 3 sample_reply (sample_session, no_output) = (s', out') \<and>
     deliveries out' = [\<lparr>dlv_frame = sample_reply, reply_to = Some 1\<rparr>]"
proof -
  obtain s' out' where h: "handle_frame 3 sample_reply (sample_session, no_output) = (s', out')" by force
  moreover have "deliveries out' = [\<lparr>dlv_frame = sample_reply, reply_to = Some 1\<rparr>]"
    using delivery_rule [OF h]
    by (simp add: sample_reply_def make_data_frame_def header_function_def sample_session_def no_output_def)
  ultimately show ?thesis by blast
qed

lemma queue_data_wire:
  assumes "queue_data cfg m sys out = (Ok r, out')" "stream m < 128"
  shows "\<exists>bs fr. out' = out\<lparr>to_send := to_send out @ [bs]\<rparr> \<and>
    feed bs (new_decoder (cfg_max_frame_bytes cfg)) = (Ok [fr], new_decoder (cfg_max_frame_bytes cfg)) \<and>
    system_bytes (hdr fr) = sys \<and> session_id (hdr fr) = device_id cfg \<and>
    to_message fr = Ok (wire_message m)"
proof -
  obtain bdy bs where b: "case body m of None \<Rightarrow> bdy = [] | Some i \<Rightarrow> encode i = Ok bdy"
    and len: "kHeaderSize + length bdy \<le> cfg_max_frame_bytes cfg"
    and e: "encode_frame (make_data_frame (device_id cfg) (stream m) (func m) (w_bit m) sys bdy) = Ok bs"
    and out': "out' = out\<lparr>to_send := to_send out @ [bs]\<rparr>"
    using assms(1) by (auto simp: queue_data_def Err_def split: sum.splits option.splits if_splits)
  let ?fr = "make_data_frame (device_id cfg) (stream m) (func m) (w_bit m) sys bdy"
  have "frame_fits (cfg_max_frame_bytes cfg) ?fr"
    using len e by (auto simp: frame_fits_def encode_frame_eq make_data_frame_def split: if_splits)
  then have "parse_stream (cfg_max_frame_bytes cfg) bs = Ok ([?fr], [])"
    using parse_stream_encoded_list [of _ "[?fr]" "[bs]"] e by simp
  then have "feed bs (new_decoder (cfg_max_frame_bytes cfg)) = (Ok [?fr], new_decoder (cfg_max_frame_bytes cfg))"
    by (simp add: feed_parse)
  moreover have "to_message ?fr = Ok (wire_message m)"
    by (rule to_message_data_frame [OF assms(2) b])
  ultimately show ?thesis using out' by (auto simp: make_data_frame_def)
qed

lemma send_request_sends_parts:
  assumes "reach session_init session_step s" "stream m < 128"
    and "send_request now m (s, out) = Some (r, s', out')"
  shows "r = Ok c \<Longrightarrow> fsm s = kSelected \<and> c \<noteq> 0 \<and> c \<notin> omap_keys (transactions s) \<and>
      pending_linktest s \<noteq> Some c \<and>
      (\<exists>bs fr. to_send out' = to_send out @ [bs] \<and>
        fst (feed bs (new_decoder (cfg_max_frame_bytes (config s)))) = Ok [fr] \<and>
        system_bytes (hdr fr) = c \<and> to_message fr = Ok (wire_message m)) \<and>
      transactions s' = (if w_bit m then omap_put c (now + cfg_t3 (config s) * 1000000) (transactions s)
                         else transactions s)"
    and "\<not> has_value r \<Longrightarrow> out' = out \<and> transactions s' = transactions s"
proof -
  note S = send_request_Ok [OF hsms.reach_inv [OF assms(1)] assms(3)]
  show "\<not> has_value r \<Longrightarrow> out' = out \<and> transactions s' = transactions s" using S by auto
  assume "r = Ok c"
  then obtain bs where q: "queue_data (config s) m c out = (Ok True, out')"
    and *: "fsm s = kSelected" "c \<noteq> 0" "\<not> system_bytes_open s c"
      "transactions s' = (if w_bit m then omap_put c (add_ms now (cfg_t3 (config s))) (transactions s)
                         else transactions s)"
    using S by auto
  from queue_data_wire [OF q assms(2)] obtain bs fr where
    "to_send out' = to_send out @ [bs]"
    "feed bs (new_decoder (cfg_max_frame_bytes (config s))) = (Ok [fr], new_decoder (cfg_max_frame_bytes (config s)))"
    "system_bytes (hdr fr) = c" "to_message fr = Ok (wire_message m)"
    by auto
  then have "\<exists>bs fr. to_send out' = to_send out @ [bs] \<and>
        fst (feed bs (new_decoder (cfg_max_frame_bytes (config s)))) = Ok [fr] \<and>
        system_bytes (hdr fr) = c \<and> to_message fr = Ok (wire_message m)" by auto
  with * show "fsm s = kSelected \<and> c \<noteq> 0 \<and> c \<notin> omap_keys (transactions s) \<and>
      pending_linktest s \<noteq> Some c \<and>
      (\<exists>bs fr. to_send out' = to_send out @ [bs] \<and>
        fst (feed bs (new_decoder (cfg_max_frame_bytes (config s)))) = Ok [fr] \<and>
        system_bytes (hdr fr) = c \<and> to_message fr = Ok (wire_message m)) \<and>
      transactions s' = (if w_bit m then omap_put c (now + cfg_t3 (config s) * 1000000) (transactions s)
                         else transactions s)"
    by (simp add: add_ms_def system_bytes_open_def tx_keys_def)
qed

text \<open>
  A request that is accepted goes out once and correctly: its system bytes are nonzero and
  in use by nothing else, the one frame queued decodes at the peer to the message that was sent
  with those system bytes, and with the W-bit a transaction with the T3 deadline is opened. A
  request that is refused queues nothing and opens nothing.
\<close>

theorem send_request_sends:
  assumes "reach session_init session_step s" "stream m < 128"
    and "send_request now m (s, out) = Some (r, s', out')"
  shows "(r = Ok c \<longrightarrow> fsm s = kSelected \<and> c \<noteq> 0 \<and> c \<notin> omap_keys (transactions s) \<and>
      pending_linktest s \<noteq> Some c \<and>
      (\<exists>bs fr. to_send out' = to_send out @ [bs] \<and>
        fst (feed bs (new_decoder (cfg_max_frame_bytes (config s)))) = Ok [fr] \<and>
        system_bytes (hdr fr) = c \<and> to_message fr = Ok (wire_message m)) \<and>
      transactions s' = (if w_bit m then omap_put c (now + cfg_t3 (config s) * 1000000) (transactions s)
                         else transactions s)) \<and>
    (\<not> has_value r \<longrightarrow> out' = out \<and> transactions s' = transactions s)"
  by (rule conjI; (intro impI)?; rule send_request_sends_parts [OF assms]; assumption?)

theorem send_request_sends_witness:
  "\<exists>s' out' bs fr. send_request 5 sample_request (sample_session, no_output) = Some (Ok 2, s', out') \<and>
     to_send out' = [bs] \<and> fst (feed bs (new_decoder 1048576)) = Ok [fr] \<and> system_bytes (hdr fr) = 2 \<and>
     transactions s' = [(1, 45000000002), (2, 45000000005)]"
proof -
  have r: "encode_frame (make_data_frame 0 1 13 True 2 []) =
      Ok [0, 0, 0, 10, 0, 0, 0x81, 13, 0, 0, 0, 0, 0, 2]"
    by (simp add: encode_frame_def kHeaderSize_def make_data_frame_def put_be16_eq put_be32_eq
        be_bytes_numeral)
  have a: "allocate_loop (system_bytes_open sample_session) 2 = Some (2, 3)"
    by (subst allocate_loop.simps) (simp add: system_bytes_open_def sample_session_def tx_keys_def)
  obtain s' out' where s: "send_request 5 sample_request (sample_session, no_output) = Some (Ok 2, s', out')"
    using a r by (simp add: send_request_def sample_session_def default_session_config_def
        sample_request_def allocate_system_bytes_def queue_data_def kHeaderSize_def)
  have "stream sample_request < 128" by (simp add: sample_request_def)
  from send_request_sends [OF sample_reach this s, of 2] obtain bs fr where
    "to_send out' = to_send no_output @ [bs]"
    "fst (feed bs (new_decoder (cfg_max_frame_bytes (config sample_session)))) = Ok [fr]"
    "system_bytes (hdr fr) = 2"
    "transactions s' = omap_put 2 (5 + cfg_t3 (config sample_session) * 1000000) (transactions sample_session)"
    by (auto simp: sample_request_def)
  then have "to_send out' = [bs]" "fst (feed bs (new_decoder 1048576)) = Ok [fr]"
    "system_bytes (hdr fr) = 2" "transactions s' = [(1, 45000000002), (2, 45000000005)]"
    by (simp_all add: sample_session_def default_session_config_def no_output_def)
  with s show ?thesis by blast
qed

lemma on_tick_timeouts_parts:
  assumes "reach session_init session_step s" "on_tick now s = Some (s', out)"
  shows "close out \<longleftrightarrow> timer_expired (t7 s) now \<or> timer_expired (t8 s) now \<or> timer_expired (t6 s) now"
    and "\<not> close out \<Longrightarrow> timed_out out = map fst (filter (\<lambda>e. snd e \<le> now) (transactions s)) \<and>
      transactions s' = filter (\<lambda>e. now < snd e) (transactions s)"
proof -
  have inv: "session_inv s" by (rule hsms.reach_inv [OF assms(1)])
  have t: "timer_expired (t7 s) now \<Longrightarrow> fsm s = kNotSelected"
    "timer_expired (t6 s) now \<Longrightarrow> pending_linktest s \<noteq> None"
    "fsm s = kNotConnected \<Longrightarrow> t8 s = None" "fsm s = kNotConnected \<Longrightarrow> t6 s = None"
    "fsm s = kNotConnected \<Longrightarrow> transactions s = []"
    using inv by (auto simp: session_inv_def session_inv_defs has_partial_def)
  have "(close out \<longleftrightarrow> timer_expired (t7 s) now \<or> timer_expired (t8 s) now \<or> timer_expired (t6 s) now) \<and>
    (\<not> close out \<longrightarrow> timed_out out = map fst (filter (\<lambda>e. snd e \<le> now) (transactions s)) \<and>
      transactions s' = filter (\<lambda>e. now < snd e) (transactions s))"
    using inv
  proof (cases rule: on_tick_cases [where now = now])
    case idle
    then have "timer_expired (t7 s) now = False" "transactions s = []" "t8 s = None" "t6 s = None"
      using t by auto
    with idle show ?thesis using assms(2) by (auto simp: no_output_def)
  next
    case (closes why)
    then show ?thesis using assms(2) t by auto
  next
    case (runs s1 out1)
    then show ?thesis using assms(2) t by (auto simp: no_output_def)
  qed
  note all = this
  show "close out \<longleftrightarrow> timer_expired (t7 s) now \<or> timer_expired (t8 s) now \<or> timer_expired (t6 s) now"
    by (rule all [THEN conjunct1])
  show "\<not> close out \<Longrightarrow> timed_out out = map fst (filter (\<lambda>e. snd e \<le> now) (transactions s)) \<and>
      transactions s' = filter (\<lambda>e. now < snd e) (transactions s)"
    by (rule all [THEN conjunct2, rule_format])
qed

text \<open>
  C9. A tick closes the connection exactly when T7, T8 or T6 has expired. Otherwise it reports
  exactly the requests whose T3 deadline has been reached, in the order of their system bytes,
  and keeps exactly the others, whatever the time since the last tick.
\<close>

theorem on_tick_timeouts:
  assumes "reach session_init session_step s" "on_tick now s = Some (s', out)"
  shows "(close out \<longleftrightarrow> timer_expired (t7 s) now \<or> timer_expired (t8 s) now \<or> timer_expired (t6 s) now) \<and>
    (\<not> close out \<longrightarrow> timed_out out = map fst (filter (\<lambda>e. snd e \<le> now) (transactions s)) \<and>
      transactions s' = filter (\<lambda>e. now < snd e) (transactions s))"
  by (rule conjI; (intro impI)?; rule on_tick_timeouts_parts [OF assms]; assumption?)

theorem on_tick_timeouts_witness:
  "\<exists>s' out. on_tick 45000000002 sample_session = Some (s', out) \<and> \<not> close out \<and>
     timed_out out = [1] \<and> transactions s' = []"
proof -
  obtain s' out where o: "on_tick 45000000002 sample_session = Some (s', out)"
    by (simp add: on_tick_def sample_session_def default_session_config_def)
  have "\<not> close out" using on_tick_timeouts [OF sample_reach o] by (simp add: sample_session_def)
  with on_tick_timeouts [OF sample_reach o] o show ?thesis by (simp add: sample_session_def)
qed

lemma step_close:
  assumes "session_inv s" "session_step e s = Some (s', out)" "close out"
  shows "fsm s' = kNotConnected"
proof (cases e)
  case (Bytes now bs)
  obtain r d where f: "feed bs (decoder s) = (r, d)" by force
  show ?thesis
  proof (cases "fsm s = kNotConnected")
    case True
    then show ?thesis using assms Bytes by (auto simp: on_bytes_def)
  next
    case False
    show ?thesis
    proof (cases r)
      case (Inl err)
      then show ?thesis
        using assms(2) Bytes f False
        by (auto simp: on_bytes_def close_connection_def on_disconnect_eq reset_link_state_def)
    next
      case (Inr frs)
      let ?s = "s\<lparr>last_activity := now, decoder := d\<rparr>"
      obtain s1 o1 where h: "handle_frames now frs (?s, no_output) = (s1, o1)" by force
      have "frame_inv ?s"
        using assms(1) f Inr False by (intro frame_inv_fed) (auto simp: session_inv_frame_inv)
      then have "frame_post s1 o1"
        using handle_frames_inv [OF _ _ _ h] False by (simp add: no_output_def)
      then show ?thesis
        using assms(2,3) Bytes f False h Inr
        by (auto simp: on_bytes_def Let_def frame_post_def split: if_splits)
    qed
  qed
next
  case (Tick now)
  from assms(1) show ?thesis
  proof (cases rule: on_tick_cases [where now = now])
    case (runs s1 out1)
    then have "\<not> close out" using assms(2) Tick by (auto simp: no_output_def)
    with assms(3) show ?thesis by simp
  qed (use assms(2,3) Tick in \<open>auto simp: reset_link_state_def\<close>)
next
  case (Request now m)
  then obtain r where "send_request now m (s, no_output) = Some (r, s', out)" using assms(2) by auto
  from send_request_Ok [OF assms(1) this] have "\<not> close out"
    by (cases "has_value r") (auto simp: no_output_def)
  with assms(3) show ?thesis by simp
next
  case (Reply sys m)
  then show ?thesis
    using assms(2,3)
    by (auto simp: send_reply_def queue_data_def no_output_def split: if_splits sum.splits option.splits)
qed (use assms in \<open>auto simp: on_connect_def no_output_def Let_def split: prod.splits sum.splits\<close>)

lemma close_is_final_parts:
  assumes "reach session_init session_step s" "session_step e s = Some (s', out)" "close out"
  shows "fsm s' = kNotConnected \<and> transactions s' = [] \<and> pending_linktest s' = None \<and>
      t6 s' = None \<and> t7 s' = None \<and> t8 s' = None \<and> \<not> has_partial (decoder s')"
    and "session_step (Bytes now bs) s' = Some (s', no_output)"
    and "session_step (Tick now) s' = Some (s', no_output)"
    and "send_request now m (s', out2) =
      Some (Err kErrNotSelected ''data messages can only be sent while selected'', s', out2)"
    and "send_reply sys m (s', out2) =
      (Err kErrNotSelected ''data messages can only be sent while selected'', s', out2)"
proof -
  have inv: "session_inv s'" and d: "fsm s' = kNotConnected"
    using hsms.reach_inv [OF assms(1)] session_step_inv step_close assms(2,3) by blast+
  then show "fsm s' = kNotConnected \<and> transactions s' = [] \<and> pending_linktest s' = None \<and>
      t6 s' = None \<and> t7 s' = None \<and> t8 s' = None \<and> \<not> has_partial (decoder s')"
    by (auto simp: session_inv_def session_inv_defs has_partial_def)
qed (use hsms.reach_inv [OF assms(1)] step_close assms(2,3) in
  \<open>simp_all add: on_bytes_def on_tick_def send_request_def send_reply_def\<close>)

text \<open>
  C10. Closing is final: when a call asks for the connection to be closed, the session is
  already NOT_CONNECTED with no request, linktest, timer or partial frame left, and until the
  next connect every read and tick is ignored and every send refused.
\<close>

theorem close_is_final:
  assumes "reach session_init session_step s" "session_step e s = Some (s', out)" "close out"
  shows "(fsm s' = kNotConnected \<and> transactions s' = [] \<and> pending_linktest s' = None \<and>
      t6 s' = None \<and> t7 s' = None \<and> t8 s' = None \<and> \<not> has_partial (decoder s')) \<and>
    (session_step (Bytes now bs) s' = Some (s', no_output)) \<and>
    (session_step (Tick now) s' = Some (s', no_output)) \<and>
    (send_request now m (s', out2) =
      Some (Err kErrNotSelected ''data messages can only be sent while selected'', s', out2)) \<and>
    (send_reply sys m (s', out2) =
      (Err kErrNotSelected ''data messages can only be sent while selected'', s', out2))"
  by (rule conjI [OF _ conjI [OF _ conjI [OF _ conjI]]]; (intro impI)?; rule close_is_final_parts [OF assms]; assumption?)

theorem close_is_final_witness:
  "\<exists>s' out. session_step (Bytes 4 [0, 0, 0, 9]) sample_session = Some (s', out) \<and> close out \<and>
     transactions s' = [] \<and> session_step (Bytes 5 [1]) s' = Some (s', no_output)"
proof -
  have "parse_stream 1048576 [0, 0, 0, 9] = Err kErrFrameTooShort ''frame length is below the 10-byte header''"
    by (simp add: parse_stream.simps kLengthFieldSize_def load_be32_def kHeaderSize_def)
  then have f: "\<exists>d. feed [0, 0, 0, 9] (new_decoder 1048576) =
      (Err kErrFrameTooShort ''frame length is below the 10-byte header'', d)"
    by (simp add: feed_parse) (simp add: Err_def)
  obtain s' out where o: "session_step (Bytes 4 [0, 0, 0, 9]) sample_session = Some (s', out)" by force
  have c: "close out"
    using o f by (auto simp: on_bytes_def sample_session_def close_connection_def)
  show ?thesis using o c close_is_final [OF sample_reach o c] by blast
qed

end
