(* ===== verification/Process_State.thy ===== *)
theory Process_State
  imports Prelude
begin

text \<open>
  The process state machine, \<^verbatim>\<open>src/core/process_state_machine.cpp\<close>: the transition table with
  its guards and reason codes, and the stop-after-wafer flag.
\<close>

datatype process_state = kIdle | kScanning | kProcessing | kAlarm | kStopping

datatype process_trigger =
  kStart | kLinesComplete | kStop | kAbort | kFault | kResultReady | kClearAlarm | kStageStopped

fun process_state_to_string :: "process_state \<Rightarrow> string" where
  "process_state_to_string kIdle = ''Idle''"
| "process_state_to_string kScanning = ''Scanning''"
| "process_state_to_string kProcessing = ''Processing''"
| "process_state_to_string kAlarm = ''Alarm''"
| "process_state_to_string kStopping = ''Stopping''"

fun process_trigger_to_string :: "process_trigger \<Rightarrow> string" where
  "process_trigger_to_string kStart = ''Start''"
| "process_trigger_to_string kLinesComplete = ''LinesComplete''"
| "process_trigger_to_string kStop = ''Stop''"
| "process_trigger_to_string kAbort = ''Abort''"
| "process_trigger_to_string kFault = ''Fault''"
| "process_trigger_to_string kResultReady = ''ResultReady''"
| "process_trigger_to_string kClearAlarm = ''ClearAlarm''"
| "process_trigger_to_string kStageStopped = ''StageStopped''"

definition kReasonIllegalTransition :: int where "kReasonIllegalTransition = 100"
definition kReasonControlStateDenied :: int where "kReasonControlStateDenied = 101"
definition kReasonActiveAlarm :: int where "kReasonActiveAlarm = 102"
definition kReasonInvalidWafer :: int where "kReasonInvalidWafer = 103"
definition kReasonAlarmNotCleared :: int where "kReasonAlarmNotCleared = 104"


record guards =
  control_allows_start :: bool
  has_active_alarm :: bool
  wafer_valid :: bool
  more_wafers_pending :: bool
  alarm_cause_cleared :: bool

definition default_guards :: guards where
  "default_guards =
     \<lparr>control_allows_start = True, has_active_alarm = False, wafer_valid = True,
      more_wafers_pending = False, alarm_cause_cleared = True\<rparr>"

record process_machine =
  pm_state :: process_state
  stop_after_wafer :: bool

definition new_machine :: process_machine where
  "new_machine = \<lparr>pm_state = kIdle, stop_after_wafer = False\<rparr>"

text \<open>Entering a state: \<^verbatim>\<open>state_ = s; return ok(state_)\<close>.\<close>

definition enter :: "process_state \<Rightarrow> process_machine \<Rightarrow> process_state result \<times> process_machine" where
  "enter st m = (Ok st, m\<lparr>pm_state := st\<rparr>)"

definition refuse ::
    "int \<Rightarrow> string \<Rightarrow> process_machine \<Rightarrow> process_state result \<times> process_machine" where
  "refuse rsn msg m = (Err rsn msg, m)"

definition process_apply ::
    "process_trigger \<Rightarrow> guards \<Rightarrow> process_machine \<Rightarrow> process_state result \<times> process_machine" where
  "process_apply trigger g m =
     (case pm_state m of
        kIdle \<Rightarrow>
          if trigger \<noteq> kStart then refuse kReasonIllegalTransition ''Idle only accepts Start'' m
          else if \<not> control_allows_start g
          then refuse kReasonControlStateDenied ''Start denied by control state'' m
          else if has_active_alarm g
          then refuse kReasonActiveAlarm ''Start denied: an alarm is active'' m
          else if \<not> wafer_valid g
          then refuse kReasonInvalidWafer ''Start denied: no valid wafer or cassette'' m
          else enter kScanning (m\<lparr>stop_after_wafer := False\<rparr>)
      | kScanning \<Rightarrow>
          (case trigger of
             kLinesComplete \<Rightarrow> enter kProcessing m
           | kStop \<Rightarrow> (Ok (pm_state m), m\<lparr>stop_after_wafer := True\<rparr>)
           | kAbort \<Rightarrow> enter kStopping m
           | kFault \<Rightarrow> enter kAlarm m
           | _ \<Rightarrow> refuse kReasonIllegalTransition
                    ''Scanning only accepts LinesComplete, Stop, Abort, Fault'' m)
      | kProcessing \<Rightarrow>
          (case trigger of
             kResultReady \<Rightarrow>
               let st = (if more_wafers_pending g \<and> \<not> stop_after_wafer m then kScanning else kIdle);
                   m = m\<lparr>pm_state := st\<rparr>
               in (Ok st, if st = kIdle then m\<lparr>stop_after_wafer := False\<rparr> else m)
           | kFault \<Rightarrow> enter kAlarm m
           | kAbort \<Rightarrow> enter kStopping m
           | _ \<Rightarrow> refuse kReasonIllegalTransition
                    ''Processing only accepts ResultReady, Fault, Abort'' m)
      | kAlarm \<Rightarrow>
          if trigger \<noteq> kClearAlarm
          then refuse kReasonIllegalTransition ''Alarm only accepts ClearAlarm'' m
          else if \<not> alarm_cause_cleared g
          then refuse kReasonAlarmNotCleared ''ClearAlarm denied: cause still present'' m
          else enter kIdle m
      | kStopping \<Rightarrow>
          if trigger \<noteq> kStageStopped
          then refuse kReasonIllegalTransition ''Stopping only accepts StageStopped'' m
          else enter kIdle (m\<lparr>stop_after_wafer := False\<rparr>))"

section \<open>The documented table\<close>

text \<open>
  The transition table of the design documents, without guards: source state, trigger and the
  states it may lead to.
\<close>

inductive allowed :: "process_state \<Rightarrow> process_trigger \<Rightarrow> process_state \<Rightarrow> bool" where
  "allowed kIdle kStart kScanning"
| "allowed kScanning kLinesComplete kProcessing"
| "allowed kScanning kStop kScanning"
| "allowed kScanning kAbort kStopping"
| "allowed kScanning kFault kAlarm"
| "allowed kProcessing kResultReady kScanning"
| "allowed kProcessing kResultReady kIdle"
| "allowed kProcessing kFault kAlarm"
| "allowed kProcessing kAbort kStopping"
| "allowed kAlarm kClearAlarm kIdle"
| "allowed kStopping kStageStopped kIdle"

inductive_simps allowed_iff: "allowed s t s'"

lemmas process_apply_simps = process_apply_def enter_def refuse_def

lemma process_apply_refused:
  "process_apply t g m = (Inl e, m') \<Longrightarrow> m' = m"
  by (auto simp: process_apply_simps Let_def Err_def split: process_state.splits
      process_trigger.splits if_splits)

lemma process_apply_Ok:
  "process_apply t g m = (Ok st, m') \<Longrightarrow> st = pm_state m' \<and> allowed (pm_state m) t (pm_state m')"
  by (auto simp: process_apply_simps Let_def Err_def allowed_iff split: process_state.splits
      process_trigger.splits if_splits)


text \<open>
  Stop is honoured: once a Stop is accepted while scanning, the wafer in progress is
  finished and its result always leads to Idle, even with more wafers pending, and the flag does
  not survive into the next run.
\<close>

theorem stop_ends_the_run:
  assumes "process_apply kStop g1 m = (Ok st1, m1)" "process_apply kLinesComplete g2 m1 = (Ok st2, m2)"
  shows "fst (process_apply kResultReady g3 m2) = Ok kIdle \<and>
    \<not> stop_after_wafer (snd (process_apply kResultReady g3 m2))"
  using assms
  by (auto simp: process_apply_simps Let_def Err_def split: process_state.splits if_splits)

theorem stop_ends_the_run_witness:
  "let m = \<lparr>pm_state = kScanning, stop_after_wafer = False\<rparr>;
       g = default_guards\<lparr>more_wafers_pending := True\<rparr>
   in fst (process_apply kResultReady g
        (snd (process_apply kLinesComplete g (snd (process_apply kStop g m))))) = Ok kIdle"
proof -
  let ?m = "\<lparr>pm_state = kScanning, stop_after_wafer = False\<rparr>"
  let ?g = "default_guards\<lparr>more_wafers_pending := True\<rparr>"
  have 1: "process_apply kStop ?g ?m = (Ok kScanning, ?m\<lparr>stop_after_wafer := True\<rparr>)"
    by (simp add: process_apply_def)
  have 2: "process_apply kLinesComplete ?g (?m\<lparr>stop_after_wafer := True\<rparr>) =
      (Ok kProcessing, \<lparr>pm_state = kProcessing, stop_after_wafer = True\<rparr>)"
    by (simp add: process_apply_simps)
  show ?thesis using stop_ends_the_run [OF 1 2, of ?g] by (simp add: Let_def 1 2 [simplified])
qed

end
