(* ===== verification/Std_Float.thy ===== *)
theory Std_Float
  imports Prelude
begin

text \<open>
  Floating-point values as the program carries them: a \<^verbatim>\<open>double\<close> is its 64-bit pattern, a
  \<^verbatim>\<open>float\<close> its 32-bit pattern. Only the conversion between the two is computed.
\<close>

type_synonym f8 = "64 word"

unbundle bit_operations_syntax

text \<open>
  \<^verbatim>\<open>static_cast<float>(double)\<close> on bit patterns, under IEC 559: round to nearest, ties to even;
  overflow to infinity; a NaN keeps its sign and leading payload and becomes quiet.
  \<open>round_shift m k\<close> is \<open>m / 2\<^sup>k\<close> so rounded.
\<close>

definition round_shift :: "nat \<Rightarrow> nat \<Rightarrow> nat" where
  "round_shift m k =
     (let q = m div 2 ^ k; r = m mod 2 ^ k
      in if 2 * r > 2 ^ k \<or> 2 * r = 2 ^ k \<and> odd q then q + 1 else q)"

definition f8_to_f4 :: "f8 \<Rightarrow> u32" where
  "f8_to_f4 d =
     (let sign = (if bit d 63 then 0x80000000 else 0 :: nat);
          ex = unat (drop_bit 52 d AND 0x7FF);
          frac = unat (d AND 0xFFFFFFFFFFFFF)
      in word_of_nat
           (if ex = 2047
            then (if frac = 0 then sign + 0x7F800000
                  else sign + 0x7FC00000 + (frac div 2 ^ 29) mod 2 ^ 22)
            else if ex \<ge> 1023 + 128 then sign + 0x7F800000
            else if ex \<ge> 897
            then sign + (ex - 897) * 2 ^ 23 + round_shift (2 ^ 52 + frac) 29
            else if ex = 0 then sign
            else sign + round_shift (2 ^ 52 + frac) (29 + (897 - ex))))"

end
