(* ===== verification/Alarms.thy ===== *)
theory Alarms
  imports Process_State Std_Float Event_Machine "HOL-Library.Multiset"
begin

text \<open>
  Commands (\<^verbatim>\<open>command.hpp\<close>), events (\<^verbatim>\<open>events.hpp\<close>) and the alarm manager
  (\<^verbatim>\<open>src/core/alarms.cpp\<close>). A \<^verbatim>\<open>double\<close> that is only carried along is its 64-bit pattern.
\<close>

section \<open>Commands\<close>

datatype command_source = kUi | kCli | kSecsGem

fun command_source_to_string :: "command_source \<Rightarrow> string" where
  "command_source_to_string kUi = ''Ui''"
| "command_source_to_string kCli = ''Cli''"
| "command_source_to_string kSecsGem = ''SecsGem''"

datatype control_mode = kOffline | kOnlineLocal | kOnlineRemote

fun control_mode_to_string :: "control_mode \<Rightarrow> string" where
  "control_mode_to_string kOffline = ''Offline''"
| "control_mode_to_string kOnlineLocal = ''OnlineLocal''"
| "control_mode_to_string kOnlineRemote = ''OnlineRemote''"

datatype command_payload =
    StartCommand string int | StopCommand | AbortCommand | ClearAlarmCommand
  | SetControlModeCommand control_mode

record command =
  payload :: command_payload
  source :: command_source
  correlation_id :: u64

section \<open>Events\<close>

record wafer_result =
  wr_wafer_id :: string
  wr_slot :: int
  stress_mpa :: f8
  stress_unc_mpa :: f8
  curvature_per_m :: f8
  fit_rms_um :: f8
  wr_out_of_spec :: bool

datatype core_event =
    ScanStarted string int
  | ScanProgress string f8
  | ScanComplete string int bool
  | WaferResultReady wafer_result
  | WaferOutOfSpec string f8
  | RunAborted string
  | CassetteComplete string
  | AlarmSet int string string
  | AlarmCleared int string
  | StateChanged process_state process_state
  | ControlStateChanged control_mode control_mode
  | ScanLinesComplete string

section \<open>The alarm manager\<close>

datatype alarm_id =
    kSensorSpikeRateHigh | kSensorDropout | kFitQualityPoor | kScanStall
  | kProcessingTimeout | kQueueOverflow | kStressImplausible

fun alid :: "alarm_id \<Rightarrow> int" where
  "alid kSensorSpikeRateHigh = 1001"
| "alid kSensorDropout = 1002"
| "alid kFitQualityPoor = 1003"
| "alid kScanStall = 1004"
| "alid kProcessingTimeout = 1005"
| "alid kQueueOverflow = 1006"
| "alid kStressImplausible = 1007"

fun alarm_id_to_string :: "alarm_id \<Rightarrow> string" where
  "alarm_id_to_string kSensorSpikeRateHigh = ''SensorSpikeRateHigh''"
| "alarm_id_to_string kSensorDropout = ''SensorDropout''"
| "alarm_id_to_string kFitQualityPoor = ''FitQualityPoor''"
| "alarm_id_to_string kScanStall = ''ScanStall''"
| "alarm_id_to_string kProcessingTimeout = ''ProcessingTimeout''"
| "alarm_id_to_string kQueueOverflow = ''QueueOverflow''"
| "alarm_id_to_string kStressImplausible = ''StressImplausible''"

text \<open>
  \<^verbatim>\<open>std::unordered_map<int, std::string> active_\<close> as a list of entries without duplicate keys.
  The keys are kept as the enumeration they are casts of, so the cast back in \<^verbatim>\<open>clear_all\<close> is
  the identity. The iteration order of the hash map is not specified: \<open>ord\<close>, which rearranges
  the keys, stands for it.
\<close>

type_synonym alarm_table = "(alarm_id \<times> string) list"

text \<open>
  Each operation is its critical section under \<^verbatim>\<open>mutex_\<close> together with the list of what its caller publishes
  after leaving it: the publication is not part of the critical section.
\<close>

definition alarm_set :: "alarm_id \<Rightarrow> string \<Rightarrow> alarm_table \<Rightarrow> alarm_table \<times> core_event list" where
  "alarm_set a why active =
     (if map_of active a = None
      then (active @ [(a, why)], [AlarmSet (alid a) (alarm_id_to_string a) why])
      else (active, []))"

definition alarm_clear :: "alarm_id \<Rightarrow> alarm_table \<Rightarrow> alarm_table \<times> core_event list" where
  "alarm_clear a active =
     (if map_of active a = None then (active, [])
      else (filter (\<lambda>e. fst e \<noteq> a) active, [AlarmCleared (alid a) (alarm_id_to_string a)]))"

definition alarm_clear_all ::
    "(alarm_id list \<Rightarrow> alarm_id list) \<Rightarrow> alarm_table \<Rightarrow> alarm_table \<times> core_event list" where
  "alarm_clear_all ord active =
     ([], map (\<lambda>a. AlarmCleared (alid a) (alarm_id_to_string a)) (ord (map fst active)))"

definition any_active :: "alarm_table \<Rightarrow> bool" where
  "any_active active \<longleftrightarrow> active \<noteq> []"

definition active_count :: "alarm_table \<Rightarrow> nat" where
  "active_count active = length active"

definition is_active :: "alarm_table \<Rightarrow> alarm_id \<Rightarrow> bool" where
  "is_active active a \<longleftrightarrow> map_of active a \<noteq> None"

definition alarm_inv :: "alarm_table \<Rightarrow> bool" where
  "alarm_inv active \<longleftrightarrow> distinct (map fst active)"

section \<open>Sequences of calls\<close>

datatype alarm_call = Set_alarm alarm_id string | Clear_alarm alarm_id | Clear_all

fun alarm_step ::
    "(alarm_id list \<Rightarrow> alarm_id list) \<Rightarrow> alarm_call \<Rightarrow> alarm_table \<Rightarrow> alarm_table \<times> core_event list"
where
  "alarm_step ord (Set_alarm a why) t = alarm_set a why t"
| "alarm_step ord (Clear_alarm a) t = alarm_clear a t"
| "alarm_step ord Clear_all t = alarm_clear_all ord t"

fun alarm_run ::
    "(alarm_id list \<Rightarrow> alarm_id list) \<Rightarrow> alarm_call list \<Rightarrow> alarm_table \<Rightarrow> alarm_table \<times> core_event list"
where
  "alarm_run ord [] t = (t, [])"
| "alarm_run ord (c # cs) t =
     (case alarm_step ord c t of
        (t1, es) \<Rightarrow> case alarm_run ord cs t1 of (t2, es') \<Rightarrow> (t2, es @ es'))"

text \<open>
  What the announcements promise: per alarm, the history of events \<open>True\<close> (set) and \<open>False\<close>
  (cleared) flips strictly, starting from the state before.
\<close>

fun flips :: "bool \<Rightarrow> bool list \<Rightarrow> bool" where
  "flips b [] = True"
| "flips b (x # xs) = (x \<noteq> b \<and> flips x xs)"

fun alarm_history :: "int \<Rightarrow> core_event list \<Rightarrow> bool list" where
  "alarm_history n [] = []"
| "alarm_history n (AlarmSet i nm why # es) = (if i = n then True # alarm_history n es else alarm_history n es)"
| "alarm_history n (AlarmCleared i nm # es) = (if i = n then False # alarm_history n es else alarm_history n es)"
| "alarm_history n (_ # es) = alarm_history n es"

lemma alid_inject [simp]: "alid a = alid b \<longleftrightarrow> a = b"
  by (cases a; cases b) simp_all

lemma flips_append: "flips b (xs @ ys) \<longleftrightarrow> flips b xs \<and> flips (last (b # xs)) ys"
  by (induction xs arbitrary: b) auto

lemma alarm_history_append: "alarm_history n (es @ es') = alarm_history n es @ alarm_history n es'"
  by (induction n es rule: alarm_history.induct) auto

lemma alarm_history_cleared:
  "alarm_history (alid a) (map (\<lambda>b. AlarmCleared (alid b) (alarm_id_to_string b)) bs) =
     replicate (count_list bs a) False"
  by (induction bs) auto

lemma map_of_filter_ne: "map_of (filter (\<lambda>e. fst e \<noteq> a) t) b = (if b = a then None else map_of t b)"
  by (induction t) auto

lemma count_list_mset: "count_list xs a = count (mset xs) a"
  by (induction xs) auto

lemma alarm_step_flips:
  assumes "alarm_inv t" "alarm_step ord c t = (t', es)" "\<And>xs. mset (ord xs) = mset xs"
  shows "alarm_inv t'" "flips (is_active t a) (alarm_history (alid a) es)"
    "last (is_active t a # alarm_history (alid a) es) = is_active t' a"
proof -
  have one: "count_list (map fst t) a = (if is_active t a then 1 else 0)"
    using assms(1) by (auto simp: alarm_inv_def is_active_def count_list_mset distinct_count_atmost_1
        map_of_eq_None_iff simp flip: set_map)
  have "count_list (ord (map fst t)) a = (if is_active t a then 1 else 0)"
    using one by (simp add: count_list_mset assms(3))
  then have all: "alarm_history (alid a) (snd (alarm_clear_all ord t)) = (if is_active t a then [False] else [])"
    by (simp add: alarm_clear_all_def alarm_history_cleared)
  have "alarm_inv t' \<and> flips (is_active t a) (alarm_history (alid a) es) \<and>
    last (is_active t a # alarm_history (alid a) es) = is_active t' a"
  proof (cases c)
    case (Set_alarm b why)
    then show ?thesis
      using assms(1,2)
      by (auto simp: alarm_set_def alarm_inv_def is_active_def map_of_eq_None_iff map_add_def
          split: if_splits option.splits)
  next
    case (Clear_alarm b)
    then show ?thesis
      using assms(1,2)
      by (auto simp: alarm_clear_def alarm_inv_def is_active_def map_of_filter_ne distinct_map_filter
          split: if_splits)
  next
    case Clear_all
    then show ?thesis
      using assms(2) all by (auto simp: alarm_clear_all_def alarm_inv_def is_active_def)
  qed
  then show "alarm_inv t'" "flips (is_active t a) (alarm_history (alid a) es)"
    "last (is_active t a # alarm_history (alid a) es) = is_active t' a" by auto
qed

text \<open>
  Where no two calls overlap, each set and each clear is announced in turn: over any sequence of calls on a
  fresh manager the announcements of every alarm alternate between set and cleared, beginning with set,
  and the alarm is active exactly when the last one was a set.
\<close>

lemma alarm_calls_alternate:
  assumes "\<And>xs. mset (ord xs) = mset xs" "alarm_run ord cs [] = (t, es)"
  shows "flips False (alarm_history (alid a) es) \<and>
    (is_active t a \<longleftrightarrow> last (False # alarm_history (alid a) es))"
proof -
  have "alarm_inv t0 \<Longrightarrow> alarm_run ord cs t0 = (t, es) \<Longrightarrow>
      flips (is_active t0 a) (alarm_history (alid a) es) \<and>
      (is_active t a \<longleftrightarrow> last (is_active t0 a # alarm_history (alid a) es))" for t0
  proof (induction cs arbitrary: t0 es)
    case (Cons c cs)
    obtain t1 es1 where 1: "alarm_step ord c t0 = (t1, es1)" by force
    obtain es2 where 2: "alarm_run ord cs t1 = (t, es2)" "es = es1 @ es2"
      using Cons.prems(2) 1 by (auto split: prod.splits)
    note S = alarm_step_flips(2,3) [OF Cons.prems(1) 1 assms(1), of a]
    note IH = Cons.IH [OF alarm_step_flips(1) [OF Cons.prems(1) 1 assms(1)] 2(1)]
    show ?case
      using S IH by (cases "alarm_history (alid a) es1 = []"; cases "alarm_history (alid a) es2 = []")
        (auto simp: 2(2) alarm_history_append flips_append)
  qed simp
  from this [of "[]"] assms(2) show ?thesis by (simp add: alarm_inv_def is_active_def)
qed

section \<open>Calls that overlap\<close>

text \<open>
  Several threads call the manager, each at most one call at a time: the scan thread, the controller. A thread
  enters and leaves the critical section in one step, and then publishes what it owes, one event per step,
  while others may enter.
\<close>

record alarm_manager =
  am_active :: alarm_table
  am_owed :: "core_event list list"  \<comment> \<open>per thread, what it has still to publish\<close>

definition new_alarm_manager :: "nat \<Rightarrow> alarm_manager" where
  "new_alarm_manager threads = \<lparr>am_active = [], am_owed = replicate threads []\<rparr>"

datatype alarm_event = Enter nat alarm_call | Announce nat

fun alarm_thread_step ::
    "(alarm_id list \<Rightarrow> alarm_id list) \<Rightarrow> alarm_event \<Rightarrow> alarm_manager \<Rightarrow> (alarm_manager \<times> core_event list) option"
where
  "alarm_thread_step ord (Enter i c) m =
     (if i < length (am_owed m) \<and> am_owed m ! i = []
      then (case alarm_step ord c (am_active m) of
              (t, es) \<Rightarrow> Some (m\<lparr>am_active := t, am_owed := (am_owed m)[i := es]\<rparr>, []))
      else None)"
| "alarm_thread_step ord (Announce i) m =
     (if i < length (am_owed m)
      then (case am_owed m ! i of
              [] \<Rightarrow> None
            | e # es \<Rightarrow> Some (m\<lparr>am_owed := (am_owed m)[i := es]\<rparr>, [e]))
      else None)"

text \<open>How often an alarm was announced as set and as cleared, in any order.\<close>

definition sets_of :: "alarm_id \<Rightarrow> core_event list \<Rightarrow> nat" where
  "sets_of a es = length (filter (\<lambda>b. b) (alarm_history (alid a) es))"

definition clears_of :: "alarm_id \<Rightarrow> core_event list \<Rightarrow> nat" where
  "clears_of a es = length (filter Not (alarm_history (alid a) es))"

lemma sets_of_append [simp]: "sets_of a (es @ es') = sets_of a es + sets_of a es'"
  and clears_of_append [simp]: "clears_of a (es @ es') = clears_of a es + clears_of a es'"
  by (simp_all add: sets_of_def clears_of_def alarm_history_append)

lemma counts_Nil [simp]: "sets_of a [] = 0" "clears_of a [] = 0"
  by (simp_all add: sets_of_def clears_of_def)

lemma counts_Cons: "sets_of a (e # es) = sets_of a [e] + sets_of a es" "clears_of a (e # es) = clears_of a [e] + clears_of a es"
  using sets_of_append [of a "[e]" es] clears_of_append [of a "[e]" es] by simp_all

lemma flips_counts:
  "flips b xs \<Longrightarrow>
     length (filter (\<lambda>b. b) xs) + (if b then 1 else 0) = length (filter Not xs) + (if last (b # xs) then 1 else (0 :: nat))"
proof (induction xs arbitrary: b)
  case (Cons x xs)
  then show ?case using Cons.IH [of x] by (cases x; cases b) auto
qed simp

lemma counts_concat_update:
  assumes "i < length xss"
  shows "sets_of a (concat (xss[i := es])) + sets_of a (xss ! i) = sets_of a (concat xss) + sets_of a es"
    "clears_of a (concat (xss[i := es])) + clears_of a (xss ! i) = clears_of a (concat xss) + clears_of a es"
  using assms by (induction xss arbitrary: i) (auto split: nat.split simp: less_Suc_eq_0_disj)

definition announced :: "alarm_manager \<Rightarrow> core_event list \<Rightarrow> bool" where
  "announced m es \<longleftrightarrow> alarm_inv (am_active m) \<and>
     (\<forall>a. sets_of a (es @ concat (am_owed m)) =
            clears_of a (es @ concat (am_owed m)) + (if is_active (am_active m) a then 1 else 0))"

lemma alarm_thread_step_announced:
  assumes "\<And>xs. mset (ord xs) = mset xs" "announced m es" "alarm_thread_step ord e m = Some (m', out)"
  shows "announced m' (es @ out)"
proof (cases e)
  case (Enter i c)
  obtain t ev where s: "alarm_step ord c (am_active m) = (t, ev)" by force
  have i: "i < length (am_owed m)" "am_owed m ! i = []"
    and m': "m' = m\<lparr>am_active := t, am_owed := (am_owed m)[i := ev]\<rparr>" "out = []"
    using assms(3) Enter s by (simp_all split: if_splits)
  have inv: "alarm_inv (am_active m)" using assms(2) by (simp add: announced_def)
  have "sets_of a ev + (if is_active (am_active m) a then 1 else 0) = clears_of a ev + (if is_active t a then 1 else 0)" for a
    using flips_counts [OF alarm_step_flips(2) [OF inv s assms(1), of a]] alarm_step_flips(3) [OF inv s assms(1), of a]
    by (simp add: sets_of_def clears_of_def)
  note ev = this
  have "sets_of a (es @ concat (am_owed m')) = clears_of a (es @ concat (am_owed m')) + (if is_active t a then 1 else 0)" for a
  proof -
    have "sets_of a (es @ concat (am_owed m)) =
        clears_of a (es @ concat (am_owed m)) + (if is_active (am_active m) a then 1 else 0)"
      using assms(2) by (simp add: announced_def)
    then show ?thesis using ev [of a] counts_concat_update [OF i(1), of a ev] i(2) m'(1) by simp
  qed
  then show ?thesis using alarm_step_flips(1) [OF inv s assms(1)] m' by (simp add: announced_def)
next
  case (Announce i)
  then obtain x xs where i: "i < length (am_owed m)" "am_owed m ! i = x # xs"
    and m': "m' = m\<lparr>am_owed := (am_owed m)[i := xs]\<rparr>" "out = [x]"
    using assms(3) by (auto split: if_splits list.splits)
  have "sets_of a (es @ out @ concat (am_owed m')) =
      clears_of a (es @ out @ concat (am_owed m')) + (if is_active (am_active m) a then 1 else 0)" for a
  proof -
    have "sets_of a (es @ concat (am_owed m)) =
        clears_of a (es @ concat (am_owed m)) + (if is_active (am_active m) a then 1 else 0)"
      using assms(2) by (simp add: announced_def)
    then show ?thesis
      using counts_concat_update [OF i(1), of a xs] counts_Cons [of a x xs]
        counts_Cons [of a x "concat ((am_owed m)[i := xs])"] i(2) m' by simp
  qed
  then show ?thesis using assms(2) m' by (simp add: announced_def)
qed

text \<open>
  What the calls ask for, in the order in which they enter the critical section: the state of one alarm after
  them, and how often they raise it.
\<close>

fun asked :: "alarm_id \<Rightarrow> alarm_call \<Rightarrow> bool \<Rightarrow> bool" where
  "asked a (Set_alarm b why) on \<longleftrightarrow> on \<or> b = a"
| "asked a (Clear_alarm b) on \<longleftrightarrow> on \<and> b \<noteq> a"
| "asked a Clear_all on \<longleftrightarrow> False"

fun raises_of :: "alarm_id \<Rightarrow> alarm_call list \<Rightarrow> bool \<Rightarrow> nat" where
  "raises_of a [] on = 0"
| "raises_of a (c # cs) on = (if \<not> on \<and> asked a c on then 1 else 0) + raises_of a cs (asked a c on)"

fun entered :: "alarm_event list \<Rightarrow> alarm_call list" where
  "entered [] = []"
| "entered (Enter i c # evs) = c # entered evs"
| "entered (Announce i # evs) = entered evs"

lemma alarm_step_asked:
  assumes "alarm_step ord c t = (t', es)"
  shows "is_active t' a = asked a c (is_active t a)"
    and "sets_of a es = (if \<not> is_active t a \<and> asked a c (is_active t a) then 1 else 0)"
  using assms
  by (cases c; fastforce simp: alarm_set_def alarm_clear_def alarm_clear_all_def is_active_def sets_of_def map_add_def
      map_of_filter_ne alarm_history_cleared split: if_splits option.splits)+

lemma alarm_thread_step_asked:
  assumes "alarm_thread_step ord e m = Some (m', out)"
  shows "is_active (am_active m') a = fold (asked a) (entered [e]) (is_active (am_active m) a)"
    and "sets_of a (out @ concat (am_owed m')) =
      sets_of a (concat (am_owed m)) + raises_of a (entered [e]) (is_active (am_active m) a)"
proof -
  have "is_active (am_active m') a = fold (asked a) (entered [e]) (is_active (am_active m) a) \<and>
    sets_of a (out @ concat (am_owed m')) =
      sets_of a (concat (am_owed m)) + raises_of a (entered [e]) (is_active (am_active m) a)"
  proof (cases e)
    case (Enter i c)
    obtain t ev where s: "alarm_step ord c (am_active m) = (t, ev)" by force
    then show ?thesis
      using assms Enter alarm_step_asked [OF s, of a] counts_concat_update(1) [of i "am_owed m" a ev]
      by (auto split: if_splits)
  next
    case (Announce i)
    then obtain x xs where i: "i < length (am_owed m)" "am_owed m ! i = x # xs"
      and m': "m' = m\<lparr>am_owed := (am_owed m)[i := xs]\<rparr>" "out = [x]"
      using assms by (auto split: if_splits list.splits)
    then show ?thesis
      using Announce counts_concat_update(1) [OF i(1), of a xs] counts_Cons(1) [of a x xs]
        counts_Cons(1) [of a x "concat ((am_owed m)[i := xs])"] by simp
  qed
  then show "is_active (am_active m') a = fold (asked a) (entered [e]) (is_active (am_active m) a)"
    "sets_of a (out @ concat (am_owed m')) =
      sets_of a (concat (am_owed m)) + raises_of a (entered [e]) (is_active (am_active m) a)" by blast+
qed

lemma entered_Cons: "entered (e # evs) = entered [e] @ entered evs"
  by (cases e) simp_all

lemma raised_append: "raises_of a (cs @ cs') on = raises_of a cs on + raises_of a cs' (fold (asked a) cs on)"
  by (induction cs arbitrary: on) simp_all

lemma alarm_threads_asked:
  assumes "run (alarm_thread_step ord) evs m0 = Some (m, outs)"
  shows "is_active (am_active m) a = fold (asked a) (entered evs) (is_active (am_active m0) a) \<and>
    sets_of a (concat outs @ concat (am_owed m)) =
      sets_of a (concat (am_owed m0)) + raises_of a (entered evs) (is_active (am_active m0) a)"
  using assms
proof (induction evs arbitrary: m0 outs)
  case (Cons e evs)
  then obtain m1 o1 outs1 where st: "alarm_thread_step ord e m0 = Some (m1, o1)"
    "run (alarm_thread_step ord) evs m1 = Some (m, outs1)" "outs = o1 # outs1"
    by (auto split: option.splits)
  show ?case
    using Cons.IH [OF st(2)] alarm_thread_step_asked [OF st(1), of a]
    unfolding st(3) entered_Cons [of e evs] by (simp add: raised_append)
qed simp

text \<open>
  C12. Every change of an alarm is announced exactly once, whichever threads set and clear it and however their calls
  overlap. An alarm is active exactly if the calls, in the order in which they entered the critical section, ask for
  it; counting what threads have still to publish, it has been announced as set exactly as often as these calls
  raised it, and as cleared just as often, less one while it is active. In particular the announcements balance
  with the table as soon as no thread has anything left to publish. Their order is not promised: publication
  happens outside the mutex.
\<close>

theorem alarm_announcements:
  assumes "\<And>xs. mset (ord xs) = mset xs"
    and "run (alarm_thread_step ord) evs (new_alarm_manager threads) = Some (m, outs)"
  shows "(is_active (am_active m) a \<longleftrightarrow> fold (asked a) (entered evs) False) \<and>
    sets_of a (concat outs @ concat (am_owed m)) = raises_of a (entered evs) False \<and>
    sets_of a (concat outs @ concat (am_owed m)) =
      clears_of a (concat outs @ concat (am_owed m)) + (if is_active (am_active m) a then 1 else 0)"
proof -
  have "announced m (es @ concat outs)" if "announced m0 es" "run (alarm_thread_step ord) evs m0 = Some (m, outs)" for m0 es
    using that
  proof (induction evs arbitrary: m0 es outs)
    case (Cons e evs)
    then obtain m1 o1 outs1 where st: "alarm_thread_step ord e m0 = Some (m1, o1)"
      "run (alarm_thread_step ord) evs m1 = Some (m, outs1)" "outs = o1 # outs1"
      by (auto split: option.splits)
    from Cons.IH [OF alarm_thread_step_announced [OF assms(1) Cons.prems(1) st(1)] st(2)] st(3) show ?case by simp
  qed simp
  moreover have new: "announced (new_alarm_manager threads) []" "\<not> is_active (am_active (new_alarm_manager threads)) a"
    "concat (am_owed (new_alarm_manager threads)) = []"
    by (simp_all add: announced_def new_alarm_manager_def alarm_inv_def is_active_def concat_replicate_trivial)
  ultimately have "announced m (concat outs)" using assms(2) by fastforce
  with alarm_threads_asked [OF assms(2), of a] new(2,3) show ?thesis by (auto simp: announced_def)
qed

text \<open>
  The scan thread sets an alarm, and before it has published that, the controller clears it and publishes: the last
  announcement says set, although the alarm is not active.
\<close>

definition overtaken :: "alarm_event list" where
  "overtaken = [Enter 0 (Set_alarm kScanStall ''stall''), Enter 1 Clear_all, Announce 1, Announce 0]"

lemma overtaken_run:
  "run (alarm_thread_step id) overtaken (new_alarm_manager 2) =
     Some (new_alarm_manager 2, [[], [], [AlarmCleared 1004 ''ScanStall''], [AlarmSet 1004 ''ScanStall'' ''stall'']])"
  by (simp add: overtaken_def new_alarm_manager_def alarm_set_def alarm_clear_all_def eval_nat_numeral)

theorem alarm_announcements_witness:
  "raises_of kScanStall (entered overtaken) False = 1 \<and>
   sets_of kScanStall [AlarmCleared 1004 ''ScanStall'', AlarmSet 1004 ''ScanStall'' ''stall''] = 1 \<and>
   clears_of kScanStall [AlarmCleared 1004 ''ScanStall'', AlarmSet 1004 ''ScanStall'' ''stall''] = 1"
  using alarm_announcements [OF _ overtaken_run, of kScanStall]
  by (simp add: new_alarm_manager_def is_active_def concat_replicate_trivial clears_of_def overtaken_def)

end
