(* ===== verification/Controller.thy ===== *)
theory Controller
  imports Alarms Event_Machine
begin

text \<open>
  The controller, \<^verbatim>\<open>src/core/controller.cpp\<close>: the only writer of machine state. Its thread runs
  one handler at a time, so a call is a function on the controller's state. What a handler does
  to the outside, in order, is its list of effects: publications on the event bus and calls of
  the scan driver. The alarm manager it shares with the scan thread is part of the state, and
  the scan thread's own calls of it are steps too.
\<close>

datatype effect = Publish core_event | Driver_start string | Driver_request_abort

record controller =
  pfsm :: process_machine
  cstate :: process_state
  cmode :: control_mode
  alarm_flag :: bool
  current_wafer_id :: string
  alarms :: alarm_table

definition new_controller :: controller where
  "new_controller =
     \<lparr>pfsm = new_machine, cstate = kIdle, cmode = kOnlineLocal, alarm_flag = False,
      current_wafer_id = [], alarms = []\<rparr>"

definition mode_allows_start :: "control_mode \<Rightarrow> command_source \<Rightarrow> bool" where
  "mode_allows_start mode src =
     (if mode = kOnlineRemote then src = kSecsGem else src \<noteq> kSecsGem)"

definition mode_allows_host_command :: "control_mode \<Rightarrow> command_source \<Rightarrow> bool" where
  "mode_allows_host_command mode src \<longleftrightarrow> src \<noteq> kSecsGem \<or> mode = kOnlineRemote"

definition mode_allows_set_mode ::
    "control_mode \<Rightarrow> control_mode \<Rightarrow> command_source \<Rightarrow> bool" where
  "mode_allows_set_mode requested current src =
     (if src \<noteq> kSecsGem then True else requested = kOffline \<or> current = kOffline)"

type_synonym call_result = "process_state result \<times> controller \<times> effect list"

definition transition :: "process_trigger \<Rightarrow> guards \<Rightarrow> controller \<Rightarrow> call_result" where
  "transition trigger g c =
     (let from = pm_state (pfsm c)
      in case process_apply trigger g (pfsm c) of
           (r, m) \<Rightarrow>
             if has_value r \<and> pm_state m \<noteq> from
             then (r, c\<lparr>pfsm := m, cstate := pm_state m\<rparr>, [Publish (StateChanged from (pm_state m))])
             else (r, c\<lparr>pfsm := m\<rparr>, []))"

definition host_denied :: "controller \<Rightarrow> call_result" where
  "host_denied c = (Err kReasonControlStateDenied ''host commands need Online-Remote'', c, [])"

fun handle_payload ::
    "(alarm_id list \<Rightarrow> alarm_id list) \<Rightarrow> command_source \<Rightarrow> command_payload \<Rightarrow> controller \<Rightarrow> call_result"
where
  "handle_payload ord src (StartCommand wafer slot) c =
     (let g = default_guards\<lparr>control_allows_start := mode_allows_start (cmode c) src,
                has_active_alarm := alarm_flag c, wafer_valid := (wafer \<noteq> [])\<rparr>
      in case transition kStart g c of
           (r, c, es) \<Rightarrow>
             if has_value r
             then (r, c\<lparr>current_wafer_id := wafer\<rparr>,
                   es @ [Publish (ScanStarted wafer slot), Driver_start wafer])
             else (r, c, es))"
| "handle_payload ord src StopCommand c =
     (if \<not> mode_allows_host_command (cmode c) src then host_denied c
      else transition kStop default_guards c)"
| "handle_payload ord src AbortCommand c =
     (if \<not> mode_allows_host_command (cmode c) src then host_denied c
      else case transition kAbort default_guards c of
             (r, c, es) \<Rightarrow> if has_value r then (r, c, es @ [Driver_request_abort]) else (r, c, es))"
| "handle_payload ord src ClearAlarmCommand c =
     (if \<not> mode_allows_host_command (cmode c) src then host_denied c
      else case transition kClearAlarm (default_guards\<lparr>alarm_cause_cleared := True\<rparr>) c of
             (r, c, es) \<Rightarrow>
               if has_value r
               then (case alarm_clear_all ord (alarms c) of
                       (t, as) \<Rightarrow> (r, c\<lparr>alarm_flag := False, alarms := t\<rparr>, es @ map Publish as))
               else (r, c, es))"
| "handle_payload ord src (SetControlModeCommand mode) c =
     (if \<not> mode_allows_set_mode mode (cmode c) src
      then (Err kReasonControlStateDenied ''SetControlMode denied for this source'', c, [])
      else (Ok (cstate c), c\<lparr>cmode := mode\<rparr>, [Publish (ControlStateChanged (cmode c) mode)]))"

definition handle_command ::
    "(alarm_id list \<Rightarrow> alarm_id list) \<Rightarrow> command \<Rightarrow> controller \<Rightarrow> call_result" where
  "handle_command ord cmd c = handle_payload ord (source cmd) (payload cmd) c"

definition notify_scan_complete :: "string \<Rightarrow> controller \<Rightarrow> call_result" where
  "notify_scan_complete wafer c =
     (case transition kLinesComplete default_guards c of
        (r, c, es) \<Rightarrow> (r, c, Publish (ScanLinesComplete wafer) # es))"

text \<open>The Fault transition with its alarm, shared by the two notifications that raise one.\<close>

definition raise_fault :: "alarm_id \<Rightarrow> string \<Rightarrow> controller \<Rightarrow> call_result" where
  "raise_fault a why c =
     (case transition kFault default_guards c of
        (r, c, es) \<Rightarrow>
          if has_value r
          then (case alarm_set a why (alarms c) of
                  (t, as) \<Rightarrow> (r, c\<lparr>alarm_flag := True, alarms := t\<rparr>, es @ map Publish as))
          else (r, c, es))"

definition notify_processing_result ::
    "bool \<Rightarrow> f8 \<Rightarrow> alarm_id option \<Rightarrow> string \<Rightarrow> bool \<Rightarrow> controller \<Rightarrow> call_result" where
  "notify_processing_result out_of_spec stress raised why pending c =
     (case raised of
        Some a \<Rightarrow> raise_fault a why c
      | None \<Rightarrow>
          let wafer = current_wafer_id c;
              pre = (if out_of_spec then [Publish (WaferOutOfSpec wafer stress)] else [])
          in case transition kResultReady (default_guards\<lparr>more_wafers_pending := pending\<rparr>) c of
               (r, c, es) \<Rightarrow>
                 if has_value r then (r, c, pre @ es @ [Publish (ScanComplete wafer 0 out_of_spec)])
                 else (r, c, pre @ es))"

definition notify_fault :: "alarm_id \<Rightarrow> string \<Rightarrow> controller \<Rightarrow> call_result" where
  "notify_fault a why c = raise_fault a why c"

definition notify_stage_stopped :: "controller \<Rightarrow> call_result" where
  "notify_stage_stopped c =
     (case transition kStageStopped default_guards c of
        (r, c, es) \<Rightarrow>
          if has_value r then (r, c, es @ [Publish (RunAborted (current_wafer_id c))])
          else (r, c, es))"

section \<open>Calls as events\<close>

datatype ctl_call =
    Submit command
  | Scan_complete string
  | Processing_result bool f8 "alarm_id option" string bool
  | Fault alarm_id string
  | Stage_stopped
  | Scan_thread_alarm alarm_call

fun controller_call ::
    "(alarm_id list \<Rightarrow> alarm_id list) \<Rightarrow> ctl_call \<Rightarrow> controller \<Rightarrow> call_result" where
  "controller_call ord (Submit cmd) c = handle_command ord cmd c"
| "controller_call ord (Scan_complete w) c = notify_scan_complete w c"
| "controller_call ord (Processing_result oos x a why pending) c =
     notify_processing_result oos x a why pending c"
| "controller_call ord (Fault a why) c = notify_fault a why c"
| "controller_call ord Stage_stopped c = notify_stage_stopped c"
| "controller_call ord (Scan_thread_alarm k) c =
     (case alarm_step ord k (alarms c) of
        (t, as) \<Rightarrow> (Ok (cstate c), c\<lparr>alarms := t\<rparr>, map Publish as))"

definition controller_step ::
    "(alarm_id list \<Rightarrow> alarm_id list) \<Rightarrow> ctl_call \<Rightarrow> controller
       \<Rightarrow> (controller \<times> process_state result \<times> effect list) option" where
  "controller_step ord k c = (case controller_call ord k c of (r, c', es) \<Rightarrow> Some (c', r, es))"

section \<open>Invariant\<close>

text \<open>
  The published snapshot agrees with the machine, and the alarm flag is exactly the Alarm state.
\<close>

definition controller_inv :: "controller \<Rightarrow> bool" where
  "controller_inv c \<longleftrightarrow>
     cstate c = pm_state (pfsm c) \<and> (alarm_flag c \<longleftrightarrow> cstate c = kAlarm)"

lemma allowed_Alarm:
  "allowed s t kAlarm \<Longrightarrow> t = kFault"
  "allowed kAlarm t s' \<Longrightarrow> t = kClearAlarm"
  "allowed s kFault s' \<Longrightarrow> s' = kAlarm \<and> s \<noteq> kAlarm"
  "allowed s kClearAlarm s' \<Longrightarrow> s = kAlarm \<and> s' = kIdle"
  by (auto simp: allowed_iff)

lemma transition_cases:
  assumes "transition t g c = (r, c', es)" "controller_inv c"
  obtains (refused) e where "r = Inl e" "c' = c" "es = []" "process_apply t g (pfsm c) = (Inl e, pfsm c)"
  | (stays) m where "r = Ok (cstate c)" "process_apply t g (pfsm c) = (r, m)" "pm_state m = cstate c"
      "c' = c\<lparr>pfsm := m\<rparr>" "es = []"
  | (moves) m where "r = Ok (pm_state m)" "process_apply t g (pfsm c) = (r, m)"
      "pm_state m \<noteq> cstate c" "allowed (cstate c) t (pm_state m)"
      "c' = c\<lparr>pfsm := m, cstate := pm_state m\<rparr>" "es = [Publish (StateChanged (cstate c) (pm_state m))]"
proof -
  obtain r0 m where a: "process_apply t g (pfsm c) = (r0, m)" by force
  have st: "cstate c = pm_state (pfsm c)" using assms(2) by (simp add: controller_inv_def)
  show thesis
  proof (cases r0)
    case (Inl e)
    then show ?thesis
      using assms(1) a process_apply_refused [OF a [unfolded Inl]] refused
      by (auto simp: transition_def Let_def)
  next
    case (Inr s)
    then have s: "s = pm_state m" "allowed (cstate c) t (pm_state m)"
      using process_apply_Ok [OF a [unfolded Inr]] st by auto
    show ?thesis
    proof (cases "pm_state m = cstate c")
      case True
      then show ?thesis
        using assms(1) a Inr s st stays by (simp add: transition_def Let_def)
    next
      case False
      show ?thesis
        by (rule moves [of m]) (use assms(1) a Inr s st False in \<open>auto simp: transition_def Let_def\<close>)
    qed
  qed
qed

section \<open>What observers see\<close>

text \<open>The state changes among a list of effects, and a walk they form.\<close>

fun state_changes :: "effect list \<Rightarrow> (process_state \<times> process_state) list" where
  "state_changes [] = []"
| "state_changes (Publish (StateChanged f t) # es) = (f, t) # state_changes es"
| "state_changes (_ # es) = state_changes es"

fun walk :: "process_state \<Rightarrow> (process_state \<times> process_state) list \<Rightarrow> process_state \<Rightarrow> bool" where
  "walk p [] q = (p = q)"
| "walk p ((f, t) # xs) q = (f = p \<and> f \<noteq> t \<and> (\<exists>tr. allowed f tr t) \<and> walk t xs q)"

lemma state_changes_append [simp]: "state_changes (es @ es') = state_changes es @ state_changes es'"
  by (induction es rule: state_changes.induct) auto

lemma walk_append: "walk p (xs @ ys) q \<longleftrightarrow> (\<exists>r. walk p xs r \<and> walk r ys q)"
  by (induction p xs q rule: walk.induct) auto

definition is_alarm_event :: "core_event \<Rightarrow> bool" where
  "is_alarm_event e \<longleftrightarrow> (case e of AlarmSet _ _ _ \<Rightarrow> True | AlarmCleared _ _ \<Rightarrow> True | _ \<Rightarrow> False)"

lemma alarm_step_events: "snd (alarm_step ord k t) = es \<Longrightarrow> e \<in> set es \<Longrightarrow> is_alarm_event e"
  by (cases k) (auto simp: alarm_set_def alarm_clear_def alarm_clear_all_def is_alarm_event_def
      split: if_splits)

lemma state_changes_alarms [simp]: "\<forall>e \<in> set as. is_alarm_event e \<Longrightarrow> state_changes (map Publish as) = []"
  by (induction as) (auto simp: is_alarm_event_def split: core_event.splits)

lemma alarm_set_events: "alarm_set a why t = (t', as) \<Longrightarrow> \<forall>e \<in> set as. is_alarm_event e"
  using alarm_step_events [of "id" "Set_alarm a why" t as] by auto

lemma alarm_clear_all_events: "alarm_clear_all ord t = (t', as) \<Longrightarrow> \<forall>e \<in> set as. is_alarm_event e"
  using alarm_step_events [of ord Clear_all t as] by auto

text \<open>
  One call, whatever it is: the invariant is kept, the state changes it publishes lead from the
  old state to the new one, and a refused command changes nothing and does nothing.
\<close>

definition call_ok :: "controller \<Rightarrow> call_result \<Rightarrow> bool" where
  "call_ok c = (\<lambda>(r, c', es).
     controller_inv c' \<and> walk (cstate c) (state_changes es) (cstate c'))"

lemma transition_ok:
  assumes "controller_inv c" "transition t g c = (r, c', es)"
    and "t \<noteq> kFault" "t \<noteq> kClearAlarm"
  shows "call_ok c (r, c', es)"
  using assms(2,1)
proof (cases rule: transition_cases)
  case (moves m)
  then have "pm_state m \<noteq> kAlarm" "cstate c \<noteq> kAlarm"
    using assms(3,4) allowed_Alarm(1,2) by metis+
  with moves show ?thesis
    using assms(1) by (auto simp: call_ok_def controller_inv_def)
qed (use assms in \<open>auto simp: call_ok_def controller_inv_def\<close>)

lemma raise_fault_ok:
  assumes "controller_inv c"
  shows "call_ok c (raise_fault a why c)"
proof -
  obtain r c1 es where t: "transition kFault default_guards c = (r, c1, es)" using prod_cases3 by blast
  obtain t' as where s: "alarm_set a why (alarms c1) = (t', as)" by force
  from t assms show ?thesis
  proof (cases rule: transition_cases)
    case (stays m)
    then have "allowed (pm_state (pfsm c)) kFault (pm_state m)" using process_apply_Ok by metis
    with stays assms show ?thesis using allowed_Alarm(3,4) by (metis controller_inv_def process_state.distinct(5))
  next
    case (refused e)
    then show ?thesis using assms t by (simp add: raise_fault_def call_ok_def)
  next
    case (moves m)
    then have "pm_state m = kAlarm" "cstate c \<noteq> kAlarm" using allowed_Alarm(3,4) by metis+
    with moves t s alarm_set_events [OF s] show ?thesis
      using assms by (auto simp: raise_fault_def call_ok_def controller_inv_def)
  qed
qed

lemma clear_alarm_ok:
  assumes "controller_inv c"
  shows "call_ok c (handle_payload ord src ClearAlarmCommand c)"
proof -
  obtain r c1 es where t: "transition kClearAlarm (default_guards\<lparr>alarm_cause_cleared := True\<rparr>) c = (r, c1, es)"
    using prod_cases3 by blast
  obtain t' as where s: "alarm_clear_all ord (alarms c1) = (t', as)" by force
  from t assms show ?thesis
  proof (cases rule: transition_cases)
    case (stays m)
    then have "allowed (pm_state (pfsm c)) kClearAlarm (pm_state m)" using process_apply_Ok by metis
    with stays assms show ?thesis using allowed_Alarm(3,4) by (metis controller_inv_def process_state.distinct(5))
  next
    case (refused e)
    then show ?thesis using assms t by (simp add: host_denied_def call_ok_def)
  next
    case (moves m)
    then have "pm_state m = kIdle" "cstate c = kAlarm" using allowed_Alarm(3,4) by metis+
    with moves t s alarm_clear_all_events [OF s] show ?thesis
      using assms by (auto simp: host_denied_def call_ok_def controller_inv_def)
  qed
qed

lemma call_ok_extend:
  assumes "call_ok c (r, c1, es)" "state_changes pre = []" "state_changes post = []"
    and "controller_inv c1 \<Longrightarrow> controller_inv c2" "cstate c2 = cstate c1"
  shows "call_ok c (r, c2, pre @ es @ post)"
  using assms by (simp add: call_ok_def)

lemma handle_payload_ok:
  assumes "controller_inv c"
  shows "call_ok c (handle_payload ord src p c)"
proof (cases p)
  case (StartCommand w slot)
  let ?g = "default_guards\<lparr>control_allows_start := mode_allows_start (cmode c) src,
                has_active_alarm := alarm_flag c, wafer_valid := (w \<noteq> [])\<rparr>"
  obtain r c1 es where t: "transition kStart ?g c = (r, c1, es)" using prod_cases3 by blast
  have "call_ok c (r, c1, es)" by (rule transition_ok [OF assms t]) simp_all
  with call_ok_extend [OF this, of "[]" "[Publish (ScanStarted w slot), Driver_start w]"
      "c1\<lparr>current_wafer_id := w\<rparr>"] t
  show ?thesis by (simp add: StartCommand Let_def controller_inv_def)
next
  case StopCommand
  obtain r c1 es where t: "transition kStop default_guards c = (r, c1, es)" using prod_cases3 by blast
  have "call_ok c (r, c1, es)" by (rule transition_ok [OF assms t]) simp_all
  with t assms show ?thesis by (simp add: StopCommand host_denied_def) (simp add: call_ok_def)
next
  case AbortCommand
  obtain r c1 es where t: "transition kAbort default_guards c = (r, c1, es)" using prod_cases3 by blast
  have "call_ok c (r, c1, es)" by (rule transition_ok [OF assms t]) simp_all
  with call_ok_extend [OF this, of "[]" "[Driver_request_abort]" c1] t assms
  show ?thesis by (simp add: AbortCommand host_denied_def) (simp add: call_ok_def)
next
  case ClearAlarmCommand
  then show ?thesis using clear_alarm_ok [OF assms] by simp
next
  case (SetControlModeCommand mode)
  then show ?thesis using assms by (simp add: call_ok_def controller_inv_def)
qed

lemma notify_processing_result_ok:
  assumes "controller_inv c"
  shows "call_ok c (notify_processing_result oos x a why pend c)"
proof (cases a)
  case None
  let ?g = "default_guards\<lparr>more_wafers_pending := pend\<rparr>"
  let ?pre = "if oos then [Publish (WaferOutOfSpec (current_wafer_id c) x)] else []"
  obtain r c1 es where t: "transition kResultReady ?g c = (r, c1, es)" using prod_cases3 by blast
  have ok: "call_ok c (r, c1, es)" by (rule transition_ok [OF assms t]) simp_all
  have "call_ok c (r, c1, ?pre @ es @ post)" if "state_changes post = []" for post
    by (rule call_ok_extend [OF ok]) (simp_all add: that)
  from this [of "[]"] this [of "[Publish (ScanComplete (current_wafer_id c) 0 oos)]"] t
  show ?thesis by (simp add: notify_processing_result_def None Let_def)
next
  case (Some al)
  then show ?thesis using raise_fault_ok [OF assms] by (simp add: notify_processing_result_def)
qed

lemma controller_call_ok:
  assumes "controller_inv c"
  shows "call_ok c (controller_call ord k c)"
proof (cases k)
  case (Submit cmd)
  then show ?thesis using handle_payload_ok [OF assms] by (simp add: handle_command_def)
next
  case (Scan_complete w)
  obtain r c1 es where t: "transition kLinesComplete default_guards c = (r, c1, es)"
    using prod_cases3 by blast
  have "call_ok c (r, c1, es)" by (rule transition_ok [OF assms t]) simp_all
  with call_ok_extend [OF this, of "[Publish (ScanLinesComplete w)]" "[]" c1] t
  show ?thesis by (simp add: Scan_complete notify_scan_complete_def)
next
  case (Processing_result oos x a why pend)
  then show ?thesis using notify_processing_result_ok [OF assms] by simp
next
  case (Fault a why)
  then show ?thesis using raise_fault_ok [OF assms] by (simp add: notify_fault_def)
next
  case Stage_stopped
  obtain r c1 es where t: "transition kStageStopped default_guards c = (r, c1, es)"
    using prod_cases3 by blast
  have "call_ok c (r, c1, es)" by (rule transition_ok [OF assms t]) simp_all
  with call_ok_extend [OF this, of "[]" "[Publish (RunAborted (current_wafer_id c1))]" c1] t
  show ?thesis by (simp add: Stage_stopped notify_stage_stopped_def)
next
  case (Scan_thread_alarm a)
  obtain t as where s: "alarm_step ord a (alarms c) = (t, as)" by force
  then have "\<forall>e \<in> set as. is_alarm_event e" using alarm_step_events by (metis snd_conv)
  with s assms show ?thesis by (simp add: Scan_thread_alarm call_ok_def controller_inv_def)
qed

lemma controller_step_ok:
  assumes "controller_inv c" "controller_step ord k c = Some (c', r, es)"
  shows "controller_inv c' \<and> walk (cstate c) (state_changes es) (cstate c')"
  using controller_call_ok [OF assms(1), of ord k] assms(2)
  by (auto simp: controller_step_def call_ok_def split: prod.splits)

lemma new_controller_inv: "controller_inv new_controller"
  by (simp add: controller_inv_def new_controller_def new_machine_def)

interpretation ctl: live_machine "(=) new_controller" "controller_step ord" controller_inv for ord
proof unfold_locales
  show "\<And>s. new_controller = s \<Longrightarrow> controller_inv s" using new_controller_inv by simp
  show "\<And>s e s' out. controller_inv s \<Longrightarrow> controller_step ord e s = Some (s', out) \<Longrightarrow> controller_inv s'"
    using controller_step_ok by (metis prod.collapse)
  show "\<And>s e. controller_inv s \<Longrightarrow> controller_step ord e s \<noteq> None"
    by (simp add: controller_step_def split: prod.splits)
qed

lemma run_walk:
  assumes "controller_inv c" "run (controller_step ord) ks c = Some (c', outs)"
  shows "walk (cstate c) (state_changes (concat (map snd outs))) (cstate c')"
  using assms
proof (induction ks arbitrary: c outs)
  case (Cons k ks)
  then obtain c1 r es outs1 where k: "controller_step ord k c = Some (c1, r, es)"
    and rest: "run (controller_step ord) ks c1 = Some (c', outs1)" "outs = (r, es) # outs1"
    by (auto split: option.splits)
  show ?case
    using controller_step_ok [OF Cons.prems(1) k] Cons.IH [OF _ rest(1)]
    by (auto simp: rest(2) walk_append)
qed simp

text \<open>
  C13. What the controller publishes is what it is. Over any sequence of commands and
  notifications from start-up, the StateChanged events form one unbroken walk through the
  documented table from Idle to the current state, the state snapshot equals the machine's
  state, and the alarm flag is set exactly in the Alarm state.
\<close>

theorem controller_state_published:
  assumes "run (controller_step ord) ks new_controller = Some (c, outs)"
  shows "walk kIdle (state_changes (concat (map snd outs))) (cstate c) \<and>
    cstate c = pm_state (pfsm c) \<and> (alarm_flag c \<longleftrightarrow> cstate c = kAlarm)"
proof -
  have "reach ((=) new_controller) (controller_step ord) new_controller" by (rule reach_init) simp
  then have "reach ((=) new_controller) (controller_step ord) c" using assms by (rule run_reach)
  then have "controller_inv c" by (rule ctl.reach_inv)
  then show ?thesis
    using run_walk [OF new_controller_inv assms] by (simp add: controller_inv_def new_controller_def)
qed

text \<open>A run used as evidence: start, lines complete, a poor fit raises an alarm, which is cleared.\<close>

definition ui_command :: "command_payload \<Rightarrow> command" where
  "ui_command p = \<lparr>payload = p, source = kUi, correlation_id = 1\<rparr>"

definition sample_calls :: "ctl_call list" where
  "sample_calls =
     [Submit (ui_command (StartCommand ''W1'' 1)), Scan_complete ''W1'',
      Processing_result False 0 (Some kFitQualityPoor) ''poor'' False,
      Submit (ui_command ClearAlarmCommand)]"

lemma sample_calls_run:
  "run (controller_step id) sample_calls new_controller =
     Some (new_controller\<lparr>current_wafer_id := ''W1''\<rparr>,
       [(Ok kScanning, [Publish (StateChanged kIdle kScanning), Publish (ScanStarted ''W1'' 1), Driver_start ''W1'']),
        (Ok kProcessing, [Publish (ScanLinesComplete ''W1''), Publish (StateChanged kScanning kProcessing)]),
        (Ok kAlarm, [Publish (StateChanged kProcessing kAlarm), Publish (AlarmSet 1003 ''FitQualityPoor'' ''poor'')]),
        (Ok kIdle, [Publish (StateChanged kAlarm kIdle), Publish (AlarmCleared 1003 ''FitQualityPoor'')])])"
  by (simp add: sample_calls_def ui_command_def controller_step_def handle_command_def transition_def
      Let_def process_apply_simps new_controller_def new_machine_def mode_allows_start_def
      default_guards_def notify_scan_complete_def notify_processing_result_def raise_fault_def
      alarm_set_def mode_allows_host_command_def alarm_clear_all_def)

theorem controller_state_published_witness:
  "walk kIdle [(kIdle, kScanning), (kScanning, kProcessing), (kProcessing, kAlarm), (kAlarm, kIdle)] kIdle"
  using controller_state_published [OF sample_calls_run] by (simp add: new_controller_def)

text \<open>
  C14. Who may do what, when. A command is accepted exactly when the process state allows it
  and the source may give it: the host only in Online-Remote, an operator Start never there, an
  operator Stop, Abort or ClearAlarm always; the host may only switch to or from Offline. The
  active-alarm guard of Start never decides, because the flag is set only in the Alarm state. A
  refused command changes nothing, has no effect on bus or driver, and carries the reason code of
  the first check that fails: for Start the state, the mode, the wafer id; for the others the mode, then
  the state.
\<close>

theorem command_acceptance:
  assumes "reach ((=) new_controller) (controller_step ord') c" "handle_command ord cmd c = (r, c', es)"
  shows "(has_value r \<longleftrightarrow>
      (case payload cmd of
         StartCommand wafer slot \<Rightarrow> cstate c = kIdle \<and> wafer \<noteq> [] \<and>
           (source cmd = kSecsGem \<longleftrightarrow> cmode c = kOnlineRemote)
       | StopCommand \<Rightarrow> cstate c = kScanning \<and> (source cmd = kSecsGem \<longrightarrow> cmode c = kOnlineRemote)
       | AbortCommand \<Rightarrow> cstate c \<in> {kScanning, kProcessing} \<and>
           (source cmd = kSecsGem \<longrightarrow> cmode c = kOnlineRemote)
       | ClearAlarmCommand \<Rightarrow> cstate c = kAlarm \<and> (source cmd = kSecsGem \<longrightarrow> cmode c = kOnlineRemote)
       | SetControlModeCommand mode \<Rightarrow>
           source cmd = kSecsGem \<longrightarrow> mode = kOffline \<or> cmode c = kOffline)) \<and>
    (\<not> has_value r \<longrightarrow> c' = c \<and> es = [] \<and>
      reason r = Some
       (case payload cmd of
          StartCommand wafer slot \<Rightarrow>
            if cstate c \<noteq> kIdle then kReasonIllegalTransition
            else if (source cmd = kSecsGem) \<noteq> (cmode c = kOnlineRemote) then kReasonControlStateDenied
            else kReasonInvalidWafer
        | SetControlModeCommand mode \<Rightarrow> kReasonControlStateDenied
        | _ \<Rightarrow> if source cmd = kSecsGem \<and> cmode c \<noteq> kOnlineRemote then kReasonControlStateDenied
               else kReasonIllegalTransition))"
proof -
  have inv: "controller_inv c" by (rule ctl.reach_inv [OF assms(1)])
  have upd: "c\<lparr>pfsm := pfsm c\<rparr> = c" by simp
  show ?thesis
    using assms(2) inv upd
    by (cases "payload cmd"; cases "pm_state (pfsm c)")
      (auto simp: handle_command_def transition_def process_apply_simps Let_def controller_inv_def
        mode_allows_start_def mode_allows_host_command_def mode_allows_set_mode_def host_denied_def
        default_guards_def split: prod.splits if_splits)
qed

theorem command_acceptance_witness:
  "let c = new_controller\<lparr>cmode := kOnlineRemote\<rparr>
   in reason (fst (handle_command id (ui_command (StartCommand ''W1'' 1)) c)) = Some kReasonControlStateDenied \<and>
      has_value (fst (handle_command id (ui_command (StartCommand ''W1'' 1)) new_controller))"
proof -
  let ?c = "new_controller\<lparr>cmode := kOnlineRemote\<rparr>"
  let ?cmd = "ui_command (StartCommand ''W1'' 1)"
  have 0: "reach ((=) new_controller) (controller_step id) new_controller" by (rule reach_init) simp
  have "controller_step id (Submit (ui_command (SetControlModeCommand kOnlineRemote))) new_controller =
      Some (?c, Ok kIdle, [Publish (ControlStateChanged kOnlineLocal kOnlineRemote)])"
    by (simp add: controller_step_def handle_command_def ui_command_def mode_allows_set_mode_def
        new_controller_def)
  then have 1: "reach ((=) new_controller) (controller_step id) ?c" by (rule reach_step [OF 0])
  obtain r c' es where a: "handle_command id ?cmd ?c = (r, c', es)" using prod_cases3 by blast
  obtain r2 c2 es2 where b: "handle_command id ?cmd new_controller = (r2, c2, es2)" using prod_cases3 by blast
  have "reason r = Some kReasonControlStateDenied"
    using command_acceptance [OF 1 a] by (simp add: ui_command_def new_controller_def)
  moreover have "has_value r2" using command_acceptance [OF 0 b] by (simp add: ui_command_def new_controller_def)
  ultimately show ?thesis using a b by simp
qed

section \<open>Runs\<close>

fun is_run_start :: "effect \<Rightarrow> bool" where
  "is_run_start (Publish (ScanStarted w slot)) = True"
| "is_run_start _ = False"

fun is_run_end :: "effect \<Rightarrow> bool" where
  "is_run_end (Publish (ScanComplete w slot oos)) = True"
| "is_run_end (Publish (RunAborted w)) = True"
| "is_run_end (Publish (StateChanged f t)) = (t = kAlarm)"
| "is_run_end _ = False"

definition tally :: "(effect \<Rightarrow> bool) \<Rightarrow> effect list \<Rightarrow> nat" where
  "tally P es = length (filter P es)"

definition in_run :: "controller \<Rightarrow> nat" where
  "in_run c = (if cstate c \<in> {kScanning, kProcessing, kStopping} then 1 else 0)"

lemma tally_simps [simp]:
  "tally P [] = 0"
  "tally P (e # es) = (if P e then Suc (tally P es) else tally P es)"
  "tally P (es @ es') = tally P es + tally P es'"
  by (simp_all add: tally_def)

lemma tally_alarms [simp]:
  "\<forall>e \<in> set as. is_alarm_event e \<Longrightarrow> tally is_run_start (map Publish as) = 0"
  "\<forall>e \<in> set as. is_alarm_event e \<Longrightarrow> tally is_run_end (map Publish as) = 0"
  by (induction as) (auto simp: is_alarm_event_def split: core_event.splits)

definition balanced :: "controller \<Rightarrow> call_result \<Rightarrow> bool" where
  "balanced c = (\<lambda>(r, c', es).
     in_run c + tally is_run_start es = in_run c' + tally is_run_end es)"

fun one_wafer :: "ctl_call \<Rightarrow> bool" where
  "one_wafer (Processing_result oos x a why pending) = (\<not> pending)"
| "one_wafer _ = True"

lemma balanced_simps [simp]:
  "balanced c (r, c', es) \<longleftrightarrow> in_run c + tally is_run_start es = in_run c' + tally is_run_end es"
  by (simp add: balanced_def)

lemma raise_fault_balanced: "controller_inv c \<Longrightarrow> balanced c (raise_fault a why c)"
  using alarm_set_events [of a why "alarms c"]
  by (cases "pm_state (pfsm c)"; cases "alarm_set a why (alarms c)")
    (simp_all add: raise_fault_def transition_def process_apply_simps Let_def controller_inv_def in_run_def)

lemma handle_payload_balanced: "controller_inv c \<Longrightarrow> balanced c (handle_payload ord src p c)"
  using alarm_clear_all_events [of ord "alarms c"]
  by (cases p; cases "pm_state (pfsm c)"; cases "alarm_clear_all ord (alarms c)")
    (simp_all add: transition_def process_apply_simps Let_def controller_inv_def in_run_def host_denied_def)

lemma controller_call_balanced:
  assumes "controller_inv c" "one_wafer k"
  shows "balanced c (controller_call ord k c)"
proof (cases k)
  case (Submit cmd)
  then show ?thesis using handle_payload_balanced [OF assms(1)] by (simp add: handle_command_def)
next
  case (Processing_result oos x a why pend)
  then show ?thesis
    using assms raise_fault_balanced [OF assms(1)]
    by (cases a; cases "pm_state (pfsm c)")
      (simp_all add: notify_processing_result_def transition_def process_apply_simps Let_def
        controller_inv_def in_run_def)
next
  case (Fault a why)
  then show ?thesis using raise_fault_balanced [OF assms(1)] by (simp add: notify_fault_def)
next
  case (Scan_thread_alarm a)
  obtain t as where s: "alarm_step ord a (alarms c) = (t, as)" by force
  then have "\<forall>e \<in> set as. is_alarm_event e" using alarm_step_events by (metis snd_conv)
  with s show ?thesis by (simp add: Scan_thread_alarm in_run_def)
qed (use assms in \<open>cases "pm_state (pfsm c)"; simp add: notify_scan_complete_def
    notify_stage_stopped_def transition_def process_apply_simps Let_def controller_inv_def in_run_def\<close>)+

text \<open>
  C15. Every run that starts ends exactly once, in exactly one way. Over any sequence of calls
  in which no result announces a further wafer (the machine processes single wafers), the number
  of ScanStarted events equals the number of runs completed (ScanComplete), aborted (RunAborted)
  or faulted (entry into Alarm), plus one while a run is in progress.
\<close>

theorem runs_balanced:
  assumes "run (controller_step ord) ks new_controller = Some (c, outs)" "list_all one_wafer ks"
  shows "tally is_run_start (concat (map snd outs)) =
    tally is_run_end (concat (map snd outs)) +
    (if cstate c \<in> {kScanning, kProcessing, kStopping} then 1 else 0)"
proof -
  have "controller_inv c0 \<Longrightarrow> run (controller_step ord) ks c0 = Some (c, outs) \<Longrightarrow> list_all one_wafer ks \<Longrightarrow>
      in_run c0 + tally is_run_start (concat (map snd outs)) = in_run c + tally is_run_end (concat (map snd outs))" for c0
  proof (induction ks arbitrary: c0 outs)
    case (Cons k ks)
    from Cons.prems(2) obtain c1 r es outs1 where k: "controller_step ord k c0 = Some (c1, r, es)"
      and rest: "run (controller_step ord) ks c1 = Some (c, outs1)" "outs = (r, es) # outs1"
      by (auto split: option.splits)
    have "balanced c0 (r, c1, es)"
      using controller_call_balanced [OF Cons.prems(1), of k ord] k Cons.prems(3)
      by (auto simp: controller_step_def split: prod.splits)
    with Cons.IH [OF _ rest(1)] controller_step_ok [OF Cons.prems(1) k] Cons.prems(3) rest(2)
    show ?case by simp
  qed simp
  from this [OF new_controller_inv assms] show ?thesis by (simp add: in_run_def new_controller_def)
qed

theorem runs_balanced_witness:
  "tally is_run_start [Publish (StateChanged kIdle kScanning), Publish (ScanStarted ''W1'' 1), Driver_start ''W1'',
     Publish (ScanLinesComplete ''W1''), Publish (StateChanged kScanning kProcessing),
     Publish (StateChanged kProcessing kAlarm), Publish (AlarmSet 1003 ''FitQualityPoor'' ''poor''),
     Publish (StateChanged kAlarm kIdle), Publish (AlarmCleared 1003 ''FitQualityPoor'')] = 1"
  using runs_balanced [OF sample_calls_run] by (simp add: sample_calls_def new_controller_def)

end
