(* ===== verification/Machine_Api.thy ===== *)
theory Machine_Api
  imports Controller
begin

text \<open>
  The facade the panel, the CLI and the SECS/GEM service use, \<^verbatim>\<open>src/core/machine_api.cpp\<close>, and
  the table of operator buttons, \<^verbatim>\<open>src/core/ui_rules.cpp\<close>. The facade's event-bus handlers run
  on the publishing thread, so they are applied to every event a command publishes.
\<close>

record machine_api =
  api_controller :: controller
  next_correlation_id :: u64
  progress_percent :: f8
  last_result :: "wafer_result option"

record machine_snapshot =
  snap_process_state :: process_state
  snap_control_mode :: control_mode
  snap_alarm_active :: bool
  snap_progress_percent :: f8
  snap_wafer_id :: string
  snap_last_result :: "wafer_result option"

definition new_machine_api :: "controller \<Rightarrow> machine_api" where
  "new_machine_api c =
     \<lparr>api_controller = c, next_correlation_id = 1, progress_percent = 0, last_result = None\<rparr>"

text \<open>The three subscriptions of the constructor; 0 is the bit pattern of \<^verbatim>\<open>0.0\<close>.\<close>

fun api_on_event :: "core_event \<Rightarrow> machine_api \<Rightarrow> machine_api" where
  "api_on_event (ScanProgress w p) a = a\<lparr>progress_percent := p\<rparr>"
| "api_on_event (ScanStarted w slot) a = a\<lparr>progress_percent := 0\<rparr>"
| "api_on_event (WaferResultReady r) a = a\<lparr>last_result := Some r\<rparr>"
| "api_on_event _ a = a"

fun api_on_effect :: "effect \<Rightarrow> machine_api \<Rightarrow> machine_api" where
  "api_on_effect (Publish e) a = api_on_event e a"
| "api_on_effect _ a = a"

definition api_submit ::
    "(alarm_id list \<Rightarrow> alarm_id list) \<Rightarrow> command_payload \<Rightarrow> command_source \<Rightarrow> machine_api
       \<Rightarrow> process_state result \<times> machine_api \<times> effect list" where
  "api_submit ord p src a =
     (let cmd = \<lparr>payload = p, source = src, correlation_id = next_correlation_id a\<rparr>
      in case handle_command ord cmd (api_controller a) of
           (r, c, es) \<Rightarrow>
             (r, fold api_on_effect es
                   (a\<lparr>next_correlation_id := next_correlation_id a + 1, api_controller := c\<rparr>), es))"

definition api_start where
  "api_start ord wafer slot src a = api_submit ord (StartCommand wafer slot) src a"

definition api_stop where
  "api_stop ord src a = api_submit ord StopCommand src a"

definition api_abort where
  "api_abort ord src a = api_submit ord AbortCommand src a"

definition api_clear_alarm where
  "api_clear_alarm ord src a = api_submit ord ClearAlarmCommand src a"

definition api_set_control_mode where
  "api_set_control_mode ord mode src a = api_submit ord (SetControlModeCommand mode) src a"

definition snapshot :: "machine_api \<Rightarrow> machine_snapshot" where
  "snapshot a =
     \<lparr>snap_process_state = cstate (api_controller a), snap_control_mode = cmode (api_controller a),
      snap_alarm_active = alarm_flag (api_controller a),
      snap_progress_percent = progress_percent a,
      snap_wafer_id = current_wafer_id (api_controller a), snap_last_result = last_result a\<rparr>"

section \<open>Operator buttons\<close>

record action_rules =
  can_start :: bool
  can_stop :: bool
  can_abort :: bool
  can_clear_alarm :: bool
  can_change_mode :: bool

definition rules_for :: "process_state \<Rightarrow> control_mode \<Rightarrow> bool \<Rightarrow> action_rules" where
  "rules_for st mode alarm_active =
     \<lparr>can_start = (st = kIdle \<and> \<not> alarm_active \<and> mode \<noteq> kOnlineRemote),
      can_stop = (st = kScanning),
      can_abort = (st = kScanning \<or> st = kProcessing),
      can_clear_alarm = (st = kAlarm),
      can_change_mode = (st = kIdle \<or> st = kAlarm)\<rparr>"

lemma api_submit_result:
  "has_value (fst (api_submit ord p src a)) \<longleftrightarrow>
     has_value (fst (handle_payload ord src p (api_controller a)))"
  by (simp add: api_submit_def Let_def handle_command_def split: prod.splits)

lemma accepts_iff:
  assumes "controller_inv c"
  shows "has_value (fst (handle_payload ord src (StartCommand w slot) c)) \<longleftrightarrow>
      cstate c = kIdle \<and> w \<noteq> [] \<and> (src = kSecsGem \<longleftrightarrow> cmode c = kOnlineRemote)"
    and "has_value (fst (handle_payload ord src StopCommand c)) \<longleftrightarrow>
      cstate c = kScanning \<and> (src = kSecsGem \<longrightarrow> cmode c = kOnlineRemote)"
    and "has_value (fst (handle_payload ord src AbortCommand c)) \<longleftrightarrow>
      cstate c \<in> {kScanning, kProcessing} \<and> (src = kSecsGem \<longrightarrow> cmode c = kOnlineRemote)"
    and "has_value (fst (handle_payload ord src ClearAlarmCommand c)) \<longleftrightarrow>
      cstate c = kAlarm \<and> (src = kSecsGem \<longrightarrow> cmode c = kOnlineRemote)"
  using assms
  by (cases "pm_state (pfsm c)"; cases src; cases "cmode c";
      simp add: transition_def process_apply_simps Let_def controller_inv_def mode_allows_start_def
        mode_allows_host_command_def host_denied_def default_guards_def split: prod.splits)+

text \<open>
  C16. The four action buttons of the panel offer exactly what the controller accepts: in every reachable
  machine Start, Stop, Abort and Clear, computed from the snapshot, are enabled exactly when the
  command, given by the operator (with a wafer id for Start), is accepted. The mode selector is no such
  button: the controller takes an operator's mode change in every state, and the panel offers it in Idle
  and Alarm only.
\<close>

theorem buttons_match_controller:
  assumes "reach ((=) new_controller) (controller_step ord) (api_controller a)" "src \<noteq> kSecsGem"
    and "rules = rules_for (snap_process_state (snapshot a)) (snap_control_mode (snapshot a))
      (snap_alarm_active (snapshot a))"
    and "wafer \<noteq> []"
  shows "(can_start rules \<longleftrightarrow> has_value (fst (api_start ord wafer slot src a))) \<and>
    (can_stop rules \<longleftrightarrow> has_value (fst (api_stop ord src a))) \<and>
    (can_abort rules \<longleftrightarrow> has_value (fst (api_abort ord src a))) \<and>
    (can_clear_alarm rules \<longleftrightarrow> has_value (fst (api_clear_alarm ord src a))) \<and>
    has_value (fst (api_set_control_mode ord mode src a)) \<and>
    (can_change_mode rules \<longleftrightarrow> cstate (api_controller a) \<in> {kIdle, kAlarm})"
proof -
  have inv: "controller_inv (api_controller a)" by (rule ctl.reach_inv [OF assms(1)])
  then have "alarm_flag (api_controller a) \<longleftrightarrow> cstate (api_controller a) = kAlarm"
    by (simp add: controller_inv_def)
  then show ?thesis
    using assms(2,4)
    unfolding assms(3) api_start_def api_stop_def api_abort_def api_clear_alarm_def
      api_set_control_mode_def api_submit_result accepts_iff [OF inv]
    by (auto simp: rules_for_def snapshot_def mode_allows_set_mode_def)
qed

theorem buttons_match_controller_witness:
  "can_start (rules_for kIdle kOnlineLocal False) \<and>
   has_value (fst (api_start id ''W1'' 1 kUi (new_machine_api new_controller)))"
proof -
  have "reach ((=) new_controller) (controller_step id) (api_controller (new_machine_api new_controller))"
    by (rule reach_init) (simp add: new_machine_api_def)
  from buttons_match_controller [OF this _ refl, of kUi "''W1''" 1] show ?thesis
    by (simp add: rules_for_def snapshot_def new_machine_api_def new_controller_def)
qed

end
