(* ===== verification/Gem_Service.thy ===== *)
theory Gem_Service
  imports Gem_Messages Gem_Identifiers Hsms_Session Machine_Api Std_Float
begin

text \<open>
  The GEM service, \<^verbatim>\<open>src/secsgem/gem/gem_service.cpp\<close>: what the machine answers to a host, what
  it reports unasked, and how host commands reach the controller. It runs on the I/O thread;
  its outputs are the requests and replies it posts to the message sender. The machine facade it
  calls is part of its state, and the effects of those calls (bus events, driver calls) are
  returned as the controller's are. Logging is left out.
\<close>

datatype comm_state = kNotCommunicating | kCommunicating

record gem_config =
  gem_identity :: identity
  gem_device_id :: u16
  allow_host_online :: bool
  max_body_bytes :: nat
  num_lines :: int

definition default_gem_config :: gem_config where
  "default_gem_config =
     \<lparr>gem_identity = \<lparr>model = ''SSIM-128'', softrev = ''0.1.0''\<rparr>, gem_device_id = 0,
      allow_host_online = True, max_body_bytes = 65536, num_lines = 6\<rparr>"

record gem =
  gconfig :: gem_config
  api :: machine_api
  gfactory :: factory
  started :: int
  comm :: comm_state
  next_dataid :: u32
  wafers_processed :: u32
  preferred_online_mode :: control_mode
  open_requests :: "(u32, header) omap"

definition new_gem :: "gem_config \<Rightarrow> machine_api \<Rightarrow> int \<Rightarrow> gem" where
  "new_gem cfg a now =
     \<lparr>gconfig = cfg, api = a, gfactory = register_equipment_catalogue empty_factory, started = now,
      comm = kNotCommunicating, next_dataid = 1, wafers_processed = 0,
      preferred_online_mode = kOnlineLocal, open_requests = []\<rparr>"

datatype gem_out = Post_request secs_message | Post_reply u32 secs_message

section \<open>Codes and conversions\<close>

fun control_code :: "control_mode \<Rightarrow> byte" where
  "control_code kOffline = 0"
| "control_code kOnlineLocal = 1"
| "control_code kOnlineRemote = 2"

fun process_code :: "process_state \<Rightarrow> byte" where
  "process_code kIdle = 0"
| "process_code kScanning = 1"
| "process_code kProcessing = 2"
| "process_code kAlarm = 3"
| "process_code kStopping = 4"

definition wafer_char_ok :: "char \<Rightarrow> bool" where
  "wafer_char_ok c \<longleftrightarrow>
     (let n = (of_char c :: nat)
      in 65 \<le> n \<and> n \<le> 90 \<or> 97 \<le> n \<and> n \<le> 122 \<or> 48 \<le> n \<and> n \<le> 57 \<or> c = CHR ''_'' \<or> c = CHR ''-'')"

definition valid_wafer_id :: "string \<Rightarrow> bool" where
  "valid_wafer_id i = (if i = [] \<or> length i > 32 then False else list_all wafer_char_ok i)"

definition known_alid :: "u32 \<Rightarrow> bool" where
  "known_alid a \<longleftrightarrow> a \<ge> 1001 \<and> a \<le> 1008"

fun as_u32 :: "item \<Rightarrow> u32 option" where
  "as_u32 (U1 [v]) = Some (ucast v)"
| "as_u32 (U2 [v]) = Some (ucast v)"
| "as_u32 (U4 [v]) = Some v"
| "as_u32 _ = None"

section \<open>Sending\<close>

definition reply :: "frame \<Rightarrow> secs_message \<Rightarrow> gem_out list" where
  "reply request m =
     (if header_w_bit (hdr request) then [Post_reply (system_bytes (hdr request)) m] else [])"

definition gem_send_request :: "secs_message \<Rightarrow> gem_out list" where
  "gem_send_request m = [Post_request m]"

text \<open>
  The callback \<^verbatim>\<open>on_sent\<close> of a posted request: the sender calls it with the system bytes it used,
  once the request has gone out. It closes over the request's header bytes.
\<close>

definition on_sent :: "secs_message \<Rightarrow> u32 \<Rightarrow> gem \<Rightarrow> gem" where
  "on_sent m sys g =
     (if \<not> w_bit m then g
      else g\<lparr>open_requests := omap_put sys
              \<lparr>session_id = gem_device_id (gconfig g),
               byte2 = (stream m AND 0x7F) OR (if w_bit m then 0x80 else 0), byte3 = func m,
               ptype = 0, stype = 0, system_bytes = sys\<rparr> (open_requests g)\<rparr>)"

definition send_s9 :: "byte \<Rightarrow> header \<Rightarrow> gem_out list" where
  "send_s9 f offending = gem_send_request (make_s9 f (header_bytes offending))"

definition send_event :: "u32 \<Rightarrow> report list \<Rightarrow> gem \<Rightarrow> gem \<times> gem_out list" where
  "send_event c rpts g =
     (if comm g \<noteq> kCommunicating then (g, [])
      else (g\<lparr>next_dataid := next_dataid g + 1\<rparr>,
            gem_send_request (make_s6f11 \<lparr>dataid = next_dataid g, ceid = c, reports = rpts\<rparr>)))"

definition send_alarm :: "byte \<Rightarrow> u32 \<Rightarrow> string \<Rightarrow> gem \<Rightarrow> gem \<times> gem_out list" where
  "send_alarm a n txt g =
     (if comm g \<noteq> kCommunicating then (g, [])
      else (g, gem_send_request (make_s5f1 \<lparr>alcd = a, ar_alid = n, altx = txt\<rparr>)))"

section \<open>Events and alarms\<close>

definition states_report :: "control_mode \<Rightarrow> process_state \<Rightarrow> report list" where
  "states_report cm ps =
     [\<lparr>rptid = kRptidStates, rpt_values = [U1 [control_code cm], U1 [process_code ps]]\<rparr>]"

definition on_process_state_changed :: "process_state \<Rightarrow> gem \<Rightarrow> gem \<times> gem_out list" where
  "on_process_state_changed to g =
     send_event kCeidProcessStateChanged
       (states_report (snap_control_mode (snapshot (api g))) to) g"

definition on_control_state_changed :: "control_mode \<Rightarrow> gem \<Rightarrow> gem \<times> gem_out list" where
  "on_control_state_changed to g =
     (let g = (if to \<noteq> kOffline then g\<lparr>preferred_online_mode := to\<rparr> else g)
      in send_event kCeidControlStateChanged
           (states_report to (snap_process_state (snapshot (api g)))) g)"

definition on_scan_started :: "string \<Rightarrow> int \<Rightarrow> gem \<Rightarrow> gem \<times> gem_out list" where
  "on_scan_started wafer slot g =
     send_event kCeidWaferScanStarted
       [\<lparr>rptid = kRptidScanStarted, rpt_values =
          [ASCII wafer, U1 [word_of_int slot], U1 [word_of_int (num_lines (gconfig g))]]\<rparr>] g"

definition result_report :: "wafer_result \<Rightarrow> report list" where
  "result_report r =
     [\<lparr>rptid = kRptidWaferResult, rpt_values =
        [ASCII (wr_wafer_id r), U1 [word_of_int (wr_slot r)], F4 [f8_to_f4 (stress_mpa r)],
         F4 [f8_to_f4 (stress_unc_mpa r)], F4 [f8_to_f4 (curvature_per_m r)],
         F4 [f8_to_f4 (fit_rms_um r)], boolean1 (wr_out_of_spec r)]\<rparr>]"

definition on_result :: "wafer_result \<Rightarrow> gem \<Rightarrow> gem \<times> gem_out list" where
  "on_result r g =
     (let g = g\<lparr>wafers_processed := wafers_processed g + 1\<rparr>
      in case send_event kCeidWaferScanComplete (result_report r) g of
           (g, o1) \<Rightarrow>
             if wr_out_of_spec r
             then (case send_event kCeidWaferOutOfSpec (result_report r) g of (g, o2) \<Rightarrow> (g, o1 @ o2))
             else (g, o1))"

definition on_run_aborted :: "gem \<Rightarrow> gem \<times> gem_out list" where
  "on_run_aborted g =
     (let snap = snapshot (api g)
      in send_event kCeidRunAborted
           (states_report (snap_control_mode snap) (snap_process_state snap)) g)"

definition on_alarm :: "bool \<Rightarrow> int \<Rightarrow> string \<Rightarrow> gem \<Rightarrow> gem \<times> gem_out list" where
  "on_alarm set_it n txt g =
     send_alarm ((if set_it then kAlcdSetBit else 0) OR kAlarmCategory) (word_of_int n) txt g"

text \<open>
  The constructor's bus subscriptions: each posts a task to the I/O thread. \<open>gem_task\<close> is the
  task an event posts, run there.
\<close>

fun gem_task :: "core_event \<Rightarrow> gem \<Rightarrow> gem \<times> gem_out list" where
  "gem_task (StateChanged f to) g = on_process_state_changed to g"
| "gem_task (ControlStateChanged f to) g = on_control_state_changed to g"
| "gem_task (ScanStarted wafer slot) g = on_scan_started wafer slot g"
| "gem_task (WaferResultReady r) g = on_result r g"
| "gem_task (RunAborted wafer) g = on_run_aborted g"
| "gem_task (AlarmSet n name why) g = on_alarm True n why g"
| "gem_task (AlarmCleared n name) g = on_alarm False n name g"
| "gem_task _ g = (g, [])"

section \<open>The session's callbacks\<close>

definition on_session_state :: "connection_state \<Rightarrow> gem \<Rightarrow> gem" where
  "on_session_state st g =
     (if st \<noteq> kSelected then g\<lparr>comm := kNotCommunicating, open_requests := []\<rparr> else g)"

definition on_transaction_timeout :: "u32 \<Rightarrow> gem \<Rightarrow> gem \<times> gem_out list" where
  "on_transaction_timeout sys g =
     (case omap_find (open_requests g) sys of
        None \<Rightarrow> (g, [])
      | Some sent \<Rightarrow> (g\<lparr>open_requests := omap_erase sys (open_requests g)\<rparr>, send_s9 9 sent))"

section \<open>Host messages\<close>

definition trunc_div :: "int \<Rightarrow> int \<Rightarrow> int" where
  "trunc_div a b = (if a \<ge> 0 then a div b else - ((- a) div b))"

definition status_value :: "int \<Rightarrow> u32 \<Rightarrow> gem \<Rightarrow> item" where
  "status_value now sv g =
     (let snap = snapshot (api g);
          result_field = (\<lambda>field. case snap_last_result snap of
                            None \<Rightarrow> 0 | Some r \<Rightarrow> f8_to_f4 (field r))
      in if sv = kSvidControlState then U1 [control_code (snap_control_mode snap)]
         else if sv = kSvidProcessState then U1 [process_code (snap_process_state snap)]
         else if sv = kSvidCurrentWaferId then ASCII (snap_wafer_id snap)
         else if sv = kSvidCurrentSlot then U1 [1]
         else if sv = kSvidScanProgressPercent then F4 [f8_to_f4 (snap_progress_percent snap)]
         else if sv = kSvidLastStressMpa then F4 [result_field stress_mpa]
         else if sv = kSvidLastCurvature then F4 [result_field curvature_per_m]
         else if sv = kSvidLastFitRmsUm then F4 [result_field fit_rms_um]
         else if sv = kSvidActiveAlarmCount
         then U2 [word_of_nat (active_count (alarms (api_controller (api g))))]
         else if sv = kSvidSoftwareRevision then ASCII (softrev (gem_identity (gconfig g)))
         else if sv = kSvidUptimeSeconds
         then (let up = trunc_div (now - started g) 1000000000
               in U4 [word_of_int (if up < 0 then 0 else up)])
         else if sv = kSvidWafersProcessed then U4 [wafers_processed g]
         else LIST [])"

text \<open>
  A handler's outcome; \<open>None\<close> is the exception that \<^verbatim>\<open>value()\<close> throws on an error result.
\<close>

type_synonym gem_result = "(gem \<times> gem_out list \<times> effect list) option"

definition handle_status_request :: "int \<Rightarrow> frame \<Rightarrow> secs_message \<Rightarrow> gem \<Rightarrow> gem_result" where
  "handle_status_request now fr m g =
     (case parse_s1f3 m of
        Inl _ \<Rightarrow> None
      | Inr svids \<Rightarrow>
          let svids = (if svids = [] then map svid status_variables else svids)
          in Some (g, reply fr (make_s1f4 (map (\<lambda>sv. status_value now sv g) svids)), []))"

definition handle_offline_request ::
    "(alarm_id list \<Rightarrow> alarm_id list) \<Rightarrow> frame \<Rightarrow> gem \<Rightarrow> gem_result" where
  "handle_offline_request ord fr g =
     (case api_set_control_mode ord kOffline kSecsGem (api g) of
        (_, a, es) \<Rightarrow> Some (g\<lparr>api := a\<rparr>, reply fr (make_s1f16 kOflackOk), es))"

definition handle_online_request ::
    "(alarm_id list \<Rightarrow> alarm_id list) \<Rightarrow> frame \<Rightarrow> gem \<Rightarrow> gem_result" where
  "handle_online_request ord fr g =
     (if \<not> allow_host_online (gconfig g)
      then Some (g, reply fr (make_s1f18 kOnlackNotAllowed), [])
      else if snap_control_mode (snapshot (api g)) \<noteq> kOffline
      then Some (g, reply fr (make_s1f18 kOnlackAlreadyOnline), [])
      else case api_set_control_mode ord (preferred_online_mode g) kSecsGem (api g) of
             (r, a, es) \<Rightarrow>
               Some (g\<lparr>api := a\<rparr>,
                     reply fr (make_s1f18 (if has_value r then kOnlackAccepted else kOnlackNotAllowed)),
                     es))"

text \<open>The parameter loop: acknowledgements so far, whether all were good, and the wafer id.\<close>

record param_scan =
  ps_acks :: "param_ack list"
  ps_ok :: bool
  ps_wafer :: "string option"
  ps_alid :: "u32 option"

definition push_ack :: "string \<Rightarrow> byte \<Rightarrow> param_scan \<Rightarrow> param_scan" where
  "push_ack n k ps = ps\<lparr>ps_acks := ps_acks ps @ [\<lparr>pa_name = n, cpack = k\<rparr>]\<rparr>"

definition scan_param :: "string \<Rightarrow> command_param \<Rightarrow> param_scan \<Rightarrow> param_scan" where
  "scan_param name p ps =
     (if name = ''START'' \<and> cp_name p = ''WAFER_ID''
      then (if ps_wafer ps \<noteq> None
            then (push_ack (cp_name p) kCpackIllegalValue ps)\<lparr>ps_ok := False\<rparr>
            else if item_format (cp_value p) \<noteq> kAscii
            then (push_ack (cp_name p) kCpackIllegalFormat ps)\<lparr>ps_ok := False\<rparr>
            else if \<not> valid_wafer_id (as_ascii (cp_value p))
            then (push_ack (cp_name p) kCpackIllegalValue ps)\<lparr>ps_ok := False\<rparr>
            else (push_ack (cp_name p) kCpackOk ps)\<lparr>ps_wafer := Some (as_ascii (cp_value p))\<rparr>)
      else if name = ''START'' \<and> cp_name p = ''CASSETTE_ID''
      then (push_ack (cp_name p) kCpackIllegalValue ps)\<lparr>ps_ok := False\<rparr>
      else if name = ''CLEAR_ALARM'' \<and> cp_name p = ''ALID''
      then (case as_u32 (cp_value p) of
              None \<Rightarrow> (push_ack (cp_name p) kCpackIllegalFormat ps)\<lparr>ps_ok := False\<rparr>
            | Some v \<Rightarrow>
                if \<not> known_alid v
                then (push_ack (cp_name p) kCpackIllegalValue ps)\<lparr>ps_ok := False\<rparr>
                else (push_ack (cp_name p) kCpackOk ps)\<lparr>ps_alid := Some v\<rparr>)
      else (push_ack (cp_name p) kCpackUnknownName ps)\<lparr>ps_ok := False\<rparr>)"

definition scan_params :: "remote_command \<Rightarrow> param_scan" where
  "scan_params c =
     fold (scan_param (rcmd c)) (rc_params c)
       \<lparr>ps_acks = [], ps_ok = True, ps_wafer = None, ps_alid = None\<rparr>"

definition execute_command ::
    "(alarm_id list \<Rightarrow> alarm_id list) \<Rightarrow> remote_command \<Rightarrow> machine_api
       \<Rightarrow> byte \<times> param_ack list \<times> machine_api \<times> effect list" where
  "execute_command ord c a =
     (let name = rcmd c
      in if name \<noteq> ''START'' \<and> name \<noteq> ''STOP'' \<and> name \<noteq> ''ABORT'' \<and> name \<noteq> ''CLEAR_ALARM''
         then (kHcackUnknownCommand, [], a, [])
         else if snap_control_mode (snapshot a) \<noteq> kOnlineRemote
         then (kHcackCannotPerformNow, [], a, [])
         else let ps = scan_params c;
                  params_ok = (ps_ok ps \<and> \<not> (name = ''START'' \<and> ps_wafer ps = None))
              in if \<not> params_ok then (kHcackInvalidParameter, ps_acks ps, a, [])
                 else case (if name = ''START'' then api_start ord (the (ps_wafer ps)) 1 kSecsGem a
                            else if name = ''STOP'' then api_stop ord kSecsGem a
                            else if name = ''ABORT'' then api_abort ord kSecsGem a
                            else api_clear_alarm ord kSecsGem a) of
                        (r, a, es) \<Rightarrow>
                          if \<not> has_value r then (kHcackCannotPerformNow, ps_acks ps, a, es)
                          else (if name = ''START'' then kHcackAcceptedLater else kHcackDone,
                                ps_acks ps, a, es))"

definition handle_remote_command ::
    "(alarm_id list \<Rightarrow> alarm_id list) \<Rightarrow> frame \<Rightarrow> secs_message \<Rightarrow> gem \<Rightarrow> gem_result" where
  "handle_remote_command ord fr m g =
     (case parse_s2f41 m of
        Inl _ \<Rightarrow> None
      | Inr c \<Rightarrow>
          (case execute_command ord c (api g) of
             (hc, acks, a, es) \<Rightarrow> Some (g\<lparr>api := a\<rparr>, reply fr (make_s2f42 hc acks), es)))"

definition handle_message ::
    "(alarm_id list \<Rightarrow> alarm_id list) \<Rightarrow> int \<Rightarrow> frame \<Rightarrow> secs_message \<Rightarrow> gem \<Rightarrow> gem_result" where
  "handle_message ord now fr m g =
     (let key = (stream m, func m)
      in if key = (1, 1) then Some (g, reply fr (make_s1f2 (gem_identity (gconfig g))), [])
         else if key = (1, 13)
         then Some (g\<lparr>comm := kCommunicating\<rparr>,
                    reply fr (make_s1f14 kCommackAccepted (gem_identity (gconfig g))), [])
         else if key = (1, 3) then handle_status_request now fr m g
         else if key = (1, 15) then handle_offline_request ord fr g
         else if key = (1, 17) then handle_online_request ord fr g
         else if key = (2, 41) then handle_remote_command ord fr m g
         else Some (g, [], []))"

definition on_data ::
    "(alarm_id list \<Rightarrow> alarm_id list) \<Rightarrow> int \<Rightarrow> delivery \<Rightarrow> gem \<Rightarrow> gem_result" where
  "on_data ord now d g =
     (let fr = dlv_frame d
      in case reply_to d of
           Some sys \<Rightarrow> Some (g\<lparr>open_requests := omap_erase sys (open_requests g)\<rparr>, [], [])
         | None \<Rightarrow>
             if session_id (hdr fr) \<noteq> gem_device_id (gconfig g)
             then Some (g, send_s9 1 (hdr fr), [])
             else if length (fbody fr) > max_body_bytes (gconfig g)
             then Some (g, send_s9 11 (hdr fr), [])
             else case to_message fr of
                    Inl _ \<Rightarrow> Some (g, send_s9 7 (hdr fr), [])
                  | Inr m \<Rightarrow>
                      (case factory_check (gfactory g) m of
                         kOk \<Rightarrow> handle_message ord now fr m g
                       | kUnknownStream \<Rightarrow> Some (g, send_s9 3 (hdr fr), [])
                       | kUnknownFunction \<Rightarrow> Some (g, send_s9 5 (hdr fr), [])
                       | kIllegalData \<Rightarrow> Some (g, send_s9 7 (hdr fr), [])))"

section \<open>Calls as events\<close>

text \<open>
  Besides the calls of the session, the tasks posted by bus subscriptions and the sender's
  \<^verbatim>\<open>on_sent\<close>, the rest of the machine may act at any time: operators, the scan thread and the
  analysis reach the same controller.
\<close>

datatype gem_event =
    Data int delivery | Session_state connection_state | Timed_out u32 | Sent secs_message u32
  | Task core_event | Machine ctl_call

fun gem_step ::
    "(alarm_id list \<Rightarrow> alarm_id list) \<Rightarrow> gem_event \<Rightarrow> gem \<Rightarrow> (gem \<times> gem_out list \<times> effect list) option"
where
  "gem_step ord (Data now d) g = on_data ord now d g"
| "gem_step ord (Session_state st) g = Some (on_session_state st g, [], [])"
| "gem_step ord (Timed_out sys) g = (case on_transaction_timeout sys g of (g, o1) \<Rightarrow> Some (g, o1, []))"
| "gem_step ord (Sent m sys) g = Some (on_sent m sys g, [], [])"
| "gem_step ord (Task e) g = (case gem_task e g of (g, o1) \<Rightarrow> Some (g, o1, []))"
| "gem_step ord (Machine k) g =
     (case controller_call ord k (api_controller (api g)) of
        (_, c, es) \<Rightarrow> Some (g\<lparr>api := fold api_on_effect es ((api g)\<lparr>api_controller := c\<rparr>)\<rparr>, [], es))"

definition gem_init :: "gem \<Rightarrow> bool" where
  "gem_init g \<longleftrightarrow> (\<exists>cfg now. g = new_gem cfg (new_machine_api new_controller) now)"

definition gem_inv :: "gem \<Rightarrow> bool" where
  "gem_inv g \<longleftrightarrow>
     gfactory g = equipment_factory \<and> controller_inv (api_controller (api g)) \<and>
     omap_inv (open_requests g) \<and> preferred_online_mode g \<noteq> kOffline"

lemma api_on_effect_controller [simp]:
  "api_controller (fold api_on_effect es a) = api_controller a"
proof (induction es arbitrary: a)
  case (Cons e es)
  have "api_controller (api_on_event ev a) = api_controller a" for ev by (cases ev) auto
  then have "api_controller (api_on_effect e a) = api_controller a" by (cases e) auto
  with Cons show ?case by simp
qed simp

lemma api_submit_controller:
  assumes "api_submit ord p src a = (r, a', es)"
  shows "handle_payload ord src p (api_controller a) = (r, api_controller a', es)"
  using assms by (auto simp: api_submit_def Let_def handle_command_def split: prod.splits)

lemma api_submit_inv:
  assumes "api_submit ord p src a = (r, a', es)" "controller_inv (api_controller a)"
  shows "controller_inv (api_controller a')"
  using handle_payload_ok [OF assms(2), of ord src p] api_submit_controller [OF assms(1)]
  by (simp add: call_ok_def)

lemmas api_call_defs = api_start_def api_stop_def api_abort_def api_clear_alarm_def
  api_set_control_mode_def

lemma execute_command_inv:
  assumes "execute_command ord c a = (hc, acks, a', es)" "controller_inv (api_controller a)"
  shows "controller_inv (api_controller a')"
  using assms api_submit_inv
  by (auto simp: execute_command_def Let_def api_call_defs split: if_splits prod.splits)

lemma send_event_inv [inv_intros]: "gem_inv g \<Longrightarrow> gem_inv (fst (send_event c rs g))"
  by (simp add: send_event_def gem_inv_def)

lemma gem_task_inv:
  assumes "gem_inv g"
  shows "gem_inv (fst (gem_task e g))"
proof (cases e)
  case (ControlStateChanged f to)
  have "gem_inv (if to \<noteq> kOffline then g\<lparr>preferred_online_mode := to\<rparr> else g)"
    using assms by (simp add: gem_inv_def)
  then show ?thesis
    by (simp only: ControlStateChanged gem_task.simps on_control_state_changed_def Let_def send_event_inv)
next
  case (WaferResultReady r)
  have "gem_inv (g\<lparr>wafers_processed := wafers_processed g + 1\<rparr>)"
    using assms by (simp add: gem_inv_def)
  then show ?thesis
    by (simp add: WaferResultReady on_result_def Let_def split_def send_event_inv)
qed (simp_all add: assms send_event_inv on_process_state_changed_def on_scan_started_def
    on_run_aborted_def on_alarm_def send_alarm_def Let_def)

lemma accepted_bodies:
  assumes "factory_check equipment_factory m = kOk"
  shows "(stream m, func m) = (1, 3) \<Longrightarrow> has_value (parse_s1f3 m)"
    and "(stream m, func m) = (2, 41) \<Longrightarrow> has_value (parse_s2f41 m)"
  using assms
  by (auto simp: factory_check_def equipment_find parse_s1f3_def parse_s2f41_def split: if_splits)

lemma handle_message_returns:
  assumes "gem_inv g" "factory_check (gfactory g) m = kOk"
  shows "\<exists>g' o1 es. handle_message ord now fr m g = Some (g', o1, es) \<and> gem_inv g' \<and>
    (\<exists>r. o1 = reply fr r \<or> o1 = [])"
proof -
  have ok: "factory_check equipment_factory m = kOk" using assms by (simp add: gem_inv_def)
  have upd: "gem_inv (g\<lparr>api := a\<rparr>)" if "controller_inv (api_controller a)" for a
    using assms(1) that by (simp add: gem_inv_def)
  have ci: "controller_inv (api_controller (api g))" using assms(1) by (simp add: gem_inv_def)
  consider "(stream m, func m) = (1, 1)" | "(stream m, func m) = (1, 13)" | "(stream m, func m) = (1, 3)"
    | "(stream m, func m) = (1, 15)" | "(stream m, func m) = (1, 17)" | "(stream m, func m) = (2, 41)"
    | "(stream m, func m) \<notin> {(1, 1), (1, 13), (1, 3), (1, 15), (1, 17), (2, 41)}"
    by blast
  then show ?thesis
  proof cases
    case 3
    obtain svids where "parse_s1f3 m = Ok svids" using accepted_bodies(1) [OF ok 3] by (auto simp: has_value_iff)
    with 3 assms(1) show ?thesis by (auto simp: handle_message_def handle_status_request_def Let_def)
  next
    case 4
    obtain r a es where s: "api_submit ord (SetControlModeCommand kOffline) kSecsGem (api g) = (r, a, es)"
      using prod_cases3 by blast
    with 4 upd [OF api_submit_inv [OF s ci]] show ?thesis
      by (auto simp: handle_message_def handle_offline_request_def api_call_defs)
  next
    case 5
    obtain r a es where s: "api_submit ord (SetControlModeCommand (preferred_online_mode g)) kSecsGem (api g) = (r, a, es)"
      using prod_cases3 by blast
    with 5 assms(1) upd [OF api_submit_inv [OF s ci]] show ?thesis
      by (auto simp: handle_message_def handle_online_request_def api_call_defs)
  next
    case 6
    obtain c where c: "parse_s2f41 m = Ok c" using accepted_bodies(2) [OF ok 6] by (auto simp: has_value_iff)
    obtain hc acks a es where e: "execute_command ord c (api g) = (hc, acks, a, es)"
      using prod_cases4 by blast
    with 6 c upd [OF execute_command_inv [OF e ci]] show ?thesis
      by (auto simp: handle_message_def handle_remote_command_def)
  qed (use assms(1) in \<open>auto simp: handle_message_def gem_inv_def\<close>)
qed

lemma on_data_returns:
  assumes "gem_inv g"
  shows "\<exists>g' o1 es. on_data ord now d g = Some (g', o1, es) \<and> gem_inv g'"
proof -
  have erase: "gem_inv (g\<lparr>open_requests := omap_erase k (open_requests g)\<rparr>)" for k
    using assms by (simp add: gem_inv_def omap_inv_erase)
  show ?thesis
  proof (cases "reply_to d = None \<and> session_id (hdr (dlv_frame d)) = gem_device_id (gconfig g) \<and>
      length (fbody (dlv_frame d)) \<le> max_body_bytes (gconfig g) \<and> has_value (to_message (dlv_frame d))")
    case True
    then obtain m where m: "to_message (dlv_frame d) = Ok m" by (auto simp: has_value_iff)
    show ?thesis
      using True m assms handle_message_returns [OF assms, of m ord now "dlv_frame d"]
      by (cases "factory_check (gfactory g) m") (auto simp: on_data_def Let_def)
  next
    case False
    then show ?thesis
      using assms erase
      by (cases "reply_to d"; cases "to_message (dlv_frame d)") (auto simp: on_data_def Let_def)
  qed
qed

lemma gem_step_inv:
  assumes "gem_inv g" "gem_step ord e g = Some (g', x)"
  shows "gem_inv g'"
proof (cases e)
  case (Data now d)
  then show ?thesis using on_data_returns [OF assms(1), of ord now d] assms(2) by auto
next
  case (Machine k)
  then show ?thesis
    using controller_call_ok [of "api_controller (api g)" ord k] assms
    by (auto simp: gem_inv_def call_ok_def split: prod.splits)
next
  case (Task ev)
  then show ?thesis using gem_task_inv [OF assms(1), of ev] assms(2) by (auto split: prod.splits)
qed (use assms in \<open>auto simp: gem_inv_def on_session_state_def on_sent_def on_transaction_timeout_def
    omap_simps split: option.splits if_splits\<close>)

interpretation gemi: live_machine gem_init "gem_step ord" gem_inv for ord
proof unfold_locales
  show "\<And>s. gem_init s \<Longrightarrow> gem_inv s"
    by (auto simp: gem_init_def gem_inv_def new_gem_def equipment_factory_def new_machine_api_def
        new_controller_inv)
  show "\<And>s e s' out. gem_inv s \<Longrightarrow> gem_step ord e s = Some (s', out) \<Longrightarrow> gem_inv s'"
    by (rule gem_step_inv)
  show "gem_inv s \<Longrightarrow> gem_step ord e s \<noteq> None" for s e
    using on_data_returns [of s ord] by (cases e) (fastforce split: prod.splits)+
qed

section \<open>Answers to the host\<close>

definition known_messages :: "(byte \<times> byte) set" where
  "known_messages = {(1, 1), (1, 3), (1, 13), (1, 15), (1, 17), (2, 41), (5, 2), (6, 12)}"

lemma equipment_keys: "omap_keys equipment_factory = known_messages"
  unfolding equipment_factory_def register_equipment_catalogue_def Let_def keys_register
  by (auto simp: known_messages_def empty_factory_def)

definition legal_body :: "secs_message \<Rightarrow> bool" where
  "legal_body m =
     (if (stream m, func m) \<in> {(1, 1), (1, 15), (1, 17)} then body m = None
      else if (stream m, func m) = (1, 3) then has_value (parse_s1f3 m)
      else if (stream m, func m) = (1, 13) then comm_request_ok (body m)
      else if (stream m, func m) = (2, 41) then has_value (parse_s2f41 m)
      else has_value (parse_ack m))"

text \<open>The S9 function that answers a frame, or \<open>None\<close> when the message is accepted.\<close>

definition s9_answer :: "gem_config \<Rightarrow> frame \<Rightarrow> byte option" where
  "s9_answer cfg fr =
     (if session_id (hdr fr) \<noteq> gem_device_id cfg then Some 1
      else if length (fbody fr) > max_body_bytes cfg then Some 11
      else case to_message fr of
             Inl _ \<Rightarrow> Some 7
           | Inr m \<Rightarrow>
               if stream m \<notin> {1, 2, 5, 6} then Some 3
               else if (stream m, func m) \<notin> known_messages then Some 5
               else if \<not> legal_body m then Some 7
               else None)"

lemma equipment_check:
  "factory_check equipment_factory m =
     (if stream m \<notin> {1, 2, 5, 6} then kUnknownStream
      else if (stream m, func m) \<notin> known_messages then kUnknownFunction
      else if \<not> legal_body m then kIllegalData else kOk)"
proof (cases "(stream m, func m) \<in> known_messages")
  case True
  then have s: "stream m \<in> {1, 2, 5, 6}" by (auto simp: known_messages_def)
  have "factory_check equipment_factory m = (if legal_body m then kOk else kIllegalData)"
    using True unfolding known_messages_def
    by (elim insertE emptyE) (simp_all add: factory_check_def equipment_find legal_body_def no_body_def
        parse_s1f3_def parse_s2f41_def parse_ack_def)
  with s True show ?thesis by simp
next
  case False
  have "omap_find equipment_factory (stream m, func m) = None"
    using False equipment_keys by (simp add: omap_find_None_iff)
  from factory_check_unknown [OF equipment_factory_inv this] False show ?thesis
    unfolding equipment_keys by (auto simp: known_messages_def)
qed

definition is_reply_to :: "secs_message \<Rightarrow> secs_message \<Rightarrow> bool" where
  "is_reply_to m r \<longleftrightarrow> stream r = stream m \<and> func r = func m + 1 \<and> \<not> w_bit r"

lemma is_reply_to_built [simp]:
  "is_reply_to m (make_s1f2 i) \<longleftrightarrow> stream m = 1 \<and> func m = 1"
  "is_reply_to m (make_s1f4 vs) \<longleftrightarrow> stream m = 1 \<and> func m = 3"
  "is_reply_to m (make_s1f14 k i) \<longleftrightarrow> stream m = 1 \<and> func m = 13"
  "is_reply_to m (make_s1f16 k) \<longleftrightarrow> stream m = 1 \<and> func m = 15"
  "is_reply_to m (make_s1f18 k) \<longleftrightarrow> stream m = 1 \<and> func m = 17"
  "is_reply_to m (make_s2f42 k ps) \<longleftrightarrow> stream m = 2 \<and> func m = 41"
proof -
  have "a = f + 1 \<longleftrightarrow> f = a - 1" for a f :: byte by auto
  then show "is_reply_to m (make_s1f2 i) \<longleftrightarrow> stream m = 1 \<and> func m = 1"
    "is_reply_to m (make_s1f4 vs) \<longleftrightarrow> stream m = 1 \<and> func m = 3"
    "is_reply_to m (make_s1f14 k i) \<longleftrightarrow> stream m = 1 \<and> func m = 13"
    "is_reply_to m (make_s1f16 k) \<longleftrightarrow> stream m = 1 \<and> func m = 15"
    "is_reply_to m (make_s1f18 k) \<longleftrightarrow> stream m = 1 \<and> func m = 17"
    "is_reply_to m (make_s2f42 k ps) \<longleftrightarrow> stream m = 2 \<and> func m = 41"
    by (auto simp: is_reply_to_def builder_defs)
qed

lemma reply_intro: "is_reply_to m r \<Longrightarrow> \<exists>r'. is_reply_to m r' \<and> reply fr r = reply fr r'"
  by blast

lemma handle_message_reply:
  assumes "handle_message ord now fr m g = Some (g', o1, es)"
    and "(stream m, func m) \<in> known_messages - {(5, 2), (6, 12)}"
  shows "\<exists>r. is_reply_to m r \<and> o1 = reply fr r"
  using assms
  by (auto simp: known_messages_def handle_message_def handle_status_request_def
      handle_offline_request_def handle_online_request_def handle_remote_command_def Let_def
      intro!: reply_intro split: sum.splits prod.splits if_splits)

text \<open>
  C18. Every primary message from the host gets its one proper answer. In any reachable state a
  data message that is not a reply is handled without an exception; it is answered with S9F1,
  S9F11, S9F7, S9F3 or S9F5, carrying the message's own header and changing nothing, exactly
  when the device id, length, body, stream or function is wrong; otherwise it gets exactly one
  reply, of the next function and with its system bytes, if it asked for one. A stray
  acknowledgement gets nothing.
\<close>

theorem host_message_answered:
  assumes "reach gem_init (gem_step ord) g"
  shows "\<exists>g' o1 es. on_data ord now \<lparr>dlv_frame = fr, reply_to = None\<rparr> g = Some (g', o1, es) \<and>
    (case s9_answer (gconfig g) fr of
       Some f \<Rightarrow> g' = g \<and> es = [] \<and> o1 = [Post_request (make_s9 f (header_bytes (hdr fr)))]
     | None \<Rightarrow> \<exists>m. to_message fr = Ok m \<and>
         (if (stream m, func m) \<in> {(5, 2), (6, 12)} then g' = g \<and> o1 = [] \<and> es = []
          else \<exists>r. is_reply_to m r \<and>
            o1 = (if header_w_bit (hdr fr) then [Post_reply (system_bytes (hdr fr)) r] else [])))"
proof -
  have inv: "gem_inv g" by (rule gemi.reach_inv [OF assms])
  then have fac: "gfactory g = equipment_factory" by (simp add: gem_inv_def)
  show ?thesis
  proof (cases "s9_answer (gconfig g) fr")
    case (Some f)
    then show ?thesis
      using fac
      by (auto simp: on_data_def s9_answer_def equipment_check send_s9_def gem_send_request_def Let_def
          split: if_splits sum.splits)
  next
    case None
    then obtain m where m: "to_message fr = Ok m" and ok: "factory_check equipment_factory m = kOk"
      and known: "(stream m, func m) \<in> known_messages"
      and eq: "on_data ord now \<lparr>dlv_frame = fr, reply_to = None\<rparr> g = handle_message ord now fr m g"
      using fac by (auto simp: on_data_def s9_answer_def equipment_check Let_def split: if_splits sum.splits)
    obtain g' o1 es where h: "handle_message ord now fr m g = Some (g', o1, es)"
      using handle_message_returns [OF inv, of m ord now fr] ok fac by auto
    have "if (stream m, func m) \<in> {(5, 2), (6, 12)} then g' = g \<and> o1 = [] \<and> es = []
        else \<exists>r. is_reply_to m r \<and>
          o1 = (if header_w_bit (hdr fr) then [Post_reply (system_bytes (hdr fr)) r] else [])"
      using h handle_message_reply [OF h] known by (auto simp: handle_message_def reply_def)
    then show ?thesis using None m h eq by auto
  qed
qed

definition sample_gem :: gem where
  "sample_gem = new_gem default_gem_config (new_machine_api new_controller) 0"

lemma sample_gem_reach: "reach gem_init (gem_step ord) sample_gem"
  by (rule reach_init) (auto simp: gem_init_def sample_gem_def)

theorem host_message_answered_witness:
  "\<exists>g' o1 es. on_data id 0 \<lparr>dlv_frame = make_data_frame 0 2 13 True 7 [], reply_to = None\<rparr> sample_gem =
     Some (g', o1, es) \<and> o1 = [Post_request (make_s9 5 [0, 0, 0x82, 13, 0, 0, 0, 0, 0, 7])]"
proof -
  have "s9_answer (gconfig sample_gem) (make_data_frame 0 2 13 True 7 []) = Some 5"
    by (simp add: s9_answer_def sample_gem_def new_gem_def default_gem_config_def make_data_frame_def
        to_message_def header_stream_def header_function_def known_messages_def)
  moreover have "header_bytes (hdr (make_data_frame 0 2 13 True 7 [])) = [0, 0, 0x82, 13, 0, 0, 0, 0, 0, 7]"
    by (simp add: header_bytes_eq make_data_frame_def be_bytes_numeral)
  ultimately show ?thesis
    using host_message_answered [OF sample_gem_reach, of id 0 "make_data_frame 0 2 13 True 7 []"] by auto
qed

section \<open>Remote commands\<close>

lemma push_ack_simps [simp]:
  "ps_ok (push_ack n k ps) = ps_ok ps" "ps_wafer (push_ack n k ps) = ps_wafer ps"
  by (simp_all add: push_ack_def)



















section \<open>Unsolicited messages\<close>

fun unsolicited :: "gem_out \<Rightarrow> bool" where
  "unsolicited (Post_request m) = (stream m \<noteq> 9)"
| "unsolicited (Post_reply sys m) = False"

fun event_dataids :: "gem_out list \<Rightarrow> u32 list" where
  "event_dataids [] = []"
| "event_dataids (Post_request m # os) =
     (if stream m \<noteq> 6 then event_dataids os
      else case parse_s6f11 m of
             Inr e \<Rightarrow> dataid e # event_dataids os
           | Inl _ \<Rightarrow> event_dataids os)"
| "event_dataids (Post_reply sys m # os) = event_dataids os"

text \<open>What a step may post: nothing unasked unless communicating, and numbered events.\<close>

definition posts_ok :: "gem \<Rightarrow> gem \<Rightarrow> gem_out list \<Rightarrow> bool" where
  "posts_ok g g' os \<longleftrightarrow>
     (list_ex unsolicited os \<longrightarrow> comm g = kCommunicating) \<and>
     event_dataids os = map (\<lambda>i. next_dataid g + of_nat i) [0..<length (event_dataids os)] \<and>
     next_dataid g' = next_dataid g + of_nat (length (event_dataids os))"

lemma dataid_made [simp]:
  "parse_s6f11 (make_s6f11 e) = Ok e" "stream (make_s6f11 e) = 6" "stream (make_s9 f hb) = 9"
  "stream (make_s5f1 a) = 5"
  by (simp_all add: parse_s6f11_def parse_event_body_def builder_defs)

lemma event_dataids_append [simp]: "event_dataids (os @ os') = event_dataids os @ event_dataids os'"
  by (induction os rule: event_dataids.induct) (auto split: sum.splits)

lemma send_event_posts: "send_event c rs g = (g', os) \<Longrightarrow> posts_ok g g' os \<and> comm g' = comm g"
  by (auto simp: send_event_def gem_send_request_def posts_ok_def split: if_splits)

lemma posts_ok_other_fields:
  "posts_ok g g' os \<Longrightarrow> comm h = comm g \<Longrightarrow> next_dataid h = next_dataid g \<Longrightarrow> posts_ok h g' os"
  by (simp add: posts_ok_def)

lemma numbered_append:
  fixes n :: u32
  assumes "xs = map (\<lambda>i. n + of_nat i) [0..<length xs]"
    and "ys = map (\<lambda>i. n + of_nat (length xs) + of_nat i) [0..<length ys]"
  shows "xs @ ys = map (\<lambda>i. n + of_nat i) [0..<length (xs @ ys)]"
proof -
  have "map (\<lambda>i. n + of_nat (length xs) + of_nat i) [0..<length ys] =
      map (\<lambda>i. n + of_nat i) [length xs..<length xs + length ys]"
    by (rule nth_equalityI) (simp_all add: add.assoc)
  then have "xs @ ys = map (\<lambda>i. n + of_nat i) ([0..<length xs] @ [length xs..<length xs + length ys])"
    using assms by simp
  then show ?thesis using upt_add_eq_append [of 0 "length xs" "length ys"] by simp
qed

lemma posts_ok_append:
  assumes "posts_ok g g1 os" "posts_ok g1 g2 os'" "comm g1 = comm g"
  shows "posts_ok g g2 (os @ os')"
  using assms numbered_append [of "event_dataids os" "next_dataid g" "event_dataids os'"]
  by (auto simp: posts_ok_def add.assoc)

lemma gem_task_posts: "gem_task e g = (g', os) \<Longrightarrow> posts_ok g g' os \<and> comm g' = comm g"
proof (cases e)
  case (WaferResultReady r)
  assume t: "gem_task e g = (g', os)"
  let ?g = "g\<lparr>wafers_processed := wafers_processed g + 1\<rparr>"
  obtain g1 o1 where 1: "send_event kCeidWaferScanComplete (result_report r) ?g = (g1, o1)" by force
  obtain g2 o2 where 2: "send_event kCeidWaferOutOfSpec (result_report r) g1 = (g2, o2)" by force
  have p: "posts_ok g g1 o1" "comm g1 = comm g"
    using send_event_posts [OF 1] posts_ok_other_fields [of ?g g1 o1 g] by auto
  show ?thesis
    using t p send_event_posts [OF 2] posts_ok_append [OF p(1) _ p(2), of g2 o2]
    by (auto simp: WaferResultReady on_result_def Let_def 1 2 split: if_splits)
next
  case (ControlStateChanged f to)
  assume t: "gem_task e g = (g', os)"
  let ?g = "if to \<noteq> kOffline then g\<lparr>preferred_online_mode := to\<rparr> else g"
  obtain rs where "send_event kCeidControlStateChanged rs ?g = (g', os)"
    using t by (auto simp: ControlStateChanged on_control_state_changed_def Let_def split: if_splits)
  from send_event_posts [OF this] posts_ok_other_fields [of ?g g' os g] show ?thesis by auto
next
  case (AlarmSet n nm why)
  assume "gem_task e g = (g', os)"
  then show ?thesis
    by (auto simp: AlarmSet on_alarm_def send_alarm_def gem_send_request_def posts_ok_def split: if_splits)
next
  case (AlarmCleared n nm)
  assume "gem_task e g = (g', os)"
  then show ?thesis
    by (auto simp: AlarmCleared on_alarm_def send_alarm_def gem_send_request_def posts_ok_def split: if_splits)
qed (auto simp: on_process_state_changed_def on_scan_started_def on_run_aborted_def Let_def posts_ok_def
    dest!: send_event_posts)

end
