(* ===== verification/Gem_Dialogue.thy ===== *)
theory Gem_Dialogue
  imports Gem_Service
begin

text \<open>
  The dialogue between the GEM service and a host over time: when the service may speak unasked,
  who decides the control mode, and what becomes of a request the host does not answer.
\<close>

section \<open>When the service communicates\<close>

text \<open>Read off the calls alone: an accepted S1F13 opens the dialogue, losing SELECTED ends it.\<close>

definition accepted :: "gem_config \<Rightarrow> gem_event \<Rightarrow> secs_message option" where
  "accepted cfg e =
     (case e of
        Data now d \<Rightarrow>
          if reply_to d \<noteq> None \<or> s9_answer cfg (dlv_frame d) \<noteq> None then None
          else (case to_message (dlv_frame d) of Inr m \<Rightarrow> Some m | Inl _ \<Rightarrow> None)
      | _ \<Rightarrow> None)"

definition host_asks :: "gem_config \<Rightarrow> byte \<Rightarrow> byte \<Rightarrow> gem_event \<Rightarrow> bool" where
  "host_asks cfg s f e \<longleftrightarrow> (\<exists>m. accepted cfg e = Some m \<and> stream m = s \<and> func m = f)"

definition link_lost :: "gem_event \<Rightarrow> bool" where
  "link_lost e \<longleftrightarrow> (case e of Session_state st \<Rightarrow> st \<noteq> kSelected | _ \<Rightarrow> False)"

fun communicating :: "gem_config \<Rightarrow> bool \<Rightarrow> gem_event list \<Rightarrow> bool" where
  "communicating cfg b [] = b"
| "communicating cfg b (e # es) =
     communicating cfg (if host_asks cfg 1 13 e then True else if link_lost e then False else b) es"

lemma s9_answer_None:
  "s9_answer cfg fr = None \<longleftrightarrow>
     session_id (hdr fr) = gem_device_id cfg \<and> length (fbody fr) \<le> max_body_bytes cfg \<and>
     (\<exists>m. to_message fr = Ok m \<and> factory_check equipment_factory m = kOk)"
  unfolding s9_answer_def equipment_check by (auto simp del: insert_iff split: sum.split)

lemma on_data_refused:
  assumes "gem_inv g" "accepted (gconfig g) (Data now d) = None" "on_data ord now d g = Some (g', os, es)"
  shows "es = [] \<and> g' = (case reply_to d of
      Some sys \<Rightarrow> g\<lparr>open_requests := omap_erase sys (open_requests g)\<rparr> | None \<Rightarrow> g) \<and>
    \<not> list_ex unsolicited os \<and> event_dataids os = []"
proof (cases "reply_to d")
  case None
  have fac: "gfactory g = equipment_factory" using assms(1) by (simp add: gem_inv_def)
  have no: "\<not> (session_id (hdr (dlv_frame d)) = gem_device_id (gconfig g) \<and>
      length (fbody (dlv_frame d)) \<le> max_body_bytes (gconfig g) \<and>
      (\<exists>m. to_message (dlv_frame d) = Ok m \<and> factory_check equipment_factory m = kOk))"
    using assms(2) None by (auto simp: accepted_def s9_answer_None split: sum.splits if_splits)
  have "es = [] \<and> g' = g \<and> (\<exists>f. os = send_s9 f (hdr (dlv_frame d)))"
    using assms(3) no None unfolding on_data_def fac Let_def
    by (simp split: if_splits sum.splits validation.splits) blast+
  with None show ?thesis by (auto simp: send_s9_def gem_send_request_def)
qed (use assms(3) in \<open>simp_all add: on_data_def\<close>)

lemma on_data_accepted:
  assumes "gem_inv g" "accepted (gconfig g) (Data now d) = Some m"
  shows "on_data ord now d g = handle_message ord now (dlv_frame d) m g \<and>
    factory_check (gfactory g) m = kOk"
proof -
  have fac: "gfactory g = equipment_factory" using assms(1) by (simp add: gem_inv_def)
  have "reply_to d = None" "to_message (dlv_frame d) = Ok m" "s9_answer (gconfig g) (dlv_frame d) = None"
    using assms(2) by (simp_all add: accepted_def split: if_splits sum.splits)
  then show ?thesis by (simp add: on_data_def fac s9_answer_None)
qed

lemma reply_silent [simp]: "\<not> list_ex unsolicited (reply fr r)" "event_dataids (reply fr r) = []"
  by (simp_all add: reply_def)

lemma handle_message_fields:
  assumes "handle_message ord now fr m g = Some (g', os, es)"
  shows "\<not> list_ex unsolicited os \<and> event_dataids os = [] \<and>
    gconfig g' = gconfig g \<and> next_dataid g' = next_dataid g \<and> open_requests g' = open_requests g \<and>
    preferred_online_mode g' = preferred_online_mode g \<and>
    comm g' = (if (stream m, func m) = (1, 13) then kCommunicating else comm g)"
  using assms
  by (auto simp: handle_message_def handle_status_request_def handle_offline_request_def
      handle_online_request_def handle_remote_command_def Let_def
      split: sum.splits prod.splits if_splits)

lemma gem_task_fields:
  assumes "gem_task e g = (g', os)"
  shows "gconfig g' = gconfig g \<and> open_requests g' = open_requests g \<and> api g' = api g"
  using assms
  by (cases e) (auto simp: on_process_state_changed_def on_control_state_changed_def on_scan_started_def
      on_result_def on_run_aborted_def on_alarm_def send_event_def send_alarm_def Let_def
      split: if_splits)

lemma gem_step_dialogue:
  assumes "gem_inv g" "gem_step ord e g = Some (g', os, es)"
  shows "posts_ok g g' os \<and> gconfig g' = gconfig g \<and>
    (comm g' = kCommunicating \<longleftrightarrow>
      (if host_asks (gconfig g) 1 13 e then True else if link_lost e then False
       else comm g = kCommunicating))"
proof (cases e)
  case (Data now d)
  show ?thesis
  proof (cases "accepted (gconfig g) e")
    case None
    then show ?thesis
      using on_data_refused [OF assms(1), of now d ord g' os es] assms(2) Data
      by (auto simp: posts_ok_def host_asks_def link_lost_def split: option.splits)
  next
    case (Some m)
    then have "handle_message ord now (dlv_frame d) m g = Some (g', os, es)"
      using on_data_accepted [OF assms(1), of now d m ord] assms(2) Data by simp
    from handle_message_fields [OF this] Some Data show ?thesis
      by (auto simp: posts_ok_def host_asks_def link_lost_def)
  qed
next
  case (Task ev)
  then have t: "gem_task ev g = (g', os)" using assms(2) by (auto split: prod.splits)
  from gem_task_posts [OF t] gem_task_fields [OF t] Task show ?thesis
    by (auto simp: host_asks_def accepted_def link_lost_def)
qed (use assms(2) in \<open>auto simp: posts_ok_def host_asks_def accepted_def link_lost_def on_session_state_def
    on_sent_def on_transaction_timeout_def send_s9_def gem_send_request_def
    split: if_splits option.splits prod.splits\<close>)

lemma run_dialogue:
  assumes "gem_inv g" "run (gem_step ord) evs g = Some (g', outs)"
  shows "(\<forall>i < length evs. list_ex unsolicited (fst (outs ! i)) \<longrightarrow>
      communicating (gconfig g) (comm g = kCommunicating) (take i evs)) \<and>
    event_dataids (concat (map fst outs)) =
      map (\<lambda>i. next_dataid g + of_nat i) [0..<length (event_dataids (concat (map fst outs)))]"
  using assms
proof (induction evs arbitrary: g outs)
  case (Cons e evs)
  obtain g1 os es outs1 where 1: "gem_step ord e g = Some (g1, os, es)"
    and 2: "run (gem_step ord) evs g1 = Some (g', outs1)" and outs: "outs = (os, es) # outs1"
    using Cons.prems(2) by (auto split: option.splits)
  have inv1: "gem_inv g1" by (rule gem_step_inv [OF Cons.prems(1) 1])
  note d = gem_step_dialogue [OF Cons.prems(1) 1]
  note IH = Cons.IH [OF inv1 2]
  let ?rest = "concat (map fst outs1)"
  have ids: "event_dataids (os @ ?rest) =
      map (\<lambda>i. next_dataid g + of_nat i) [0..<length (event_dataids (os @ ?rest))]"
    using numbered_append [of "event_dataids os" "next_dataid g" "event_dataids ?rest"] d IH
    by (simp add: posts_ok_def)
  have "list_ex unsolicited (fst (outs ! i)) \<longrightarrow>
      communicating (gconfig g) (comm g = kCommunicating) (take i (e # evs))" if "i < length (e # evs)" for i
    using that d IH outs by (cases i) (auto simp: posts_ok_def)
  with ids outs show ?case by simp
qed simp

lemma gem_init_facts:
  assumes "gem_init g"
  shows "gem_inv g \<and> comm g = kNotCommunicating \<and> next_dataid g = 1 \<and> open_requests g = [] \<and>
    preferred_online_mode g = kOnlineLocal"
  using assms gemi.inv_init [OF assms] by (auto simp: gem_init_def new_gem_def)

text \<open>
  C20. The service speaks unasked only while it communicates, and numbers its events. In every
  run from the start, a step that posts an event report or an alarm report comes after an
  accepted S1F13 with no loss of SELECTED since, and the DATAIDs of all event reports posted are
  1, 2, 3 and so on (modulo 2^32), with none left out or used twice, whatever was dropped
  while not communicating.
\<close>

theorem unsolicited_only_when_communicating:
  assumes "gem_init g" "run (gem_step ord) evs g = Some (g', outs)"
  shows "(\<forall>i < length evs. list_ex unsolicited (fst (outs ! i)) \<longrightarrow>
      communicating (gconfig g) False (take i evs)) \<and>
    event_dataids (concat (map fst outs)) =
      map (\<lambda>i. 1 + of_nat i) [0..<length (event_dataids (concat (map fst outs)))]"
  using run_dialogue [OF _ assms(2)] gem_init_facts [OF assms(1)] by auto

definition greeting :: frame where
  "greeting = make_data_frame 0 1 13 True 7 []"

definition sample_dialogue :: "gem_event list" where
  "sample_dialogue =
     [Task (ScanStarted ''W0'' 1), Data 0 \<lparr>dlv_frame = greeting, reply_to = None\<rparr>,
      Task (ScanStarted ''W1'' 1), Task (RunAborted ''W1'')]"

lemma greeting_message [simp]: "to_message greeting = Ok (make_message 1 13 True None)"
  by (simp add: greeting_def make_data_frame_def to_message_def make_message_def header_stream_def
      header_function_def header_w_bit_def)

lemma greeting_accepted:
  "factory_check (register_equipment_catalogue empty_factory) (make_message 1 13 True None) = kOk"
  using equipment_check [of "make_message 1 13 True None"]
  by (simp add: equipment_factory_def known_messages_def legal_body_def comm_request_ok_def make_message_def)

lemma sample_dialogue_run:
  "\<exists>g' outs. run (gem_step id) sample_dialogue sample_gem = Some (g', outs) \<and>
     length (event_dataids (concat (map fst outs))) = 2 \<and> list_ex unsolicited (fst (outs ! 2))"
  by (simp add: sample_dialogue_def on_scan_started_def on_run_aborted_def send_event_def
      gem_send_request_def sample_gem_def new_gem_def default_gem_config_def on_data_def
      handle_message_def greeting_accepted Let_def)
    (simp add: greeting_def make_data_frame_def make_message_def)

theorem unsolicited_only_when_communicating_witness:
  "\<exists>g' outs. run (gem_step id) sample_dialogue sample_gem = Some (g', outs) \<and>
     event_dataids (concat (map fst outs)) = [1, 2] \<and>
     communicating default_gem_config False (take 2 sample_dialogue)"
proof -
  obtain g' outs where r: "run (gem_step id) sample_dialogue sample_gem = Some (g', outs)"
    and n: "length (event_dataids (concat (map fst outs))) = 2" and u: "list_ex unsolicited (fst (outs ! 2))"
    using sample_dialogue_run by blast
  have i: "gem_init sample_gem" by (auto simp: gem_init_def sample_gem_def)
  note c = unsolicited_only_when_communicating [OF i r]
  have "length sample_dialogue = 4" "gconfig sample_gem = default_gem_config"
    by (simp_all add: sample_dialogue_def sample_gem_def new_gem_def)
  with c u have "communicating default_gem_config False (take 2 sample_dialogue)" by simp
  moreover have "event_dataids (concat (map fst outs)) = [1, 2]"
    using c n by (simp add: numeral_2_eq_2)
  ultimately show ?thesis using r by blast
qed

section \<open>Who decides the control mode\<close>

text \<open>The online mode last announced on the bus, as the service's tasks have seen it.\<close>

fun last_online :: "control_mode \<Rightarrow> gem_event list \<Rightarrow> control_mode" where
  "last_online m [] = m"
| "last_online m (e # es) =
     last_online (case e of Task (ControlStateChanged f to) \<Rightarrow> if to = kOffline then m else to | _ \<Rightarrow> m) es"

lemma gem_task_preferred:
  "preferred_online_mode (fst (gem_task ev g)) =
     (case ev of ControlStateChanged f to \<Rightarrow> if to = kOffline then preferred_online_mode g else to
      | _ \<Rightarrow> preferred_online_mode g)"
  by (cases ev) (auto simp: on_process_state_changed_def on_control_state_changed_def on_scan_started_def
      on_result_def on_run_aborted_def on_alarm_def send_event_def send_alarm_def Let_def)

lemma gem_step_preferred:
  assumes "gem_inv g" "gem_step ord e g = Some (g', x)"
  shows "preferred_online_mode g' = last_online (preferred_online_mode g) [e]"
proof (cases e)
  case (Data now d)
  obtain os es where x: "x = (os, es)" by fastforce
  show ?thesis
  proof (cases "accepted (gconfig g) e")
    case None
    then show ?thesis using on_data_refused [OF assms(1), of now d ord g' os es] assms(2) Data x
      by (auto split: option.splits)
  next
    case (Some m)
    then have "handle_message ord now (dlv_frame d) m g = Some (g', os, es)"
      using on_data_accepted [OF assms(1), of now d m ord] assms(2) Data x by simp
    from handle_message_fields [OF this] Data show ?thesis by simp
  qed
next
  case (Task ev)
  then show ?thesis using assms(2) gem_task_preferred [of ev g]
    by (cases ev) (auto split: prod.splits)
qed (use assms(2) in \<open>auto simp: on_session_state_def on_sent_def on_transaction_timeout_def
    split: if_splits option.splits prod.splits\<close>)

lemma run_preferred:
  assumes "gem_inv g" "run (gem_step ord) evs g = Some (g', outs)"
  shows "gem_inv g' \<and> gconfig g' = gconfig g \<and>
    preferred_online_mode g' = last_online (preferred_online_mode g) evs"
  using assms
proof (induction evs arbitrary: g outs)
  case (Cons e evs)
  then obtain g1 x outs1 where 1: "gem_step ord e g = Some (g1, x)"
    and 2: "run (gem_step ord) evs g1 = Some (g', outs1)"
    by (auto split: option.splits)
  note inv1 = gem_step_inv [OF Cons.prems(1) 1]
  have "gconfig g1 = gconfig g" using gem_step_dialogue [OF Cons.prems(1), of ord e g1] 1 by (cases x) auto
  with Cons.IH [OF inv1 2] gem_step_preferred [OF Cons.prems(1) 1] show ?case by simp
qed simp

abbreviation mode_of :: "gem \<Rightarrow> control_mode" where
  "mode_of g \<equiv> cmode (api_controller (api g))"

lemma transition_cmode: "transition t gd c = (r, c', es) \<Longrightarrow> cmode c' = cmode c"
  by (auto simp: transition_def Let_def split: prod.splits if_splits)

lemma handle_payload_cmode:
  assumes "handle_payload ord src p c = (r, c', es)"
  shows "cmode c' = (case p of SetControlModeCommand m \<Rightarrow>
      if mode_allows_set_mode m (cmode c) src then m else cmode c | _ \<Rightarrow> cmode c)"
  using assms
  by (cases p) (auto simp: Let_def host_denied_def dest!: transition_cmode split: prod.splits if_splits)

lemma api_submit_cmode:
  assumes "api_submit ord p src a = (r, a', es)"
  shows "cmode (api_controller a') = (case p of SetControlModeCommand m \<Rightarrow>
      if mode_allows_set_mode m (cmode (api_controller a)) src then m else cmode (api_controller a)
    | _ \<Rightarrow> cmode (api_controller a))"
  using handle_payload_cmode [OF api_submit_controller [OF assms]] .

lemma execute_command_cmode:
  assumes "execute_command ord c a = (hc, acks, a', es)"
  shows "cmode (api_controller a') = cmode (api_controller a)"
  using assms
  by (auto simp: execute_command_def Let_def api_call_defs dest!: api_submit_cmode
      split: if_splits prod.splits)

lemma handle_message_mode:
  assumes "handle_message ord now fr m g = Some (g', os, es)"
  shows "mode_of g' =
    (if (stream m, func m) = (1, 15) then kOffline
     else if (stream m, func m) = (1, 17) \<and> allow_host_online (gconfig g) \<and> mode_of g = kOffline
     then preferred_online_mode g else mode_of g)"
  using assms
  by (auto simp: handle_message_def handle_status_request_def handle_offline_request_def
      handle_online_request_def handle_remote_command_def api_set_control_mode_def
      mode_allows_set_mode_def snapshot_def Let_def
      dest!: api_submit_cmode execute_command_cmode split: sum.splits prod.splits if_splits)

text \<open>
  The operator, not the host, chooses between Online-Local and Online-Remote. After any run
  from the start, a data message changes the control mode in two ways only: an accepted S1F15
  takes the machine Offline, and an accepted S1F17, if the configuration allows it and the
  machine is Offline, brings back the online mode that was last announced before; every other
  message leaves the mode alone.
\<close>

theorem host_control_mode:
  assumes "gem_init g0" "run (gem_step ord) evs g0 = Some (g, outs)"
    and "on_data ord now d g = Some (g', os, es)"
  shows "mode_of g' =
    (if host_asks (gconfig g0) 1 15 (Data now d) then kOffline
     else if host_asks (gconfig g0) 1 17 (Data now d) \<and> allow_host_online (gconfig g0) \<and>
       mode_of g = kOffline
     then last_online kOnlineLocal evs else mode_of g)"
proof -
  have r: "gem_inv g \<and> gconfig g = gconfig g0 \<and> preferred_online_mode g = last_online kOnlineLocal evs"
    using run_preferred [OF _ assms(2)] gem_init_facts [OF assms(1)] by auto
  show ?thesis
  proof (cases "accepted (gconfig g) (Data now d)")
    case None
    then show ?thesis using on_data_refused [OF _ None assms(3)] r
      by (auto simp: host_asks_def split: option.splits)
  next
    case (Some m)
    then have "handle_message ord now (dlv_frame d) m g = Some (g', os, es)"
      using on_data_accepted [of g now d m ord] assms(3) r by simp
    from handle_message_mode [OF this] Some r show ?thesis by (auto simp: host_asks_def)
  qed
qed

definition bodiless :: "byte \<Rightarrow> delivery" where
  "bodiless f = \<lparr>dlv_frame = make_data_frame 0 1 f True 9 [], reply_to = None\<rparr>"

lemma bodiless_asks:
  assumes "f = 15 \<or> f = 17"
  shows "host_asks default_gem_config 1 f (Data now (bodiless f)) \<and>
    (host_asks default_gem_config 1 15 (Data now (bodiless f)) \<longleftrightarrow> f = 15)"
  using assms
  by (auto simp: host_asks_def accepted_def s9_answer_def bodiless_def make_data_frame_def
      default_gem_config_def known_messages_def legal_body_def to_message_def
      header_stream_def header_function_def header_w_bit_def)

theorem host_control_mode_witness:
  "\<exists>g outs g' os es. run (gem_step id) [Data 0 (bodiless 15)] sample_gem = Some (g, outs) \<and>
     on_data id 1 (bodiless 17) g = Some (g', os, es) \<and> mode_of g = kOffline \<and> mode_of g' = kOnlineLocal"
proof -
  have i: "gem_init sample_gem" by (auto simp: gem_init_def sample_gem_def)
  have c: "gconfig sample_gem = default_gem_config" "allow_host_online default_gem_config"
    by (simp_all add: sample_gem_def new_gem_def default_gem_config_def)
  obtain g os1 es1 where 1: "on_data id 0 (bodiless 15) sample_gem = Some (g, os1, es1)"
    using on_data_returns [of sample_gem id 0 "bodiless 15"] gem_init_facts [OF i] by blast
  then have r: "run (gem_step id) [Data 0 (bodiless 15)] sample_gem = Some (g, [(os1, es1)])" by simp
  obtain g' os es where 2: "on_data id 1 (bodiless 17) g = Some (g', os, es)"
    using on_data_returns [of g id 1 "bodiless 17"] run_preferred [OF _ r] gem_init_facts [OF i] by blast
  have off: "mode_of g = kOffline"
    using host_control_mode [OF i _ 1, of "[]" "[]"] bodiless_asks [of 15 0] c by simp
  with host_control_mode [OF i r 2] bodiless_asks [of 17 1] c have "mode_of g' = kOnlineLocal" by simp
  with r 2 off show ?thesis by blast
qed

section \<open>Requests the host does not answer\<close>

text \<open>The header of the request still unanswered under some system bytes, read off the calls.\<close>

fun awaiting :: "u16 \<Rightarrow> u32 \<Rightarrow> header option \<Rightarrow> gem_event list \<Rightarrow> header option" where
  "awaiting dev sys h [] = h"
| "awaiting dev sys h (e # es) =
     awaiting dev sys
       (case e of
          Sent m k \<Rightarrow>
            if k = sys \<and> w_bit m then Some (hdr (make_data_frame dev (stream m) (func m) True sys []))
            else h
        | Data now d \<Rightarrow> if reply_to d = Some sys then None else h
        | Timed_out k \<Rightarrow> if k = sys then None else h
        | Session_state st \<Rightarrow> if st \<noteq> kSelected then None else h
        | _ \<Rightarrow> h) es"

lemma gem_step_awaiting:
  assumes "gem_inv g" "gem_step ord e g = Some (g', x)"
  shows "omap_find (open_requests g') sys =
    awaiting (gem_device_id (gconfig g)) sys (omap_find (open_requests g) sys) [e]"
proof (cases e)
  case (Data now d)
  obtain os es where x: "x = (os, es)" by fastforce
  show ?thesis
  proof (cases "accepted (gconfig g) e")
    case None
    then show ?thesis using on_data_refused [OF assms(1), of now d ord g' os es] assms Data x
      by (auto simp: omap_simps gem_inv_def split: option.splits)
  next
    case (Some m)
    then have "handle_message ord now (dlv_frame d) m g = Some (g', os, es)" "reply_to d = None"
      using on_data_accepted [OF assms(1), of now d m ord] assms(2) Data x
      by (auto simp: accepted_def split: if_splits)
    from handle_message_fields [OF this(1)] this(2) Data show ?thesis by simp
  qed
next
  case (Task ev)
  then have "gem_task ev g = (g', fst x)" using assms(2) by (auto split: prod.splits)
  from gem_task_fields [OF this] Task show ?thesis by simp
next
  case (Timed_out k)
  have "omap_find (open_requests g) k = None \<Longrightarrow> k = sys \<Longrightarrow> omap_find (open_requests g) sys = None"
    by simp
  with Timed_out assms show ?thesis
    by (auto simp: on_transaction_timeout_def omap_simps gem_inv_def split: option.splits)
qed (use assms in \<open>auto simp: on_session_state_def on_sent_def gem_inv_def omap_simps
    make_data_frame_def split: if_splits prod.splits\<close>)

lemma run_awaiting:
  assumes "gem_inv g" "run (gem_step ord) evs g = Some (g', outs)"
  shows "omap_find (open_requests g') sys =
    awaiting (gem_device_id (gconfig g)) sys (omap_find (open_requests g) sys) evs"
  using assms
proof (induction evs arbitrary: g outs)
  case (Cons e evs)
  then obtain g1 x outs1 where 1: "gem_step ord e g = Some (g1, x)"
    and 2: "run (gem_step ord) evs g1 = Some (g', outs1)"
    by (auto split: option.splits)
  note inv1 = gem_step_inv [OF Cons.prems(1) 1]
  have "gconfig g1 = gconfig g" using gem_step_dialogue [OF Cons.prems(1), of ord e g1] 1 by (cases x) auto
  with Cons.IH [OF inv1 2] gem_step_awaiting [OF Cons.prems(1) 1, of sys] show ?case by simp
qed simp

text \<open>
  A T3 timeout is reported to the host once, with the right header. After any run from the
  start, a timeout of system bytes under which a request was sent and not yet answered, timed
  out or lost with the link posts exactly one S9F9, whose body is the header of the frame the
  session sent; a timeout of any other system bytes posts nothing. After it the request is
  forgotten, so a second timeout posts nothing.
\<close>

theorem timeout_reported_once:
  assumes "gem_init g0" "run (gem_step ord) evs g0 = Some (g, outs)"
  shows "\<exists>g'. on_transaction_timeout sys g =
      (g', case awaiting (gem_device_id (gconfig g0)) sys None evs of
             None \<Rightarrow> [] | Some h \<Rightarrow> [Post_request (make_s9 9 (header_bytes h))]) \<and>
    on_transaction_timeout sys g' = (g', []) \<and>
    g'\<lparr>open_requests := open_requests g\<rparr> = g"
proof -
  have i: "gem_inv g0" "open_requests g0 = []" using gem_init_facts [OF assms(1)] by auto
  have f: "omap_find (open_requests g) sys = awaiting (gem_device_id (gconfig g0)) sys None evs"
    using run_awaiting [OF i(1) assms(2), of sys] i(2) by simp
  have inv: "omap_inv (open_requests g)" using run_preferred [OF i(1) assms(2)] by (simp add: gem_inv_def)
  show ?thesis
  proof (cases "omap_find (open_requests g) sys")
    case None
    then show ?thesis using f by (auto simp: on_transaction_timeout_def)
  next
    case (Some h)
    let ?g = "g\<lparr>open_requests := omap_erase sys (open_requests g)\<rparr>"
    have "on_transaction_timeout sys ?g = (?g, [])"
      using inv by (simp add: on_transaction_timeout_def omap_simps)
    then show ?thesis
      using Some f by (intro exI [of _ ?g]) (auto simp: on_transaction_timeout_def send_s9_def gem_send_request_def)
  qed
qed

theorem timeout_reported_once_witness:
  "\<exists>g outs g'. run (gem_step id) [Sent (make_s5f1 \<lparr>alcd = 133, ar_alid = 1001, altx = ''x''\<rparr>) 40] sample_gem = Some (g, outs) \<and>
     on_transaction_timeout 40 g =
       (g', [Post_request (make_s9 9 [0, 0, 0x85, 1, 0, 0, 0, 0, 0, 40])])"
proof -
  have i: "gem_init sample_gem" by (auto simp: gem_init_def sample_gem_def)
  let ?m = "make_s5f1 \<lparr>alcd = 133, ar_alid = 1001, altx = ''x''\<rparr>"
  obtain g outs where r: "run (gem_step id) [Sent ?m 40] sample_gem = Some (g, outs)" by simp
  have "awaiting (gem_device_id (gconfig sample_gem)) 40 None [Sent ?m 40] =
      Some \<lparr>session_id = 0, byte2 = 0x85, byte3 = 1, ptype = 0, stype = 0, system_bytes = 40\<rparr>"
    by (simp add: make_s5f1_def make_message_def make_data_frame_def sample_gem_def new_gem_def
        default_gem_config_def)
  moreover have "header_bytes \<lparr>session_id = 0, byte2 = 0x85, byte3 = 1, ptype = 0, stype = 0, system_bytes = 40\<rparr>
      = [0, 0, 0x85, 1, 0, 0, 0, 0, 0, 40]"
    by (simp add: header_bytes_def put_be16_def put_be32_def)
  ultimately show ?thesis using timeout_reported_once [OF i r, of 40] r by auto
qed

end
