(* ===== verification/Queue_Spec.thy ===== *)
theory Queue_Spec
  imports Event_Machine "HOL-Library.Multiset"
begin

text \<open>
  What the program's two queues promise, stated once: a bounded first-in first-out queue that
  can be closed. A step of an implementation has a list of labels, its effects on the abstract
  queue in order; \<open>aq_apply\<close> says when a label is legal and what it does. The locales hold
  what follows for every implementation: nothing is lost, duplicated or reordered, the bound
  is kept, and callers are told the truth.
\<close>

datatype 'a qlabel =
    Enq 'a | Deq 'a | Full | Refused | Drained | Closing
  | Push_ret bool | Pop_ret "'a option"

text \<open>
  The abstract queue: its contents, whether it is closed, and what has been decided but not yet
  returned: pushes accepted and denied, items taken, and pops that found the end.
\<close>

record 'a aqueue =
  aq_items :: "'a list"
  aq_closed :: bool
  aq_accepted :: nat
  aq_denied :: nat
  aq_taken :: "'a multiset"
  aq_ended :: nat

definition aq_empty :: "'a aqueue" where
  "aq_empty = \<lparr>aq_items = [], aq_closed = False, aq_accepted = 0, aq_denied = 0, aq_taken = {#},
     aq_ended = 0\<rparr>"

lemma aq_empty_fields [simp]:
  "aq_items aq_empty = []" "\<not> aq_closed aq_empty" "aq_accepted aq_empty = 0" "aq_denied aq_empty = 0"
  "aq_taken aq_empty = {#}" "aq_ended aq_empty = 0"
  by (simp_all add: aq_empty_def)

fun aq_apply :: "nat \<Rightarrow> 'a qlabel \<Rightarrow> 'a aqueue \<Rightarrow> 'a aqueue option" where
  "aq_apply cap (Enq x) a =
     (if length (aq_items a) < cap
      then Some (a\<lparr>aq_items := aq_items a @ [x], aq_accepted := aq_accepted a + 1\<rparr>) else None)"
| "aq_apply cap (Deq x) a =
     (case aq_items a of
        [] \<Rightarrow> None
      | y # q \<Rightarrow> if x = y then Some (a\<lparr>aq_items := q, aq_taken := add_mset x (aq_taken a)\<rparr>) else None)"
| "aq_apply cap Full a =
     (if length (aq_items a) < cap then None else Some (a\<lparr>aq_denied := aq_denied a + 1\<rparr>))"
| "aq_apply cap Refused a =
     (if aq_closed a then Some (a\<lparr>aq_denied := aq_denied a + 1\<rparr>) else None)"
| "aq_apply cap Drained a =
     (if aq_closed a \<and> aq_items a = [] then Some (a\<lparr>aq_ended := aq_ended a + 1\<rparr>) else None)"
| "aq_apply cap Closing a = Some (a\<lparr>aq_closed := True\<rparr>)"
| "aq_apply cap (Push_ret True) a =
     (case aq_accepted a of 0 \<Rightarrow> None | Suc n \<Rightarrow> Some (a\<lparr>aq_accepted := n\<rparr>))"
| "aq_apply cap (Push_ret False) a =
     (case aq_denied a of 0 \<Rightarrow> None | Suc n \<Rightarrow> Some (a\<lparr>aq_denied := n\<rparr>))"
| "aq_apply cap (Pop_ret (Some x)) a =
     (if x \<in># aq_taken a then Some (a\<lparr>aq_taken := aq_taken a - {#x#}\<rparr>) else None)"
| "aq_apply cap (Pop_ret None) a =
     (case aq_ended a of 0 \<Rightarrow> None | Suc n \<Rightarrow> Some (a\<lparr>aq_ended := n\<rparr>))"

fun aq_run :: "nat \<Rightarrow> 'a qlabel list \<Rightarrow> 'a aqueue \<Rightarrow> 'a aqueue option" where
  "aq_run cap [] a = Some a"
| "aq_run cap (l # ls) a =
     (case aq_apply cap l a of None \<Rightarrow> None | Some a' \<Rightarrow> aq_run cap ls a')"

lemma aq_run_append [simp]:
  "aq_run cap (ls @ ls') a = (case aq_run cap ls a of None \<Rightarrow> None | Some a' \<Rightarrow> aq_run cap ls' a')"
  by (induction ls arbitrary: a) (auto split: option.splits)

fun enqueued :: "'a qlabel list \<Rightarrow> 'a list" where
  "enqueued [] = []"
| "enqueued (Enq x # ls) = x # enqueued ls"
| "enqueued (_ # ls) = enqueued ls"

fun dequeued :: "'a qlabel list \<Rightarrow> 'a list" where
  "dequeued [] = []"
| "dequeued (Deq x # ls) = x # dequeued ls"
| "dequeued (_ # ls) = dequeued ls"

fun returned :: "'a qlabel list \<Rightarrow> 'a multiset" where
  "returned [] = {#}"
| "returned (Pop_ret (Some x) # ls) = add_mset x (returned ls)"
| "returned (_ # ls) = returned ls"

definition told :: "bool \<Rightarrow> 'a qlabel list \<Rightarrow> nat" where
  "told b ls = length (filter (\<lambda>l. l = Push_ret b) ls)"

lemma enqueued_append [simp]: "enqueued (ls @ ls') = enqueued ls @ enqueued ls'"
  by (induction ls rule: enqueued.induct) auto

lemma dequeued_append [simp]: "dequeued (ls @ ls') = dequeued ls @ dequeued ls'"
  by (induction ls rule: dequeued.induct) auto

lemma returned_append [simp]: "returned (ls @ ls') = returned ls + returned ls'"
  by (induction ls rule: returned.induct) auto

text \<open>First in, first out: what went in is what came out followed by what is still inside.\<close>

lemma aq_apply_fifo:
  assumes "aq_apply cap l a = Some a'" "length (aq_items a) \<le> cap"
  shows "aq_items a @ enqueued [l] = dequeued [l] @ aq_items a' \<and> length (aq_items a') \<le> cap \<and>
    aq_taken a + mset (dequeued [l]) = returned [l] + aq_taken a' \<and>
    aq_accepted a + length (enqueued [l]) = told True [l] + aq_accepted a'"
  using assms
  by (cases "(cap, l, a)" rule: aq_apply.cases) (auto simp: told_def split: if_splits list.splits nat.splits)

lemma aq_run_fifo:
  assumes "aq_run cap ls a = Some a'" "length (aq_items a) \<le> cap"
  shows "aq_items a @ enqueued ls = dequeued ls @ aq_items a' \<and> length (aq_items a') \<le> cap \<and>
    aq_taken a + mset (dequeued ls) = returned ls + aq_taken a' \<and>
    aq_accepted a + length (enqueued ls) = told True ls + aq_accepted a'"
  using assms
proof (induction ls arbitrary: a)
  case (Cons l ls)
  then obtain a1 where 1: "aq_apply cap l a = Some a1" and 2: "aq_run cap ls a1 = Some a'"
    by (auto split: option.splits)
  note f = aq_apply_fifo [OF 1 Cons.prems(2)]
  note IH = Cons.IH [OF 2 conjunct1 [OF conjunct2 [OF f]]]
  have "enqueued (l # ls) = enqueued [l] @ enqueued ls" "dequeued (l # ls) = dequeued [l] @ dequeued ls"
    "returned (l # ls) = returned [l] + returned ls" "told True (l # ls) = told True [l] + told True ls"
    using enqueued_append [of "[l]" ls] dequeued_append [of "[l]" ls] returned_append [of "[l]" ls]
    by (simp_all add: told_def)
  moreover have "aq_items a @ enqueued [l] @ enqueued ls = dequeued [l] @ dequeued ls @ aq_items a'"
    using f IH by (metis append.assoc)
  moreover have "aq_taken a + (mset (dequeued [l]) + mset (dequeued ls)) = returned [l] + (returned ls + aq_taken a')"
    using f IH by (metis add.assoc)
  ultimately show ?case using f IH by (simp add: add.assoc)
qed (simp add: told_def)

text \<open>An implementation: its abstraction function, its bound, and the simulation it must show.\<close>

locale bounded_fifo = event_machine init step inv
  for init :: "'s \<Rightarrow> bool" and step :: "'e \<Rightarrow> 's \<Rightarrow> ('s \<times> 'a qlabel list) option" and inv +
  fixes abs :: "'s \<Rightarrow> 'a aqueue" and bound :: "'s \<Rightarrow> nat"
  assumes abs_init: "init s \<Longrightarrow> abs s = aq_empty"
    and simulation: "inv s \<Longrightarrow> step e s = Some (s', ls) \<Longrightarrow>
      aq_run (bound s) ls (abs s) = Some (abs s') \<and> bound s' = bound s"
begin

lemma run_refines:
  assumes "inv s" "run step es s = Some (s', lss)"
  shows "aq_run (bound s) (concat lss) (abs s) = Some (abs s') \<and> bound s' = bound s"
  using assms
proof (induction es arbitrary: s lss)
  case (Cons e es)
  then obtain s1 ls lss1 where 1: "step e s = Some (s1, ls)" and 2: "run step es s1 = Some (s', lss1)"
    and "lss = ls # lss1"
    by (auto split: option.splits)
  then show ?case
    using simulation [OF Cons.prems(1) 1] Cons.IH [OF inv_step [OF Cons.prems(1) 1] 2] by simp
qed simp

lemma fifo:
  assumes "init s" "run step es s = Some (s', lss)"
  shows "enqueued (concat lss) = dequeued (concat lss) @ aq_items (abs s') \<and>
    length (aq_items (abs s')) \<le> bound s \<and>
    mset (dequeued (concat lss)) = returned (concat lss) + aq_taken (abs s') \<and>
    length (enqueued (concat lss)) = told True (concat lss) + aq_accepted (abs s')"
proof -
  have "aq_run (bound s) (concat lss) aq_empty = Some (abs s')"
    using run_refines [OF inv_init [OF assms(1)] assms(2)] abs_init [OF assms(1)] by simp
  from aq_run_fifo [OF this] show ?thesis
    unfolding aq_empty_fields append_Nil add_0 list.size by blast
qed

end

text \<open>A stricter promise: once closed, nothing is accepted, so the end is final.\<close>

locale closing_fifo = bounded_fifo +
  assumes closed_rejects: "inv s \<Longrightarrow> step e s = Some (s', ls) \<Longrightarrow> aq_closed (abs s) \<Longrightarrow>
      enqueued ls = [] \<and> aq_closed (abs s')"
begin

lemma drained_is_final:
  assumes "inv s" "aq_closed (abs s)" "aq_items (abs s) = []" "run step es s = Some (s', lss)"
  shows "enqueued (concat lss) = [] \<and> dequeued (concat lss) = [] \<and> aq_items (abs s') = []"
proof -
  have "enqueued (concat lss) = []"
    using assms(1,2,4)
  proof (induction es arbitrary: s lss)
    case (Cons e es)
    then obtain s1 ls lss1 where 1: "step e s = Some (s1, ls)" and 2: "run step es s1 = Some (s', lss1)"
      and "lss = ls # lss1"
      by (auto split: option.splits)
    then show ?case
      using closed_rejects [OF Cons.prems(1) 1 Cons.prems(2)]
        Cons.IH [OF inv_step [OF Cons.prems(1) 1] _ 2] by simp
  qed simp
  with aq_run_fifo [of "bound s" "concat lss" "abs s" "abs s'"] run_refines [OF assms(1,4)] assms(3)
  show ?thesis by simp
qed

end

end
