(* ===== verification/Bounded_Queue.thy ===== *)
theory Bounded_Queue
  imports Queue_Spec
begin

text \<open>
  The queue every thread of the machine uses, \<^verbatim>\<open>include/ssim/core/queue.hpp\<close>: a deque behind a
  mutex with two condition variables, for any number of producers and consumers. A step is
  what one thread does in one go: a whole critical section, or a notification after it. Threads
  inside a call are part of the state: asleep in a wait, woken and about to take the mutex
  again, or past the unlock and about to notify. Which thread a notification wakes and which
  one runs next is the environment's choice, given by the event; a spurious wake-up is an
  event too.
\<close>

datatype backpressure_policy = kBlock | kDropNewest

record 'a bqueue =
  bq_items :: "'a list"
  bq_capacity :: nat
  bq_policy :: backpressure_policy
  bq_dropped :: u64
  bq_closed :: bool
  push_waiting :: "'a list"
  push_woken :: "'a list"
  push_leaving :: nat
  pop_waiting :: nat
  pop_woken :: nat
  pop_leaving :: "'a list"
  close_leaving :: nat
  close_half :: nat

definition new_bqueue :: "nat \<Rightarrow> backpressure_policy \<Rightarrow> 'a bqueue" where
  "new_bqueue cap pol =
     \<lparr>bq_items = [], bq_capacity = cap, bq_policy = pol, bq_dropped = 0, bq_closed = False,
      push_waiting = [], push_woken = [], push_leaving = 0, pop_waiting = 0, pop_woken = 0,
      pop_leaving = [], close_leaving = 0, close_half = 0\<rparr>"

section \<open>Critical sections\<close>

text \<open>The end of \<^verbatim>\<open>push\<close>: append, unlock, and notify later.\<close>

definition bq_append :: "'a \<Rightarrow> 'a bqueue \<Rightarrow> 'a bqueue \<times> 'a qlabel list" where
  "bq_append x q =
     (q\<lparr>bq_items := bq_items q @ [x], push_leaving := push_leaving q + 1\<rparr>, [Enq x])"

definition bq_push :: "'a \<Rightarrow> 'a bqueue \<Rightarrow> 'a bqueue \<times> 'a qlabel list" where
  "bq_push x q =
     (if bq_closed q then (q, [Refused, Push_ret False])
      else if bq_capacity q \<le> length (bq_items q)
      then (if bq_policy q = kDropNewest
            then (q\<lparr>bq_dropped := bq_dropped q + 1\<rparr>, [Full, Push_ret False])
            else (q\<lparr>push_waiting := push_waiting q @ [x]\<rparr>, []))
      else bq_append x q)"

text \<open>A pusher woken in its wait: the predicate is checked again under the mutex.\<close>

definition bq_push_wait :: "'a \<Rightarrow> 'a bqueue \<Rightarrow> 'a bqueue \<times> 'a qlabel list" where
  "bq_push_wait x q =
     (if length (bq_items q) < bq_capacity q \<or> bq_closed q
      then (if bq_closed q then (q, [Refused, Push_ret False]) else bq_append x q)
      else (q\<lparr>push_waiting := push_waiting q @ [x]\<rparr>, []))"

definition bq_pop :: "'a bqueue \<Rightarrow> 'a bqueue \<times> 'a qlabel list" where
  "bq_pop q =
     (if bq_items q \<noteq> [] \<or> bq_closed q
      then (case bq_items q of
              [] \<Rightarrow> (q, [Drained, Pop_ret None])
            | x # xs \<Rightarrow> (q\<lparr>bq_items := xs, pop_leaving := pop_leaving q @ [x]\<rparr>, [Deq x]))
      else (q\<lparr>pop_waiting := pop_waiting q + 1\<rparr>, []))"

definition bq_close :: "'a bqueue \<Rightarrow> 'a bqueue \<times> 'a qlabel list" where
  "bq_close q = (q\<lparr>bq_closed := True, close_leaving := close_leaving q + 1\<rparr>, [Closing])"

definition bq_size :: "'a bqueue \<Rightarrow> nat" where
  "bq_size q = length (bq_items q)"

definition bq_dropped_count :: "'a bqueue \<Rightarrow> u64" where
  "bq_dropped_count q = bq_dropped q"

definition bq_is_closed :: "'a bqueue \<Rightarrow> bool" where
  "bq_is_closed q = bq_closed q"

section \<open>Notifications\<close>

definition drop_nth :: "nat \<Rightarrow> 'b list \<Rightarrow> 'b list" where
  "drop_nth i xs = take i xs @ drop (Suc i) xs"

text \<open>\<^verbatim>\<open>not_empty_.notify_one()\<close> at the end of a push, which then returns.\<close>

definition bq_push_notify :: "'a bqueue \<Rightarrow> 'a bqueue \<times> 'a qlabel list" where
  "bq_push_notify q =
     (let q = q\<lparr>push_leaving := push_leaving q - 1\<rparr>
      in (if pop_waiting q = 0 then q
          else q\<lparr>pop_waiting := pop_waiting q - 1, pop_woken := pop_woken q + 1\<rparr>,
          [Push_ret True]))"

text \<open>\<^verbatim>\<open>not_full_.notify_one()\<close> at the end of the pop of the \<open>i\<close>-th leaving popper; wakes pusher \<open>j\<close>.\<close>

definition bq_pop_notify :: "nat \<Rightarrow> nat \<Rightarrow> 'a bqueue \<Rightarrow> 'a bqueue \<times> 'a qlabel list" where
  "bq_pop_notify i j q =
     (let x = pop_leaving q ! i; q = q\<lparr>pop_leaving := drop_nth i (pop_leaving q)\<rparr>
      in (if push_waiting q = [] then q
          else q\<lparr>push_waiting := drop_nth j (push_waiting q),
                 push_woken := push_woken q @ [push_waiting q ! j]\<rparr>,
          [Pop_ret (Some x)]))"

definition bq_close_notify_empty :: "'a bqueue \<Rightarrow> 'a bqueue" where
  "bq_close_notify_empty q =
     q\<lparr>close_leaving := close_leaving q - 1, close_half := close_half q + 1,
       pop_woken := pop_woken q + pop_waiting q, pop_waiting := 0\<rparr>"

definition bq_close_notify_full :: "'a bqueue \<Rightarrow> 'a bqueue" where
  "bq_close_notify_full q =
     q\<lparr>close_half := close_half q - 1,
       push_woken := push_woken q @ push_waiting q, push_waiting := []\<rparr>"

section \<open>Steps\<close>

datatype 'a bq_event =
    Call_push 'a | Call_pop | Call_close
  | Run_push nat | Run_pop | Notify_push | Notify_pop nat nat
  | Close_empty | Close_full
  | Spurious_push nat | Spurious_pop

fun internal :: "'a bq_event \<Rightarrow> bool" where
  "internal (Call_push x) = False"
| "internal Call_pop = False"
| "internal Call_close = False"
| "internal (Spurious_push i) = False"
| "internal Spurious_pop = False"
| "internal _ = True"

fun bq_step :: "'a bq_event \<Rightarrow> 'a bqueue \<Rightarrow> ('a bqueue \<times> 'a qlabel list) option" where
  "bq_step (Call_push x) q = Some (bq_push x q)"
| "bq_step Call_pop q = Some (bq_pop q)"
| "bq_step Call_close q = Some (bq_close q)"
| "bq_step (Run_push i) q =
     (if i < length (push_woken q)
      then Some (bq_push_wait (push_woken q ! i) (q\<lparr>push_woken := drop_nth i (push_woken q)\<rparr>))
      else None)"
| "bq_step Run_pop q =
     (if 0 < pop_woken q then Some (bq_pop (q\<lparr>pop_woken := pop_woken q - 1\<rparr>)) else None)"
| "bq_step Notify_push q = (if 0 < push_leaving q then Some (bq_push_notify q) else None)"
| "bq_step (Notify_pop i j) q =
     (if i < length (pop_leaving q) \<and> (push_waiting q = [] \<or> j < length (push_waiting q))
      then Some (bq_pop_notify i j q) else None)"
| "bq_step Close_empty q = (if 0 < close_leaving q then Some (bq_close_notify_empty q, []) else None)"
| "bq_step Close_full q = (if 0 < close_half q then Some (bq_close_notify_full q, []) else None)"
| "bq_step (Spurious_push i) q =
     (if i < length (push_waiting q)
      then Some (q\<lparr>push_waiting := drop_nth i (push_waiting q),
                   push_woken := push_woken q @ [push_waiting q ! i]\<rparr>, [])
      else None)"
| "bq_step Spurious_pop q =
     (if 0 < pop_waiting q
      then Some (q\<lparr>pop_waiting := pop_waiting q - 1, pop_woken := pop_woken q + 1\<rparr>, []) else None)"

definition bq_init :: "'a bqueue \<Rightarrow> bool" where
  "bq_init q \<longleftrightarrow> (\<exists>cap pol. q = new_bqueue cap pol)"

text \<open>
  A thread is asleep only while its wait is justified: there are no more items than threads
  already on their way to take them, and no more room than pushers on their way to fill it;
  after a close, the close has still to wake it.
\<close>

definition bq_inv :: "'a bqueue \<Rightarrow> bool" where
  "bq_inv q \<longleftrightarrow>
     length (bq_items q) \<le> bq_capacity q \<and>
     (0 < pop_waiting q \<longrightarrow>
        (if bq_closed q then 0 < close_leaving q
         else length (bq_items q) \<le> pop_woken q + push_leaving q)) \<and>
     (push_waiting q \<noteq> [] \<longrightarrow>
        (if bq_closed q then 0 < close_leaving q + close_half q
         else bq_capacity q - length (bq_items q) \<le> length (push_woken q) + length (pop_leaving q)))"

definition bq_abs :: "'a bqueue \<Rightarrow> 'a aqueue" where
  "bq_abs q = \<lparr>aq_items = bq_items q, aq_closed = bq_closed q, aq_accepted = push_leaving q,
     aq_denied = 0, aq_taken = mset (pop_leaving q), aq_ended = 0\<rparr>"

lemma length_drop_nth [simp]: "i < length xs \<Longrightarrow> length (drop_nth i xs) = length xs - 1"
  by (simp add: drop_nth_def)

lemma mset_drop_nth: "i < length xs \<Longrightarrow> mset (drop_nth i xs) = mset xs - {#xs ! i#}"
  by (metis Cons_nth_drop_Suc add_mset_add_single add_mset_remove_trivial append_take_drop_id
      drop_nth_def mset.simps(2) mset_append union_mset_add_mset_right)

lemmas bq_defs = bq_push_def bq_push_wait_def bq_append_def bq_pop_def bq_close_def bq_push_notify_def
  bq_pop_notify_def bq_close_notify_empty_def bq_close_notify_full_def Let_def

lemma drop_nth_Nil [simp]: "drop_nth i [] = []"
  by (simp add: drop_nth_def)

lemma bq_step_inv:
  assumes "bq_inv q" "bq_step e q = Some (q', ls)"
  shows "bq_inv q'"
  using assms
  by (cases e) (auto simp: bq_inv_def bq_defs split: if_splits list.splits)

lemma bq_step_simulates:
  assumes "bq_inv q" "bq_step e q = Some (q', ls)"
  shows "aq_run (bq_capacity q) ls (bq_abs q) = Some (bq_abs q') \<and> bq_capacity q' = bq_capacity q"
  using assms
  by (cases e) (auto simp: bq_inv_def bq_defs bq_abs_def mset_drop_nth split: if_splits list.splits nat.splits)

interpretation bq: closing_fifo bq_init bq_step bq_inv bq_abs bq_capacity
proof unfold_locales
  show "bq_inv s" "bq_abs s = aq_empty" if "bq_init s" for s :: "'a bqueue"
    using that by (auto simp: bq_init_def new_bqueue_def bq_inv_def bq_abs_def aq_empty_def)
  show "bq_inv s'" if "bq_inv s" "bq_step e s = Some (s', ls)" for s s' :: "'a bqueue" and e ls
    by (rule bq_step_inv [OF that])
  show "aq_run (bq_capacity s) ls (bq_abs s) = Some (bq_abs s') \<and> bq_capacity s' = bq_capacity s"
    if "bq_inv s" "bq_step e s = Some (s', ls)" for s s' :: "'a bqueue" and e ls
    by (rule bq_step_simulates [OF that])
  show "enqueued ls = [] \<and> aq_closed (bq_abs s')"
    if "bq_inv s" "bq_step e s = Some (s', ls)" "aq_closed (bq_abs s)" for s s' :: "'a bqueue" and e ls
    using that(2,3)
    by (cases e) (auto simp: bq_abs_def bq_defs split: if_splits list.splits)
qed

text \<open>
  C21. The queue refines its specification. In every interleaving of any number of producers,
  consumers and closers, what happens is a legal history of the abstract bounded queue: items
  come out in the order they went in, none lost or duplicated; there are never more than the
  capacity; \<^verbatim>\<open>push\<close> returns true exactly as often as an item was accepted and \<^verbatim>\<open>pop\<close> returns
  what was taken; and once a \<^verbatim>\<open>pop\<close> may have found the queue closed and drained, nothing goes in
  or comes out again.
\<close>

theorem bounded_queue_refines:
  fixes q :: "'a bqueue"
  assumes "run bq_step es (new_bqueue cap pol) = Some (q, lss)"
  shows "aq_run cap (concat lss) aq_empty = Some (bq_abs q) \<and>
    enqueued (concat lss) = dequeued (concat lss) @ bq_items q \<and>
    length (bq_items q) \<le> cap \<and>
    mset (dequeued (concat lss)) = returned (concat lss) + mset (pop_leaving q) \<and>
    length (enqueued (concat lss)) = told True (concat lss) + push_leaving q \<and>
    (bq_closed q \<and> bq_items q = [] \<longrightarrow>
      (\<forall>fs q' lss'. run bq_step fs q = Some (q', lss') \<longrightarrow>
        enqueued (concat lss') = [] \<and> dequeued (concat lss') = []))"
proof -
  have i: "bq_init (new_bqueue cap pol :: 'a bqueue)" by (auto simp: bq_init_def)
  have c: "bq_capacity (new_bqueue cap pol :: 'a bqueue) = cap" by (simp add: new_bqueue_def)
  have inv: "bq_inv q" by (rule bq.reach_inv [OF run_reach [OF reach_init [of bq_init, OF i] assms]])
  note r = bq.run_refines [OF bq.inv_init [OF i] assms]
  note f = bq.fifo [OF i assms]
  have "enqueued (concat lss') = [] \<and> dequeued (concat lss') = []"
    if "bq_closed q" "bq_items q = []" "run bq_step fs q = Some (q', lss')" for fs q' lss'
    using bq.drained_is_final [OF inv _ _ that(3)] that(1,2) by (simp add: bq_abs_def)
  moreover have "aq_run cap (concat lss) aq_empty = Some (bq_abs q)"
    using r bq.abs_init [OF i] c by simp
  ultimately show ?thesis using f unfolding c by (auto simp: bq_abs_def)
qed

theorem bounded_queue_refines_witness:
  "\<exists>q lss. run bq_step [Call_pop, Call_push (5::nat), Call_push 6, Call_push 7, Notify_push, Run_pop]
       (new_bqueue 2 kDropNewest) = Some (q, lss) \<and>
     enqueued (concat lss) = [5, 6] \<and> dequeued (concat lss) = [5] \<and> bq_items q = [6]"
proof -
  obtain q lss where r: "run bq_step [Call_pop, Call_push (5::nat), Call_push 6, Call_push 7, Notify_push, Run_pop]
      (new_bqueue 2 kDropNewest) = Some (q, lss)" and e: "enqueued (concat lss) = [5, 6]"
    and i: "bq_items q = [6]"
    by (simp add: new_bqueue_def bq_defs)
  from bounded_queue_refines [OF r] e i r show ?thesis by auto
qed

section \<open>No lost wake-up\<close>

definition in_wait :: "'a bqueue \<Rightarrow> nat" where
  "in_wait q = length (push_waiting q) + length (push_woken q) + pop_waiting q + pop_woken q"

text \<open>A bound on what the threads already inside a call can still do.\<close>

definition moves :: "'a bqueue \<Rightarrow> nat" where
  "moves q =
     5 * in_wait q + 3 * (push_leaving q + length (pop_leaving q)) + length (push_woken q) + pop_woken q"

definition work :: "'a bqueue \<Rightarrow> nat" where
  "work q = (2 * close_leaving q + close_half q) * (in_wait q + 1) + moves q"

lemma work_less:
  assumes "close_leaving q' = close_leaving q" "close_half q' = close_half q"
    and "in_wait q' \<le> in_wait q" "moves q' < moves q"
  shows "work q' < work q"
  unfolding work_def assms(1,2) using assms(3,4) by (intro add_le_less_mono mult_le_mono) simp_all

lemma internal_step_work:
  assumes "bq_step e q = Some (q', ls)" "internal e"
  shows "work q' < work q"
proof (cases e)
  case Close_empty
  then have c: "0 < close_leaving q" and q': "q' = bq_close_notify_empty q"
    using assms by (auto split: if_splits)
  have k: "2 * close_leaving q + close_half q = Suc (2 * (close_leaving q - 1) + (close_half q + 1))"
    using c by simp
  show ?thesis unfolding work_def k by (simp add: q' bq_close_notify_empty_def in_wait_def moves_def ac_simps)
next
  case Close_full
  then have c: "0 < close_half q" and q': "q' = bq_close_notify_full q"
    using assms by (auto split: if_splits)
  have k: "2 * close_leaving q + close_half q = Suc (2 * close_leaving q + (close_half q - 1))"
    using c by simp
  show ?thesis unfolding work_def k by (simp add: q' bq_close_notify_full_def in_wait_def moves_def ac_simps)
qed (use assms in \<open>auto simp: moves_def in_wait_def bq_defs intro!: work_less split: if_splits list.splits\<close>)

lemma internal_run_work:
  assumes "run bq_step es q = Some (q', lss)" "list_all internal es"
  shows "length es + work q' \<le> work q"
  using assms
proof (induction es arbitrary: q lss)
  case (Cons e es)
  then obtain q1 ls lss1 where 1: "bq_step e q = Some (q1, ls)" and 2: "run bq_step es q1 = Some (q', lss1)"
    by (auto split: option.splits)
  with internal_step_work [OF 1] Cons.IH [OF 2] Cons.prems(2) show ?case by simp
qed simp

lemma quiescent_counts:
  assumes "\<forall>e. internal e \<longrightarrow> bq_step e q = None"
  shows "push_woken q = [] \<and> pop_woken q = 0 \<and> push_leaving q = 0 \<and> pop_leaving q = [] \<and>
    close_leaving q = 0 \<and> close_half q = 0"
proof -
  have "bq_step (Run_push 0) q = None" "bq_step Run_pop q = None" "bq_step Notify_push q = None"
    "bq_step (Notify_pop 0 0) q = None" "bq_step Close_empty q = None" "bq_step Close_full q = None"
    by (rule assms [rule_format], simp)+
  then show ?thesis by (auto split: if_splits)
qed

text \<open>
  C22. No wake-up is lost. Without new calls, the threads already inside the queue can take only
  a bounded number of steps, and when none of them can move any more, nobody is left between
  wait and return, a consumer sleeps only on an empty open queue and a producer only on a full
  open one. So a blocked call returns as soon as there is something for it, and closing
  the queue releases every caller.
\<close>

theorem bounded_queue_settles:
  assumes "reach bq_init bq_step q" "run bq_step es q = Some (q', lss)" "list_all internal es"
  shows "length es \<le> work q \<and>
    ((\<forall>e. internal e \<longrightarrow> bq_step e q' = None) \<longrightarrow>
      push_woken q' = [] \<and> pop_woken q' = 0 \<and> push_leaving q' = 0 \<and> pop_leaving q' = [] \<and>
      (0 < pop_waiting q' \<longrightarrow> bq_items q' = [] \<and> \<not> bq_closed q') \<and>
      (push_waiting q' \<noteq> [] \<longrightarrow> length (bq_items q') = bq_capacity q' \<and> \<not> bq_closed q'))"
proof -
  have inv: "bq_inv q'" by (rule bq.reach_inv [OF run_reach [OF assms(1,2)]])
  have "push_woken q' = [] \<and> pop_woken q' = 0 \<and> push_leaving q' = 0 \<and> pop_leaving q' = [] \<and>
      (0 < pop_waiting q' \<longrightarrow> bq_items q' = [] \<and> \<not> bq_closed q') \<and>
      (push_waiting q' \<noteq> [] \<longrightarrow> length (bq_items q') = bq_capacity q' \<and> \<not> bq_closed q')"
    if "\<forall>e. internal e \<longrightarrow> bq_step e q' = None"
    using quiescent_counts [OF that] inv by (auto simp: bq_inv_def split: if_splits)
  with internal_run_work [OF assms(2,3)] show ?thesis by auto
qed

definition two_waiting :: "nat bqueue" where
  "two_waiting = (new_bqueue 1 kBlock)\<lparr>pop_waiting := 2, bq_items := [4], push_leaving := 1\<rparr>"

lemma two_waiting_reach: "reach bq_init bq_step two_waiting"
proof -
  have "reach bq_init bq_step (new_bqueue 1 kBlock :: nat bqueue)"
    by (rule reach_init) (auto simp: bq_init_def)
  moreover have "run bq_step [Call_pop, Call_pop, Call_push 4] (new_bqueue 1 kBlock) =
      Some (two_waiting, [[], [], [Enq (4::nat)]])"
    by (simp add: two_waiting_def new_bqueue_def bq_defs)
  ultimately show ?thesis by (rule run_reach)
qed

theorem bounded_queue_settles_witness:
  "\<exists>q' lss. run bq_step [Notify_push, Run_pop, Notify_pop 0 0] two_waiting = Some (q', lss) \<and>
     pop_waiting q' = 1 \<and> bq_items q' = [] \<and> \<not> bq_closed q'"
proof -
  obtain q' lss where r: "run bq_step [Notify_push, Run_pop, Notify_pop 0 0] two_waiting = Some (q', lss)"
    and q': "q' = (new_bqueue 1 kBlock)\<lparr>pop_waiting := 1\<rparr>"
    by (simp add: two_waiting_def new_bqueue_def bq_defs drop_nth_def)
  have s: "bq_step e q' = None" if "internal e" for e
    using that by (cases e) (simp_all add: q' new_bqueue_def)
  show ?thesis
    using bounded_queue_settles [OF two_waiting_reach r] r s q' by (auto simp: new_bqueue_def)
qed

end
