(* ===== verification/Spsc_Ring.thy ===== *)
theory Spsc_Ring
  imports Bounded_Queue
begin

text \<open>
  The sample-path queue, \<^verbatim>\<open>include/ssim/core/spsc_ring_queue.hpp\<close>: a ring of slots between one
  producer and one consumer, lock-free while neither has to wait. A step is one access to a
  shared variable, a lock operation or a notification, so the interleavings of the producer, the
  consumer and a thread that closes the queue are all there; the program counters are part of
  the state. Memory is sequentially consistent: the handshake variables are so in the code, and
  the acquire and release accesses of the data path are read as such. Indices and counters keep
  their 64 bits and wrap.
\<close>

unbundle bit_operations_syntax

section \<open>State\<close>

text \<open>From where a \<^verbatim>\<open>try_push\<close> or \<^verbatim>\<open>try_pop\<close> is called.\<close>

datatype push_origin = First | Spin nat | Parked
datatype pop_origin = Spinning nat | Waiting bool

datatype 'a producer_pc =
    P_idle | P_enter 'a
  | P_try push_origin 'a | P_reload push_origin 'a | P_fill push_origin 'a | P_publish push_origin 'a
  | P_full push_origin 'a
  | P_unlock | P_wake | P_wake_lock | P_notify
  | P_spin nat 'a | P_lock 'a | P_flag 'a | P_wait 'a | P_wait_space 'a | P_sleepy 'a | P_asleep 'a
  | P_relock 'a | P_unflag 'a | P_woken 'a

datatype 'a consumer_pc =
    C_idle
  | C_try pop_origin | C_reload pop_origin | C_take pop_origin | C_store pop_origin 'a
  | C_empty pop_origin
  | C_unlock 'a | C_wake 'a | C_wake_lock 'a | C_notify 'a
  | C_lock | C_closed | C_flag | C_wait | C_wait_item | C_sleepy | C_asleep | C_relock | C_unflag

datatype closer_pc = K_idle | K_lock | K_empty | K_full

datatype side = Producer | Consumer

record 'a ring =
  rg_capacity :: u64
  rg_policy :: backpressure_policy
  rg_mask :: u64
  rg_slots :: "'a option list"
  rg_head :: u64
  rg_cached_tail :: u64
  rg_tail :: u64
  rg_cached_head :: u64
  rg_producer_waiting :: bool
  rg_consumer_waiting :: bool
  rg_closed :: bool
  rg_dropped :: u64
  rg_lock :: "side option"
  ppc :: "'a producer_pc"
  cpc :: "'a consumer_pc"
  kpc :: closer_pc

definition kSpinTries :: nat where "kSpinTries = 64"

partial_function (option) round_up_loop :: "u64 \<Rightarrow> u64 \<Rightarrow> u64 option" where
  "round_up_loop n p = (if p < n then round_up_loop n (push_bit 1 p) else Some p)"

definition round_up_to_power_of_two :: "u64 \<Rightarrow> u64 option" where
  "round_up_to_power_of_two n = round_up_loop n 1"

definition new_ring :: "u64 \<Rightarrow> backpressure_policy \<Rightarrow> 'a ring option" where
  "new_ring cap pol =
     (let cap = max 1 cap
      in case round_up_to_power_of_two cap of
           None \<Rightarrow> None
         | Some p \<Rightarrow> Some
             \<lparr>rg_capacity = cap, rg_policy = pol, rg_mask = p - 1,
              rg_slots = replicate (unat (p - 1 + 1)) None, rg_head = 0, rg_cached_tail = 0,
              rg_tail = 0, rg_cached_head = 0, rg_producer_waiting = False,
              rg_consumer_waiting = False, rg_closed = False, rg_dropped = 0, rg_lock = None,
              ppc = P_idle, cpc = C_idle, kpc = K_idle\<rparr>)"

definition slot_index :: "'a ring \<Rightarrow> u64 \<Rightarrow> nat" where
  "slot_index r i = unat (i AND rg_mask r)"

definition rg_size :: "'a ring \<Rightarrow> u64" where
  "rg_size r = min (rg_head r - rg_tail r) (rg_capacity r)"

definition has_space :: "'a ring \<Rightarrow> bool" where
  "has_space r \<longleftrightarrow> rg_head r - rg_tail r < rg_capacity r"

definition has_item :: "'a ring \<Rightarrow> bool" where
  "has_item r \<longleftrightarrow> rg_head r \<noteq> rg_tail r"

type_synonym 'a ring_step = "('a ring \<times> 'a qlabel list) option"

text \<open>A notification moves a sleeper, if there is one, to re-acquiring the mutex.\<close>

definition notify_consumer :: "'a ring \<Rightarrow> 'a ring" where
  "notify_consumer r = (if cpc r = C_asleep then r\<lparr>cpc := C_relock\<rparr> else r)"

definition notify_producer :: "'a ring \<Rightarrow> 'a ring" where
  "notify_producer r = (case ppc r of P_asleep x \<Rightarrow> r\<lparr>ppc := P_relock x\<rparr> | _ \<Rightarrow> r)"

section \<open>Producer\<close>

text \<open>\<^verbatim>\<open>try_push\<close>; a success continues with the wake-up, after giving up the mutex if it is held.\<close>

fun try_push_step :: "'a producer_pc \<Rightarrow> 'a ring \<Rightarrow> 'a ring_step" where
  "try_push_step (P_try o1 x) r =
     (if rg_head r - rg_cached_tail r \<ge> rg_capacity r then Some (r\<lparr>ppc := P_reload o1 x\<rparr>, [])
      else Some (r\<lparr>ppc := P_fill o1 x\<rparr>, []))"
| "try_push_step (P_reload o1 x) r =
     (let r = r\<lparr>rg_cached_tail := rg_tail r\<rparr>
      in if rg_head r - rg_cached_tail r \<ge> rg_capacity r
         then Some (r\<lparr>ppc := P_full o1 x\<rparr>,
                    if o1 = First \<and> rg_policy r = kDropNewest then [Full] else [])
         else Some (r\<lparr>ppc := P_fill o1 x\<rparr>, []))"
| "try_push_step (P_fill o1 x) r =
     Some (r\<lparr>rg_slots := (rg_slots r)[slot_index r (rg_head r) := Some x], ppc := P_publish o1 x\<rparr>, [])"
| "try_push_step (P_publish o1 x) r =
     Some (r\<lparr>rg_head := rg_head r + 1, ppc := (if o1 = Parked then P_unlock else P_wake)\<rparr>, [Enq x])"
| "try_push_step _ r = None"

fun wake_consumer_step :: "'a producer_pc \<Rightarrow> 'a ring \<Rightarrow> 'a ring_step" where
  "wake_consumer_step P_unlock r = Some (r\<lparr>rg_lock := None, ppc := P_wake\<rparr>, [])"
| "wake_consumer_step P_wake r =
     (if rg_consumer_waiting r then Some (r\<lparr>ppc := P_wake_lock\<rparr>, [])
      else Some (r\<lparr>ppc := P_idle\<rparr>, [Push_ret True]))"
| "wake_consumer_step P_wake_lock r =
     (if rg_lock r = None then Some (r\<lparr>ppc := P_notify\<rparr>, []) else None)"
| "wake_consumer_step P_notify r =
     Some ((notify_consumer r)\<lparr>ppc := P_idle\<rparr>, [Push_ret True])"
| "wake_consumer_step _ r = None"

fun push_step :: "'a producer_pc \<Rightarrow> 'a ring \<Rightarrow> 'a ring_step" where
  "push_step (P_enter x) r =
     (if rg_closed r then Some (r\<lparr>ppc := P_idle\<rparr>, [Refused, Push_ret False])
      else Some (r\<lparr>ppc := P_try First x\<rparr>, []))"
| "push_step (P_full First x) r =
     (if rg_policy r = kDropNewest
      then Some (r\<lparr>rg_dropped := rg_dropped r + 1, ppc := P_idle\<rparr>, [Push_ret False])
      else Some (r\<lparr>ppc := P_spin 0 x\<rparr>, []))"
| "push_step _ r = None"

fun push_blocking_step :: "'a producer_pc \<Rightarrow> 'a ring \<Rightarrow> 'a ring_step" where
  "push_blocking_step (P_spin n x) r =
     (if n < kSpinTries
      then (if rg_closed r then Some (r\<lparr>ppc := P_idle\<rparr>, [Refused, Push_ret False])
            else Some (r\<lparr>ppc := P_try (Spin n) x\<rparr>, []))
      else Some (r\<lparr>ppc := P_lock x\<rparr>, []))"
| "push_blocking_step (P_full (Spin n) x) r = Some (r\<lparr>ppc := P_spin (n + 1) x\<rparr>, [])"
| "push_blocking_step (P_lock x) r =
     (if rg_lock r = None then Some (r\<lparr>rg_lock := Some Producer, ppc := P_flag x\<rparr>, []) else None)"
| "push_blocking_step (P_flag x) r = Some (r\<lparr>rg_producer_waiting := True, ppc := P_wait x\<rparr>, [])"
| "push_blocking_step (P_wait x) r =
     Some (r\<lparr>ppc := (if rg_closed r then P_unflag x else P_wait_space x)\<rparr>, [])"
| "push_blocking_step (P_wait_space x) r =
     Some (r\<lparr>ppc := (if has_space r then P_unflag x else P_sleepy x)\<rparr>, [])"
| "push_blocking_step (P_sleepy x) r = Some (r\<lparr>rg_lock := None, ppc := P_asleep x\<rparr>, [])"
| "push_blocking_step (P_relock x) r =
     (if rg_lock r = None then Some (r\<lparr>rg_lock := Some Producer, ppc := P_wait x\<rparr>, []) else None)"
| "push_blocking_step (P_unflag x) r = Some (r\<lparr>rg_producer_waiting := False, ppc := P_woken x\<rparr>, [])"
| "push_blocking_step (P_woken x) r =
     (if rg_closed r then Some (r\<lparr>rg_lock := None, ppc := P_idle\<rparr>, [Refused, Push_ret False])
      else Some (r\<lparr>ppc := P_try Parked x\<rparr>, []))"
| "push_blocking_step (P_full Parked x) r = Some (r\<lparr>ppc := P_flag x\<rparr>, [])"
| "push_blocking_step _ r = None"

definition producer_step :: "'a ring \<Rightarrow> 'a ring_step" where
  "producer_step r =
     (case ppc r of
        P_try o1 x \<Rightarrow> try_push_step (ppc r) r
      | P_reload o1 x \<Rightarrow> try_push_step (ppc r) r
      | P_fill o1 x \<Rightarrow> try_push_step (ppc r) r
      | P_publish o1 x \<Rightarrow> try_push_step (ppc r) r
      | P_unlock \<Rightarrow> wake_consumer_step (ppc r) r
      | P_wake \<Rightarrow> wake_consumer_step (ppc r) r
      | P_wake_lock \<Rightarrow> wake_consumer_step (ppc r) r
      | P_notify \<Rightarrow> wake_consumer_step (ppc r) r
      | P_enter x \<Rightarrow> push_step (ppc r) r
      | P_full o1 x \<Rightarrow> if o1 = First then push_step (ppc r) r else push_blocking_step (ppc r) r
      | _ \<Rightarrow> push_blocking_step (ppc r) r)"

section \<open>Consumer\<close>

fun try_pop_step :: "'a consumer_pc \<Rightarrow> 'a ring \<Rightarrow> 'a ring_step" where
  "try_pop_step (C_try o1) r =
     Some (r\<lparr>cpc := (if rg_tail r = rg_cached_head r then C_reload o1 else C_take o1)\<rparr>, [])"
| "try_pop_step (C_reload o1) r =
     (let r = r\<lparr>rg_cached_head := rg_head r\<rparr>
      in if rg_tail r = rg_cached_head r
         then Some (r\<lparr>cpc := C_empty o1\<rparr>, if o1 = Waiting True then [Drained] else [])
         else Some (r\<lparr>cpc := C_take o1\<rparr>, []))"
| "try_pop_step (C_take o1) r =
     (let i = slot_index r (rg_tail r)
      in case rg_slots r ! i of
           None \<Rightarrow> None
         | Some x \<Rightarrow> Some (r\<lparr>rg_slots := (rg_slots r)[i := None], cpc := C_store o1 x\<rparr>, []))"
| "try_pop_step (C_store o1 x) r =
     Some (r\<lparr>rg_tail := rg_tail r + 1,
             cpc := (case o1 of Waiting b \<Rightarrow> C_unlock x | Spinning n \<Rightarrow> C_wake x)\<rparr>, [Deq x])"
| "try_pop_step _ r = None"

fun wake_producer_step :: "'a consumer_pc \<Rightarrow> 'a ring \<Rightarrow> 'a ring_step" where
  "wake_producer_step (C_unlock x) r = Some (r\<lparr>rg_lock := None, cpc := C_wake x\<rparr>, [])"
| "wake_producer_step (C_wake x) r =
     (if rg_producer_waiting r then Some (r\<lparr>cpc := C_wake_lock x\<rparr>, [])
      else Some (r\<lparr>cpc := C_idle\<rparr>, [Pop_ret (Some x)]))"
| "wake_producer_step (C_wake_lock x) r =
     (if rg_lock r = None then Some (r\<lparr>cpc := C_notify x\<rparr>, []) else None)"
| "wake_producer_step (C_notify x) r =
     Some ((notify_producer r)\<lparr>cpc := C_idle\<rparr>, [Pop_ret (Some x)])"
| "wake_producer_step _ r = None"

text \<open>\<^verbatim>\<open>pop\<close>: its spinning loop; the rest is \<^verbatim>\<open>pop_blocking\<close>.\<close>

fun pop_step :: "'a consumer_pc \<Rightarrow> 'a ring \<Rightarrow> 'a ring_step" where
  "pop_step (C_empty (Spinning n)) r =
     Some (r\<lparr>cpc := (if n + 1 < kSpinTries then C_try (Spinning (n + 1)) else C_lock)\<rparr>, [])"
| "pop_step _ r = None"

fun pop_blocking_step :: "'a consumer_pc \<Rightarrow> 'a ring \<Rightarrow> 'a ring_step" where
  "pop_blocking_step C_lock r =
     (if rg_lock r = None then Some (r\<lparr>rg_lock := Some Consumer, cpc := C_closed\<rparr>, []) else None)"
| "pop_blocking_step C_closed r = Some (r\<lparr>cpc := C_try (Waiting (rg_closed r))\<rparr>, [])"
| "pop_blocking_step (C_empty (Waiting was_closed)) r =
     (if was_closed then Some (r\<lparr>rg_lock := None, cpc := C_idle\<rparr>, [Pop_ret None])
      else Some (r\<lparr>cpc := C_flag\<rparr>, []))"
| "pop_blocking_step C_flag r = Some (r\<lparr>rg_consumer_waiting := True, cpc := C_wait\<rparr>, [])"
| "pop_blocking_step C_wait r =
     Some (r\<lparr>cpc := (if rg_closed r then C_unflag else C_wait_item)\<rparr>, [])"
| "pop_blocking_step C_wait_item r =
     Some (r\<lparr>cpc := (if has_item r then C_unflag else C_sleepy)\<rparr>, [])"
| "pop_blocking_step C_sleepy r = Some (r\<lparr>rg_lock := None, cpc := C_asleep\<rparr>, [])"
| "pop_blocking_step C_relock r =
     (if rg_lock r = None then Some (r\<lparr>rg_lock := Some Consumer, cpc := C_wait\<rparr>, []) else None)"
| "pop_blocking_step C_unflag r = Some (r\<lparr>rg_consumer_waiting := False, cpc := C_closed\<rparr>, [])"
| "pop_blocking_step _ r = None"

definition consumer_step :: "'a ring \<Rightarrow> 'a ring_step" where
  "consumer_step r =
     (case cpc r of
        C_try o1 \<Rightarrow> try_pop_step (cpc r) r
      | C_reload o1 \<Rightarrow> try_pop_step (cpc r) r
      | C_take o1 \<Rightarrow> try_pop_step (cpc r) r
      | C_store o1 x \<Rightarrow> try_pop_step (cpc r) r
      | C_unlock x \<Rightarrow> wake_producer_step (cpc r) r
      | C_wake x \<Rightarrow> wake_producer_step (cpc r) r
      | C_wake_lock x \<Rightarrow> wake_producer_step (cpc r) r
      | C_notify x \<Rightarrow> wake_producer_step (cpc r) r
      | C_empty (Spinning n) \<Rightarrow> pop_step (cpc r) r
      | _ \<Rightarrow> pop_blocking_step (cpc r) r)"

section \<open>Closing\<close>

fun close_step :: "closer_pc \<Rightarrow> 'a ring \<Rightarrow> 'a ring_step" where
  "close_step K_lock r = (if rg_lock r = None then Some (r\<lparr>kpc := K_empty\<rparr>, []) else None)"
| "close_step K_empty r =
     Some ((notify_consumer r)\<lparr>kpc := K_full\<rparr>, [])"
| "close_step K_full r =
     Some ((notify_producer r)\<lparr>kpc := K_idle\<rparr>, [])"
| "close_step K_idle r = None"

section \<open>Interleaving\<close>

datatype 'a ring_event =
    Push 'a | Pop | Close | P_step | C_step | K_step | P_spurious | C_spurious

fun ring_step :: "'a ring_event \<Rightarrow> 'a ring \<Rightarrow> 'a ring_step" where
  "ring_step (Push x) r = (if ppc r = P_idle then Some (r\<lparr>ppc := P_enter x\<rparr>, []) else None)"
| "ring_step Pop r = (if cpc r = C_idle then Some (r\<lparr>cpc := C_try (Spinning 0)\<rparr>, []) else None)"
| "ring_step Close r =
     (if kpc r = K_idle then Some (r\<lparr>rg_closed := True, kpc := K_lock\<rparr>, [Closing]) else None)"
| "ring_step P_step r = (if ppc r = P_idle then None else producer_step r)"
| "ring_step C_step r = (if cpc r = C_idle then None else consumer_step r)"
| "ring_step K_step r = close_step (kpc r) r"
| "ring_step P_spurious r =
     (case ppc r of P_asleep x \<Rightarrow> Some (r\<lparr>ppc := P_relock x\<rparr>, []) | _ \<Rightarrow> None)"
| "ring_step C_spurious r = (if cpc r = C_asleep then Some (r\<lparr>cpc := C_relock\<rparr>, []) else None)"

definition ring_init :: "'a ring \<Rightarrow> bool" where
  "ring_init r \<longleftrightarrow> (\<exists>cap pol. cap \<le> 2 ^ 63 \<and> new_ring cap pol = Some r)"

section \<open>Indices\<close>

lemma dist_Suc: "unat (a - b) < 2 ^ 63 \<Longrightarrow> unat (a + 1 - b) = unat (a - b) + 1" for a b :: u64
proof -
  assume "unat (a - b) < 2 ^ 63"
  then have "unat (a - b) + unat (1 :: u64) < 2 ^ LENGTH(64)" by simp
  then have "unat (a - b + 1) = unat (a - b) + unat (1 :: u64)" by (simp only: unat_add_lem)
  then show ?thesis by (simp add: algebra_simps)
qed

lemma dist_pred: "0 < unat (a - b) \<Longrightarrow> unat (a - (b + 1)) = unat (a - b) - 1" for a b :: u64
proof -
  assume "0 < unat (a - b)"
  then have "(1 :: u64) \<le> a - b" by (simp add: word_le_nat_alt)
  then have "unat (a - b - 1) = unat (a - b) - unat (1 :: u64)" by (rule unat_sub)
  then show ?thesis by (simp add: algebra_simps)
qed

lemma dist_diff: "unat (t - c) \<le> unat (h - c) \<Longrightarrow> unat (h - t) = unat (h - c) - unat (t - c)" for t c h :: u64
proof -
  assume "unat (t - c) \<le> unat (h - c)"
  then have "t - c \<le> h - c" by (simp add: word_le_nat_alt)
  then have "unat ((h - c) - (t - c)) = unat (h - c) - unat (t - c)" by (rule unat_sub)
  then show ?thesis by simp
qed

lemma word_of_dist: "t + of_nat (unat (h - t)) = h" for t h :: u64
  by simp

lemma masked_index:
  fixes i :: u64
  assumes "k \<le> 63"
  shows "unat (i AND (2 ^ k - 1)) = unat i mod 2 ^ k"
proof -
  have "i AND (2 ^ k - 1) = take_bit k i" by (simp add: take_bit_eq_mask mask_eq_exp_minus_1)
  then show ?thesis by (simp add: unsigned_take_bit_eq take_bit_nat_def)
qed

lemma masked_index_add:
  fixes t :: u64
  assumes "k \<le> 63"
  shows "unat ((t + of_nat i) AND (2 ^ k - 1)) = (unat t + i) mod 2 ^ k"
proof -
  have "(2 :: nat) ^ k dvd 2 ^ 64" by (rule le_imp_power_dvd) (use assms in simp)
  then have "((unat t + i) mod 2 ^ 64) mod 2 ^ k = (unat t + i) mod 2 ^ k" by (rule mod_mod_cancel)
  moreover have "unat (t + of_nat i) = (unat t + i) mod 2 ^ 64"
    by (simp add: unat_word_ariths unat_of_nat mod_add_right_eq)
  ultimately show ?thesis by (simp add: masked_index [OF assms])
qed

lemma mod_shift_inj:
  fixes a i j m :: nat
  assumes "i < m" "j < m" "(a + i) mod m = (a + j) mod m"
  shows "i = j"
proof -
  have "(int a + int i) mod int m = (int a + int j) mod int m"
    using assms(3) by (metis of_nat_add of_nat_mod)
  then have "int m dvd int i - int j" by (simp add: mod_eq_dvd_iff)
  then have "int i mod int m = int j mod int m" by (simp add: mod_eq_dvd_iff)
  then show ?thesis using assms(1,2) by (metis mod_less of_nat_eq_iff of_nat_mod)
qed

lemma masked_index_inj:
  fixes t :: u64
  assumes "k \<le> 63" "i < 2 ^ k" "j < 2 ^ k"
    and "unat ((t + of_nat i) AND (2 ^ k - 1)) = unat ((t + of_nat j) AND (2 ^ k - 1))"
  shows "i = j"
  using assms mod_shift_inj [of i "2 ^ k" j "unat t"] by (simp only: masked_index_add)

lemma round_up_loop_returns:
  assumes "n \<le> 2 ^ 63" "j \<le> 63" "\<forall>i < j. (2 :: u64) ^ i < n"
  shows "\<exists>k \<le> 63. round_up_loop n (2 ^ j) = Some (2 ^ k) \<and> n \<le> 2 ^ k \<and> (\<forall>i < k. 2 ^ i < n)"
  using assms(2,3)
proof (induction "63 - j" arbitrary: j)
  case 0
  then have "j = 63" by simp
  with 0 assms(1) show ?case by (subst round_up_loop.simps) (auto simp: not_less)
next
  case (Suc d)
  show ?case
  proof (cases "(2 :: u64) ^ j < n")
    case True
    have "\<forall>i < Suc j. (2 :: u64) ^ i < n" using Suc.prems(2) True by (auto simp: less_Suc_eq)
    moreover have "push_bit 1 ((2 :: u64) ^ j) = 2 ^ Suc j" by (simp add: push_bit_eq_mult)
    moreover have "d = 63 - Suc j" "Suc j \<le> 63" using Suc.hyps(2) by simp_all
    ultimately show ?thesis using Suc.hyps(1) [of "Suc j"] True
      by (subst round_up_loop.simps) (simp only: if_True)
  next
    case False
    with Suc show ?thesis by (subst round_up_loop.simps) (auto simp: not_less)
  qed
qed

lemma unat_exp: "k \<le> 63 \<Longrightarrow> unat ((2 :: u64) ^ k) = 2 ^ k"
proof -
  assume "k \<le> 63"
  then have "(2 :: nat) ^ k < 2 ^ 64" by (intro power_strict_increasing) simp_all
  then show ?thesis using unat_of_nat [of "2 ^ k", where ?'a = 64] by simp
qed

lemma new_ring_returns:
  assumes "cap \<le> 2 ^ 63"
  shows "\<exists>k \<le> 63. max 1 cap \<le> 2 ^ k \<and> new_ring cap pol = Some
    \<lparr>rg_capacity = max 1 cap, rg_policy = pol, rg_mask = 2 ^ k - 1,
     rg_slots = replicate (2 ^ k) None, rg_head = 0, rg_cached_tail = 0,
     rg_tail = 0, rg_cached_head = 0, rg_producer_waiting = False,
     rg_consumer_waiting = False, rg_closed = False, rg_dropped = 0, rg_lock = None,
     ppc = P_idle, cpc = C_idle, kpc = K_idle\<rparr>"
proof -
  obtain k where "k \<le> 63" "round_up_loop (max 1 cap) 1 = Some (2 ^ k)" "max 1 cap \<le> 2 ^ k"
    using round_up_loop_returns [of "max 1 cap" 0] assms by auto
  then show ?thesis
    by (intro exI [of _ k]) (simp add: new_ring_def round_up_to_power_of_two_def Let_def unat_exp)
qed

end
