(* ===== verification/Spsc_Ring_Correct.thy ===== *)
theory Spsc_Ring_Correct
  imports Spsc_Ring
begin

text \<open>
  Correctness of the ring queue: the invariant of its indices, slots and program counters, the
  simulation by the bounded queue of \<open>Queue_Spec\<close>, and that no wake-up is lost.
\<close>

section \<open>Program counters\<close>

fun p_filling :: "'a producer_pc \<Rightarrow> bool" where
  "p_filling (P_fill o1 x) = True"
| "p_filling (P_publish o1 x) = True"
| "p_filling _ = False"

fun p_item :: "'a producer_pc \<Rightarrow> 'a option" where
  "p_item (P_publish o1 x) = Some x"
| "p_item _ = None"

fun p_origin :: "'a producer_pc \<Rightarrow> push_origin option" where
  "p_origin (P_try o1 x) = Some o1"
| "p_origin (P_reload o1 x) = Some o1"
| "p_origin (P_fill o1 x) = Some o1"
| "p_origin (P_publish o1 x) = Some o1"
| "p_origin (P_full o1 x) = Some o1"
| "p_origin _ = None"

fun p_locked :: "'a producer_pc \<Rightarrow> bool" where
  "p_locked P_unlock = True"
| "p_locked (P_flag x) = True"
| "p_locked (P_wait x) = True"
| "p_locked (P_wait_space x) = True"
| "p_locked (P_sleepy x) = True"
| "p_locked (P_unflag x) = True"
| "p_locked (P_woken x) = True"
| "p_locked pc = (p_origin pc = Some Parked)"

fun p_flagged :: "'a producer_pc \<Rightarrow> bool" where
  "p_flagged (P_wait x) = True"
| "p_flagged (P_wait_space x) = True"
| "p_flagged (P_sleepy x) = True"
| "p_flagged (P_asleep x) = True"
| "p_flagged (P_relock x) = True"
| "p_flagged (P_unflag x) = True"
| "p_flagged _ = False"

fun p_accepted :: "'a producer_pc \<Rightarrow> nat" where
  "p_accepted P_unlock = 1"
| "p_accepted P_wake = 1"
| "p_accepted P_wake_lock = 1"
| "p_accepted P_notify = 1"
| "p_accepted _ = 0"

fun p_asleep :: "'a producer_pc \<Rightarrow> bool" where
  "p_asleep (P_asleep x) = True"
| "p_asleep _ = False"

fun p_sleepy :: "'a producer_pc \<Rightarrow> bool" where
  "p_sleepy (P_sleepy x) = True"
| "p_sleepy _ = False"

fun p_saw_open :: "'a producer_pc \<Rightarrow> bool" where
  "p_saw_open (P_wait_space x) = True"
| "p_saw_open (P_sleepy x) = True"
| "p_saw_open _ = False"

fun p_waking :: "'a producer_pc \<Rightarrow> bool" where
  "p_waking P_wake = True"
| "p_waking P_wake_lock = True"
| "p_waking _ = False"

fun c_waking :: "'a consumer_pc \<Rightarrow> bool" where
  "c_waking (C_wake x) = True"
| "c_waking (C_wake_lock x) = True"
| "c_waking _ = False"

fun c_asleep :: "'a consumer_pc \<Rightarrow> bool" where
  "c_asleep C_asleep = True"
| "c_asleep _ = False"

fun c_sleepy :: "'a consumer_pc \<Rightarrow> bool" where
  "c_sleepy C_sleepy = True"
| "c_sleepy _ = False"

fun c_saw_open :: "'a consumer_pc \<Rightarrow> bool" where
  "c_saw_open C_wait_item = True"
| "c_saw_open C_sleepy = True"
| "c_saw_open _ = False"

fun c_taking :: "'a consumer_pc \<Rightarrow> bool" where
  "c_taking (C_take o1) = True"
| "c_taking (C_store o1 x) = True"
| "c_taking _ = False"

fun c_held :: "'a consumer_pc \<Rightarrow> 'a option" where
  "c_held (C_store o1 x) = Some x"
| "c_held _ = None"

fun c_origin :: "'a consumer_pc \<Rightarrow> pop_origin option" where
  "c_origin (C_try o1) = Some o1"
| "c_origin (C_reload o1) = Some o1"
| "c_origin (C_take o1) = Some o1"
| "c_origin (C_store o1 x) = Some o1"
| "c_origin (C_empty o1) = Some o1"
| "c_origin _ = None"

fun c_locked :: "'a consumer_pc \<Rightarrow> bool" where
  "c_locked (C_unlock x) = True"
| "c_locked C_closed = True"
| "c_locked C_flag = True"
| "c_locked C_wait = True"
| "c_locked C_wait_item = True"
| "c_locked C_sleepy = True"
| "c_locked C_unflag = True"
| "c_locked pc = (\<exists>b. c_origin pc = Some (Waiting b))"

fun c_flagged :: "'a consumer_pc \<Rightarrow> bool" where
  "c_flagged C_wait = True"
| "c_flagged C_wait_item = True"
| "c_flagged C_sleepy = True"
| "c_flagged C_asleep = True"
| "c_flagged C_relock = True"
| "c_flagged C_unflag = True"
| "c_flagged _ = False"

fun c_taken :: "'a consumer_pc \<Rightarrow> 'a multiset" where
  "c_taken (C_unlock x) = {#x#}"
| "c_taken (C_wake x) = {#x#}"
| "c_taken (C_wake_lock x) = {#x#}"
| "c_taken (C_notify x) = {#x#}"
| "c_taken _ = {#}"

section \<open>Indices and slots\<close>

definition used :: "'a ring \<Rightarrow> nat" where
  "used r = unat (rg_head r - rg_tail r)"

definition cell :: "'a ring \<Rightarrow> nat \<Rightarrow> 'a option" where
  "cell r i = rg_slots r ! slot_index r (rg_tail r + of_nat i)"

definition geometry :: "'a ring \<Rightarrow> bool" where
  "geometry r \<longleftrightarrow>
     (\<exists>k \<le> 63. rg_mask r = 2 ^ k - 1 \<and> length (rg_slots r) = 2 ^ k \<and>
       0 < rg_capacity r \<and> unat (rg_capacity r) \<le> 2 ^ k)"

definition data_inv :: "'a ring \<Rightarrow> bool" where
  "data_inv r \<longleftrightarrow>
     geometry r \<and> used r \<le> unat (rg_capacity r) \<and>
     unat (rg_tail r - rg_cached_tail r) \<le> unat (rg_head r - rg_cached_tail r) \<and>
     unat (rg_head r - rg_cached_tail r) \<le> unat (rg_capacity r) \<and>
     unat (rg_cached_head r - rg_tail r) \<le> used r \<and>
     (\<forall>i < used r. (i = 0 \<and> c_held (cpc r) \<noteq> None) \<or> cell r i \<noteq> None) \<and>
     (p_filling (ppc r) \<longrightarrow> unat (rg_head r - rg_cached_tail r) < unat (rg_capacity r)) \<and>
     (\<forall>x. p_item (ppc r) = Some x \<longrightarrow> cell r (used r) = Some x) \<and>
     (c_taking (cpc r) \<longrightarrow> 0 < unat (rg_cached_head r - rg_tail r))"

lemma capacity_bound: "geometry r \<Longrightarrow> unat (rg_capacity r) \<le> 2 ^ 63"
  unfolding geometry_def by (meson one_le_numeral order_trans power_increasing)

lemma head_index: "rg_head r = rg_tail r + of_nat (used r)"
  by (simp add: used_def)

lemma cell_update:
  assumes "geometry r" "i < unat (rg_capacity r)" "j < unat (rg_capacity r)"
  shows "cell (r\<lparr>rg_slots := (rg_slots r)[slot_index r (rg_tail r + of_nat j) := v]\<rparr>) i =
    (if i = j then v else cell r i)"
proof -
  obtain k where k: "k \<le> 63" "rg_mask r = 2 ^ k - 1" "length (rg_slots r) = 2 ^ k"
    "unat (rg_capacity r) \<le> 2 ^ k"
    using assms(1) by (auto simp: geometry_def)
  have ij: "i < 2 ^ k" "j < 2 ^ k" using assms(2,3) k(4) by simp_all
  have len: "slot_index r t < length (rg_slots r)" for t
    by (simp add: slot_index_def k masked_index [OF k(1)])
  have "slot_index r (rg_tail r + of_nat i) = slot_index r (rg_tail r + of_nat j) \<longleftrightarrow> i = j"
    using masked_index_inj [OF k(1) ij, of "rg_tail r"] by (auto simp: slot_index_def k(2))
  then show ?thesis using len by (auto simp: cell_def slot_index_def nth_list_update)
qed

lemma cell_shift:
  "cell (r\<lparr>rg_tail := rg_tail r + 1\<rparr>) i = cell r (Suc i)"
  by (simp add: cell_def slot_index_def algebra_simps)

text \<open>Views that do not depend on the fields a step changes.\<close>

lemma used_frame [simp]:
  "used (r\<lparr>ppc := p\<rparr>) = used r" "used (r\<lparr>cpc := c\<rparr>) = used r" "used (r\<lparr>kpc := k\<rparr>) = used r"
  "used (r\<lparr>rg_lock := l\<rparr>) = used r" "used (r\<lparr>rg_closed := b\<rparr>) = used r"
  "used (r\<lparr>rg_producer_waiting := b\<rparr>) = used r" "used (r\<lparr>rg_consumer_waiting := b\<rparr>) = used r"
  "used (r\<lparr>rg_dropped := d\<rparr>) = used r" "used (r\<lparr>rg_slots := ss\<rparr>) = used r"
  "used (r\<lparr>rg_cached_tail := t\<rparr>) = used r" "used (r\<lparr>rg_cached_head := t\<rparr>) = used r"
  by (simp_all add: used_def)

lemma cell_frame [simp]:
  "cell (r\<lparr>ppc := p\<rparr>) = cell r" "cell (r\<lparr>cpc := c\<rparr>) = cell r" "cell (r\<lparr>kpc := k\<rparr>) = cell r"
  "cell (r\<lparr>rg_lock := l\<rparr>) = cell r" "cell (r\<lparr>rg_closed := b\<rparr>) = cell r"
  "cell (r\<lparr>rg_producer_waiting := b\<rparr>) = cell r" "cell (r\<lparr>rg_consumer_waiting := b\<rparr>) = cell r"
  "cell (r\<lparr>rg_dropped := d\<rparr>) = cell r" "cell (r\<lparr>rg_head := h\<rparr>) = cell r"
  "cell (r\<lparr>rg_cached_tail := t\<rparr>) = cell r" "cell (r\<lparr>rg_cached_head := t\<rparr>) = cell r"
  by (simp_all add: cell_def slot_index_def fun_eq_iff)

lemma geometry_frame [simp]:
  "geometry (r\<lparr>ppc := p\<rparr>) = geometry r" "geometry (r\<lparr>cpc := c\<rparr>) = geometry r"
  "geometry (r\<lparr>kpc := k\<rparr>) = geometry r" "geometry (r\<lparr>rg_lock := l\<rparr>) = geometry r"
  "geometry (r\<lparr>rg_closed := b\<rparr>) = geometry r" "geometry (r\<lparr>rg_producer_waiting := b\<rparr>) = geometry r"
  "geometry (r\<lparr>rg_consumer_waiting := b\<rparr>) = geometry r" "geometry (r\<lparr>rg_dropped := d\<rparr>) = geometry r"
  "geometry (r\<lparr>rg_slots := (rg_slots r)[i := v]\<rparr>) = geometry r"
  "geometry (r\<lparr>rg_head := h\<rparr>) = geometry r" "geometry (r\<lparr>rg_tail := h\<rparr>) = geometry r"
  "geometry (r\<lparr>rg_cached_tail := t\<rparr>) = geometry r" "geometry (r\<lparr>rg_cached_head := t\<rparr>) = geometry r"
  by (simp_all add: geometry_def)

lemma data_inv_frame [simp]:
  "data_inv (r\<lparr>kpc := k\<rparr>) = data_inv r" "data_inv (r\<lparr>rg_lock := l\<rparr>) = data_inv r"
  "data_inv (r\<lparr>rg_closed := b\<rparr>) = data_inv r" "data_inv (r\<lparr>rg_producer_waiting := b\<rparr>) = data_inv r"
  "data_inv (r\<lparr>rg_consumer_waiting := b\<rparr>) = data_inv r" "data_inv (r\<lparr>rg_dropped := d\<rparr>) = data_inv r"
  by (simp_all add: data_inv_def)

lemma data_inv_ppc:
  assumes "data_inv r" "\<not> p_filling p"
  shows "data_inv (r\<lparr>ppc := p\<rparr>)"
proof -
  have "p_item p = None" using assms(2) by (cases p) auto
  with assms show ?thesis by (simp add: data_inv_def)
qed

lemma data_inv_cpc:
  assumes "data_inv r" "\<not> c_taking c" "c_held (cpc r) = None"
  shows "data_inv (r\<lparr>cpc := c\<rparr>)"
  using assms by (simp add: data_inv_def)

lemma used_room:
  assumes "data_inv r"
  shows "used r = unat (rg_head r - rg_cached_tail r) - unat (rg_tail r - rg_cached_tail r)"
    "used r \<le> unat (rg_head r - rg_cached_tail r)"
  using assms dist_diff [of "rg_tail r" "rg_cached_tail r" "rg_head r"]
  by (auto simp: data_inv_def used_def)

lemma less_capacity: "a < rg_capacity r \<longleftrightarrow> unat a < unat (rg_capacity r)"
  by (simp add: word_less_nat_alt)

lemma try_push_data:
  assumes "data_inv r" "try_push_step (ppc r) r = Some (r', ls)"
  shows "data_inv r'"
proof (cases "ppc r")
  case (P_try o1 x)
  have "p_filling (P_fill o1 x) \<and> p_item (P_fill o1 x) = None" by simp
  then show ?thesis using assms P_try data_inv_ppc [OF assms(1)]
    by (auto simp: data_inv_def less_capacity not_le split: if_splits)
next
  case (P_reload o1 x)
  have d: "data_inv (r\<lparr>rg_cached_tail := rg_tail r\<rparr>)"
    using assms(1) P_reload by (auto simp: data_inv_def used_def)
  show ?thesis
    using assms(2) P_reload d data_inv_ppc [OF d, of "P_full o1 x"]
    by (auto simp: Let_def data_inv_def less_capacity not_le used_def split: if_splits)
next
  case (P_fill o1 x)
  let ?r = "r\<lparr>rg_slots := (rg_slots r)[slot_index r (rg_tail r + of_nat (used r)) := Some x]\<rparr>"
  have u: "used r < unat (rg_capacity r)" "geometry r"
    using used_room(2) [OF assms(1)] assms(1) P_fill by (auto simp: data_inv_def)
  have c: "cell ?r i = (if i = used r then Some x else cell r i)" if "i \<le> used r" for i
    using cell_update [OF u(2), of i "used r" "Some x"] u(1) that by simp
  have r': "r' = ?r\<lparr>ppc := P_publish o1 x\<rparr>" using assms(2) P_fill head_index [of r] by simp
  show ?thesis
    using assms(1) c P_fill unfolding r' by (auto simp: data_inv_def)
next
  case (P_publish o1 x)
  let ?p = "if o1 = Parked then P_unlock else P_wake"
  have r': "r' = r\<lparr>rg_head := rg_head r + 1, ppc := ?p\<rparr>" using assms(2) P_publish by simp
  have b: "unat (rg_head r - rg_cached_tail r) < unat (rg_capacity r)" "unat (rg_capacity r) \<le> 2 ^ 63"
    using assms(1) P_publish capacity_bound [of r] by (auto simp: data_inv_def)
  have h: "unat (rg_head r + 1 - rg_cached_tail r) = unat (rg_head r - rg_cached_tail r) + 1"
    using b by (intro dist_Suc) simp
  have u: "used r' = used r + 1"
    using b used_room(2) [OF assms(1)] unfolding r' by (simp add: used_def dist_Suc)
  have "\<not> p_filling ?p" "p_item ?p = None" by simp_all
  moreover have "cell r (used r) = Some x" using assms(1) P_publish by (simp add: data_inv_def)
  ultimately show ?thesis
    using assms(1) u b h used_room(2) [OF assms(1)] unfolding data_inv_def
    by (auto simp: r' less_Suc_eq)
qed (use assms in auto)

lemma try_pop_data:
  assumes "data_inv r" "try_pop_step (cpc r) r = Some (r', ls)"
  shows "data_inv r'"
proof (cases "cpc r")
  case (C_try o1)
  then show ?thesis using assms by (auto simp: data_inv_def unat_gt_0)
next
  case (C_reload o1)
  then show ?thesis using assms by (auto simp: Let_def data_inv_def used_def unat_gt_0 split: if_splits)
next
  case (C_take o1)
  have u: "0 < used r" "used r \<le> unat (rg_capacity r)" "geometry r" "cell r 0 \<noteq> None"
    using assms(1) C_take by (auto simp: data_inv_def)
  then obtain x where x: "cell r 0 = Some x" by auto
  let ?r = "r\<lparr>rg_slots := (rg_slots r)[slot_index r (rg_tail r + of_nat 0) := None]\<rparr>"
  have r': "r' = ?r\<lparr>cpc := C_store o1 x\<rparr>" using assms(2) C_take x by (simp add: Let_def cell_def)
  have c: "cell ?r i = (if i = 0 then None else cell r i)" if "i < unat (rg_capacity r)" for i
    using cell_update [OF u(3) that, of 0 None] u by simp
  have "used r < unat (rg_capacity r)" if "p_item (ppc r) = Some y" for y
    using that assms(1) used_room(2) [OF assms(1)] by (cases "ppc r") (auto simp: data_inv_def)
  then show ?thesis
    using assms(1) C_take c u unfolding r' by (auto simp: data_inv_def)
next
  case (C_store o1 x)
  let ?c = "case o1 of Waiting b \<Rightarrow> C_unlock x | Spinning n \<Rightarrow> C_wake x"
  have r': "r' = r\<lparr>rg_tail := rg_tail r + 1, cpc := ?c\<rparr>" using assms(2) C_store by simp
  have p: "0 < unat (rg_cached_head r - rg_tail r)" "unat (rg_cached_head r - rg_tail r) \<le> used r"
    using assms(1) C_store by (auto simp: data_inv_def)
  have u: "used r' = used r - 1" using p dist_pred [of "rg_head r" "rg_tail r"] by (simp add: r' used_def)
  have ch: "unat (rg_cached_head r - (rg_tail r + 1)) = unat (rg_cached_head r - rg_tail r) - 1"
    by (rule dist_pred [OF p(1)])
  have lt: "unat (rg_tail r - rg_cached_tail r) < unat (rg_head r - rg_cached_tail r)"
    using used_room(1) [OF assms(1)] p by linarith
  moreover have "unat (rg_head r - rg_cached_tail r) \<le> 2 ^ 63"
    using assms(1) capacity_bound [of r] by (auto simp: data_inv_def)
  ultimately have ct: "unat (rg_tail r + 1 - rg_cached_tail r) = unat (rg_tail r - rg_cached_tail r) + 1"
    by (intro dist_Suc) simp
  have c: "cell r' i = cell r (Suc i)" for i by (simp add: r' cell_shift)
  have s: "Suc (used r - 1) = used r" using p by simp
  have full: "cell r (Suc i) \<noteq> None" if "i < used r - 1" for i
  proof -
    have "Suc i < used r" using that by simp
    then show ?thesis using assms(1) unfolding data_inv_def by (metis nat.simps(3))
  qed
  have "\<not> c_taking ?c" "c_held ?c = None" by (cases o1; simp)+
  moreover have "c_held (cpc r) = Some x" using C_store by simp
  moreover have "geometry r'" "used r' \<le> unat (rg_capacity r)"
    using assms(1) u by (auto simp: r' data_inv_def)
  ultimately show ?thesis
    using assms(1) p u ch ct c lt s full unfolding data_inv_def
    by (auto simp: r')
qed (use assms in auto)

section \<open>Mutex, flags and sleepers\<close>

text \<open>
  The mutex is held where the code says so; a waiting flag is up from before the predicate is
  checked until after the wake-up; and a thread that is about to sleep or asleep although its
  predicate holds is owed a notification by a thread that has not yet passed the mutex, or not
  yet notified.
\<close>

definition sync_inv :: "'a ring \<Rightarrow> bool" where
  "sync_inv r \<longleftrightarrow>
     (rg_lock r = Some Producer \<longleftrightarrow> p_locked (ppc r)) \<and>
     (rg_lock r = Some Consumer \<longleftrightarrow> c_locked (cpc r)) \<and>
     (p_flagged (ppc r) \<longrightarrow> rg_producer_waiting r) \<and>
     (c_flagged (cpc r) \<longrightarrow> rg_consumer_waiting r) \<and>
     (c_origin (cpc r) = Some (Waiting True) \<longrightarrow> rg_closed r) \<and>
     (c_saw_open (cpc r) \<and> rg_closed r \<longrightarrow> kpc r = K_lock) \<and>
     (c_sleepy (cpc r) \<and> has_item r \<longrightarrow> p_waking (ppc r)) \<and>
     (c_asleep (cpc r) \<and> rg_closed r \<longrightarrow> kpc r \<in> {K_lock, K_empty}) \<and>
     (c_asleep (cpc r) \<and> has_item r \<longrightarrow> p_accepted (ppc r) = 1) \<and>
     (p_saw_open (ppc r) \<and> rg_closed r \<longrightarrow> kpc r = K_lock) \<and>
     (p_sleepy (ppc r) \<and> has_space r \<longrightarrow> c_waking (cpc r)) \<and>
     (p_asleep (ppc r) \<and> rg_closed r \<longrightarrow> kpc r \<noteq> K_idle) \<and>
     (p_asleep (ppc r) \<and> has_space r \<longrightarrow> c_taken (cpc r) \<noteq> {#})"

definition ring_inv :: "'a ring \<Rightarrow> bool" where
  "ring_inv r \<longleftrightarrow> data_inv r \<and> sync_inv r"

lemma has_frame [simp]:
  "has_item (r\<lparr>ppc := p\<rparr>) = has_item r" "has_item (r\<lparr>cpc := c\<rparr>) = has_item r"
  "has_item (r\<lparr>kpc := k\<rparr>) = has_item r" "has_item (r\<lparr>rg_lock := l\<rparr>) = has_item r"
  "has_item (r\<lparr>rg_closed := b\<rparr>) = has_item r" "has_item (r\<lparr>rg_producer_waiting := b\<rparr>) = has_item r"
  "has_item (r\<lparr>rg_consumer_waiting := b\<rparr>) = has_item r" "has_item (r\<lparr>rg_dropped := d\<rparr>) = has_item r"
  "has_item (r\<lparr>rg_slots := ss\<rparr>) = has_item r" "has_item (r\<lparr>rg_cached_tail := t\<rparr>) = has_item r"
  "has_item (r\<lparr>rg_cached_head := t\<rparr>) = has_item r"
  "has_space (r\<lparr>ppc := p\<rparr>) = has_space r" "has_space (r\<lparr>cpc := c\<rparr>) = has_space r"
  "has_space (r\<lparr>kpc := k\<rparr>) = has_space r" "has_space (r\<lparr>rg_lock := l\<rparr>) = has_space r"
  "has_space (r\<lparr>rg_closed := b\<rparr>) = has_space r" "has_space (r\<lparr>rg_producer_waiting := b\<rparr>) = has_space r"
  "has_space (r\<lparr>rg_consumer_waiting := b\<rparr>) = has_space r" "has_space (r\<lparr>rg_dropped := d\<rparr>) = has_space r"
  "has_space (r\<lparr>rg_slots := ss\<rparr>) = has_space r" "has_space (r\<lparr>rg_cached_tail := t\<rparr>) = has_space r"
  "has_space (r\<lparr>rg_cached_head := t\<rparr>) = has_space r"
  by (simp_all add: has_item_def has_space_def)

lemma mutual_exclusion: "sync_inv r \<Longrightarrow> p_locked (ppc r) \<Longrightarrow> \<not> c_locked (cpc r)"
  unfolding sync_inv_def by (metis option.inject side.distinct(1))

lemma sleepy_locked:
  "p_sleepy p \<Longrightarrow> p_locked p" "p_saw_open p \<Longrightarrow> p_locked p"
  "c_sleepy c \<Longrightarrow> c_locked c" "c_saw_open c \<Longrightarrow> c_locked c"
  by (cases p; simp)+ (cases c; simp)+

lemma asleep_flagged:
  "c_sleepy c \<Longrightarrow> c_flagged c" "c_asleep c \<Longrightarrow> c_flagged c" "c_waking c \<Longrightarrow> c_taken c \<noteq> {#}"
  "p_sleepy p \<Longrightarrow> p_flagged p" "p_asleep p \<Longrightarrow> p_flagged p" "p_waking p \<Longrightarrow> p_accepted p = 1"
  by (cases c; simp)+ (cases p; simp)+

lemma sync_facts:
  assumes "sync_inv r"
  shows "rg_lock r = None \<Longrightarrow> \<not> c_locked (cpc r) \<and> \<not> c_sleepy (cpc r) \<and> \<not> p_locked (ppc r) \<and> \<not> p_sleepy (ppc r)"
    and "rg_lock r = None \<Longrightarrow> \<not> c_saw_open (cpc r) \<and> \<not> p_saw_open (ppc r)"
    and "\<not> rg_closed r \<Longrightarrow> c_origin (cpc r) \<noteq> Some (Waiting True)"
    and "\<not> rg_consumer_waiting r \<Longrightarrow> \<not> c_flagged (cpc r) \<and> \<not> c_sleepy (cpc r) \<and> \<not> c_asleep (cpc r)"
    and "\<not> rg_producer_waiting r \<Longrightarrow> \<not> p_flagged (ppc r) \<and> \<not> p_sleepy (ppc r) \<and> \<not> p_asleep (ppc r)"
    and "p_sleepy (ppc r) \<Longrightarrow> has_space r \<Longrightarrow> c_taken (cpc r) \<noteq> {#}"
    and "c_sleepy (cpc r) \<Longrightarrow> has_item r \<Longrightarrow> p_accepted (ppc r) = 1"
    and "c_locked (cpc r) \<Longrightarrow> \<not> p_locked (ppc r)"
  using assms sleepy_locked(1,2) [of "ppc r"] sleepy_locked(3,4) [of "cpc r"]
    asleep_flagged(1-3) [of "cpc r"] asleep_flagged(4-6) [of "ppc r"]
  unfolding sync_inv_def by (metis option.distinct(1) option.inject side.distinct(1))+

lemma producer_step_sync:
  assumes "sync_inv r" "ppc r \<noteq> P_idle"
  shows "case producer_step r of None \<Rightarrow> True | Some (r', ls) \<Rightarrow> sync_inv r'"
proof (cases "ppc r")
  case (P_full o1 x)
  with assms mutual_exclusion [OF assms(1)] show ?thesis
    by (cases o1) (simp_all add: producer_step_def sync_inv_def)
next
  case (P_publish o1 x)
  with assms mutual_exclusion [OF assms(1)] sleepy_locked(3) [of "cpc r"] show ?thesis
    by (cases o1) (auto simp: producer_step_def sync_inv_def)
next
  case P_notify
  with assms show ?thesis by (cases "cpc r") (simp_all add: producer_step_def sync_inv_def notify_consumer_def)
qed (use assms mutual_exclusion [OF assms(1)] sync_facts [OF assms(1)] in
    \<open>simp_all add: producer_step_def sync_inv_def Let_def\<close>)

lemma consumer_step_sync:
  assumes "sync_inv r" "cpc r \<noteq> C_idle"
  shows "case consumer_step r of None \<Rightarrow> True | Some (r', ls) \<Rightarrow> sync_inv r'"
proof (cases "cpc r")
  case (C_empty o1)
  with assms mutual_exclusion [OF assms(1)] show ?thesis
    by (cases o1) (auto simp: consumer_step_def sync_inv_def)
next
  case (C_store o1 x)
  with assms mutual_exclusion [OF assms(1)] sleepy_locked(1) [of "ppc r"] show ?thesis
    by (cases o1) (auto simp: consumer_step_def sync_inv_def)
next
  case (C_take o1)
  with assms show ?thesis by (simp add: consumer_step_def sync_inv_def Let_def split: option.splits)
next
  case (C_notify x)
  with assms show ?thesis by (cases "ppc r") (simp_all add: consumer_step_def sync_inv_def notify_producer_def)
qed (use assms mutual_exclusion [OF assms(1)] sync_facts [OF assms(1)] in
    \<open>simp_all add: consumer_step_def sync_inv_def Let_def\<close>)

section \<open>Simulation\<close>

definition contents :: "'a ring \<Rightarrow> 'a list" where
  "contents r =
     (case c_held (cpc r) of
        Some x \<Rightarrow> x # map (\<lambda>i. the (cell r i)) [1..<used r]
      | None \<Rightarrow> map (\<lambda>i. the (cell r i)) [0..<used r])"

definition denied :: "'a ring \<Rightarrow> nat" where
  "denied r = (case ppc r of P_full First x \<Rightarrow> if rg_policy r = kDropNewest then 1 else 0 | _ \<Rightarrow> 0)"

definition ring_abs :: "'a ring \<Rightarrow> 'a aqueue" where
  "ring_abs r = \<lparr>aq_items = contents r, aq_closed = rg_closed r, aq_accepted = p_accepted (ppc r),
     aq_denied = denied r, aq_taken = c_taken (cpc r),
     aq_ended = (if cpc r = C_empty (Waiting True) then 1 else 0)\<rparr>"

definition ring_bound :: "'a ring \<Rightarrow> nat" where
  "ring_bound r = unat (rg_capacity r)"

lemma length_contents: "data_inv r \<Longrightarrow> length (contents r) = used r"
proof -
  assume d: "data_inv r"
  have "0 < used r" if "c_held (cpc r) = Some x" for x
  proof -
    have "c_taking (cpc r)" using that by (cases "cpc r") auto
    then show ?thesis using d by (auto simp: data_inv_def)
  qed
  then show ?thesis by (auto simp: contents_def split: option.splits)
qed

lemma contents_frame [simp]:
  "contents (r\<lparr>ppc := p\<rparr>) = contents r" "contents (r\<lparr>kpc := k\<rparr>) = contents r"
  "contents (r\<lparr>rg_lock := l\<rparr>) = contents r" "contents (r\<lparr>rg_closed := b\<rparr>) = contents r"
  "contents (r\<lparr>rg_producer_waiting := b\<rparr>) = contents r" "contents (r\<lparr>rg_consumer_waiting := b\<rparr>) = contents r"
  "contents (r\<lparr>rg_dropped := d\<rparr>) = contents r" "contents (r\<lparr>rg_cached_tail := t\<rparr>) = contents r"
  "contents (r\<lparr>rg_cached_head := t\<rparr>) = contents r"
  by (simp_all add: contents_def split: option.split)

lemma contents_cpc [simp]:
  "c_held (cpc r) = None \<Longrightarrow> c_held c = None \<Longrightarrow> contents (r\<lparr>cpc := c\<rparr>) = contents r"
  by (simp add: contents_def)

lemma publish_contents:
  assumes "data_inv r" "ppc r = P_publish o1 x"
  shows "contents (r\<lparr>rg_head := rg_head r + 1\<rparr>) = contents r @ [x]"
proof -
  have b: "unat (rg_head r - rg_cached_tail r) < unat (rg_capacity r)" "unat (rg_capacity r) \<le> 2 ^ 63"
    using assms capacity_bound [of r] by (auto simp: data_inv_def)
  have u: "used (r\<lparr>rg_head := rg_head r + 1\<rparr>) = Suc (used r)"
    using b used_room(2) [OF assms(1)] by (simp add: used_def dist_Suc)
  have c: "cell r (used r) = Some x" using assms by (simp add: data_inv_def)
  have "1 \<le> used r" if "c_held (cpc r) = Some y" for y
    using that assms(1) by (cases "cpc r") (auto simp: data_inv_def)
  with u c show ?thesis by (auto simp: contents_def split: option.splits)
qed

lemma fill_contents:
  assumes "data_inv r" "ppc r = P_fill o1 x"
  shows "contents (r\<lparr>rg_slots := (rg_slots r)[slot_index r (rg_head r) := Some x]\<rparr>) = contents r"
proof -
  have u: "used r < unat (rg_capacity r)" "geometry r"
    using used_room(2) [OF assms(1)] assms by (auto simp: data_inv_def)
  have "cell (r\<lparr>rg_slots := (rg_slots r)[slot_index r (rg_head r) := Some x]\<rparr>) i = cell r i"
    if "i < used r" for i
    using cell_update [OF u(2), of i "used r" "Some x"] u(1) that by (simp flip: head_index)
  then show ?thesis by (auto simp: contents_def split: option.splits)
qed

lemma take_contents:
  assumes "data_inv r" "cpc r = C_take o1" "cell r 0 = Some x"
  shows "contents (r\<lparr>rg_slots := (rg_slots r)[slot_index r (rg_tail r) := None], cpc := C_store o1 x\<rparr>) = contents r"
proof -
  have u: "0 < used r" "used r \<le> unat (rg_capacity r)" "geometry r"
    using assms by (auto simp: data_inv_def)
  have "cell (r\<lparr>rg_slots := (rg_slots r)[slot_index r (rg_tail r) := None]\<rparr>) i = cell r i"
    if "1 \<le> i" "i < used r" for i
    using cell_update [OF u(3), of i 0 None] u(1,2) that by simp
  moreover have "[0..<used r] = 0 # [1..<used r]" using u(1) by (simp add: upt_conv_Cons)
  ultimately show ?thesis using assms(2,3) by (simp add: contents_def)
qed

lemma store_contents:
  assumes "data_inv r" "cpc r = C_store o1 x" "c_held c = None"
  shows "contents r = x # contents (r\<lparr>rg_tail := rg_tail r + 1, cpc := c\<rparr>)"
proof -
  have p: "0 < used r" using assms by (auto simp: data_inv_def)
  have u: "used (r\<lparr>rg_tail := rg_tail r + 1\<rparr>) = used r - 1"
    using p dist_pred [of "rg_head r" "rg_tail r"] by (simp add: used_def)
  have "map (\<lambda>i. the (cell r i)) [1..<used r] = map (\<lambda>i. the (cell r (Suc i))) [0..<used r - 1]"
    by (rule nth_equalityI) simp_all
  with u assms(2,3) show ?thesis by (simp add: contents_def cell_shift)
qed

lemma try_push_simulates:
  assumes "data_inv r"
  shows "case try_push_step (ppc r) r of None \<Rightarrow> True | Some (r', ls) \<Rightarrow>
    aq_run (ring_bound r) ls (ring_abs r) = Some (ring_abs r') \<and> ring_bound r' = ring_bound r"
proof (cases "ppc r")
  case (P_reload o1 x)
  then show ?thesis
    using length_contents [OF assms]
    by (cases o1) (auto simp: Let_def ring_abs_def ring_bound_def denied_def used_def word_le_nat_alt
        split: push_origin.splits)
next
  case (P_fill o1 x)
  then show ?thesis
    using fill_contents [OF assms P_fill] by (simp add: ring_abs_def ring_bound_def denied_def)
next
  case (P_publish o1 x)
  have "used r < unat (rg_capacity r)"
    using used_room(2) [OF assms] assms P_publish by (auto simp: data_inv_def)
  then show ?thesis
    using P_publish length_contents [OF assms] publish_contents [OF assms P_publish]
    by (simp add: ring_abs_def ring_bound_def denied_def)
qed (auto simp: ring_abs_def ring_bound_def denied_def)

lemma try_pop_simulates:
  assumes "data_inv r" "sync_inv r"
  shows "case try_pop_step (cpc r) r of None \<Rightarrow> True | Some (r', ls) \<Rightarrow>
    aq_run (ring_bound r) ls (ring_abs r) = Some (ring_abs r') \<and> ring_bound r' = ring_bound r"
proof (cases "cpc r")
  case (C_reload o1)
  have "contents r = []" if "rg_tail r = rg_head r"
    using that length_contents [OF assms(1)] by (simp add: used_def)
  moreover have "rg_closed r" if "o1 = Waiting True" using that assms(2) C_reload by (simp add: sync_inv_def)
  ultimately show ?thesis using C_reload by (auto simp: Let_def ring_abs_def ring_bound_def denied_def)
next
  case (C_take o1)
  have "cell r 0 \<noteq> None" using assms(1) C_take by (auto simp: data_inv_def)
  then obtain x where x: "cell r 0 = Some x" by auto
  then show ?thesis
    using C_take take_contents [OF assms(1) C_take x]
    by (simp add: Let_def cell_def ring_abs_def ring_bound_def denied_def)
next
  case (C_store o1 x)
  then show ?thesis
    using store_contents [OF assms(1) C_store, of "C_wake x"] store_contents [OF assms(1) C_store, of "C_unlock x"]
    by (cases o1) (simp_all add: ring_abs_def ring_bound_def denied_def)
qed (auto simp: ring_abs_def ring_bound_def denied_def)

lemma denied_frame [simp]:
  "denied (r\<lparr>cpc := c\<rparr>) = denied r" "denied (r\<lparr>kpc := k\<rparr>) = denied r"
  by (simp_all add: denied_def)

lemma notify_consumer_ok:
  assumes "data_inv r"
  shows "data_inv (notify_consumer r)" "contents (notify_consumer r) = contents r"
    "c_taken (cpc (notify_consumer r)) = c_taken (cpc r)" "ppc (notify_consumer r) = ppc r"
    "cpc (notify_consumer r) = C_empty o1 \<longleftrightarrow> cpc r = C_empty o1"
    "rg_closed (notify_consumer r) = rg_closed r" "rg_policy (notify_consumer r) = rg_policy r"
    "rg_capacity (notify_consumer r) = rg_capacity r"
  using assms data_inv_cpc [OF assms, of C_relock] by (auto simp: notify_consumer_def)

lemma notify_producer_ok:
  assumes "data_inv r"
  shows "data_inv (notify_producer r)" "contents (notify_producer r) = contents r"
    "p_accepted (ppc (notify_producer r)) = p_accepted (ppc r)" "cpc (notify_producer r) = cpc r"
    "denied (notify_producer r) = denied r"
    "rg_closed (notify_producer r) = rg_closed r" "rg_capacity (notify_producer r) = rg_capacity r"
  using assms data_inv_ppc [OF assms]
  by (auto simp: notify_producer_def denied_def split: producer_pc.split)

definition step_ok :: "'a ring \<Rightarrow> 'a ring_step \<Rightarrow> bool" where
  "step_ok r st \<longleftrightarrow> (case st of None \<Rightarrow> True | Some (r', ls) \<Rightarrow>
     data_inv r' \<and> sync_inv r' \<and>
     aq_run (ring_bound r) ls (ring_abs r) = Some (ring_abs r') \<and> ring_bound r' = ring_bound r)"

lemma producer_step_ok:
  assumes "data_inv r" "sync_inv r" "ppc r \<noteq> P_idle"
  shows "step_ok r (producer_step r)"
proof (cases "p_filling (ppc r) \<or> (\<exists>o1 x. ppc r = P_try o1 x \<or> ppc r = P_reload o1 x)")
  case True
  then have e: "producer_step r = try_push_step (ppc r) r"
    by (cases "ppc r") (simp_all add: producer_step_def)
  show ?thesis
    using try_push_data [OF assms(1)] try_push_simulates [OF assms(1)]
      producer_step_sync [OF assms(2,3)] unfolding e
    by (auto simp: step_ok_def split: option.splits)
next
  case False
  have d: "case producer_step r of None \<Rightarrow> True | Some (r', ls) \<Rightarrow> data_inv r' \<and>
      aq_run (ring_bound r) ls (ring_abs r) = Some (ring_abs r') \<and> ring_bound r' = ring_bound r"
  proof (cases "ppc r")
    case P_notify
    then show ?thesis
      using notify_consumer_ok [OF assms(1)] data_inv_ppc [of "notify_consumer r" P_idle]
      by (simp add: producer_step_def ring_abs_def ring_bound_def denied_def)
  next
    case (P_full o1 x)
    then show ?thesis
      using assms(1)
      by (cases o1) (simp_all add: producer_step_def ring_abs_def ring_bound_def denied_def data_inv_ppc)
  qed (use False assms(1) in
      \<open>simp_all add: producer_step_def ring_abs_def ring_bound_def denied_def data_inv_ppc\<close>)
  with producer_step_sync [OF assms(2,3)] show ?thesis by (auto simp: step_ok_def split: option.splits)
qed

lemma consumer_step_ok:
  assumes "data_inv r" "sync_inv r" "cpc r \<noteq> C_idle"
  shows "step_ok r (consumer_step r)"
proof (cases "c_taking (cpc r) \<or> (\<exists>o1. cpc r = C_try o1 \<or> cpc r = C_reload o1)")
  case True
  then have e: "consumer_step r = try_pop_step (cpc r) r"
    by (cases "cpc r") (simp_all add: consumer_step_def)
  show ?thesis
    using try_pop_data [OF assms(1)] try_pop_simulates [OF assms(1,2)]
      consumer_step_sync [OF assms(2,3)] unfolding e
    by (auto simp: step_ok_def split: option.splits)
next
  case False
  have d: "case consumer_step r of None \<Rightarrow> True | Some (r', ls) \<Rightarrow> data_inv r' \<and>
      aq_run (ring_bound r) ls (ring_abs r) = Some (ring_abs r') \<and> ring_bound r' = ring_bound r"
  proof (cases "cpc r")
    case (C_notify x)
    then show ?thesis
      using notify_producer_ok [OF assms(1)] data_inv_cpc [of "notify_producer r" C_idle]
      by (simp add: consumer_step_def ring_abs_def ring_bound_def)
  next
    case (C_empty o1)
    then show ?thesis
      using assms(1)
      by (cases o1) (simp_all add: consumer_step_def ring_abs_def ring_bound_def denied_def data_inv_cpc)
  qed (use False assms(1) in
      \<open>simp_all add: consumer_step_def ring_abs_def ring_bound_def denied_def data_inv_cpc\<close>)
  with consumer_step_sync [OF assms(2,3)] show ?thesis by (auto simp: step_ok_def split: option.splits)
qed

lemma close_step_ok:
  assumes "data_inv r" "sync_inv r"
  shows "step_ok r (close_step (kpc r) r)"
proof (cases "kpc r")
  case K_lock
  then show ?thesis using assms sync_facts [OF assms(2)]
    by (simp add: step_ok_def ring_abs_def ring_bound_def denied_def sync_inv_def)
next
  case K_empty
  then have "sync_inv ((notify_consumer r)\<lparr>kpc := K_full\<rparr>)"
    using assms(2) sync_facts [OF assms(2)] by (cases "cpc r") (simp_all add: sync_inv_def notify_consumer_def)
  with K_empty show ?thesis using notify_consumer_ok [OF assms(1)]
    by (simp add: step_ok_def ring_abs_def ring_bound_def denied_def)
next
  case K_full
  then have "sync_inv ((notify_producer r)\<lparr>kpc := K_idle\<rparr>)"
    using assms(2) mutual_exclusion [OF assms(2)] sync_facts [OF assms(2)]
    by (cases "ppc r") (simp_all add: sync_inv_def notify_producer_def)
  with K_full show ?thesis using notify_producer_ok [OF assms(1)]
    by (simp add: step_ok_def ring_abs_def ring_bound_def)
qed (simp add: step_ok_def)

lemma ring_step_ok:
  assumes "ring_inv r"
  shows "step_ok r (ring_step e r)"
proof -
  have d: "data_inv r" and s: "sync_inv r" using assms by (simp_all add: ring_inv_def)
  show ?thesis
  proof (cases e)
    case P_step
    then show ?thesis using producer_step_ok [OF d s] by (simp add: step_ok_def)
  next
    case C_step
    then show ?thesis using consumer_step_ok [OF d s] by (simp add: step_ok_def)
  next
    case K_step
    then show ?thesis using close_step_ok [OF d s] by simp
  next
    case (Push x)
    then show ?thesis using d s
      by (cases "ppc r = P_idle") (simp_all add: step_ok_def sync_inv_def ring_abs_def ring_bound_def denied_def data_inv_ppc)
  next
    case Pop
    then show ?thesis using d s sync_facts [OF s]
      by (cases "cpc r = C_idle") (simp_all add: step_ok_def sync_inv_def ring_abs_def ring_bound_def data_inv_cpc)
  next
    case Close
    then show ?thesis using d s
      by (simp add: step_ok_def sync_inv_def ring_abs_def ring_bound_def denied_def)
  next
    case P_spurious
    then show ?thesis using d s mutual_exclusion [OF s]
      by (cases "ppc r") (simp_all add: step_ok_def sync_inv_def ring_abs_def ring_bound_def denied_def data_inv_ppc)
  next
    case C_spurious
    then show ?thesis using d s
      by (cases "cpc r = C_asleep") (simp_all add: step_ok_def sync_inv_def ring_abs_def ring_bound_def data_inv_cpc)
  qed
qed

lemma ring_init_ok:
  fixes r :: "'a ring"
  assumes "ring_init r"
  shows "ring_inv r \<and> ring_abs r = aq_empty"
proof -
  obtain cap pol where c: "cap \<le> 2 ^ 63" "new_ring cap pol = Some r" using assms by (auto simp: ring_init_def)
  obtain k where k: "k \<le> 63" "max 1 cap \<le> 2 ^ k" and r: "r =
    \<lparr>rg_capacity = max 1 cap, rg_policy = pol, rg_mask = 2 ^ k - 1,
     rg_slots = replicate (2 ^ k) None, rg_head = 0, rg_cached_tail = 0,
     rg_tail = 0, rg_cached_head = 0, rg_producer_waiting = False,
     rg_consumer_waiting = False, rg_closed = False, rg_dropped = 0, rg_lock = None,
     ppc = P_idle, cpc = C_idle, kpc = K_idle\<rparr>"
    using new_ring_returns [OF c(1), of pol, where ?'a = 'a] c(2) by auto
  have "unat (max 1 cap) \<le> 2 ^ k" using k by (simp add: word_le_nat_alt unat_exp)
  moreover have "0 < max 1 cap" by (simp add: max_def word_less_nat_alt word_le_nat_alt)
  ultimately have "geometry r" using k(1) by (auto simp: geometry_def r)
  then show ?thesis
    by (simp add: ring_inv_def data_inv_def sync_inv_def ring_abs_def contents_def denied_def used_def
        aq_empty_def r)
qed

interpretation spsc: bounded_fifo ring_init ring_step ring_inv ring_abs ring_bound
proof unfold_locales
  show "ring_inv r" "ring_abs r = aq_empty" if "ring_init r" for r :: "'a ring"
    using ring_init_ok [OF that] by simp_all
  show "ring_inv r'" if "ring_inv r" "ring_step e r = Some (r', ls)" for r r' :: "'a ring" and e ls
    using ring_step_ok [OF that(1), of e] that(2) by (simp add: step_ok_def ring_inv_def)
  show "aq_run (ring_bound r) ls (ring_abs r) = Some (ring_abs r') \<and> ring_bound r' = ring_bound r"
    if "ring_inv r" "ring_step e r = Some (r', ls)" for r r' :: "'a ring" and e ls
    using ring_step_ok [OF that(1), of e] that(2) by (simp add: step_ok_def)
qed

section \<open>What the queue promises\<close>

text \<open>
  C23. The ring refines the same specification as the mutex queue. For a capacity of at most
  2^63 the constructor returns, and in every interleaving of the accesses of the producer, the
  consumer and a closer, with indices that wrap at 2^64, the history is one of the abstract
  bounded queue: items come out in order, none lost, duplicated or overwritten, at most the
  capacity at once; a push is refused for want of room only when the queue is full, and \<^verbatim>\<open>pop\<close>
  reports the end only when it is closed and empty.
\<close>

theorem ring_refines_queue:
  fixes r :: "'a ring"
  assumes "cap \<le> 2 ^ 63"
  shows "\<exists>r0 :: 'a ring. new_ring cap pol = Some r0 \<and>
    (\<forall>es r lss. run ring_step es r0 = Some (r, lss) \<longrightarrow>
      aq_run (unat (max 1 cap)) (concat lss) aq_empty = Some (ring_abs r) \<and>
      enqueued (concat lss) = dequeued (concat lss) @ contents r \<and>
      length (contents r) \<le> unat (max 1 cap) \<and>
      mset (dequeued (concat lss)) = returned (concat lss) + c_taken (cpc r))"
proof -
  obtain r0 :: "'a ring" where r0: "new_ring cap pol = Some r0" and b: "ring_bound r0 = unat (max 1 cap)"
    using new_ring_returns [OF assms, of pol, where ?'a = 'a] by (auto simp: ring_bound_def)
  have i: "ring_init r0" using assms r0 by (auto simp: ring_init_def)
  have "aq_run (unat (max 1 cap)) (concat lss) aq_empty = Some (ring_abs r) \<and>
      enqueued (concat lss) = dequeued (concat lss) @ contents r \<and>
      length (contents r) \<le> unat (max 1 cap) \<and>
      mset (dequeued (concat lss)) = returned (concat lss) + c_taken (cpc r)"
    if "run ring_step es r0 = Some (r, lss)" for es r lss
    using spsc.run_refines [OF spsc.inv_init [OF i] that] spsc.abs_init [OF i] spsc.fifo [OF i that]
    unfolding b by (simp add: ring_abs_def)
  with r0 show ?thesis by blast
qed

theorem ring_refines_queue_witness:
  "\<exists>r0 :: nat ring. new_ring 3 kDropNewest = Some r0 \<and>
     (\<forall>es r lss. run ring_step es r0 = Some (r, lss) \<longrightarrow> length (contents r) \<le> 3)"
  using ring_refines_queue [of 3 kDropNewest, where ?'a = nat] by auto

text \<open>
  C24. No wake-up is lost between the two sides. In every reachable state, a consumer that sleeps,
  or has decided to, although an item is there is owed a notification by the producer, which is
  on its way to deliver it; a producer that sleeps although there is room is owed one by the
  consumer; if the queue is closed the closing thread owes it. So the two never sleep at the
  same time with nobody about to wake them, and the mutex is never held by both.
\<close>

theorem ring_no_lost_wakeup:
  assumes "reach ring_init ring_step r"
  shows "((cpc r = C_asleep \<or> cpc r = C_sleepy) \<and> has_item r \<longrightarrow>
      ppc r \<in> {P_unlock, P_wake, P_wake_lock, P_notify} \<and> rg_consumer_waiting r) \<and>
    ((cpc r = C_asleep \<or> cpc r = C_sleepy) \<and> rg_closed r \<longrightarrow> kpc r \<in> {K_lock, K_empty}) \<and>
    ((\<exists>x. ppc r = P_asleep x \<or> ppc r = P_sleepy x) \<and> has_space r \<longrightarrow>
      (\<exists>x. cpc r \<in> {C_unlock x, C_wake x, C_wake_lock x, C_notify x}) \<and> rg_producer_waiting r) \<and>
    ((\<exists>x. ppc r = P_asleep x \<or> ppc r = P_sleepy x) \<and> rg_closed r \<longrightarrow> kpc r \<noteq> K_idle) \<and>
    ((\<exists>x. ppc r = P_asleep x) \<and> cpc r = C_asleep \<longrightarrow> False) \<and>
    \<not> (p_locked (ppc r) \<and> c_locked (cpc r))"
proof -
  have inv: "ring_inv r" by (rule spsc.reach_inv [OF assms])
  then have s: "sync_inv r" and d: "data_inv r" by (simp_all add: ring_inv_def)
  have a: "p_accepted p = 1 \<longleftrightarrow> p \<in> {P_unlock, P_wake, P_wake_lock, P_notify}" for p :: "'a producer_pc"
    by (cases p) simp_all
  have t: "c_taken c \<noteq> {#} \<longleftrightarrow> (\<exists>x. c \<in> {C_unlock x, C_wake x, C_wake_lock x, C_notify x})"
    for c :: "'a consumer_pc" by (cases c) simp_all
  have room: "has_item r \<or> has_space r"
    using d by (auto simp: has_item_def has_space_def data_inv_def geometry_def)
  have 1: "(cpc r = C_asleep \<or> cpc r = C_sleepy) \<and> has_item r \<longrightarrow>
      p_accepted (ppc r) = 1 \<and> rg_consumer_waiting r"
    using s asleep_flagged(6) [of "ppc r"] by (cases "cpc r") (simp_all add: sync_inv_def)
  have 2: "(\<exists>x. ppc r = P_asleep x \<or> ppc r = P_sleepy x) \<and> has_space r \<longrightarrow>
      c_taken (cpc r) \<noteq> {#} \<and> rg_producer_waiting r"
    using s asleep_flagged(3) [of "cpc r"] by (cases "ppc r") (simp_all add: sync_inv_def)
  have 3: "(cpc r = C_asleep \<or> cpc r = C_sleepy) \<and> rg_closed r \<longrightarrow> kpc r \<in> {K_lock, K_empty}"
    using s by (cases "cpc r") (simp_all add: sync_inv_def)
  have 4: "(\<exists>x. ppc r = P_asleep x \<or> ppc r = P_sleepy x) \<and> rg_closed r \<longrightarrow> kpc r \<noteq> K_idle"
    using s by (cases "ppc r") (simp_all add: sync_inv_def)
  have 5: "(\<exists>x. ppc r = P_asleep x) \<and> cpc r = C_asleep \<longrightarrow> False"
    using s room by (cases "ppc r"; cases "cpc r") (simp_all add: sync_inv_def)
  show ?thesis using 1 2 3 4 5 mutual_exclusion [OF s] unfolding a t by simp
qed

definition small_ring :: "nat ring" where
  "small_ring =
     \<lparr>rg_capacity = 1, rg_policy = kBlock, rg_mask = 0, rg_slots = [None], rg_head = 0,
      rg_cached_tail = 0, rg_tail = 0, rg_cached_head = 0, rg_producer_waiting = False,
      rg_consumer_waiting = False, rg_closed = False, rg_dropped = 0, rg_lock = None,
      ppc = P_idle, cpc = C_idle, kpc = K_idle\<rparr>"

lemma small_ring_reach: "reach ring_init ring_step small_ring"
proof (rule reach_init)
  have "new_ring 1 kBlock = Some small_ring"
    by (simp add: new_ring_def round_up_to_power_of_two_def round_up_loop.simps small_ring_def)
  then show "ring_init small_ring" unfolding ring_init_def by (intro exI [of _ 1] exI [of _ kBlock]) simp
qed

lemma spins:
  "m < kSpinTries \<Longrightarrow> reach ring_init ring_step (small_ring\<lparr>cpc := C_try (Spinning m)\<rparr>)"
proof (induction m)
  case 0
  show ?case by (rule reach_step [OF small_ring_reach, where e = Pop]) (simp add: small_ring_def)
next
  case (Suc m)
  then have "reach ring_init ring_step (small_ring\<lparr>cpc := C_try (Spinning m)\<rparr>)" by simp
  moreover have "run ring_step [C_step, C_step, C_step] (small_ring\<lparr>cpc := C_try (Spinning m)\<rparr>) =
      Some (small_ring\<lparr>cpc := C_try (Spinning (Suc m))\<rparr>, [[], [], []])"
    using Suc.prems by (simp add: small_ring_def consumer_step_def)
  ultimately show ?case by (rule run_reach)
qed

definition owed_ring :: "nat ring" where
  "owed_ring = small_ring\<lparr>cpc := C_asleep, rg_consumer_waiting := True, rg_head := 1,
     rg_slots := [Some 7], ppc := P_wake\<rparr>"

lemma owed_ring_reach: "reach ring_init ring_step owed_ring"
proof -
  have "reach ring_init ring_step (small_ring\<lparr>cpc := C_try (Spinning 63)\<rparr>)"
    by (rule spins) (simp add: kSpinTries_def)
  moreover have "run ring_step ([C_step, C_step, C_step, C_step, C_step, C_step, C_step, C_step, C_step,
      C_step, C_step, C_step] @ [Push 7, P_step, P_step, P_step, P_step])
      (small_ring\<lparr>cpc := C_try (Spinning 63)\<rparr>) = Some (owed_ring, replicate 16 [] @ [[Enq 7]])"
    by (simp add: small_ring_def owed_ring_def consumer_step_def producer_step_def kSpinTries_def
        has_item_def slot_index_def numeral_eq_Suc)
  ultimately show ?thesis by (rule run_reach)
qed

theorem ring_no_lost_wakeup_witness:
  "cpc owed_ring = C_asleep \<and> has_item owed_ring \<and>
     ppc owed_ring \<in> {P_unlock, P_wake, P_wake_lock, P_notify} \<and> rg_consumer_waiting owed_ring"
proof -
  have "cpc owed_ring = C_asleep" "has_item owed_ring"
    by (simp_all add: owed_ring_def small_ring_def has_item_def)
  with ring_no_lost_wakeup [OF owed_ring_reach] show ?thesis by blast
qed

end
