(* ===== verification/Std_Text.thy ===== *)
theory Std_Text
  imports Prelude
begin

text \<open>
  The C library's view of text, as far as the program uses it: character classes in the "C"
  locale, \<^verbatim>\<open>std::to_string\<close> of integers, and \<^verbatim>\<open>strtoll\<close> / \<^verbatim>\<open>strtoull\<close> with base 0.
\<close>

definition code :: "char \<Rightarrow> nat" where
  "code c = of_char c"

definition isspace :: "char \<Rightarrow> bool" where
  "isspace c \<longleftrightarrow> code c = 32 \<or> 9 \<le> code c \<and> code c \<le> 13"

definition isdigit :: "char \<Rightarrow> bool" where
  "isdigit c \<longleftrightarrow> 48 \<le> code c \<and> code c \<le> 57"

definition isalnum :: "char \<Rightarrow> bool" where
  "isalnum c \<longleftrightarrow>
     isdigit c \<or> 65 \<le> code c \<and> code c \<le> 90 \<or> 97 \<le> code c \<and> code c \<le> 122"

text \<open>A string seen through \<^verbatim>\<open>c_str()\<close> ends at the first NUL.\<close>

definition c_str :: "string \<Rightarrow> string" where
  "c_str s = takeWhile (\<lambda>c. code c \<noteq> 0) s"

section \<open>Printing integers\<close>

definition digit_char :: "nat \<Rightarrow> char" where
  "digit_char d = char_of (48 + d)"

fun show_nat :: "nat \<Rightarrow> string" where
  "show_nat n = (if n < 10 then [digit_char n] else show_nat (n div 10) @ [digit_char (n mod 10)])"

declare show_nat.simps [simp del]

definition show_int :: "int \<Rightarrow> string" where
  "show_int i = (if i < 0 then CHR ''-'' # show_nat (nat (- i)) else show_nat (nat i))"

section \<open>Reading integers\<close>

text \<open>The value of a digit of a base up to 16.\<close>

definition digit_value :: "nat \<Rightarrow> char \<Rightarrow> nat option" where
  "digit_value base c =
     (let n = code c;
          v = (if 48 \<le> n \<and> n \<le> 57 then Some (n - 48)
               else if 97 \<le> n \<and> n \<le> 102 then Some (n - 87)
               else if 65 \<le> n \<and> n \<le> 70 then Some (n - 55) else None)
      in case v of Some d \<Rightarrow> if d < base then Some d else None | None \<Rightarrow> None)"

definition is_digit :: "nat \<Rightarrow> char \<Rightarrow> bool" where
  "is_digit base c \<longleftrightarrow> digit_value base c \<noteq> None"

definition digits_value :: "nat \<Rightarrow> string \<Rightarrow> nat" where
  "digits_value base ds = foldl (\<lambda>v c. v * base + the (digit_value base c)) 0 ds"

text \<open>Base 0: a \<^verbatim>\<open>0x\<close> before a hexadecimal digit means 16, another leading 0 means 8, else 10.\<close>

definition number_base :: "string \<Rightarrow> nat \<times> string" where
  "number_base s =
     (if s = [] \<or> hd s \<noteq> CHR ''0'' then (10, s)
      else if 3 \<le> length s \<and> (s ! 1 = CHR ''x'' \<or> s ! 1 = CHR ''X'') \<and> is_digit 16 (s ! 2)
      then (16, drop 2 s)
      else (8, s))"

definition number_sign :: "string \<Rightarrow> bool \<times> string" where
  "number_sign s =
     (if s \<noteq> [] \<and> hd s = CHR ''-'' then (True, tl s)
      else if s \<noteq> [] \<and> hd s = CHR ''+'' then (False, tl s)
      else (False, s))"

text \<open>The digits of a number and the rest after them.\<close>

definition number_digits :: "nat \<times> string \<Rightarrow> (nat \<times> string) option" where
  "number_digits bs =
     (case bs of (base, s) \<Rightarrow>
        let ds = takeWhile (is_digit base) s
        in if ds = [] then None else Some (digits_value base ds, dropWhile (is_digit base) s))"

text \<open>Sign, magnitude and the unread rest, or \<open>None\<close> when no conversion takes place.\<close>

definition strto :: "string \<Rightarrow> (bool \<times> nat \<times> string) option" where
  "strto s =
     (case number_sign (dropWhile isspace s) of (neg, s) \<Rightarrow>
        case number_digits (number_base s) of None \<Rightarrow> None | Some (m, r) \<Rightarrow> Some (neg, m, r))"

text \<open>
  \<^verbatim>\<open>strtoll\<close> and \<^verbatim>\<open>strtoull\<close>: the value, whether \<^verbatim>\<open>errno\<close> is set to \<^verbatim>\<open>ERANGE\<close>, and what \<^verbatim>\<open>end\<close>
  points to, \<open>None\<close> meaning the start of the text.
\<close>

definition strtoll :: "string \<Rightarrow> int \<times> bool \<times> string option" where
  "strtoll s =
     (case strto s of
        None \<Rightarrow> (0, False, None)
      | Some (neg, m, r) \<Rightarrow>
          let v = (if neg then - int m else int m)
          in if v < - (2 ^ 63) then (- (2 ^ 63), True, Some r)
             else if v > 2 ^ 63 - 1 then (2 ^ 63 - 1, True, Some r)
             else (v, False, Some r))"

definition strtoull :: "string \<Rightarrow> int \<times> bool \<times> string option" where
  "strtoull s =
     (case strto s of
        None \<Rightarrow> (0, False, None)
      | Some (neg, m, r) \<Rightarrow>
          if m > 2 ^ 64 - 1 then (2 ^ 64 - 1, True, Some r)
          else ((if neg then (- int m) mod 2 ^ 64 else int m), False, Some r))"

section \<open>Reading what was printed\<close>

lemma code_digit_char [simp]: "d < 10 \<Longrightarrow> code (digit_char d) = 48 + d"
  by (simp add: code_def digit_char_def)

lemma char_eq_code: "c = d \<longleftrightarrow> code c = code d"
  by (simp add: code_def)

lemma digit_value_digit_char [simp]: "d < 10 \<Longrightarrow> 10 \<le> base \<Longrightarrow> digit_value base (digit_char d) = Some d"
  by (simp add: digit_value_def)

lemma show_nat_small: "n < 10 \<Longrightarrow> show_nat n = [digit_char n]"
  by (subst show_nat.simps) simp

lemma show_nat_big: "\<not> n < 10 \<Longrightarrow> show_nat n = show_nat (n div 10) @ [digit_char (n mod 10)]"
  by (subst show_nat.simps) simp

lemma show_nat_induct [case_names small big]:
  fixes n :: nat
  assumes "\<And>n. n < 10 \<Longrightarrow> P n" "\<And>n. \<not> n < 10 \<Longrightarrow> P (n div 10) \<Longrightarrow> P n"
  shows "P n"
  using assms by (induction n rule: show_nat.induct) blast

lemma show_nat_digits: "c \<in> set (show_nat n) \<Longrightarrow> \<exists>d < 10. c = digit_char d"
proof (induction n rule: show_nat_induct)
  case (big n)
  have "n mod 10 < 10" by simp
  then have "\<exists>d < 10. digit_char (n mod 10) = digit_char d" by blast
  with big show ?case by (auto simp: show_nat_big)
qed (auto simp: show_nat_small)

lemma show_nat_neq_Nil [simp]: "show_nat n \<noteq> []"
  by (subst show_nat.simps) simp

lemma digits_value_snoc: "digits_value b (ds @ [c]) = digits_value b ds * b + the (digit_value b c)"
  by (simp add: digits_value_def)

lemma digits_value_show_nat: "digits_value 10 (show_nat n) = n"
  by (induction n rule: show_nat_induct)
    (simp_all add: show_nat_small show_nat_big digits_value_snoc, simp add: digits_value_def)

lemma hd_show_nat: "0 < n \<Longrightarrow> hd (show_nat n) \<noteq> CHR ''0''"
proof (induction n rule: show_nat_induct)
  case (small n)
  then show ?case by (simp add: show_nat_small char_eq_code) (simp add: code_def)
next
  case (big n)
  then show ?case by (simp add: show_nat_big)
qed

lemma code_CHR [simp]: "code (CHR ''0'') = 48" "code (CHR ''-'') = 45" "code (CHR ''+'') = 43"
  by (simp_all add: code_def)

lemma digit_char_not [simp]:
  assumes "d < 10"
  shows "\<not> isspace (digit_char d)" "digit_char d \<noteq> CHR ''-''" "digit_char d \<noteq> CHR ''+''"
    "isalnum (digit_char d)" "code (digit_char d) \<noteq> 0" "is_digit 10 (digit_char d)"
  using assms by (simp_all add: isspace_def isalnum_def isdigit_def char_eq_code is_digit_def)

lemma number_base_show_nat: "number_base (show_nat n) = (if n = 0 then 8 else 10, show_nat n)"
proof (cases "n = 0")
  case True
  have "digit_char 0 = CHR ''0''" by (simp add: char_eq_code)
  then show ?thesis using True by (simp add: show_nat_small number_base_def)
next
  case False
  then show ?thesis using hd_show_nat [of n] by (simp add: number_base_def)
qed

lemma takeWhile_all: "(\<And>x. x \<in> set xs \<Longrightarrow> P x) \<Longrightarrow> takeWhile P xs = xs \<and> dropWhile P xs = []"
  by (induction xs) auto

lemma number_sign_show_nat: "number_sign (dropWhile isspace (show_nat n)) = (False, show_nat n)"
proof -
  obtain d cs where "d < 10" "show_nat n = digit_char d # cs"
    using show_nat_digits [of _ n] by (cases "show_nat n") auto
  then show ?thesis by (simp add: number_sign_def)
qed

lemma number_digits_show_nat: "number_digits (number_base (show_nat n)) = Some (n, [])"
proof (cases "n = 0")
  case True
  then show ?thesis
    using number_base_show_nat [of n]
    by (simp add: number_digits_def show_nat_small is_digit_def digit_value_def digits_value_def)
next
  case False
  have "takeWhile (is_digit 10) (show_nat n) = show_nat n" "dropWhile (is_digit 10) (show_nat n) = []"
    using takeWhile_all [of "show_nat n" "is_digit 10"] by (auto dest: show_nat_digits)
  then show ?thesis
    using False number_base_show_nat [of n]
    by (simp add: number_digits_def Let_def digits_value_show_nat del: takeWhile_eq_all_conv dropWhile_eq_Nil_conv)
qed

lemma strto_show_nat: "strto (show_nat n) = Some (False, n, [])"
  by (simp add: strto_def number_sign_show_nat number_digits_show_nat)

lemma strto_minus: "strto (CHR ''-'' # show_nat n) = Some (True, n, [])"
proof -
  have "\<not> isspace (CHR ''-'')" by (simp add: isspace_def)
  then have "number_sign (dropWhile isspace (CHR ''-'' # show_nat n)) = (True, show_nat n)"
    by (simp add: number_sign_def)
  then show ?thesis by (simp add: strto_def number_digits_show_nat)
qed

lemma c_str_show_nat [simp]: "c_str (show_nat n) = show_nat n"
  using takeWhile_all [of "show_nat n" "\<lambda>c. code c \<noteq> 0"] by (fastforce simp: c_str_def dest: show_nat_digits)

end
