(* ===== verification/Std_Double.thy ===== *)
theory Std_Double
  imports Std_Float Std_Text
begin

text \<open>
  Arithmetic and text of \<^verbatim>\<open>double\<close> values as far as the host simulator uses them, under IEC 559
  with round to nearest, ties to even. A finite double is \<open>\<plusminus> m \<sqdot> 2\<^sup>x\<close> with natural \<open>m\<close>, so
  every operation is computed exactly on integers and then rounded once. \<^verbatim>\<open>strtod\<close> reads
  decimal and hexadecimal numbers, infinities and NaNs of the "C" locale.
\<close>

definition f8_sign :: "f8 \<Rightarrow> bool" where
  "f8_sign w \<longleftrightarrow> bit w 63"

text \<open>The magnitude without its sign: fields of exponent and fraction as one number.\<close>

definition f8_abs :: "f8 \<Rightarrow> nat" where
  "f8_abs w = unat w mod 2 ^ 63"

definition f8_inf :: nat where
  "f8_inf = 2047 * 2 ^ 52"

definition f8_nan :: "f8 \<Rightarrow> bool" where
  "f8_nan w \<longleftrightarrow> f8_abs w > f8_inf"

definition f8_finite :: "f8 \<Rightarrow> bool" where
  "f8_finite w \<longleftrightarrow> f8_abs w < f8_inf"

definition f8_make :: "bool \<Rightarrow> nat \<Rightarrow> f8" where
  "f8_make s a = word_of_nat (if s then 2 ^ 63 + a else a)"

definition quiet_nan :: f8 where
  "quiet_nan = f8_make False (f8_inf + 2 ^ 51)"

text \<open>Mantissa and exponent of a finite double.\<close>

definition f8_parts :: "f8 \<Rightarrow> nat \<times> int" where
  "f8_parts w =
     (let e = f8_abs w div 2 ^ 52; f = f8_abs w mod 2 ^ 52
      in if e = 0 then (f, - 1074) else (2 ^ 52 + f, int e - 1075))"

section \<open>Rounding\<close>

fun bit_length :: "nat \<Rightarrow> nat" where
  "bit_length n = (if n = 0 then 0 else Suc (bit_length (n div 2)))"

declare bit_length.simps [simp del]

text \<open>\<open>num / den\<close> as \<open>q \<sqdot> 2\<^sup>x\<close> and a remainder, with the quotient in 53 bits or at the least exponent.\<close>

definition scale_down :: "nat \<Rightarrow> nat \<Rightarrow> int \<Rightarrow> nat \<times> nat" where
  "scale_down num den x =
     (if x \<ge> 0 then (num, den * 2 ^ nat x) else (num * 2 ^ nat (- x), den))"

definition round_quotient :: "nat \<times> nat \<Rightarrow> nat" where
  "round_quotient nd =
     (case nd of (n, d) \<Rightarrow>
        let q = n div d; r = n mod d
        in if 2 * r > d \<or> 2 * r = d \<and> odd q then q + 1 else q)"

definition f8_exponent :: "nat \<Rightarrow> nat \<Rightarrow> int" where
  "f8_exponent num den =
     (let x = int (bit_length num) - int (bit_length den) - 53;
          y = (case scale_down num den x of (n, d) \<Rightarrow> if n div d \<ge> 2 ^ 53 then x + 1 else x)
      in max (- 1074) y)"

text \<open>The magnitude of \<open>num / den\<close>, and whether it is exact. Past the largest double comes infinity.\<close>

definition f8_of_ratio :: "nat \<Rightarrow> nat \<Rightarrow> nat \<times> bool" where
  "f8_of_ratio num den =
     (if num = 0 then (0, True)
      else let x = f8_exponent num den; nd = scale_down num den x;
               a = nat (x + 1074) * 2 ^ 52 + round_quotient nd
           in (min a f8_inf, fst nd mod snd nd = 0 \<and> a < f8_inf))"

definition f8_of_scaled :: "bool \<Rightarrow> nat \<Rightarrow> int \<Rightarrow> f8" where
  "f8_of_scaled s m x =
     f8_make s (fst (if x \<ge> 0 then f8_of_ratio (m * 2 ^ nat x) 1 else f8_of_ratio m (2 ^ nat (- x))))"

definition f8_of_int :: "int \<Rightarrow> f8" where
  "f8_of_int i = f8_of_scaled (i < 0) (nat \<bar>i\<bar>) 0"

section \<open>Operations\<close>

text \<open>Comparison: NaN compares false, both zeros are equal.\<close>

definition f8_key :: "f8 \<Rightarrow> int" where
  "f8_key w = (if f8_sign w then - int (f8_abs w) else int (f8_abs w))"

definition f8_less :: "f8 \<Rightarrow> f8 \<Rightarrow> bool" where
  "f8_less a b \<longleftrightarrow> \<not> f8_nan a \<and> \<not> f8_nan b \<and> f8_key a < f8_key b"

definition f8_fabs :: "f8 \<Rightarrow> f8" where
  "f8_fabs w = f8_make False (f8_abs w)"

definition f8_mul :: "f8 \<Rightarrow> f8 \<Rightarrow> f8" where
  "f8_mul a b =
     (let s = (f8_sign a \<noteq> f8_sign b)
      in if f8_nan a \<or> f8_nan b then quiet_nan
         else if f8_finite a \<and> f8_finite b
         then (case (f8_parts a, f8_parts b) of ((m, x), (n, y)) \<Rightarrow> f8_of_scaled s (m * n) (x + y))
         else if f8_abs a = 0 \<or> f8_abs b = 0 then quiet_nan
         else f8_make s f8_inf)"

definition f8_sub :: "f8 \<Rightarrow> f8 \<Rightarrow> f8" where
  "f8_sub a b =
     (if f8_nan a \<or> f8_nan b then quiet_nan
      else if \<not> f8_finite a \<and> \<not> f8_finite b
      then (if f8_sign a = f8_sign b then quiet_nan else a)
      else if \<not> f8_finite a then a
      else if \<not> f8_finite b then f8_make (\<not> f8_sign b) f8_inf
      else case (f8_parts a, f8_parts b) of
             ((m, x), (n, y)) \<Rightarrow>
               let z = min x y;
                   i = int m * 2 ^ nat (x - z) * (if f8_sign a then - 1 else 1);
                   j = int n * 2 ^ nat (y - z) * (if f8_sign b then - 1 else 1)
               in if i = j then f8_make (f8_abs a = 0 \<and> f8_sign a \<and> \<not> f8_sign b) 0
                  else f8_of_scaled (i < j) (nat \<bar>i - j\<bar>) z)"

text \<open>\<^verbatim>\<open>static_cast<double>\<close> of a float: always exact.\<close>

definition f4_to_f8 :: "u32 \<Rightarrow> f8" where
  "f4_to_f8 w =
     (let s = bit w 31; e = unat w div 2 ^ 23 mod 256; f = unat w mod 2 ^ 23
      in if e = 255
         then (if f = 0 then f8_make s f8_inf else f8_make s (f8_inf + (2 ^ 51 + f * 2 ^ 29 mod 2 ^ 51)))
         else if e = 0 then f8_of_scaled s f (- 149)
         else f8_of_scaled s (2 ^ 23 + f) (int e - 150))"

text \<open>\<^verbatim>\<open>static_cast<long long>\<close>: towards zero; \<open>None\<close> where the conversion is undefined.\<close>

definition f8_to_i64 :: "f8 \<Rightarrow> int option" where
  "f8_to_i64 w =
     (if \<not> f8_finite w then None
      else case f8_parts w of
             (m, x) \<Rightarrow>
               let a = (if x \<ge> 0 then m * 2 ^ nat x else m div 2 ^ nat (- x));
                   i = (if f8_sign w then - int a else int a)
               in if - (2 ^ 63) \<le> i \<and> i < 2 ^ 63 then Some i else None)"

section \<open>Reading\<close>

definition to_lower :: "char \<Rightarrow> char" where
  "to_lower c = (if 65 \<le> code c \<and> code c \<le> 90 then char_of (code c + 32) else c)"

text \<open>The rest after a word, letters of either case.\<close>

definition after_word :: "string \<Rightarrow> string \<Rightarrow> string option" where
  "after_word w s =
     (if map to_lower (take (length w) s) = w then Some (drop (length w) s) else None)"

text \<open>Digits with an optional point: the number without its point, the places after it, the rest.\<close>

definition fixed_number :: "nat \<Rightarrow> string \<Rightarrow> (nat \<times> nat \<times> string) option" where
  "fixed_number base s =
     (let d1 = takeWhile (is_digit base) s; r1 = dropWhile (is_digit base) s;
          (d2, r2) = (if r1 \<noteq> [] \<and> hd r1 = CHR ''.''
                      then (takeWhile (is_digit base) (tl r1), dropWhile (is_digit base) (tl r1))
                      else ([], r1))
      in if d1 = [] \<and> d2 = [] then None
         else Some (digits_value base (d1 @ d2), length d2, r2))"

text \<open>An exponent after its letter; without digits there is none.\<close>

definition exponent_part :: "char \<Rightarrow> string \<Rightarrow> int \<times> string" where
  "exponent_part letter s =
     (if s \<noteq> [] \<and> to_lower (hd s) = letter
      then (case number_sign (tl s) of
              (neg, r) \<Rightarrow>
                let ds = takeWhile (is_digit 10) r; v = int (digits_value 10 ds)
                in if ds = [] then (0, s) else (if neg then - v else v, dropWhile (is_digit 10) r))
      else (0, s))"

definition ratio_of :: "nat \<Rightarrow> nat \<Rightarrow> int \<Rightarrow> nat \<times> nat" where
  "ratio_of m base x = (if x \<ge> 0 then (m * base ^ nat x, 1) else (m, base ^ nat (- x)))"

definition decimal_number :: "string \<Rightarrow> ((nat \<times> nat) \<times> string) option" where
  "decimal_number s =
     (case fixed_number 10 s of
        None \<Rightarrow> None
      | Some (m, places, r) \<Rightarrow>
          (case exponent_part (CHR ''e'') r of (e, r') \<Rightarrow> Some (ratio_of m 10 (e - int places), r')))"

definition hex_number :: "string \<Rightarrow> ((nat \<times> nat) \<times> string) option" where
  "hex_number s =
     (case fixed_number 16 s of
        None \<Rightarrow> None
      | Some (m, places, r) \<Rightarrow>
          (case exponent_part (CHR ''p'') r of (e, r') \<Rightarrow> Some (ratio_of m 2 (e - 4 * int places), r')))"

definition after_nan :: "string \<Rightarrow> string" where
  "after_nan s =
     (let body = takeWhile (\<lambda>c. isalnum c \<or> c = CHR ''_'') (tl s); r = drop (length body) (tl s)
      in if s \<noteq> [] \<and> hd s = CHR ''('' \<and> r \<noteq> [] \<and> hd r = CHR '')'' then tl r else s)"

text \<open>
  \<^verbatim>\<open>strtod\<close>: the value, whether \<^verbatim>\<open>errno\<close> becomes \<^verbatim>\<open>ERANGE\<close>, and what \<^verbatim>\<open>end\<close> points to, \<open>None\<close> meaning
  the start. The range error is raised on overflow and on an inexact result below the normal
  range, as the GNU library does.
\<close>

definition finish_number :: "bool \<Rightarrow> (nat \<times> nat) \<times> string \<Rightarrow> f8 \<times> bool \<times> string option" where
  "finish_number neg nr =
     (case nr of
        ((num, den), r) \<Rightarrow>
          (case f8_of_ratio num den of
             (a, exact) \<Rightarrow>
               (f8_make neg a, a = f8_inf \<or> \<not> exact \<and> a < 2 ^ 52, Some r)))"

definition strtod :: "string \<Rightarrow> f8 \<times> bool \<times> string option" where
  "strtod text =
     (case number_sign (dropWhile isspace text) of
        (neg, s) \<Rightarrow>
          case after_word ''infinity'' s of
            Some r \<Rightarrow> (f8_make neg f8_inf, False, Some r)
          | None \<Rightarrow>
            case after_word ''inf'' s of
              Some r \<Rightarrow> (f8_make neg f8_inf, False, Some r)
            | None \<Rightarrow>
              case after_word ''nan'' s of
                Some r \<Rightarrow> (f8_make neg (f8_inf + 2 ^ 51), False, Some (after_nan r))
              | None \<Rightarrow>
                case (case after_word ''0x'' s of None \<Rightarrow> None | Some h \<Rightarrow> hex_number h) of
                  Some nr \<Rightarrow> finish_number neg nr
                | None \<Rightarrow>
                  case decimal_number s of
                    Some nr \<Rightarrow> finish_number neg nr
                  | None \<Rightarrow> (0, False, None))"

section \<open>Printing\<close>

text \<open>The exact value of a finite double as a fraction, without its sign.\<close>

definition f8_ratio :: "f8 \<Rightarrow> nat \<times> nat" where
  "f8_ratio w = (case f8_parts w of (m, x) \<Rightarrow> ratio_of m 2 x)"

definition show_special :: "f8 \<Rightarrow> string" where
  "show_special w = (if f8_nan w then ''nan'' else ''inf'')"

definition show_sign :: "f8 \<Rightarrow> string" where
  "show_sign w = (if f8_sign w then ''-'' else [])"

definition zeros :: "nat \<Rightarrow> string" where
  "zeros n = replicate n (CHR ''0'')"

text \<open>Zeros in front, up to a width.\<close>

definition pad :: "nat \<Rightarrow> string \<Rightarrow> string" where
  "pad w s = zeros (w - length s) @ s"

text \<open>\<^verbatim>\<open>%f\<close>, which is also \<^verbatim>\<open>std::to_string(double)\<close>: six places.\<close>

definition show_f :: "f8 \<Rightarrow> string" where
  "show_f w =
     show_sign w @
     (if f8_finite w
      then case f8_ratio w of
             (num, den) \<Rightarrow>
               let n = round_quotient (num * 10 ^ 6, den)
               in show_nat (n div 10 ^ 6) @ ''.'' @ pad 6 (show_nat (n mod 10 ^ 6))
      else show_special w)"

text \<open>How often a fraction below 1 has to be multiplied by 10 to reach it.\<close>

function leading_zeros :: "nat \<Rightarrow> nat \<Rightarrow> nat" where
  "leading_zeros num den =
     (if num = 0 \<or> den \<le> num then 0 else Suc (leading_zeros (10 * num) den))"
  by pat_completeness auto
termination by (relation "measure (\<lambda>(num, den). den - num)") auto

declare leading_zeros.simps [simp del]

definition decimal_exponent :: "nat \<Rightarrow> nat \<Rightarrow> int" where
  "decimal_exponent num den =
     (if den \<le> num then int (length (show_nat (num div den))) - 1
      else - int (leading_zeros num den))"

text \<open>Significant digits and the exponent of the first one, rounded to \<open>p\<close> digits.\<close>

definition significant :: "nat \<Rightarrow> nat \<Rightarrow> nat \<Rightarrow> nat \<times> int" where
  "significant p num den =
     (let x = decimal_exponent num den; k = int p - 1 - x;
          q = round_quotient (if k \<ge> 0 then (num * 10 ^ nat k, den) else (num, den * 10 ^ nat (- k)))
      in if q = 10 ^ p then (10 ^ (p - 1), x + 1) else (q, x))"

definition strip_zeros :: "string \<Rightarrow> string" where
  "strip_zeros s = rev (dropWhile (\<lambda>c. c = CHR ''0'') (rev s))"

definition with_point :: "string \<Rightarrow> string \<Rightarrow> string" where
  "with_point a b = (let b = strip_zeros b in if b = [] then a else a @ ''.'' @ b)"

text \<open>\<^verbatim>\<open>%.pg\<close>: fixed or exponential notation, without trailing zeros.\<close>

definition show_g :: "nat \<Rightarrow> f8 \<Rightarrow> string" where
  "show_g p w =
     show_sign w @
     (if \<not> f8_finite w then show_special w
      else if f8_abs w = 0 then ''0''
      else case f8_ratio w of
             (num, den) \<Rightarrow>
               (case significant p num den of
                  (q, x) \<Rightarrow>
                    let ds = show_nat q
                    in if x < - 4 \<or> int p \<le> x
                       then with_point [hd ds] (tl ds) @ ''e'' @ (if x < 0 then ''-'' else ''+'') @
                            pad 2 (show_nat (nat \<bar>x\<bar>))
                       else if x \<ge> 0 then with_point (take (nat x + 1) ds) (drop (nat x + 1) ds)
                       else with_point ''0'' (zeros (nat (- x - 1)) @ ds)))"

end
