(* ===== verification/Host_Pattern.thy ===== *)
theory Host_Pattern
  imports Secs2_Item Std_Double Gem_Messages
begin

text \<open>
  The text form of SECS-II items in host scripts, \<^verbatim>\<open>src/host_sim/pattern.cpp\<close>: the recursive
  parser shared by items and patterns, and the matcher. The parser's position is given by the
  text that is left; \<open>n\<close> is the length of the whole text, so messages name the same character
  as the code's. How a word is read as a double is the argument \<open>pf\<close>; the program uses
  \<open>parse_float\<close>, and the lemmas hold for every reader. The mutual recursion carries fuel; enough of it is shown never to run out.
\<close>

definition kErrPatternSyntax :: int where "kErrPatternSyntax = 600"

datatype pattern =
    kAnyItem | kAnyOfFormat format | kAnyList | kPList "pattern list" | kExact item

type_synonym 'a parsed = "('a \<times> string) result"

section \<open>Parser\<close>

definition fail :: "nat \<Rightarrow> string \<Rightarrow> string \<Rightarrow> 'a result" where
  "fail n rest what =
     Err kErrPatternSyntax
       (what @ '' (at character '' @ show_nat (n - length rest + 1) @ '')'')"

definition skip_space :: "string \<Rightarrow> string" where
  "skip_space s = dropWhile isspace s"

definition at :: "char \<Rightarrow> string \<Rightarrow> bool" where
  "at c s \<longleftrightarrow> s \<noteq> [] \<and> hd s = c"

definition format_from_name :: "string \<Rightarrow> format option" where
  "format_from_name s =
     (if s = ''L'' then Some kList
      else if s = ''B'' then Some kBinary
      else if s = ''BOOLEAN'' \<or> s = ''BOOL'' then Some kBoolean
      else if s = ''A'' then Some kAscii
      else if s = ''I1'' then Some kI1
      else if s = ''I2'' then Some kI2
      else if s = ''I4'' then Some kI4
      else if s = ''I8'' then Some kI8
      else if s = ''U1'' then Some kU1
      else if s = ''U2'' then Some kU2
      else if s = ''U4'' then Some kU4
      else if s = ''U8'' then Some kU8
      else if s = ''F4'' then Some kF4
      else if s = ''F8'' then Some kF8
      else None)"

text \<open>The loop of \<^verbatim>\<open>parse_string\<close>, after the opening quote.\<close>

fun string_loop :: "nat \<Rightarrow> string \<Rightarrow> string \<Rightarrow> string parsed" where
  "string_loop n v [] = fail n [] ''a string is not closed''"
| "string_loop n v (c # cs) =
     (if code c = 34 then Ok (v, cs)
      else if code c = 92
      then (case cs of
              [] \<Rightarrow> fail n [] ''a string ends in a backslash''
            | e # es \<Rightarrow>
                if code e \<noteq> 34 \<and> code e \<noteq> 92
                then fail n es (''only '' @ map char_of [92, 34 :: nat] @ '' and '' @ map char_of [92, 92 :: nat] @ '' are escapes'')
                else string_loop n (v @ [e]) es)
      else string_loop n (v @ [c]) cs)"

definition parse_string :: "nat \<Rightarrow> string \<Rightarrow> pattern parsed" where
  "parse_string n s =
     (case string_loop n [] (tl s) of
        Inl e \<Rightarrow> Inl e
      | Inr (v, rest) \<Rightarrow> Ok (kExact (ASCII v), rest))"

definition is_sep :: "char \<Rightarrow> bool" where
  "is_sep c \<longleftrightarrow> isspace c \<or> c = CHR '',''"

definition in_word :: "char \<Rightarrow> bool" where
  "in_word c \<longleftrightarrow> c \<noteq> CHR '']'' \<and> c \<noteq> CHR '','' \<and> \<not> isspace c"

function read_words :: "string \<Rightarrow> (string list \<times> string) option" where
  "read_words s =
     (case dropWhile is_sep s of
        [] \<Rightarrow> None
      | c # cs \<Rightarrow>
          if c = CHR '']'' then Some ([], cs)
          else map_option (\<lambda>(ws, rest). (takeWhile in_word (c # cs) # ws, rest))
                 (read_words (dropWhile in_word (c # cs))))"
  by pat_completeness auto

lemma dropWhile_sep: "dropWhile is_sep s = c # cs \<Longrightarrow> \<not> is_sep c"
  by (metis hd_dropWhile list.sel(1) list.distinct(1))

termination read_words
proof (relation "measure length", goal_cases)
  case (2 s c cs)
  then have "in_word c" using dropWhile_sep [of s c cs] by (auto simp: in_word_def is_sep_def)
  then have "length (dropWhile in_word (c # cs)) \<le> length cs"
    by (simp add: length_dropWhile_le)
  moreover have "Suc (length cs) \<le> length s"
    using length_dropWhile_le [of is_sep s] 2(1) by simp
  ultimately show ?case by simp
qed simp

declare read_words.simps [simp del]

definition parse_signed :: "string \<Rightarrow> 'a::len word option" where
  "parse_signed w =
     (case strtoll (c_str w) of (v, erange, rest) \<Rightarrow>
        if erange \<or> rest \<noteq> Some [] then None
        else if v < - (2 ^ (LENGTH('a) - 1)) \<or> v > 2 ^ (LENGTH('a) - 1) - 1 then None
        else Some (word_of_int v))"

definition parse_unsigned :: "string \<Rightarrow> 'a::len word option" where
  "parse_unsigned w =
     (if w \<noteq> [] \<and> hd w = CHR ''-'' then None
      else case strtoull (c_str w) of (v, erange, rest) \<Rightarrow>
        if erange \<or> rest \<noteq> Some [] then None
        else if v > 2 ^ LENGTH('a) - 1 then None
        else Some (word_of_int v))"

definition parse_bool :: "string \<Rightarrow> byte option" where
  "parse_bool w =
     (if w = ''true'' \<or> w = ''1'' then Some 1
      else if w = ''false'' \<or> w = ''0'' then Some 0 else None)"

definition parse_float :: "string \<Rightarrow> f8 option" where
  "parse_float w =
     (case strtod (c_str w) of (v, erange, rest) \<Rightarrow> if erange \<or> rest \<noteq> Some [] then None else Some v)"

text \<open>\<^verbatim>\<open>collect\<close>: all values, or the word that is none.\<close>

fun collect_words :: "(string \<Rightarrow> 'b option) \<Rightarrow> string list \<Rightarrow> string + 'b list" where
  "collect_words p [] = Inr []"
| "collect_words p (w # ws) =
     (case p w of
        None \<Rightarrow> Inl w
      | Some v \<Rightarrow> (case collect_words p ws of Inl b \<Rightarrow> Inl b | Inr vs \<Rightarrow> Inr (v # vs)))"

fun array_values :: "(string \<Rightarrow> f8 option) \<Rightarrow> format \<Rightarrow> string list \<Rightarrow> string + item" where
  "array_values pf kBinary ws = map_sum id BINARY (collect_words parse_unsigned ws)"
| "array_values pf kBoolean ws = map_sum id BOOLEAN (collect_words parse_bool ws)"
| "array_values pf kI1 ws = map_sum id I1 (collect_words parse_signed ws)"
| "array_values pf kI2 ws = map_sum id I2 (collect_words parse_signed ws)"
| "array_values pf kI4 ws = map_sum id I4 (collect_words parse_signed ws)"
| "array_values pf kI8 ws = map_sum id I8 (collect_words parse_signed ws)"
| "array_values pf kU1 ws = map_sum id U1 (collect_words parse_unsigned ws)"
| "array_values pf kU2 ws = map_sum id U2 (collect_words parse_unsigned ws)"
| "array_values pf kU4 ws = map_sum id U4 (collect_words parse_unsigned ws)"
| "array_values pf kU8 ws = map_sum id U8 (collect_words parse_unsigned ws)"
| "array_values pf kF4 ws = map_sum id (\<lambda>ds. F4 (map f8_to_f4 ds)) (collect_words pf ws)"
| "array_values pf kF8 ws = map_sum id F8 (collect_words pf ws)"
| "array_values pf _ ws = Inl []"

definition parse_array :: "(string \<Rightarrow> f8 option) \<Rightarrow> nat \<Rightarrow> format \<Rightarrow> string \<Rightarrow> pattern parsed" where
  "parse_array pf n fmt s =
     (case read_words s of
        None \<Rightarrow> fail n [] ''an array is not closed''
      | Some (ws, rest) \<Rightarrow>
          if fmt = kAscii
          then (if ws \<noteq> [] then fail n rest (''write a string as A'' @ [char_of (34 :: nat)] @ ''text'' @ [char_of (34 :: nat)])
                else Ok (kExact (ASCII []), rest))
          else if fmt = kList \<or> fmt = kJis8 then fail n rest ''unsupported item type''
          else case array_values pf fmt ws of
                 Inl bad \<Rightarrow> fail n rest ([CHR 0x27] @ bad @ [CHR 0x27] @ '' is not a valid value for this type'')
               | Inr i \<Rightarrow> Ok (kExact i, rest))"

text \<open>What \<^verbatim>\<open>parse_node\<close> finds at the start of an item, before it may call \<^verbatim>\<open>parse_list\<close>.\<close>

definition node_head ::
    "(string \<Rightarrow> f8 option) \<Rightarrow> nat \<Rightarrow> bool \<Rightarrow> string \<Rightarrow> (pattern option \<times> string) result" where
  "node_head pf n wild s =
     (let s = skip_space s
      in if s = [] then fail n s ''an item is missing''
         else if at (CHR ''*'') s
         then (if \<not> wild then fail n s ''wildcards are only allowed in patterns''
               else Ok (Some kAnyItem, tl s))
         else let name = takeWhile isalnum s; s = dropWhile isalnum s
              in if name = [] then fail n s ''an item type is expected''
                 else case format_from_name name of
                        None \<Rightarrow> fail n s (''unknown item type '' @ [CHR 0x27] @ name @ [CHR 0x27])
                      | Some fmt \<Rightarrow>
                          if fmt = kAscii \<and> at (CHR 0x22) s
                          then (case parse_string n s of Inl e \<Rightarrow> Inl e | Inr (p, r) \<Rightarrow> Ok (Some p, r))
                          else if \<not> at (CHR ''['') s
                          then fail n s ([CHR 0x27] @ ''['' @ [CHR 0x27] @ '' is expected after '' @ name)
                          else let s = skip_space (tl s)
                               in if at (CHR ''*'') s
                                  then (if \<not> wild then fail n s ''wildcards are only allowed in patterns''
                                        else let s = skip_space (tl s)
                                             in if \<not> at (CHR '']'') s
                                                then fail n s ([CHR 0x27] @ '']'' @ [CHR 0x27] @ '' is expected after '' @ [CHR 0x27] @ ''*'' @ [CHR 0x27])
                                                else Ok (Some (if fmt = kList then kAnyList else kAnyOfFormat fmt), tl s))
                                  else if fmt = kList then Ok (None, s)
                                  else (case parse_array pf n fmt s of
                                          Inl e \<Rightarrow> Inl e | Inr (p, r) \<Rightarrow> Ok (Some p, r)))"

fun parse_node :: "(string \<Rightarrow> f8 option) \<Rightarrow> nat \<Rightarrow> bool \<Rightarrow> nat \<Rightarrow> string \<Rightarrow> pattern parsed option"
  and parse_list :: "(string \<Rightarrow> f8 option) \<Rightarrow> nat \<Rightarrow> bool \<Rightarrow> nat \<Rightarrow> pattern list \<Rightarrow> string \<Rightarrow> pattern parsed option"
where
  "parse_node pf n wild 0 s = None"
| "parse_node pf n wild (Suc fuel) s =
     (case node_head pf n wild s of
        Inl e \<Rightarrow> Some (Inl e)
      | Inr (Some p, rest) \<Rightarrow> Some (Ok (p, rest))
      | Inr (None, rest) \<Rightarrow> parse_list pf n wild fuel [] rest)"
| "parse_list pf n wild 0 ps s = None"
| "parse_list pf n wild (Suc fuel) ps s =
     (let s = skip_space s
      in if s = [] then Some (fail n s ''a list is not closed'')
         else if at (CHR '']'') s then Some (Ok (kPList ps, tl s))
         else case parse_node pf n wild fuel s of
                None \<Rightarrow> None
              | Some (Inl e) \<Rightarrow> Some (Inl e)
              | Some (Inr (p, rest)) \<Rightarrow> parse_list pf n wild fuel (ps @ [p]) rest)"

definition fuel_for :: "string \<Rightarrow> nat" where
  "fuel_for s = 2 * length s + 2"

definition parse_all :: "(string \<Rightarrow> f8 option) \<Rightarrow> bool \<Rightarrow> string \<Rightarrow> pattern result option" where
  "parse_all pf wild text =
     (case parse_node pf (length text) wild (fuel_for text) text of
        None \<Rightarrow> None
      | Some (Inl e) \<Rightarrow> Some (Inl e)
      | Some (Inr (p, rest)) \<Rightarrow>
          let rest = skip_space rest
          in Some (if rest \<noteq> [] then fail (length text) rest ''unexpected text after the item'' else Ok p))"

fun to_item :: "pattern \<Rightarrow> item" where
  "to_item (kExact i) = i"
| "to_item (kPList ps) = LIST (map to_item ps)"
| "to_item _ = LIST []"

definition parse_item :: "(string \<Rightarrow> f8 option) \<Rightarrow> string \<Rightarrow> item result option" where
  "parse_item pf text = map_option (map_sum id to_item) (parse_all pf False text)"

definition parse_pattern :: "(string \<Rightarrow> f8 option) \<Rightarrow> string \<Rightarrow> pattern result option" where
  "parse_pattern pf text = parse_all pf True text"

section \<open>Matcher\<close>

fun matches :: "pattern \<Rightarrow> item \<Rightarrow> bool" where
  "matches kAnyItem i = True"
| "matches (kAnyOfFormat f) i = (item_format i = f)"
| "matches kAnyList i = is_list i"
| "matches (kExact e) i = item_equals i e"
| "matches (kPList ps) i = (is_list i \<and> item_count i = length ps \<and> list_all2 matches ps (as_list i))"

section \<open>The parser always returns\<close>

lemma skip_space_le: "length (skip_space s) \<le> length s"
  by (simp add: skip_space_def length_dropWhile_le)

lemma at_tl: "at c s \<Longrightarrow> length s = Suc (length (tl s))"
  by (cases s) (simp_all add: at_def)

lemma fail_not_Ok [simp]: "fail n r w \<noteq> Ok x"
  by (simp add: fail_def Err_def)

lemma string_loop_shorter: "string_loop n v s = Ok (v', r) \<Longrightarrow> length r < length s"
  by (induction n v s rule: string_loop.induct) (auto split: if_splits list.splits)

lemma read_words_cases:
  assumes "read_words s = Some (ws, r)"
  obtains "dropWhile is_sep s = CHR '']'' # r" "ws = []"
  | c cs ws' where "dropWhile is_sep s = c # cs" "c \<noteq> CHR '']''" "ws = takeWhile in_word (c # cs) # ws'"
      "read_words (dropWhile in_word (c # cs)) = Some (ws', r)"
  using assms read_words.simps [of s] by (auto split: list.splits if_splits)

lemma read_words_shorter: "read_words s = Some (ws, r) \<Longrightarrow> length r < length s"
proof (induction s arbitrary: ws r rule: read_words.induct)
  case (1 s)
  from 1(2) show ?case
  proof (cases rule: read_words_cases)
    case 1
    then show ?thesis using length_dropWhile_le [of is_sep s] by simp
  next
    case (2 c cs ws')
    from 1(1) [OF 2(1,2,4)] length_dropWhile_le [of is_sep s] length_dropWhile_le [of in_word "c # cs"] 2(1)
    show ?thesis by simp
  qed
qed

lemma parse_array_shorter: "parse_array pf n f s = Ok (p, r) \<Longrightarrow> length r < length s"
  by (auto simp: parse_array_def split: option.splits if_splits sum.splits dest: read_words_shorter)

lemma parse_string_shorter: "parse_string n s = Ok (p, r) \<Longrightarrow> at c s \<Longrightarrow> length r < length s"
  using at_tl [of c s] by (auto simp: parse_string_def split: sum.splits dest: string_loop_shorter)

lemma node_head_shorter:
  assumes "node_head pf n wild s = Ok (p, r)"
  shows "length r < length s \<and> (p = None \<longrightarrow> length r + 2 \<le> length s)"
proof -
  let ?s = "skip_space s" let ?t = "dropWhile isalnum ?s" let ?u = "skip_space (tl ?t)"
  have 1: "length ?s \<le> length s" by (rule skip_space_le)
  have 2: "takeWhile isalnum ?s \<noteq> [] \<Longrightarrow> length ?t < length ?s"
    by (cases ?s) (auto simp: less_Suc_eq_le length_dropWhile_le split: if_splits)
  have 3: "at c ?t \<Longrightarrow> length ?u < length ?t" for c
    using at_tl [of c ?t] skip_space_le [of "tl ?t"] by simp
  have 4: "at c x \<Longrightarrow> length (skip_space (tl x)) < length x" "at c x \<Longrightarrow> length (tl x) < length x" for c x
    using at_tl [of c x] skip_space_le [of "tl x"] by simp_all
  have 5: "?s \<noteq> [] \<Longrightarrow> length ?s - Suc 0 < length s" using 1 by (cases ?s) auto
  show ?thesis
    using assms 1 2 5 3 [of "CHR ''[''"] 4(1) [of "CHR ''*''" ?u] 4(2) [of "CHR ''*''" ?s]
      4(2) [of "CHR '']''" "skip_space (tl ?u)"]
    by (auto simp: node_head_def Let_def split: if_splits option.splits sum.splits prod.splits
        dest!: parse_array_shorter parse_string_shorter [where c = "CHR 0x22"])
qed

lemma parser_returns:
  "2 * length s + 1 \<le> fuel \<Longrightarrow>
     \<exists>x. parse_node pf n wild fuel s = Some x \<and> (\<forall>p r. x = Ok (p, r) \<longrightarrow> length r < length s)"
  "2 * length s + 2 \<le> fuel \<Longrightarrow>
     \<exists>x. parse_list pf n wild fuel ps s = Some x \<and> (\<forall>p r. x = Ok (p, r) \<longrightarrow> length r < length s)"
proof (induction pf n wild fuel s and pf n wild fuel ps s rule: parse_node_parse_list.induct)
  case (2 pf n wild fuel s)
  show ?case
  proof (cases "node_head pf n wild s")
    case (Inr x)
    obtain q r where x: "x = (q, r)" by fastforce
    note sh = node_head_shorter [of pf n wild s q r]
    show ?thesis
    proof (cases q)
      case None
      then show ?thesis using 2(1) [OF Inr x [symmetric] None] 2(2) sh Inr x by fastforce
    qed (use sh Inr x in simp)
  qed simp
next
  case (4 pf n wild fuel ps s)
  let ?s = "skip_space s"
  have le: "length ?s \<le> length s" by (rule skip_space_le)
  show ?case
  proof (cases "?s = [] \<or> at (CHR '']'') ?s")
    case True
    moreover have "?s \<noteq> [] \<Longrightarrow> length ?s - Suc 0 < length s" using le by (cases ?s) auto
    ultimately show ?thesis by (auto simp: Let_def)
  next
    case False
    then have ne: "?s \<noteq> []" "\<not> at (CHR '']'') ?s" by simp_all
    obtain x where x: "parse_node pf n wild fuel ?s = Some x" "\<And>p r. x = Ok (p, r) \<Longrightarrow> length r < length ?s"
      using 4(1) [OF refl ne] 4(3) le by auto
    show ?thesis
    proof (cases x)
      case (Inr y)
      obtain p r where y: "y = (p, r)" by fastforce
      have r: "length r < length ?s" using x(2) Inr y by simp
      obtain z where "parse_list pf n wild fuel (ps @ [p]) r = Some z"
        "\<And>p' r'. z = Ok (p', r') \<Longrightarrow> length r' < length r"
        using 4(2) [OF refl ne x(1) Inr y [symmetric]] 4(3) r le by auto
      then show ?thesis using x(1) Inr y ne r le by fastforce
    qed (use x ne in simp)
  qed
qed simp_all

lemma parse_all_returns: "\<exists>x. parse_all pf wild t = Some x"
proof -
  obtain x where "parse_node pf (length t) wild (fuel_for t) t = Some x"
    using parser_returns(1) [of t "fuel_for t" pf "length t" wild] unfolding fuel_for_def by auto
  then show ?thesis by (cases x) (auto simp: parse_all_def Let_def)
qed

section \<open>Items and their patterns\<close>

fun no_wildcard :: "pattern \<Rightarrow> bool" where
  "no_wildcard (kExact i) = True"
| "no_wildcard (kPList ps) = list_all no_wildcard ps"
| "no_wildcard _ = False"

lemma node_head_tame:
  assumes "node_head pf n False s = Ok (p, r)"
  shows "node_head pf n True s = Ok (p, r) \<and> (\<forall>q. p = Some q \<longrightarrow> no_wildcard q)"
  using assms
  by (auto simp: node_head_def Let_def parse_array_def parse_string_def
      split: if_splits option.splits sum.splits prod.splits)

lemma parser_tame:
  "wild = False \<Longrightarrow> parse_node pf n wild fuel s = Some (Ok (p, r)) \<Longrightarrow>
     parse_node pf n True fuel s = Some (Ok (p, r)) \<and> no_wildcard p"
  "wild = False \<Longrightarrow> list_all no_wildcard ps \<Longrightarrow> parse_list pf n wild fuel ps s = Some (Ok (p, r)) \<Longrightarrow>
     parse_list pf n True fuel ps s = Some (Ok (p, r)) \<and> no_wildcard p"
proof (induction pf n wild fuel s and pf n wild fuel ps s arbitrary: p r and p r rule: parse_node_parse_list.induct)
  case (2 pf n wild fuel s)
  then show ?case using node_head_tame [of pf n s] by (fastforce split: sum.splits option.splits prod.splits)
next
  case (4 pf n wild fuel ps s)
  show ?case
  proof (cases "skip_space s = [] \<or> at (CHR '']'') (skip_space s)")
    case True
    then show ?thesis using 4(3-) by (auto simp: Let_def)
  next
    case False
    then obtain q r1 where q: "parse_node pf n False fuel (skip_space s) = Some (Ok (q, r1))"
      and l: "parse_list pf n False fuel (ps @ [q]) r1 = Some (Ok (p, r))"
      using 4(3-) by (auto simp: Let_def split: option.splits sum.splits)
    then have "parse_node pf n True fuel (skip_space s) = Some (Ok (q, r1)) \<and> no_wildcard q"
      using 4(1) [of "skip_space s" q r1] False 4(3) by simp
    then show ?thesis using 4(2) [OF refl _ _ _ refl refl, of q r1 p r] False q l 4(3-) by (simp add: Let_def)
  qed
qed simp_all

lemma matches_no_wildcard: "no_wildcard p \<Longrightarrow> matches p j \<longleftrightarrow> item_equals j (to_item p)"
proof (induction p arbitrary: j)
  case (kPList ps)
  show ?case
  proof (cases j)
    case (LIST xs)
    have "list_all2 matches ps xs \<longleftrightarrow> list_all2 item_equals xs (map to_item ps)"
      using kPList by (auto simp: list_all2_conv_all_nth list_all_length)
    then show ?thesis using LIST by (auto simp: is_list_def dest: list_all2_lengthD)
  qed (simp_all add: is_list_def)
qed simp_all

text \<open>
  Text that is an item to send is also a pattern to expect, and the two agree. Parsing never
  runs out of fuel, whatever the text; and when \<^verbatim>\<open>parse_item\<close> accepts a text, \<^verbatim>\<open>parse_pattern\<close>
  accepts it too, with a pattern that matches exactly the items equal to that item.
\<close>

theorem item_text_as_pattern:
  "\<exists>x. parse_item pf t = Some x \<and>
     (\<forall>i. x = Ok i \<longrightarrow>
       (\<exists>p. parse_pattern pf t = Some (Ok p) \<and> (\<forall>j. matches p j \<longleftrightarrow> item_equals j i)))"
proof -
  obtain y where y: "parse_all pf False t = Some y" using parse_all_returns by blast
  have "\<exists>p. parse_pattern pf t = Some (Ok p) \<and> (\<forall>j. matches p j \<longleftrightarrow> item_equals j i)"
    if h: "map_sum id to_item y = Ok i" for i
  proof -
    obtain p where p: "y = Ok p" "i = to_item p" using h by (cases y) auto
    then obtain r where n: "parse_node pf (length t) False (fuel_for t) t = Some (Ok (p, r))"
      and r: "skip_space r = []"
      using y by (auto simp: parse_all_def Let_def split: option.splits sum.splits if_splits)
    note tame = parser_tame(1) [OF refl n]
    then have "parse_pattern pf t = Some (Ok p)" using r by (simp add: parse_pattern_def parse_all_def)
    moreover have "matches p j \<longleftrightarrow> item_equals j i" for j
      using tame matches_no_wildcard [of p j] p(2) by simp
    ultimately show ?thesis by blast
  qed
  then show ?thesis using y by (simp add: parse_item_def)
qed

section \<open>Every item has a text\<close>

definition quote_char :: char where "quote_char = CHR 0x22"
definition backslash :: char where "backslash = CHR 0x5C"

definition escape :: "string \<Rightarrow> string" where
  "escape s = concat (map (\<lambda>c. if c = quote_char \<or> c = backslash then [backslash, c] else [c]) s)"

definition array_text :: "string \<Rightarrow> string list \<Rightarrow> string" where
  "array_text name ws = name @ ''['' @ concat (map (\<lambda>w. w @ '' '') ws) @ '']''"

fun item_text :: "item \<Rightarrow> string" where
  "item_text (LIST xs) = ''L['' @ concat (map (\<lambda>x. item_text x @ '' '') xs) @ '']''"
| "item_text (ASCII s) = ''A'' @ [quote_char] @ escape s @ [quote_char]"
| "item_text (BINARY v) = array_text ''B'' (map (\<lambda>b. show_nat (unat b)) v)"
| "item_text (BOOLEAN v) = array_text ''BOOLEAN'' (map (\<lambda>b. if b \<noteq> 0 then ''true'' else ''false'') v)"
| "item_text (I1 v) = array_text ''I1'' (map (\<lambda>b. show_int (sint b)) v)"
| "item_text (I2 v) = array_text ''I2'' (map (\<lambda>b. show_int (sint b)) v)"
| "item_text (I4 v) = array_text ''I4'' (map (\<lambda>b. show_int (sint b)) v)"
| "item_text (I8 v) = array_text ''I8'' (map (\<lambda>b. show_int (sint b)) v)"
| "item_text (U1 v) = array_text ''U1'' (map (\<lambda>b. show_nat (unat b)) v)"
| "item_text (U2 v) = array_text ''U2'' (map (\<lambda>b. show_nat (unat b)) v)"
| "item_text (U4 v) = array_text ''U4'' (map (\<lambda>b. show_nat (unat b)) v)"
| "item_text (U8 v) = array_text ''U8'' (map (\<lambda>b. show_nat (unat b)) v)"
| "item_text (F4 v) = []"
| "item_text (F8 v) = []"

fun no_floats :: "item \<Rightarrow> bool" where
  "no_floats (LIST xs) = list_all no_floats xs"
| "no_floats (F4 v) = False"
| "no_floats (F8 v) = False"
| "no_floats _ = True"

lemma code_marks [simp]:
  "code quote_char = 34" "code backslash = 92" "code (CHR '' '') = 32" "code (CHR '']'') = 93"
  "code (CHR ''['') = 91" "code (CHR '','') = 44" "code (CHR ''*'') = 42"
  by (simp_all add: quote_char_def backslash_def code_def)

lemma code_eq_mark: "code c = 34 \<longleftrightarrow> c = quote_char" "code c = 92 \<longleftrightarrow> c = backslash"
  using char_eq_code [of c quote_char] char_eq_code [of c backslash] by simp_all

lemma string_loop_escape: "string_loop n v (escape s @ quote_char # r) = Ok (v @ s, r)"
  by (induction s arbitrary: v) (auto simp: escape_def code_eq_mark)

definition word_ok :: "string \<Rightarrow> bool" where
  "word_ok w \<longleftrightarrow> w \<noteq> [] \<and> list_all in_word w \<and> hd w \<noteq> CHR ''*''"

lemma sep_facts [simp]: "is_sep (CHR '' '')" "\<not> is_sep (CHR '']'')" "\<not> in_word (CHR '' '')"
  by (simp_all add: is_sep_def in_word_def isspace_def char_eq_code)

lemma in_word_not_sep: "in_word c \<Longrightarrow> \<not> is_sep c \<and> c \<noteq> CHR '']'' \<and> \<not> isspace c"
  by (auto simp: in_word_def is_sep_def)

lemma takeWhile_word: "list_all P w \<Longrightarrow> \<not> P c \<Longrightarrow> takeWhile P (w @ c # r) = w \<and> dropWhile P (w @ c # r) = c # r"
  by (induction w) auto

lemma read_words_sep: "is_sep c \<Longrightarrow> read_words (c # s) = read_words s"
  by (simp add: read_words.simps [of "c # s"] read_words.simps [of s])

lemma read_words_text:
  "list_all word_ok ws \<Longrightarrow>
     read_words (concat (map (\<lambda>w. w @ '' '') ws) @ CHR '']'' # r) = Some (ws, r)"
proof (induction ws)
  case Nil
  then show ?case by (simp add: read_words.simps)
next
  case (Cons w ws)
  then obtain c cs where w: "w = c # cs" and ok: "in_word c" "list_all in_word cs"
    by (cases w) (auto simp: word_ok_def)
  let ?rest = "concat (map (\<lambda>w. w @ '' '') ws) @ CHR '']'' # r"
  have "takeWhile in_word (w @ CHR '' '' # ?rest) = w \<and> dropWhile in_word (w @ CHR '' '' # ?rest) = CHR '' '' # ?rest"
    by (rule takeWhile_word) (use ok w in simp_all)
  then show ?case
    using Cons ok w in_word_not_sep [of c] by (subst read_words.simps) (simp add: read_words_sep)
qed

lemma parse_unsigned_text:
  fixes w :: "'a::len word"
  assumes "LENGTH('a) \<le> 64"
  shows "parse_unsigned (show_nat (unat w)) = Some w"
proof -
  have b: "unat w < 2 ^ LENGTH('a)" by (rule unsigned_less)
  also have "(2 :: nat) ^ LENGTH('a) \<le> 2 ^ 64" using assms by (intro power_increasing) simp_all
  finally have m: "unat w \<le> 2 ^ 64 - 1" by simp
  have "hd (show_nat (unat w)) \<noteq> CHR ''-''"
  proof -
    obtain d where "d < 10" "hd (show_nat (unat w)) = digit_char d"
      using show_nat_digits [of "hd (show_nat (unat w))" "unat w"] by auto
    then show ?thesis by simp
  qed
  moreover have "\<not> 2 ^ LENGTH('a) - 1 < uint w" using uint_bounded [of w] by linarith
  ultimately show ?thesis
    using m by (simp add: parse_unsigned_def strtoull_def strto_show_nat)
qed

lemma show_int_strto:
  "strto (show_int i) = Some (i < 0, nat \<bar>i\<bar>, []) \<and> c_str (show_int i) = show_int i"
proof -
  have "c_str (CHR ''-'' # show_nat n) = CHR ''-'' # c_str (show_nat n)" for n by (simp add: c_str_def)
  then show ?thesis by (simp add: show_int_def strto_minus strto_show_nat)
qed

lemma parse_signed_text:
  fixes w :: "'a::len word"
  assumes "LENGTH('a) \<le> 64"
  shows "parse_signed (show_int (sint w)) = Some w"
proof -
  have b: "- (2 ^ (LENGTH('a) - 1)) \<le> sint w" "sint w < 2 ^ (LENGTH('a) - 1)"
    using sint_range_size [of w] by (simp_all add: word_size)
  have "(2 :: int) ^ (LENGTH('a) - 1) \<le> 2 ^ 63" using assms by (intro power_increasing) simp_all
  then have "- (2 ^ 63) \<le> sint w" "sint w \<le> 2 ^ 63 - 1" using b by simp_all
  moreover have "(if sint w < 0 then - int (nat \<bar>sint w\<bar>) else int (nat \<bar>sint w\<bar>)) = sint w" by simp
  ultimately show ?thesis
    using b show_int_strto [of "sint w"] by (simp add: parse_signed_def strtoll_def)
qed

lemma digit_in_word: "d < 10 \<Longrightarrow> in_word (digit_char d) \<and> digit_char d \<noteq> CHR ''*''"
  by (simp add: in_word_def char_eq_code)

lemma word_ok_text [simp]:
  "word_ok (show_nat n)" "word_ok (show_int i)" "word_ok ''true''" "word_ok ''false''"
proof -
  have n: "word_ok (show_nat n)" for n
  proof -
    have "in_word c \<and> c \<noteq> CHR ''*''" if c: "c \<in> set (show_nat n)" for c
    proof -
      obtain d where "d < 10" "c = digit_char d" using show_nat_digits [OF c] by auto
      then show ?thesis using digit_in_word [of d] by simp
    qed
    then show ?thesis using hd_in_set [of "show_nat n"] by (simp add: word_ok_def list_all_iff)
  qed
  have "in_word (CHR ''-'')" by (simp add: in_word_def isspace_def)
  then show "word_ok (show_nat n)" "word_ok (show_int i)"
    using n by (auto simp: show_int_def word_ok_def)
  show "word_ok ''true''" "word_ok ''false''"
    by (simp_all add: word_ok_def in_word_def isspace_def code_def)
qed

lemma collect_words_map: "(\<And>v. v \<in> set vs \<Longrightarrow> p (f v) = Some (g v)) \<Longrightarrow> collect_words p (map f vs) = Inr (map g vs)"
  by (induction vs) auto

lemma skip_space_word: "\<not> isspace c \<Longrightarrow> skip_space (c # s) = c # s"
  by (simp add: skip_space_def)

lemma node_head_array:
  assumes "list_all isalnum name" "name \<noteq> []" "format_from_name name = Some fmt"
    and "fmt \<noteq> kList" "fmt \<noteq> kAscii" "fmt \<noteq> kJis8" "list_all word_ok ws" "array_values pf fmt ws = Inr i"
  shows "node_head pf n wild (array_text name ws @ r) = Ok (Some (kExact i), r)"
proof -
  let ?words = "concat (map (\<lambda>w. w @ '' '') ws) @ CHR '']'' # r"
  have t: "array_text name ws @ r = name @ CHR ''['' # ?words" by (simp add: array_text_def)
  have br: "\<not> isalnum (CHR ''['')" by (simp add: isalnum_def isdigit_def)
  note tw = takeWhile_word [OF assms(1) br, of ?words]
  obtain c cs where c: "name = c # cs" "isalnum c" using assms(1,2) by (cases name) auto
  have nc: "\<not> isspace c" "c \<noteq> CHR ''*''"
    using c(2) by (auto simp: isspace_def isalnum_def isdigit_def char_eq_code)
  have sk: "skip_space (array_text name ws @ r) = name @ CHR ''['' # ?words"
    unfolding t using c(1) nc(1) by (simp add: skip_space_word)
  have sw: "skip_space ?words = ?words \<and> \<not> at (CHR ''*'') ?words"
  proof (cases ws)
    case Nil
    then show ?thesis by (simp add: skip_space_word isspace_def at_def)
  next
    case (Cons w ws')
    then obtain d ds where "w = d # ds" "in_word d" "d \<noteq> CHR ''*''"
      using assms(7) by (cases w) (auto simp: word_ok_def)
    then show ?thesis using Cons in_word_not_sep [of d] by (simp add: skip_space_word at_def)
  qed
  have pa: "parse_array pf n fmt ?words = Ok (kExact i, r)"
    using assms(4-8) read_words_text [OF assms(7), of r] by (simp add: parse_array_def)
  show ?thesis
    unfolding node_head_def Let_def sk
    using tw assms(2,3,4,5) nc c pa sw by (simp add: at_def)
qed

lemma node_head_unsigned:
  fixes v :: "'a::len word list"
  assumes "list_all isalnum name" "name \<noteq> []" "format_from_name name = Some fmt"
    and "fmt \<noteq> kList" "fmt \<noteq> kAscii" "fmt \<noteq> kJis8" "LENGTH('a) \<le> 64"
    and "\<And>ws. array_values pf fmt ws = map_sum id K (collect_words parse_unsigned ws)"
  shows "node_head pf n wild (array_text name (map (\<lambda>b. show_nat (unat b)) v) @ r) = Ok (Some (kExact (K v)), r)"
proof -
  have "collect_words parse_unsigned (map (\<lambda>b. show_nat (unat b)) v) = Inr (map (\<lambda>b. b) v)"
    by (rule collect_words_map) (rule parse_unsigned_text [OF assms(7)])
  then have "array_values pf fmt (map (\<lambda>b. show_nat (unat b)) v) = Inr (K v)"
    unfolding assms(8) by simp
  with assms(1-6) show ?thesis by (intro node_head_array) (simp_all add: list_all_iff)
qed

lemma node_head_signed:
  fixes v :: "'a::len word list"
  assumes "list_all isalnum name" "name \<noteq> []" "format_from_name name = Some fmt"
    and "fmt \<noteq> kList" "fmt \<noteq> kAscii" "fmt \<noteq> kJis8" "LENGTH('a) \<le> 64"
    and "\<And>ws. array_values pf fmt ws = map_sum id K (collect_words parse_signed ws)"
  shows "node_head pf n wild (array_text name (map (\<lambda>b. show_int (sint b)) v) @ r) = Ok (Some (kExact (K v)), r)"
proof -
  have "collect_words parse_signed (map (\<lambda>b. show_int (sint b)) v) = Inr (map (\<lambda>b. b) v)"
    by (rule collect_words_map) (rule parse_signed_text [OF assms(7)])
  then have "array_values pf fmt (map (\<lambda>b. show_int (sint b)) v) = Inr (K v)"
    unfolding assms(8) by simp
  with assms(1-6) show ?thesis by (intro node_head_array) (simp_all add: list_all_iff)
qed

lemma node_head_item:
  assumes "no_floats i" "\<not> is_list i"
  shows "node_head pf n wild (item_text i @ r) = Ok (Some (kExact (wire_norm i)), r)"
proof -
  have al: "list_all isalnum name" if "name \<in> {''B'', ''BOOLEAN'', ''I1'', ''I2'', ''I4'', ''I8'', ''U1'', ''U2'', ''U4'', ''U8''}" for name
    using that by (auto simp: isalnum_def isdigit_def code_def)
  note un = node_head_unsigned [OF al] and sg = node_head_signed [OF al]
  show ?thesis
  proof (cases i)
    case (ASCII s)
    have "\<not> isspace (CHR ''A'')" "\<not> isalnum quote_char" "isalnum (CHR ''A'')"
      by (simp_all add: isspace_def isalnum_def isdigit_def code_def quote_char_def)
    moreover have "quote_char = CHR 0x22" by (simp add: quote_char_def)
    ultimately show ?thesis using ASCII string_loop_escape [of n "[]" s r]
      by (simp add: node_head_def Let_def skip_space_word at_def format_from_name_def parse_string_def)
  next
    case (BOOLEAN v)
    have "array_values pf kBoolean (map (\<lambda>b. if b \<noteq> 0 then ''true'' else ''false'') v) = Inr (wire_norm i)"
      using BOOLEAN by (simp add: collect_words_map [where g = "\<lambda>b. if b \<noteq> 0 then 1 else 0"] parse_bool_def)
    then have "node_head pf n wild (array_text ''BOOLEAN''
        (map (\<lambda>b. if b \<noteq> 0 then ''true'' else ''false'') v) @ r) = Ok (Some (kExact (wire_norm i)), r)"
      by (intro node_head_array [where fmt = kBoolean] al) (auto simp: format_from_name_def list_all_iff)
    then show ?thesis using BOOLEAN by simp
  next
    case (BINARY v)
    then show ?thesis by (simp add: un [where fmt = kBinary and K = BINARY] format_from_name_def)
  next
    case (U1 v)
    then show ?thesis by (simp add: un [where fmt = kU1 and K = U1] format_from_name_def)
  next
    case (U2 v)
    then show ?thesis by (simp add: un [where fmt = kU2 and K = U2] format_from_name_def)
  next
    case (U4 v)
    then show ?thesis by (simp add: un [where fmt = kU4 and K = U4] format_from_name_def)
  next
    case (U8 v)
    then show ?thesis by (simp add: un [where fmt = kU8 and K = U8] format_from_name_def)
  next
    case (I1 v)
    then show ?thesis by (simp add: sg [where fmt = kI1 and K = I1] format_from_name_def)
  next
    case (I2 v)
    then show ?thesis by (simp add: sg [where fmt = kI2 and K = I2] format_from_name_def)
  next
    case (I4 v)
    then show ?thesis by (simp add: sg [where fmt = kI4 and K = I4] format_from_name_def)
  next
    case (I8 v)
    then show ?thesis by (simp add: sg [where fmt = kI8 and K = I8] format_from_name_def)
  qed (use assms in \<open>simp_all add: is_list_def\<close>)
qed

lemma node_head_list:
  assumes "\<not> at (CHR ''*'') (skip_space s)"
  shows "node_head pf n wild (CHR ''L'' # CHR ''['' # s) = Ok (None, skip_space s)"
proof -
  have "\<not> isspace (CHR ''L'')" "isalnum (CHR ''L'')" "\<not> isalnum (CHR ''['')"
    by (simp_all add: isspace_def isalnum_def isdigit_def code_def)
  then show ?thesis using assms
    by (auto simp: node_head_def Let_def skip_space_word at_def format_from_name_def)
qed

lemma parse_flat_text:
  assumes "no_floats i" "\<not> is_list i" "1 \<le> fuel"
  shows "\<exists>p. parse_node pf n wild fuel (item_text i @ r) = Some (Ok (p, r)) \<and> to_item p = wire_norm i"
  using assms(3) node_head_item [OF assms(1,2)] by (cases fuel) simp_all

lemma item_text_head:
  assumes "no_floats i"
  shows "\<exists>c cs. item_text i = c # cs \<and> \<not> isspace c \<and> c \<noteq> CHR '']'' \<and> c \<noteq> CHR ''*''"
  using assms
  by (cases i) (auto simp: array_text_def isspace_def code_def)

lemma parse_item_text:
  "no_floats i \<Longrightarrow> 2 * length (item_text i @ r) + 1 \<le> fuel \<Longrightarrow>
     \<exists>p. parse_node pf n wild fuel (item_text i @ r) = Some (Ok (p, r)) \<and> to_item p = wire_norm i"
proof (induction i arbitrary: r fuel)
  case (LIST xs)
  have items: "\<exists>qs. parse_list pf n wild f ps (concat (map (\<lambda>x. item_text x @ '' '') ys) @ CHR '']'' # r) =
        Some (Ok (kPList (ps @ qs), r)) \<and> map to_item qs = map wire_norm ys"
    if "set ys \<subseteq> set xs" "2 * length (concat (map (\<lambda>x. item_text x @ '' '') ys) @ CHR '']'' # r) + 2 \<le> f"
    for ys ps f
    using that
  proof (induction ys arbitrary: ps f)
    case Nil
    then obtain f' where "f = Suc f'" by (cases f) auto
    then show ?case by (simp add: skip_space_word isspace_def at_def)
  next
    case (Cons y ys)
    let ?tail = "concat (map (\<lambda>x. item_text x @ '' '') ys) @ CHR '']'' # r"
    obtain f' where f: "f = Suc f'" using Cons.prems(2) by (cases f) auto
    have nf: "no_floats y" using Cons.prems(1) LIST.prems(1) by (auto simp: list_all_iff)
    obtain c cs where c: "item_text y = c # cs" "\<not> isspace c" "c \<noteq> CHR '']''"
      using item_text_head [OF nf] by blast
    obtain p where p: "parse_node pf n wild f' (item_text y @ CHR '' '' # ?tail) = Some (Ok (p, CHR '' '' # ?tail))"
      "to_item p = wire_norm y"
      using LIST.IH [of y "CHR '' '' # ?tail" f'] Cons.prems nf f by auto
    have sp: "parse_list pf n wild f' qs (CHR '' '' # ?tail) = parse_list pf n wild f' qs ?tail" for qs
      by (cases f') (simp_all add: skip_space_def isspace_def)
    obtain qs where "parse_list pf n wild f' (ps @ [p]) ?tail = Some (Ok (kPList ((ps @ [p]) @ qs), r))"
      "map to_item qs = map wire_norm ys"
      using Cons.IH [of f' "ps @ [p]"] Cons.prems f by auto
    then show ?case
      using p sp c by (intro exI [of _ "p # qs"]) (simp add: f skip_space_word at_def)
  qed
  let ?rest = "concat (map (\<lambda>x. item_text x @ '' '') xs) @ CHR '']'' # r"
  have sk: "skip_space ?rest = ?rest \<and> \<not> at (CHR ''*'') ?rest"
  proof (cases xs)
    case Nil
    then show ?thesis by (simp add: skip_space_word isspace_def at_def)
  next
    case (Cons y ys)
    then show ?thesis using item_text_head [of y] LIST.prems(1) by (auto simp: skip_space_word at_def)
  qed
  obtain f where f: "fuel = Suc f" using LIST.prems(2) by (cases fuel) auto
  obtain qs where "parse_list pf n wild f [] ?rest = Some (Ok (kPList qs, r))" "map to_item qs = map wire_norm xs"
    using items [of xs f "[]"] LIST.prems(2) f by auto
  then show ?case using sk node_head_list [of ?rest pf n wild] by (simp add: f)
qed (rule parse_flat_text; simp add: is_list_def)+

lemma item_text_accepted:
  assumes "no_floats i"
  shows "parse_item pf (item_text i) = Some (Ok (wire_norm i))"
proof -
  obtain p where "parse_node pf (length (item_text i)) False (fuel_for (item_text i)) (item_text i @ []) = Some (Ok (p, []))"
    "to_item p = wire_norm i"
    using parse_item_text [OF assms, of "[]" "fuel_for (item_text i)" pf "length (item_text i)" False]
    unfolding fuel_for_def by auto
  then show ?thesis by (simp add: parse_item_def parse_all_def skip_space_def)
qed

text \<open>
  Every item has a text. For each item without floating-point arrays, of any nesting and
  with any bytes in its strings, the text \<open>item_text\<close> writes in the script notation is read
  back by \<^verbatim>\<open>parse_item\<close> as that item, up to the normalisation of BOOLEAN elements to 0 and 1.
\<close>

theorem item_text_roundtrip:
  assumes "no_floats i"
  shows "parse_item pf (item_text i) = Some (Ok (wire_norm i))"
  by (rule item_text_accepted [OF assms])

definition sample_item :: item where
  "sample_item = LIST [ASCII ''START'', LIST [ASCII [], U4 [2005, 0], I2 [- 3]], BOOLEAN [1, 0]]"

lemma sample_item_plain: "no_floats sample_item \<and> wire_norm sample_item = sample_item"
  by (simp add: sample_item_def)

theorem item_text_roundtrip_witness: "parse_item (\<lambda>w. None) (item_text sample_item) = Some (Ok sample_item)"
  using item_text_roundtrip [of sample_item "\<lambda>w. None"] sample_item_plain by simp

theorem item_text_as_pattern_witness:
  "\<exists>p. parse_pattern (\<lambda>w. None) (item_text sample_item) = Some (Ok p) \<and> matches p sample_item"
proof -
  have "parse_item (\<lambda>w. None) (item_text sample_item) = Some (Ok sample_item)"
    using item_text_accepted [of sample_item] sample_item_plain by simp
  then obtain p where "parse_pattern (\<lambda>w. None) (item_text sample_item) = Some (Ok p)"
    "matches p sample_item \<longleftrightarrow> item_equals sample_item sample_item"
    using item_text_as_pattern [of "\<lambda>w. None" "item_text sample_item"] by auto
  moreover have "item_equals sample_item sample_item" by (simp add: sample_item_def)
  ultimately show ?thesis by blast
qed

end
