(* ===== verification/Host_Script.thy ===== *)
theory Host_Script
  imports Host_Pattern
begin

text \<open>
  The script language of the host simulator, \<^verbatim>\<open>src/host_sim/script.cpp\<close>: comments, variables,
  options and the commands, one per line. Parsing returns commands or the error of the first bad
  line; \<open>None\<close> stands for the one undefined conversion the code can reach, a duration that is
  not a number.
\<close>

definition kErrScriptSyntax :: int where "kErrScriptSyntax = 601"

datatype command_kind =
    CmdConnect | CmdSelect | CmdDeselect | CmdLinktest | CmdSeparate | CmdSend | CmdExpect
  | CmdExpectNo | CmdWaitEvent | CmdWaitAlarm | CmdExpectClosed | CmdExpectStatus | CmdAssert
  | CmdAutoAck | CmdSleep | CmdRaw | CmdDisconnect

datatype assert_op = kWithin | kEqual | kNotEqual

record script_command =
  sc_kind :: command_kind
  sc_line :: nat
  sc_text :: string
  sc_host :: string
  sc_port :: "16 word"
  sc_status :: "int option"
  sc_stream :: int
  sc_function :: int
  sc_w_bit :: "bool option"
  sc_device :: "int option"
  sc_body :: "item option"
  sc_pattern :: "pattern option"
  sc_timeout :: int
  sc_id :: u32
  sc_filters :: "(string \<times> string) list"
  sc_alarm_set :: bool
  sc_field :: string
  sc_op :: assert_op
  sc_number :: f8
  sc_tolerance :: f8
  sc_value :: string
  sc_value_is_number :: bool
  sc_flag :: bool
  sc_raw :: "byte list"

definition new_command :: "nat \<Rightarrow> string \<Rightarrow> script_command" where
  "new_command line text =
     \<lparr>sc_kind = CmdDisconnect, sc_line = line, sc_text = text, sc_host = [], sc_port = 0,
      sc_status = None, sc_stream = 0, sc_function = 0, sc_w_bit = None, sc_device = None,
      sc_body = None, sc_pattern = None, sc_timeout = 5000, sc_id = 0, sc_filters = [],
      sc_alarm_set = True, sc_field = [], sc_op = kEqual, sc_number = 0, sc_tolerance = 0,
      sc_value = [], sc_value_is_number = False, sc_flag = True, sc_raw = []\<rparr>"

text \<open>A result, or undefined behaviour.\<close>

type_synonym 'a outcome = "'a result option"

definition and_then :: "'a outcome \<Rightarrow> ('a \<Rightarrow> 'b outcome) \<Rightarrow> 'b outcome" where
  "and_then m f =
     (case m of None \<Rightarrow> None | Some (Inl e) \<Rightarrow> Some (Inl e) | Some (Inr x) \<Rightarrow> f x)"

section \<open>Words and lines\<close>

definition syntax_error :: "nat \<Rightarrow> string \<Rightarrow> 'a result" where
  "syntax_error line what = Err kErrScriptSyntax (''line '' @ show_nat line @ '': '' @ what)"

definition bad_line :: "nat \<Rightarrow> string \<Rightarrow> 'a outcome" where
  "bad_line line what = Some (syntax_error line what)"

text \<open>An error of a nested parser, reported with the line.\<close>

definition on_line :: "nat \<Rightarrow> 'a outcome \<Rightarrow> 'a outcome" where
  "on_line line m =
     (case m of Some (Inl e) \<Rightarrow> bad_line line (message e) | _ \<Rightarrow> m)"

definition trim :: "string \<Rightarrow> string" where
  "trim s = rev (dropWhile isspace (rev (dropWhile isspace s)))"

fun strip_loop :: "bool \<Rightarrow> string \<Rightarrow> string" where
  "strip_loop in_string [] = []"
| "strip_loop in_string (c # cs) =
     (if code c = 92 \<and> in_string
      then (case cs of [] \<Rightarrow> [c] | d # ds \<Rightarrow> c # d # strip_loop in_string ds)
      else if code c = 34 then c # strip_loop (\<not> in_string) cs
      else if c = CHR ''#'' \<and> \<not> in_string then []
      else c # strip_loop in_string cs)"

definition strip_comment :: "string \<Rightarrow> string" where
  "strip_comment line = strip_loop False line"

definition in_name :: "char \<Rightarrow> bool" where
  "in_name c \<longleftrightarrow> isalnum c \<or> c = CHR ''_''"

function substitute :: "(string \<rightharpoonup> string) \<Rightarrow> nat \<Rightarrow> string \<Rightarrow> string result" where
  "substitute vars line [] = Ok []"
| "substitute vars line (c # cs) =
     (if c \<noteq> CHR ''$'' then map_sum id (\<lambda>out. c # out) (substitute vars line cs)
      else let name = takeWhile in_name cs
           in case (if name = [] then None else vars name) of
                None \<Rightarrow> syntax_error line (''unknown variable $'' @ name)
              | Some v \<Rightarrow> map_sum id (\<lambda>out. v @ out) (substitute vars line (dropWhile in_name cs)))"
  by pat_completeness auto
termination
  by (relation "measure (\<lambda>(vars, line, s). length s)") (auto simp: length_dropWhile_le le_imp_less_Suc)

definition split_word :: "string \<Rightarrow> string \<times> string" where
  "split_word s =
     (takeWhile (\<lambda>c. \<not> isspace c) s, trim (dropWhile (\<lambda>c. \<not> isspace c) s))"

text \<open>What \<^verbatim>\<open>*end\<close> is after a conversion: the end of the text is a NUL.\<close>

definition at_end :: "string \<Rightarrow> string option \<Rightarrow> bool" where
  "at_end s rest \<longleftrightarrow> (case rest of Some r \<Rightarrow> r = [] | None \<Rightarrow> c_str s = [])"

definition parse_uint :: "string \<Rightarrow> u32 option" where
  "parse_uint s =
     (if s = [] \<or> hd s = CHR ''-'' then None
      else case strtoull (c_str s) of
             (v, erange, rest) \<Rightarrow>
               if \<not> at_end s rest \<or> v > 0xFFFFFFFF then None else Some (word_of_int v))"

text \<open>The number goes to \<open>out\<close> even when text is left after it.\<close>

definition parse_double :: "string \<Rightarrow> f8 \<Rightarrow> bool \<times> f8" where
  "parse_double s out =
     (if s = [] then (False, out)
      else case strtod (c_str s) of (v, erange, rest) \<Rightarrow> (at_end s rest, v))"

definition parse_sf :: "string \<Rightarrow> (int \<times> int) option" where
  "parse_sf word =
     (if length word < 4 \<or> hd word \<noteq> CHR ''S'' \<and> hd word \<noteq> CHR ''s'' then None
      else let is_f = (\<lambda>c. c = CHR ''F'' \<or> c = CHR ''f'');
               s = takeWhile (\<lambda>c. \<not> is_f c) (tl word); r = dropWhile (\<lambda>c. \<not> is_f c) (tl word)
           in if r = [] \<or> s = [] then None
              else case (parse_uint s, parse_uint (tl r)) of
                     (Some st, Some fn) \<Rightarrow>
                       if st > 127 \<or> fn > 255 then None else Some (uint st, uint fn)
                   | _ \<Rightarrow> None)"

definition f8_1000 :: f8 where "f8_1000 = f8_of_int 1000"

definition parse_duration :: "string \<Rightarrow> int outcome" where
  "parse_duration text =
     (let n = length text;
          ms = (n > 2 \<and> drop (n - 2) text = ''ms'');
          s = (if ms then take (n - 2) text
               else if text \<noteq> [] \<and> last text = CHR ''s'' then butlast text else text)
      in case parse_double s 0 of
           (ok, v) \<Rightarrow>
             if \<not> ok \<or> f8_less v 0 \<or> f8_less (f8_of_int 3600000) v
             then Some (Err kErrScriptSyntax (''bad duration '' @ [CHR 0x27] @ text @ [CHR 0x27]))
             else map_option Ok (f8_to_i64 (if ms then v else f8_mul v f8_1000)))"

section \<open>Options\<close>

record options =
  opt_timeout :: "int option"
  opt_device :: "int option"
  opt_status :: "int option"
  opt_w_bit :: "bool option"

definition no_options :: options where
  "no_options = \<lparr>opt_timeout = None, opt_device = None, opt_status = None, opt_w_bit = None\<rparr>"

definition starts_with :: "string \<Rightarrow> string \<Rightarrow> bool" where
  "starts_with p s \<longleftrightarrow> take (length p) s = p"

lemma trim_le: "length (trim s) \<le> length s"
  unfolding trim_def by (metis length_dropWhile_le length_rev order_trans)

lemma split_word_less: "fst (split_word s) \<noteq> [] \<Longrightarrow> length (snd (split_word s)) < length s"
proof -
  assume "fst (split_word s) \<noteq> []"
  then obtain c cs where s: "s = c # cs" "\<not> isspace c" by (cases s) (auto simp: split_word_def split: if_splits)
  then have "length (snd (split_word s)) \<le> length (dropWhile (\<lambda>c. \<not> isspace c) cs)"
    using trim_le by (simp add: split_word_def)
  also have "\<dots> \<le> length cs" by (rule length_dropWhile_le)
  finally show ?thesis using s by simp
qed

function take_options :: "nat \<Rightarrow> options \<Rightarrow> string \<Rightarrow> (string \<times> options) outcome" where
  "take_options line opts rest =
     (let word = fst (split_word rest); tail = snd (split_word rest)
      in if word = [] then Some (Ok (rest, opts))
         else if word = ''nowait'' then take_options line (opts\<lparr>opt_w_bit := Some False\<rparr>) tail
         else if word = ''W'' then take_options line (opts\<lparr>opt_w_bit := Some True\<rparr>) tail
         else if starts_with ''timeout='' word
         then (case parse_duration (drop 8 word) of
                 None \<Rightarrow> None
               | Some (Inl e) \<Rightarrow> bad_line line (message e)
               | Some (Inr d) \<Rightarrow> take_options line (opts\<lparr>opt_timeout := Some d\<rparr>) tail)
         else if starts_with ''device='' word
         then (case parse_uint (drop 7 word) of
                 Some v \<Rightarrow>
                   if v > 65535 then bad_line line ''bad device id''
                   else take_options line (opts\<lparr>opt_device := Some (uint v)\<rparr>) tail
               | None \<Rightarrow> bad_line line ''bad device id'')
         else if starts_with ''status='' word
         then (case parse_uint (drop 7 word) of
                 Some v \<Rightarrow>
                   if v > 255 then bad_line line ''bad status''
                   else take_options line (opts\<lparr>opt_status := Some (uint v)\<rparr>) tail
               | None \<Rightarrow> bad_line line ''bad status'')
         else Some (Ok (rest, opts)))"
  by pat_completeness auto
termination
  by (relation "measure (\<lambda>(line, opts, s). length s)") (auto intro: split_word_less)

declare take_options.simps [simp del]

section \<open>Commands\<close>

text \<open>The text before and after the last occurrence of a character (\<^verbatim>\<open>rfind\<close>).\<close>

definition split_last :: "char \<Rightarrow> string \<Rightarrow> (string \<times> string) option" where
  "split_last c s =
     (let after = takeWhile (\<lambda>d. d \<noteq> c) (rev s)
      in if length after = length s then None
         else Some (take (length s - length after - 1) s, rev after))"

definition parse_connect :: "nat \<Rightarrow> string \<Rightarrow> script_command \<Rightarrow> script_command outcome" where
  "parse_connect line rest c =
     (case split_last (CHR '':'') rest of
        None \<Rightarrow> bad_line line ''connect needs HOST:PORT''
      | Some (host, p) \<Rightarrow>
          (case parse_uint p of
             None \<Rightarrow> bad_line line ''connect needs HOST:PORT''
           | Some port \<Rightarrow>
               if port > 65535 then bad_line line ''connect needs HOST:PORT''
               else Some (Ok (c\<lparr>sc_kind := CmdConnect, sc_host := host, sc_port := ucast port\<rparr>))))"

definition parse_select :: "nat \<Rightarrow> string \<Rightarrow> string \<Rightarrow> script_command \<Rightarrow> script_command outcome" where
  "parse_select line verb rest c =
     and_then (take_options line no_options rest) (\<lambda>(left, opts).
       if trim left \<noteq> [] then bad_line line (''unexpected text after '' @ verb)
       else Some (Ok (c\<lparr>sc_kind := (if verb = ''select'' then CmdSelect else CmdDeselect),
                        sc_status := opt_status opts\<rparr>)))"

definition set_timeout :: "options \<Rightarrow> script_command \<Rightarrow> script_command" where
  "set_timeout opts c = (case opt_timeout opts of None \<Rightarrow> c | Some t \<Rightarrow> c\<lparr>sc_timeout := t\<rparr>)"

definition parse_send_expect :: "nat \<Rightarrow> string \<Rightarrow> string \<Rightarrow> script_command \<Rightarrow> script_command outcome" where
  "parse_send_expect line verb rest c =
     (case split_word rest of (sf, after) \<Rightarrow>
        case parse_sf sf of
          None \<Rightarrow> bad_line line (verb @ '' needs a message such as S1F13'')
        | Some (st, fn) \<Rightarrow>
            and_then (take_options line no_options after) (\<lambda>(left, opts).
              let item_text = trim left;
                  c = c\<lparr>sc_kind := (if verb = ''send'' then CmdSend
                                    else if verb = ''expect'' then CmdExpect else CmdExpectNo),
                        sc_stream := st, sc_function := fn,
                        sc_w_bit := opt_w_bit opts, sc_device := opt_device opts\<rparr>;
                  c = set_timeout opts c;
                  c = (if verb = ''expect-no'' \<and> opt_timeout opts = None then c\<lparr>sc_timeout := 1000\<rparr> else c)
              in if item_text = [] then Some (Ok c)
                 else if sc_kind c = CmdSend
                 then and_then (on_line line (parse_item parse_float item_text))
                        (\<lambda>i. Some (Ok (c\<lparr>sc_body := Some i\<rparr>)))
                 else and_then (on_line line (parse_pattern parse_float item_text))
                        (\<lambda>p. Some (Ok (c\<lparr>sc_pattern := Some p\<rparr>)))))"

text \<open>Words between white space, as \<^verbatim>\<open>operator>>\<close> reads them.\<close>

function stream_words :: "string \<Rightarrow> string list" where
  "stream_words s =
     (let t = dropWhile isspace s
      in if t = [] then []
         else takeWhile (\<lambda>c. \<not> isspace c) t # stream_words (dropWhile (\<lambda>c. \<not> isspace c) t))"
  by pat_completeness auto
termination
proof (relation "measure length", goal_cases)
  case (2 s t)
  from 2(2) obtain c cs where "t = c # cs" by (cases t) simp_all
  with 2(1) have t: "dropWhile isspace s = c # cs" "t = c # cs" by simp_all
  then have "\<not> isspace c" using hd_dropWhile [of isspace s] by simp
  then have "length (dropWhile (\<lambda>c. \<not> isspace c) t) \<le> length cs"
    using t length_dropWhile_le by auto
  moreover have "length (c # cs) \<le> length s" using t length_dropWhile_le by metis
  ultimately show ?case by simp
qed simp

declare stream_words.simps [simp del]

definition unquote :: "string \<Rightarrow> string" where
  "unquote v =
     (if length v \<ge> 2 \<and> code (hd v) = 34 \<and> code (last v) = 34 then butlast (tl v) else v)"

definition parse_filter :: "string \<Rightarrow> (string \<times> string) option" where
  "parse_filter word =
     (let name = takeWhile (\<lambda>c. c \<noteq> CHR ''='') word; r = dropWhile (\<lambda>c. c \<noteq> CHR ''='') word
      in if r = [] \<or> name = [] \<or> tl r = [] then None else Some (name, unquote (tl r)))"

definition parse_wait_event :: "nat \<Rightarrow> string \<Rightarrow> script_command \<Rightarrow> script_command outcome" where
  "parse_wait_event line rest c =
     (case split_word rest of (n, after) \<Rightarrow>
        case parse_uint n of
          None \<Rightarrow> bad_line line ''wait-event needs a CEID''
        | Some ce \<Rightarrow>
            and_then (take_options line no_options after) (\<lambda>(left, opts).
              let filters = map parse_filter (stream_words left)
              in if None \<in> set filters
                 then bad_line line ''wait-event filters look like FIELD=VALUE''
                 else Some (Ok (set_timeout opts
                        (c\<lparr>sc_kind := CmdWaitEvent, sc_id := ce, sc_filters := map the filters\<rparr>)))))"

text \<open>Options that must end the line; any trouble with them is one error.\<close>

definition only_options :: "nat \<Rightarrow> string \<Rightarrow> string \<Rightarrow> options outcome" where
  "only_options line what rest =
     (case take_options line no_options rest of
        None \<Rightarrow> None
      | Some (Inl e) \<Rightarrow> bad_line line what
      | Some (Inr (left, opts)) \<Rightarrow> if trim left \<noteq> [] then bad_line line what else Some (Ok opts))"

definition parse_wait_alarm :: "nat \<Rightarrow> string \<Rightarrow> script_command \<Rightarrow> script_command outcome" where
  "parse_wait_alarm line rest c =
     (case split_word rest of (n, after) \<Rightarrow>
        case split_word after of (st, after2) \<Rightarrow>
          case parse_uint n of
            None \<Rightarrow> bad_line line ''wait-alarm needs ALID and set|clear''
          | Some al \<Rightarrow>
              if st \<noteq> ''set'' \<and> st \<noteq> ''clear'' then bad_line line ''wait-alarm needs ALID and set|clear''
              else and_then (only_options line ''bad wait-alarm options'' after2) (\<lambda>opts.
                     Some (Ok (set_timeout opts
                       (c\<lparr>sc_kind := CmdWaitAlarm, sc_id := al, sc_alarm_set := (st = ''set'')\<rparr>)))))"

definition parse_expect_closed :: "nat \<Rightarrow> string \<Rightarrow> script_command \<Rightarrow> script_command outcome" where
  "parse_expect_closed line rest c =
     and_then (only_options line ''bad expect-closed options'' rest) (\<lambda>opts.
       Some (Ok (set_timeout opts (c\<lparr>sc_kind := CmdExpectClosed\<rparr>))))"

definition parse_expect_status :: "nat \<Rightarrow> string \<Rightarrow> script_command \<Rightarrow> script_command outcome" where
  "parse_expect_status line rest c =
     (case split_word rest of (n, after) \<Rightarrow>
        case parse_uint n of
          None \<Rightarrow> bad_line line ''expect-status needs an SVID''
        | Some sv \<Rightarrow>
            and_then (take_options line no_options after) (\<lambda>(left, opts).
              and_then (on_line line (parse_pattern parse_float (trim left))) (\<lambda>p.
                Some (Ok (set_timeout opts
                  (c\<lparr>sc_kind := CmdExpectStatus, sc_id := sv, sc_pattern := Some p\<rparr>))))))"

definition parse_within :: "nat \<Rightarrow> string \<Rightarrow> script_command \<Rightarrow> script_command outcome" where
  "parse_within line operand c =
     (case split_word operand of (center, tol) \<Rightarrow>
        let t = trim tol
        in if \<not> starts_with ''+-'' t then bad_line line ''within needs CENTER +-TOLERANCE''
           else case parse_double center (sc_number c) of
                  (ok1, n) \<Rightarrow>
                    case parse_double (trim (drop 2 t)) (sc_tolerance c) of
                      (ok2, d) \<Rightarrow>
                        if \<not> ok1 \<or> \<not> ok2 \<or> f8_less d 0 then bad_line line ''within needs numbers''
                        else Some (Ok (c\<lparr>sc_op := kWithin, sc_number := n, sc_tolerance := d\<rparr>)))"

definition parse_equal :: "nat \<Rightarrow> string \<Rightarrow> string \<Rightarrow> script_command \<Rightarrow> script_command outcome" where
  "parse_equal line oper operand c =
     (let quoted = (length operand \<ge> 2 \<and> code (hd operand) = 34 \<and> code (last operand) = 34);
          c = c\<lparr>sc_op := (if oper = ''=='' then kEqual else kNotEqual), sc_value := unquote operand\<rparr>;
          c = (if quoted then c
               else case parse_double operand (sc_number c) of
                      (ok, n) \<Rightarrow> c\<lparr>sc_number := n, sc_value_is_number := ok\<rparr>)
      in if operand = [] then bad_line line ''a value is missing'' else Some (Ok c))"

definition parse_assert :: "nat \<Rightarrow> string \<Rightarrow> script_command \<Rightarrow> script_command outcome" where
  "parse_assert line rest c =
     (case split_word rest of (field, after) \<Rightarrow>
        if \<not> starts_with ''event.'' field \<and> \<not> starts_with ''alarm.'' field
        then bad_line line ''assert needs event.FIELD or alarm.FIELD''
        else let c = c\<lparr>sc_kind := CmdAssert, sc_field := field\<rparr>
             in case split_word after of
                  (oper, operand) \<Rightarrow>
                    if oper = ''within'' then parse_within line operand c
                    else if oper = ''=='' \<or> oper = ''!='' then parse_equal line oper operand c
                    else bad_line line ''assert supports within, == and !='')"

definition parse_raw_byte :: "string \<Rightarrow> byte option" where
  "parse_raw_byte w =
     (case parse_uint (if starts_with ''0x'' w then w else ''0x'' @ w) of
        None \<Rightarrow> None | Some v \<Rightarrow> if v > 255 then None else Some (ucast v))"

definition parse_raw :: "nat \<Rightarrow> string \<Rightarrow> script_command \<Rightarrow> script_command outcome" where
  "parse_raw line rest c =
     (let bs = map parse_raw_byte (stream_words rest)
      in if None \<in> set bs then bad_line line ''raw needs hex bytes''
         else if bs = [] then bad_line line ''raw needs at least one byte''
         else Some (Ok (c\<lparr>sc_kind := CmdRaw, sc_raw := map the bs\<rparr>)))"

definition parse_auto_ack :: "nat \<Rightarrow> string \<Rightarrow> script_command \<Rightarrow> script_command outcome" where
  "parse_auto_ack line rest c =
     (if rest \<noteq> ''on'' \<and> rest \<noteq> ''off'' then bad_line line ''auto-ack needs on or off''
      else Some (Ok (c\<lparr>sc_kind := CmdAutoAck, sc_flag := (rest = ''on'')\<rparr>)))"

definition parse_sleep :: "nat \<Rightarrow> string \<Rightarrow> script_command \<Rightarrow> script_command outcome" where
  "parse_sleep line rest c =
     and_then (on_line line (parse_duration rest)) (\<lambda>d.
       Some (Ok (c\<lparr>sc_kind := CmdSleep, sc_timeout := d\<rparr>)))"

definition parse_command :: "nat \<Rightarrow> string \<Rightarrow> string \<Rightarrow> script_command outcome" where
  "parse_command line stripped text =
     (case split_word text of
        (verb, rest) \<Rightarrow>
          let c = new_command line stripped
          in if verb = ''connect'' then parse_connect line rest c
             else if verb = ''select'' \<or> verb = ''deselect'' then parse_select line verb rest c
             else if verb = ''linktest'' then Some (Ok (c\<lparr>sc_kind := CmdLinktest\<rparr>))
             else if verb = ''separate'' then Some (Ok (c\<lparr>sc_kind := CmdSeparate\<rparr>))
             else if verb = ''disconnect'' then Some (Ok (c\<lparr>sc_kind := CmdDisconnect\<rparr>))
             else if verb = ''send'' \<or> verb = ''expect'' \<or> verb = ''expect-no''
             then parse_send_expect line verb rest c
             else if verb = ''wait-event'' then parse_wait_event line rest c
             else if verb = ''wait-alarm'' then parse_wait_alarm line rest c
             else if verb = ''expect-closed'' then parse_expect_closed line rest c
             else if verb = ''expect-status'' then parse_expect_status line rest c
             else if verb = ''assert'' then parse_assert line rest c
             else if verb = ''auto-ack'' then parse_auto_ack line rest c
             else if verb = ''sleep'' then parse_sleep line rest c
             else if verb = ''raw'' then parse_raw line rest c
             else bad_line line (''unknown command '' @ [CHR 0x27] @ verb @ [CHR 0x27]))"

text \<open>Lines as \<^verbatim>\<open>std::getline\<close> gives them: the last one may lack its newline.\<close>

definition newline :: char where "newline = CHR 0x0A"

function text_lines :: "string \<Rightarrow> string list" where
  "text_lines s =
     (if s = [] then []
      else takeWhile (\<lambda>c. c \<noteq> newline) s # text_lines (drop 1 (dropWhile (\<lambda>c. c \<noteq> newline) s)))"
  by pat_completeness auto
termination
proof (relation "measure length", goal_cases)
  case (2 s)
  have "length (dropWhile (\<lambda>c. c \<noteq> newline) s) \<le> length s" by (rule length_dropWhile_le)
  moreover have "0 < length s" using 2 by simp
  ultimately have "length (dropWhile (\<lambda>c. c \<noteq> newline) s) - 1 < length s" by linarith
  then show ?case by simp
qed simp

declare text_lines.simps [simp del]

fun parse_lines :: "(string \<rightharpoonup> string) \<Rightarrow> nat \<Rightarrow> string list \<Rightarrow> script_command list outcome" where
  "parse_lines vars n [] = Some (Ok [])"
| "parse_lines vars n (raw # ls) =
     (let stripped = trim (strip_comment raw); line = n + 1
      in if stripped = [] then parse_lines vars line ls
         else and_then (Some (substitute vars line stripped)) (\<lambda>text.
                and_then (parse_command line stripped text) (\<lambda>c.
                  and_then (parse_lines vars line ls) (\<lambda>cs. Some (Ok (c # cs))))))"

definition parse_script :: "(string \<rightharpoonup> string) \<Rightarrow> string \<Rightarrow> script_command list outcome" where
  "parse_script vars text = parse_lines vars 0 (text_lines text)"

section \<open>Scripts that say what they mean\<close>

text \<open>A line that sends an item, and a script of such lines, each with a comment.\<close>

definition send_line :: "nat \<Rightarrow> nat \<Rightarrow> item \<Rightarrow> string" where
  "send_line s f i = ''send S'' @ show_nat s @ ''F'' @ show_nat f @ '' '' @ item_text i"

definition send_command :: "nat \<Rightarrow> nat \<Rightarrow> nat \<Rightarrow> item \<Rightarrow> script_command" where
  "send_command n s f i =
     (new_command n (send_line s f i))\<lparr>sc_kind := CmdSend, sc_stream := int s, sc_function := int f,
       sc_body := Some (wire_norm i)\<rparr>"

type_synonym row = "nat \<times> nat \<times> item \<times> string"

definition row_line :: "row \<Rightarrow> string" where
  "row_line x = (case x of (s, f, i, comment) \<Rightarrow> send_line s f i @ '' #'' @ comment)"

fun row_commands :: "nat \<Rightarrow> row list \<Rightarrow> script_command list" where
  "row_commands n [] = []"
| "row_commands n ((s, f, i, comment) # rows) = send_command (n + 1) s f i # row_commands (n + 1) rows"

text \<open>
  What a row may be: stream and function in range, no floating-point arrays, and no character
  that a script line cannot carry: a newline, or a dollar sign, which starts a variable even
  inside a string.
\<close>

definition row_ok :: "row \<Rightarrow> bool" where
  "row_ok x = (case x of (s, f, i, comment) \<Rightarrow>
     s < 128 \<and> f < 256 \<and> no_floats i \<and> newline \<notin> set (item_text i) \<and> newline \<notin> set comment \<and>
     CHR ''$'' \<notin> set (item_text i))"

definition neutral :: "string \<Rightarrow> bool" where
  "neutral t \<longleftrightarrow> (\<forall>r. strip_loop False (t @ r) = t @ strip_loop False r)"

lemma neutral_append: "neutral t \<Longrightarrow> neutral u \<Longrightarrow> neutral (t @ u)"
  by (simp add: neutral_def)

lemma neutral_concat: "list_all neutral ts \<Longrightarrow> neutral (concat ts)"
  by (induction ts) (simp_all add: neutral_append, simp add: neutral_def)

lemma neutral_plain: "list_all (\<lambda>c. code c \<noteq> 34 \<and> code c \<noteq> 35) t \<Longrightarrow> neutral t"
proof (induction t)
  case (Cons c t)
  then have "c \<noteq> CHR ''#''" by (auto simp: code_def)
  with Cons show ?case by (simp add: neutral_def)
qed (simp add: neutral_def)

lemma strip_string: "strip_loop True (escape s @ quote_char # r) = escape s @ quote_char # strip_loop False r"
  by (induction s) (auto simp: escape_def code_eq_mark)

lemma show_nat_code: "c \<in> set (show_nat n) \<Longrightarrow> 48 \<le> code c \<and> code c \<le> 57"
  by (auto dest!: show_nat_digits)

lemma neutral_word:
  "neutral (show_nat n)" "neutral (show_int k)" "neutral ''true''" "neutral ''false''" "neutral '' ''"
  by (rule neutral_plain; force simp: list_all_iff show_int_def dest: show_nat_code)
    (rule neutral_plain; force simp: list_all_iff show_int_def code_def dest: show_nat_code
      | rule neutral_plain; simp add: code_def)+

lemma neutral_array: "neutral name \<Longrightarrow> list_all neutral ws \<Longrightarrow> neutral (array_text name ws)"
proof -
  assume a: "neutral name" "list_all neutral ws"
  have b: "neutral ''[''" "neutral '']''" by (rule neutral_plain, simp add: code_def)+
  have "neutral (concat (map (\<lambda>w. w @ '' '') ws))"
    using a(2) by (intro neutral_concat) (auto simp: list_all_iff intro: neutral_append neutral_word)
  then show ?thesis unfolding array_text_def using a b by (blast intro: neutral_append)
qed

lemma neutral_names:
  "neutral ''B''" "neutral ''BOOLEAN''" "neutral ''I1''" "neutral ''I2''" "neutral ''I4''" "neutral ''I8''"
  "neutral ''U1''" "neutral ''U2''" "neutral ''U4''" "neutral ''U8''"
  by (rule neutral_plain, simp add: code_def)+

lemma neutral_item_text: "neutral (item_text i)"
proof (induction i)
  case (LIST xs)
  have b: "neutral ''L[''" "neutral '']''" by (rule neutral_plain, simp add: code_def)+
  have "neutral (concat (map (\<lambda>x. item_text x @ '' '') xs))"
    using LIST by (intro neutral_concat) (auto simp: list_all_iff intro: neutral_append neutral_word)
  then show ?case unfolding item_text.simps using b by (blast intro: neutral_append)
next
  case (ASCII s)
  have "CHR ''A'' \<noteq> CHR ''#''" "code (CHR ''A'') = 65" by (simp_all add: code_def)
  then show ?case by (simp add: neutral_def strip_string)
next
  case (BOOLEAN v)
  have "list_all neutral (map (\<lambda>b. if b \<noteq> 0 then ''true'' else ''false'') v)"
    using neutral_word(3,4) by (induction v) simp_all
  then show ?case unfolding item_text.simps by (rule neutral_array [OF neutral_names(2)])
next
  case (F4 v)
  then show ?case by (simp add: neutral_def)
next
  case (F8 v)
  then show ?case by (simp add: neutral_def)
qed (simp_all add: list_all_iff neutral_array neutral_names neutral_word)

lemma trim_id: "s \<noteq> [] \<Longrightarrow> \<not> isspace (hd s) \<Longrightarrow> \<not> isspace (last s) \<Longrightarrow> trim s = s"
proof -
  assume a: "s \<noteq> []" "\<not> isspace (hd s)" "\<not> isspace (last s)"
  then have "dropWhile isspace s = s" by (cases s) simp_all
  moreover have "dropWhile isspace (rev s) = rev s" using a(1,3) by (cases s rule: rev_cases) simp_all
  ultimately show ?thesis by (simp add: trim_def)
qed

lemma trim_space: "trim (s @ '' '') = trim s" "trim (CHR '' '' # s) = trim s"
proof -
  have sp: "isspace (CHR '' '')" by (simp add: isspace_def)
  show "trim (CHR '' '' # s) = trim s" using sp by (simp add: trim_def)
  show "trim (s @ '' '') = trim s"
  proof (cases "\<forall>c\<in>set s. isspace c")
    case True
    have "dropWhile isspace s = []" by (rule iffD2 [OF dropWhile_eq_Nil_conv True])
    moreover have "dropWhile isspace (s @ '' '') = []"
      by (rule iffD2 [OF dropWhile_eq_Nil_conv]) (use True sp in auto)
    ultimately show ?thesis by (simp only: trim_def)
  next
    case False
    then have "dropWhile isspace (s @ '' '') = dropWhile isspace s @ '' ''" by (auto simp: dropWhile_append)
    then show ?thesis using sp by (simp add: trim_def)
  qed
qed

lemma split_word_space:
  assumes "list_all (\<lambda>c. \<not> isspace c) w"
  shows "split_word (w @ '' '' @ s) = (w, trim s)"
proof -
  have "isspace (CHR '' '')" by (simp add: isspace_def)
  then show ?thesis
    using takeWhile_word [OF assms, of "CHR '' ''" s] by (simp add: split_word_def trim_space)
qed

lemma substitute_plain: "CHR ''$'' \<notin> set s \<Longrightarrow> substitute vars line s = Ok s"
  by (induction s) auto

lemma parse_uint_show_nat: "n < 2 ^ 32 \<Longrightarrow> parse_uint (show_nat n) = Some (word_of_nat n)"
proof -
  assume n: "n < 2 ^ 32"
  have "hd (show_nat n) \<noteq> CHR ''-''"
    using show_nat_code [of "hd (show_nat n)" n] by (auto simp: code_def)
  moreover have "strtoull (show_nat n) = (int n, False, Some [])"
    using n by (simp add: strtoull_def strto_show_nat)
  ultimately show ?thesis using n by (simp add: parse_uint_def at_end_def)
qed

lemma parse_sf_text:
  assumes "s < 128" "f < 256"
  shows "parse_sf (''S'' @ show_nat s @ ''F'' @ show_nat f) = Some (int s, int f)"
proof -
  let ?f = "\<lambda>c. c \<noteq> CHR ''F'' \<and> c \<noteq> CHR ''f''"
  have "list_all ?f (show_nat s)"
    by (auto simp: list_all_iff dest!: show_nat_code) (simp_all add: code_def)
  note w = takeWhile_word [OF this, of "CHR ''F''" "show_nat f"]
  have "(word_of_nat s :: u32) \<le> 127" "(word_of_nat f :: u32) \<le> 255"
    using assms by (simp_all add: word_le_nat_alt unat_of_nat)
  moreover have "uint (word_of_nat s :: u32) = int s" "uint (word_of_nat f :: u32) = int f"
    using assms by (simp_all add: uint_nat unat_of_nat)
  moreover have "1 \<le> length (show_nat s)" "1 \<le> length (show_nat f)"
    using show_nat_neq_Nil by (simp_all add: Suc_le_eq)
  then have "\<not> length (''S'' @ show_nat s @ ''F'' @ show_nat f) < 4" by simp
  ultimately show ?thesis
    using w assms by (simp add: parse_sf_def parse_uint_show_nat not_less Let_def)
qed

lemma item_text_ends:
  assumes "no_floats i"
  shows "item_text i \<noteq> []" "hd (item_text i) \<in> set ''LABIU''" "\<not> isspace (hd (item_text i))"
    "\<not> isspace (last (item_text i))"
  using assms by (cases i; simp add: array_text_def isspace_def; simp add: code_def)+

lemma item_text_no_options:
  assumes "no_floats i"
  shows "take_options line opts (item_text i) = Some (Ok (item_text i, opts))"
proof -
  define word where "word = fst (split_word (item_text i))"
  obtain c cs where t: "item_text i = c # cs" "c \<in> set ''LABIU''" "\<not> isspace c"
    using item_text_ends [OF assms] by (cases "item_text i") auto
  then obtain ds where "word = c # ds" by (simp add: word_def split_word_def)
  with t(2) have "word \<noteq> []" "word \<noteq> ''nowait''" "word \<noteq> ''W''" "\<not> starts_with ''timeout='' word"
    "\<not> starts_with ''device='' word" "\<not> starts_with ''status='' word"
    by (auto simp: starts_with_def)
  then show ?thesis
    by (subst take_options.simps) (simp add: word_def [symmetric] Let_def)
qed

lemma send_line_parsed:
  assumes "s < 128" "f < 256" "no_floats i"
  shows "parse_command n (send_line s f i) (send_line s f i) = Some (Ok (send_command n s f i))"
proof -
  let ?sf = "''S'' @ show_nat s @ ''F'' @ show_nat f"
  note ends = item_text_ends [OF assms(3)]
  have t: "trim (item_text i) = item_text i" by (rule trim_id [OF ends(1,3,4)])
  have "list_all (\<lambda>c. \<not> isspace c) ?sf"
    by (auto simp: list_all_iff isspace_def dest!: show_nat_code) (simp_all add: code_def)
  then have sf: "split_word (?sf @ '' '' @ item_text i) = (?sf, item_text i)"
    using split_word_space t by metis
  have trim_rest: "trim (?sf @ '' '' @ item_text i) = ?sf @ '' '' @ item_text i"
    by (rule trim_id) (use ends in \<open>simp_all add: isspace_def\<close>, simp_all add: code_def)
  have "list_all (\<lambda>c. \<not> isspace c) ''send''" by (simp add: isspace_def) (simp add: code_def)
  then have "split_word (send_line s f i) = (''send'', ?sf @ '' '' @ item_text i)"
    using split_word_space [of "''send''" "?sf @ '' '' @ item_text i"] trim_rest
    by (simp add: send_line_def)
  moreover have "parse_send_expect n ''send'' (?sf @ '' '' @ item_text i) (new_command n (send_line s f i)) =
      Some (Ok (send_command n s f i))"
    unfolding parse_send_expect_def sf
    using parse_sf_text [OF assms(1,2)] item_text_no_options [OF assms(3)] t ends(1)
      item_text_accepted [OF assms(3), of parse_float]
    by (simp add: and_then_def on_line_def set_timeout_def no_options_def new_command_def send_command_def)
  ultimately show ?thesis by (simp add: parse_command_def)
qed

lemma row_line_parsed:
  assumes "row_ok (s, f, i, comment)"
  shows "trim (strip_comment (row_line (s, f, i, comment))) = send_line s f i"
    "substitute vars n (send_line s f i) = Ok (send_line s f i)"
    "newline \<notin> set (row_line (s, f, i, comment))" "send_line s f i \<noteq> []"
proof -
  have ok: "s < 128" "f < 256" "no_floats i" "newline \<notin> set (item_text i)" "newline \<notin> set comment"
    "CHR ''$'' \<notin> set (item_text i)"
    using assms by (simp_all add: row_ok_def)
  have "neutral ''send S''" "neutral ''F''" by (rule neutral_plain, simp add: code_def)+
  then have "neutral (send_line s f i)"
    unfolding send_line_def by (intro neutral_append neutral_word neutral_item_text)
  then have "neutral (send_line s f i @ '' '')" by (intro neutral_append neutral_word)
  then have "strip_comment (row_line (s, f, i, comment)) = send_line s f i @ '' ''"
    by (simp add: neutral_def row_line_def strip_comment_def) (simp add: code_def)
  moreover have "trim (send_line s f i) = send_line s f i"
    by (rule trim_id) (use item_text_ends [OF ok(3)] in \<open>simp_all add: send_line_def isspace_def\<close>, simp_all add: code_def)
  ultimately show "trim (strip_comment (row_line (s, f, i, comment))) = send_line s f i"
    by (simp add: trim_space)
  have "CHR ''$'' \<notin> set (show_nat k)" "newline \<notin> set (show_nat k)" for k
    by (auto dest!: show_nat_code) (simp_all add: code_def newline_def)
  then have "CHR ''$'' \<notin> set (send_line s f i)" "newline \<notin> set (send_line s f i)"
    using ok by (simp_all add: send_line_def) (simp add: newline_def)
  then show "substitute vars n (send_line s f i) = Ok (send_line s f i)"
    "newline \<notin> set (row_line (s, f, i, comment))"
    using ok by (simp_all add: row_line_def substitute_plain) (simp add: newline_def)
  show "send_line s f i \<noteq> []" by (simp add: send_line_def)
qed

lemma text_lines_line:
  assumes "newline \<notin> set l"
  shows "text_lines (l @ newline # r) = l # text_lines r"
proof -
  have "takeWhile (\<lambda>c. c \<noteq> newline) (l @ newline # r) = l \<and> dropWhile (\<lambda>c. c \<noteq> newline) (l @ newline # r) = newline # r"
    using assms by (intro takeWhile_word) (auto simp: list_all_iff)
  then show ?thesis by (subst text_lines.simps) simp
qed

lemma rows_parsed:
  "list_all row_ok rows \<Longrightarrow>
     parse_lines vars n (text_lines (concat (map (\<lambda>x. row_line x @ [newline]) rows))) =
       Some (Ok (row_commands n rows))"
proof (induction rows arbitrary: n)
  case (Cons x rows)
  obtain s f i comment where x: "x = (s, f, i, comment)" by (cases x)
  with Cons.prems have ok: "row_ok (s, f, i, comment)" by simp
  then have r: "s < 128" "f < 256" "no_floats i" by (simp_all add: row_ok_def)
  note p = row_line_parsed [OF ok]
  show ?case
    using Cons p(1,4) p(2) [of vars "n + 1"] send_line_parsed [OF r, of "n + 1"]
    by (simp add: x text_lines_line [OF p(3)] and_then_def)
qed (simp add: text_lines.simps)

text \<open>
  C26. A script means what it says. Any list of SECS-II items without floating-point arrays, with
  any streams and functions, written as \<^verbatim>\<open>send\<close> lines that each carry a comment, is parsed to
  exactly those commands in that order, each with its line number: strings with blanks, quotes,
  backslashes or number signs are neither cut nor taken for comments or options. Only newlines
  and dollar signs are excluded.
\<close>

theorem script_roundtrip:
  assumes "list_all row_ok rows"
  shows "parse_script vars (concat (map (\<lambda>x. row_line x @ [newline]) rows)) = Some (Ok (row_commands 0 rows))"
  unfolding parse_script_def by (rule rows_parsed [OF assms])

definition sample_rows :: "row list" where
  "sample_rows =
     [(1, 13, LIST [], '' hello''), (2, 41, LIST [ASCII ''a # b'', LIST [U4 [2005]]], ''second'')]"

theorem script_roundtrip_witness:
  "parse_script Map.empty (concat (map (\<lambda>x. row_line x @ [newline]) sample_rows)) =
     Some (Ok [send_command 1 1 13 (LIST []),
               send_command 2 2 41 (LIST [ASCII ''a # b'', LIST [U4 [2005]]])])"
proof -
  have "list_all row_ok sample_rows"
    by (auto simp: sample_rows_def row_ok_def array_text_def escape_def quote_char_def backslash_def
        newline_def dest!: show_nat_code) (simp_all add: code_def)
  then show ?thesis using script_roundtrip [of sample_rows Map.empty]
    by (simp add: sample_rows_def eval_nat_numeral)
qed

text \<open>
  The range check of \<^verbatim>\<open>parse_duration\<close> does not catch a NaN, which compares false with both
  limits, so \<^verbatim>\<open>sleep nan\<close> converts a NaN to an integer.
\<close>

lemma duration_nan_undefined: "parse_duration ''nan'' = None"
proof -
  have "strtod ''nan'' = (f8_make False (f8_inf + 2 ^ 51), False, Some [])"
    by (simp add: strtod_def number_sign_def after_word_def to_lower_def after_nan_def isspace_def code_def)
  moreover have "c_str ''nan'' = ''nan''" by (simp add: c_str_def code_def)
  moreover have "f8_nan (f8_make False (f8_inf + 2 ^ 51))" by (simp add: f8_nan_def f8_abs_def f8_make_def f8_inf_def unat_of_nat)
  moreover have "\<not> f8_finite quiet_nan" by (simp add: f8_finite_def quiet_nan_def f8_abs_def f8_make_def f8_inf_def unat_of_nat)
  ultimately show ?thesis
    by (simp add: parse_duration_def parse_double_def at_end_def f8_less_def f8_mul_def f8_to_i64_def)
qed

end
