(* ===== verification/Secs2_Text.thy ===== *)
theory Secs2_Text
  imports Secs2_Item Std_Double
begin

text \<open>
  The decoded form of items and messages in logs, \<^verbatim>\<open>src/secsgem/secs2/text_dump.cpp\<close>. What
  peers send ends up in these texts, so the theorem here is that nothing but printable ASCII
  gets through.
\<close>

definition kDumpMaxElements :: nat where "kDumpMaxElements = 16"
definition kDumpMaxChars :: nat where "kDumpMaxChars = 64"

definition hex_digit :: "nat \<Rightarrow> char" where
  "hex_digit d = (if d < 10 then char_of (48 + d) else char_of (55 + d))"

definition hex2 :: "nat \<Rightarrow> string" where
  "hex2 n = [hex_digit (n div 16), hex_digit (n mod 16)]"

definition dump_char :: "char \<Rightarrow> string" where
  "dump_char c =
     (if code c = 34 \<or> code c = 92 then [char_of (92 :: nat), c]
      else if 0x20 \<le> code c \<and> code c \<le> 0x7E then [c]
      else char_of (92 :: nat) # CHR ''x'' # hex2 (code c))"

definition dump_ascii :: "string \<Rightarrow> string" where
  "dump_ascii s =
     [char_of (34 :: nat)] @ concat (map dump_char (take kDumpMaxChars s)) @
     (if length s > kDumpMaxChars then ''...'' else []) @ [char_of (34 :: nat)]"

definition dump_more :: "nat \<Rightarrow> string \<Rightarrow> string" where
  "dump_more n what =
     (if n > kDumpMaxElements then '' ... ('' @ show_nat n @ '' '' @ what @ '')'' else [])"

definition dump_array :: "('a \<Rightarrow> string) \<Rightarrow> 'a list \<Rightarrow> string" where
  "dump_array number vs =
     concat (map (\<lambda>v. CHR '' '' # number v) (take kDumpMaxElements vs)) @
     dump_more (length vs) ''total''"

fun dump_payload :: "item \<Rightarrow> string" where
  "dump_payload (ASCII s) = CHR '' '' # dump_ascii s"
| "dump_payload (BINARY v) =
     concat (map (\<lambda>b. '' 0x'' @ hex2 (unat b)) (take kDumpMaxElements v)) @ dump_more (length v) ''total''"
| "dump_payload (BOOLEAN v) = concat (map (\<lambda>b. if b \<noteq> 0 then '' true'' else '' false'') v)"
| "dump_payload (I1 v) = dump_array (\<lambda>x. show_int (sint x)) v"
| "dump_payload (I2 v) = dump_array (\<lambda>x. show_int (sint x)) v"
| "dump_payload (I4 v) = dump_array (\<lambda>x. show_int (sint x)) v"
| "dump_payload (I8 v) = dump_array (\<lambda>x. show_int (sint x)) v"
| "dump_payload (U1 v) = dump_array (\<lambda>x. show_nat (unat x)) v"
| "dump_payload (U2 v) = dump_array (\<lambda>x. show_nat (unat x)) v"
| "dump_payload (U4 v) = dump_array (\<lambda>x. show_nat (unat x)) v"
| "dump_payload (U8 v) = dump_array (\<lambda>x. show_nat (unat x)) v"
| "dump_payload (F4 v) = dump_array (\<lambda>x. show_g 9 (f4_to_f8 x)) v"
| "dump_payload (F8 v) = dump_array (show_g 17) v"
| "dump_payload (LIST xs) = []"

fun item_to_text :: "item \<Rightarrow> string" where
  "item_to_text (LIST xs) =
     ''<L ['' @ show_nat (length xs) @ '']'' @
     concat (take kDumpMaxElements (map (\<lambda>x. CHR '' '' # item_to_text x) xs)) @
     dump_more (length xs) ''entries'' @ ''>''"
| "item_to_text i = ''<'' @ format_to_string (item_format i) @ dump_payload i @ ''>''"

definition message_to_text :: "secs_message \<Rightarrow> string" where
  "message_to_text m =
     ''S'' @ show_nat (unat (stream m)) @ ''F'' @ show_nat (unat (func m)) @
     (if w_bit m then '' W'' else []) @
     (case body m of None \<Rightarrow> [] | Some i \<Rightarrow> CHR '' '' # item_to_text i)"

section \<open>Only printable text\<close>

definition printable :: "char \<Rightarrow> bool" where
  "printable c \<longleftrightarrow> 0x20 \<le> code c \<and> code c \<le> 0x7E"

abbreviation printable_text :: "string \<Rightarrow> bool" where
  "printable_text s \<equiv> list_all printable s"

lemma printable_digit [simp]: "d < 10 \<Longrightarrow> printable (digit_char d)"
  by (simp add: printable_def)

lemma printable_space [simp]: "printable (CHR '' '')"
  by (simp add: printable_def code_def)

lemma printable_digits [simp]: "printable_text (show_nat n)"
proof (induction n rule: show_nat.induct)
  case (1 n)
  then show ?case by (cases "n < 10") (simp_all add: show_nat_small show_nat_big)
qed

lemma printable_show_int [simp]: "printable_text (show_int i)"
  by (simp add: show_int_def printable_def code_def)

lemma printable_with_point:
  "printable_text a \<Longrightarrow> printable_text b \<Longrightarrow> printable_text (with_point a b)"
  unfolding with_point_def strip_zeros_def Let_def
  by (auto simp: list_all_iff printable_def code_def dest: set_dropWhileD)

lemma printable_sublist:
  assumes "printable_text xs"
  shows "printable_text (take k xs)" "printable_text (drop k xs)" "printable_text (tl xs)"
    "xs \<noteq> [] \<Longrightarrow> printable (hd xs)"
  using assms set_take_subset [of k xs] set_drop_subset [of k xs] list.set_sel(2) [of xs]
  unfolding list_all_iff by (auto simp: tl_def split: list.splits)

lemma printable_show_g [simp]: "printable_text (show_g p w)"
proof -
  have z: "printable_text (zeros n)" for n by (simp add: zeros_def list_all_iff printable_def code_def)
  have h: "printable_text [hd (show_nat n)]" "printable_text (tl (show_nat n))"
    "printable_text (take k (show_nat n))" "printable_text (drop k (show_nat n))" for n k
    using printable_sublist [OF printable_digits [of n]] by simp_all
  have "printable_text (show_sign w)" "printable_text (show_special w)" "printable_text ''0''"
    "printable_text ''e''" "printable_text ''+''" "printable_text ''-''"
    by (simp_all add: show_sign_def show_special_def printable_def code_def)
  then show ?thesis
    unfolding show_g_def pad_def Let_def
    by (simp add: printable_with_point z h printable_with_point [OF h(1,2)] split: prod.split)
qed

lemma printable_hex2 [simp]: "n < 256 \<Longrightarrow> printable_text (hex2 n)"
  by (auto simp: hex2_def hex_digit_def printable_def code_def)

lemma code_less [simp]: "code c < 256"
  by (simp add: code_def)

lemma printable_dump_char [simp]: "printable_text (dump_char c)"
  by (simp add: dump_char_def) (simp add: printable_def code_def)

lemma printable_concat: "(\<And>x. x \<in> set xs \<Longrightarrow> printable_text x) \<Longrightarrow> printable_text (concat xs)"
  by (induction xs) auto

lemma printable_dump_ascii [simp]: "printable_text (dump_ascii s)"
  by (auto simp: dump_ascii_def intro!: printable_concat) (auto simp: printable_def code_def)

lemma printable_dump_more [simp]: "printable_text what \<Longrightarrow> printable_text (dump_more n what)"
  by (simp add: dump_more_def) (simp add: printable_def code_def)

lemma printable_dump_array:
  assumes "\<And>v. printable_text (number v)"
  shows "printable_text (dump_array number vs)"
proof -
  have "printable_text ''total''" by (simp add: printable_def code_def)
  with assms show ?thesis by (auto simp: dump_array_def intro!: printable_concat)
qed

text \<open>
  Whatever an item holds, its text consists of printable ASCII, so a peer cannot forge or break
  log lines.
\<close>

lemma item_to_text_printable:
  "printable_text (item_to_text i)"
proof (induction i)
  case (LIST xs)
  have "printable_text (concat (take kDumpMaxElements (map (\<lambda>x. CHR '' '' # item_to_text x) xs)))"
    using LIST by (intro printable_concat) (auto dest!: in_set_takeD)
  then show ?case by (simp, simp add: printable_def code_def)
next
  case (BINARY v)
  have "unat b < 256" for b :: byte using unsigned_less [of b] by simp
  then have "printable_text (concat (map (\<lambda>b. '' 0x'' @ hex2 (unat b)) (take kDumpMaxElements v)))"
    by (intro printable_concat) (auto simp: printable_def code_def)
  then show ?case by (simp, simp add: printable_def code_def)
next
  case (BOOLEAN v)
  have "printable_text (concat (map (\<lambda>b. if b \<noteq> 0 then '' true'' else '' false'') v))"
    by (intro printable_concat) (auto simp: printable_def code_def)
  then show ?case by (simp, simp add: printable_def code_def)
qed (simp_all add: printable_dump_array, simp_all add: printable_def code_def)

end
