(* ===== verification/Host_Runner.thy ===== *)
theory Host_Runner
  imports Host_Script Secs2_Text Gem_Identifiers Hsms_Frame
begin

text \<open>
  The host simulator's connection and script runner, \<^verbatim>\<open>src/host_sim/host_client.cpp\<close> and
  \<^verbatim>\<open>runner.cpp\<close>. The operating system is a list of answers: every look at the clock and every
  socket call takes the next one. What the runner hands to the socket, logs and closes is
  collected in order. An operation is a function of the runner's state; \<open>None\<close> means that the answers given
  do not take it to its end. Times are nanoseconds, time-outs milliseconds.
\<close>

datatype answer =
    Now int
  | Bad_address | Connect_failed string bool | Connected
  | Written | Write_failed string
  | Silence | Read_failed | Bytes "byte list"

datatype host_out = Log string | Wire "byte list" | Close

definition kErrConnectFailed :: int where "kErrConnectFailed = 602"
definition kErrSendFailed :: int where "kErrSendFailed = 603"
definition kMaxFrame :: nat where "kMaxFrame = 16 * 1024 * 1024"

section \<open>State\<close>

record host_client =
  hc_open :: bool
  hc_closed :: bool
  hc_decoder :: frame_decoder

record received =
  rx_frame :: frame
  rx_message :: secs_message

record runner =
  rn_device :: u16
  rn_client :: host_client
  rn_queue :: "received list"
  rn_control :: "frame list"
  rn_auto_ack :: bool
  rn_closed :: bool
  rn_next_sys :: u32
  rn_event :: "event_report option"
  rn_alarm :: "alarm_report option"
  rn_message :: string
  rn_env :: "answer list"
  rn_out :: "host_out list"

definition new_client :: host_client where
  "new_client = \<lparr>hc_open = False, hc_closed = False, hc_decoder = new_decoder kMaxFrame\<rparr>"

definition new_runner :: "u16 \<Rightarrow> answer list \<Rightarrow> runner" where
  "new_runner device env =
     \<lparr>rn_device = device, rn_client = new_client, rn_queue = [], rn_control = [],
      rn_auto_ack = True, rn_closed = True, rn_next_sys = 1, rn_event = None, rn_alarm = None,
      rn_message = [], rn_env = env, rn_out = []\<rparr>"

type_synonym 'a op = "runner \<Rightarrow> ('a \<times> runner) option"

definition ret :: "'a \<Rightarrow> 'a op" where
  "ret x r = Some (x, r)"

definition then_do :: "'a op \<Rightarrow> ('a \<Rightarrow> 'b op) \<Rightarrow> 'b op" where
  "then_do m f r = (case m r of None \<Rightarrow> None | Some (x, r') \<Rightarrow> f x r')"

definition emit :: "host_out \<Rightarrow> unit op" where
  "emit e r = Some ((), r\<lparr>rn_out := rn_out r @ [e]\<rparr>)"

definition log_line :: "string \<Rightarrow> unit op" where
  "log_line line = emit (Log line)"

text \<open>A failed step: \<^verbatim>\<open>fail\<close> of the runner, which returns false.\<close>

definition give_up :: "string \<Rightarrow> bool op" where
  "give_up why r = Some (False, r\<lparr>rn_message := why\<rparr>)"

definition clock_now :: "int op" where
  "clock_now r = (case rn_env r of Now t # env \<Rightarrow> Some (t, r\<lparr>rn_env := env\<rparr>) | _ \<Rightarrow> None)"

section \<open>Host client\<close>

definition client_close :: "unit op" where
  "client_close r =
     (if hc_open (rn_client r)
      then emit Close (r\<lparr>rn_client := (rn_client r)\<lparr>hc_open := False\<rparr>\<rparr>)
      else Some ((), r))"

definition client_is_open :: "runner \<Rightarrow> bool" where
  "client_is_open r \<longleftrightarrow> hc_open (rn_client r) \<and> \<not> hc_closed (rn_client r)"

definition client_connect :: "string \<Rightarrow> u16 \<Rightarrow> unit result op" where
  "client_connect host port =
     then_do client_close (\<lambda>_ r.
       let r = r\<lparr>rn_client := new_client\<rparr>
       in case rn_env r of
            Bad_address # env \<Rightarrow>
              Some (Err kErrConnectFailed (''bad host address '' @ [CHR 0x27] @ host @ [CHR 0x27]),
                    r\<lparr>rn_env := env\<rparr>)
          | Connect_failed why still_open # env \<Rightarrow>
              Some (Err kErrConnectFailed
                      (''cannot connect to '' @ host @ '':'' @ show_nat (unat port) @ '': '' @ why),
                    r\<lparr>rn_env := env, rn_client := new_client\<lparr>hc_open := still_open\<rparr>\<rparr>)
          | Connected # env \<Rightarrow>
              Some (Ok (), r\<lparr>rn_env := env, rn_client := new_client\<lparr>hc_open := True\<rparr>\<rparr>)
          | _ \<Rightarrow> None)"

definition send_bytes :: "byte list \<Rightarrow> unit result op" where
  "send_bytes bs r =
     (if \<not> hc_open (rn_client r) then Some (Err kErrSendFailed ''not connected'', r)
      else let r = r\<lparr>rn_out := rn_out r @ [Wire bs]\<rparr>
           in case rn_env r of
                Written # env \<Rightarrow> Some (Ok (), r\<lparr>rn_env := env\<rparr>)
              | Write_failed why # env \<Rightarrow>
                  Some (Err kErrSendFailed (''send failed: '' @ why), r\<lparr>rn_env := env\<rparr>)
              | _ \<Rightarrow> None)"

datatype read_status = kFrames | kTimeout | kClosed

definition set_client :: "host_client \<Rightarrow> runner \<Rightarrow> runner" where
  "set_client c r = r\<lparr>rn_client := c\<rparr>"

definition client_read :: "int \<Rightarrow> (read_status \<times> frame list) op" where
  "client_read timeout r =
     (let c = rn_client r
      in if \<not> hc_open c \<or> hc_closed c then Some ((kClosed, []), r)
         else case rn_env r of
                Silence # env \<Rightarrow> Some ((kTimeout, []), r\<lparr>rn_env := env\<rparr>)
              | Read_failed # env \<Rightarrow>
                  Some ((kClosed, []), set_client (c\<lparr>hc_closed := True\<rparr>) (r\<lparr>rn_env := env\<rparr>))
              | Bytes bs # env \<Rightarrow>
                  (case feed bs (hc_decoder c) of
                     (Inl e, d) \<Rightarrow>
                       Some ((kClosed, []),
                             set_client (c\<lparr>hc_decoder := d, hc_closed := True\<rparr>) (r\<lparr>rn_env := env\<rparr>))
                   | (Inr frames, d) \<Rightarrow>
                       Some ((kFrames, frames), set_client (c\<lparr>hc_decoder := d\<rparr>) (r\<lparr>rn_env := env\<rparr>)))
              | _ \<Rightarrow> None)"

section \<open>Messages\<close>

definition sf_name :: "int \<Rightarrow> int \<Rightarrow> string" where
  "sf_name s f = ''S'' @ show_int s @ ''F'' @ show_int f"

definition first_of :: "('a \<Rightarrow> f8) \<Rightarrow> 'a list \<Rightarrow> f8 option" where
  "first_of number vs = (case vs of [] \<Rightarrow> None | v # _ \<Rightarrow> Some (number v))"

fun as_number :: "item \<Rightarrow> f8 option" where
  "as_number (U1 v) = first_of (\<lambda>x. f8_of_int (uint x)) v"
| "as_number (BINARY v) = first_of (\<lambda>x. f8_of_int (uint x)) v"
| "as_number (BOOLEAN v) = first_of (\<lambda>x. f8_of_int (uint x)) v"
| "as_number (U2 v) = first_of (\<lambda>x. f8_of_int (uint x)) v"
| "as_number (U4 v) = first_of (\<lambda>x. f8_of_int (uint x)) v"
| "as_number (U8 v) = first_of (\<lambda>x. f8_of_int (uint x)) v"
| "as_number (I1 v) = first_of (\<lambda>x. f8_of_int (sint x)) v"
| "as_number (I2 v) = first_of (\<lambda>x. f8_of_int (sint x)) v"
| "as_number (I4 v) = first_of (\<lambda>x. f8_of_int (sint x)) v"
| "as_number (I8 v) = first_of (\<lambda>x. f8_of_int (sint x)) v"
| "as_number (F4 v) = first_of f4_to_f8 v"
| "as_number (F8 v) = first_of (\<lambda>x. x) v"
| "as_number _ = None"

fun index_of :: "'a \<Rightarrow> 'a list \<Rightarrow> nat option" where
  "index_of x [] = None"
| "index_of x (y # ys) = (if y = x then Some 0 else map_option Suc (index_of x ys))"

fun find_field :: "report list \<Rightarrow> string \<Rightarrow> item option" where
  "find_field [] name = None"
| "find_field (rp # rs) name =
     (case index_of name (report_fields (rptid rp)) of
        Some k \<Rightarrow> if k < length (rpt_values rp) then Some (rpt_values rp ! k) else None
      | None \<Rightarrow> find_field rs name)"

definition find_event_field :: "event_report \<Rightarrow> string \<Rightarrow> item option" where
  "find_event_field e name = find_field (reports e) name"

text \<open>The double nearest to \<open>10\<^sup>-\<^sup>9\<close>.\<close>

definition f8_nano :: f8 where "f8_nano = 0x3E112E0BE826D695"

definition near :: "f8 \<Rightarrow> f8 \<Rightarrow> bool" where
  "near a b \<longleftrightarrow> f8_less (f8_fabs (f8_sub a b)) f8_nano"

definition item_equals_text :: "item \<Rightarrow> string \<Rightarrow> bool" where
  "item_equals_text i text =
     (if item_format i = kAscii then as_ascii i = text
      else case as_number i of
             None \<Rightarrow> False
           | Some x \<Rightarrow>
               if item_format i = kBoolean then (\<not> f8_eq x 0) = (text = ''true'')
               else case strtod (c_str text) of (wanted, erange, rest) \<Rightarrow> rest = Some [] \<and> near x wanted)"

definition matches_body :: "pattern option \<Rightarrow> secs_message \<Rightarrow> bool" where
  "matches_body p m =
     (case p of
        None \<Rightarrow> True
      | Some q \<Rightarrow> (case body m of None \<Rightarrow> q = kAnyItem | Some i \<Rightarrow> matches q i))"

definition body_text :: "secs_message \<Rightarrow> string" where
  "body_text m = (case body m of None \<Rightarrow> ''(no body)'' | Some i \<Rightarrow> item_to_text i)"

section \<open>Sending and receiving\<close>

definition send_frame :: "frame \<Rightarrow> string \<Rightarrow> bool op" where
  "send_frame fr what =
     (case encode_frame fr of
        Inl e \<Rightarrow> give_up (message e)
      | Inr bs \<Rightarrow>
          then_do (log_line (''>> '' @ what)) (\<lambda>_.
            then_do (send_bytes bs) (\<lambda>sent.
              case sent of Inl e \<Rightarrow> give_up (message e) | Inr _ \<Rightarrow> ret True)))"

definition runner_send_control :: "stype \<Rightarrow> u32 \<Rightarrow> bool op" where
  "runner_send_control st sys =
     send_frame (make_control_frame st sys 0 0) (stype_to_string st @ '' sys='' @ show_nat (unat sys))"

text \<open>\<open>next_sys_++\<close>\<close>

definition fresh_sys :: "u32 op" where
  "fresh_sys r = Some (rn_next_sys r, r\<lparr>rn_next_sys := rn_next_sys r + 1\<rparr>)"

text \<open>Encoding an acknowledgement; \<^verbatim>\<open>value()\<close> of an error would throw.\<close>

definition encoded_body :: "secs_message \<Rightarrow> byte list option" where
  "encoded_body m =
     (case body m of
        None \<Rightarrow> Some []
      | Some i \<Rightarrow> (case encode i of Inl _ \<Rightarrow> None | Inr bs \<Rightarrow> Some bs))"

definition host_reply :: "frame \<Rightarrow> secs_message \<Rightarrow> unit op" where
  "host_reply req m r =
     (case encoded_body m of
        None \<Rightarrow> None
      | Some bs \<Rightarrow>
          then_do (send_frame
             (make_data_frame (session_id (hdr req)) (stream m) (func m) False (system_bytes (hdr req)) bs)
             (message_to_text m @ '' (auto-ack)'')) (\<lambda>_. ret ()) r)"

definition push_control :: "frame \<Rightarrow> unit op" where
  "push_control fr r = Some ((), r\<lparr>rn_control := rn_control r @ [fr]\<rparr>)"

definition push_received :: "frame \<Rightarrow> secs_message \<Rightarrow> unit op" where
  "push_received fr m r = Some ((), r\<lparr>rn_queue := rn_queue r @ [\<lparr>rx_frame = fr, rx_message = m\<rparr>]\<rparr>)"

definition control_text :: "frame \<Rightarrow> string" where
  "control_text fr =
     ''<< '' @ (case stype_from_byte (stype (hdr fr)) of
                   Some st \<Rightarrow> stype_to_string st
                 | None \<Rightarrow> ''SType '' @ show_nat (unat (stype (hdr fr)))) @
     '' sys='' @ show_nat (unat (system_bytes (hdr fr))) @
     '' byte2='' @ show_nat (unat (byte2 (hdr fr))) @ '' byte3='' @ show_nat (unat (byte3 (hdr fr)))"

definition auto_ack_for :: "secs_message \<Rightarrow> secs_message option" where
  "auto_ack_for m =
     (if \<not> w_bit m then None
      else if stream m = 6 \<and> func m = 11 then Some (make_s6f12 kAckAccepted)
      else if stream m = 5 \<and> func m = 1 then Some (make_s5f2 kAckAccepted)
      else None)"

definition on_frame :: "frame \<Rightarrow> unit op" where
  "on_frame fr =
     (if stype (hdr fr) \<noteq> 0
      then then_do (log_line (control_text fr)) (\<lambda>_.
             then_do (if stype_from_byte (stype (hdr fr)) = Some kLinktestReq
                      then then_do (runner_send_control kLinktestRsp (system_bytes (hdr fr))) (\<lambda>_. ret ())
                      else ret ()) (\<lambda>_.
               push_control fr))
      else case to_message fr of
             Inl e \<Rightarrow>
               log_line (''<< (undecodable data message S'' @ show_nat (unat (header_stream (hdr fr))) @
                 ''F'' @ show_nat (unat (header_function (hdr fr))) @ '': '' @ message e @ '')'')
           | Inr m \<Rightarrow>
               then_do (log_line (''<< '' @ message_to_text m)) (\<lambda>_.
                 then_do (\<lambda>r. if \<not> rn_auto_ack r then ret () r
                              else case auto_ack_for m of None \<Rightarrow> ret () r | Some a \<Rightarrow> host_reply fr a r) (\<lambda>_.
                   push_received fr m)))"

fun on_frames :: "frame list \<Rightarrow> unit op" where
  "on_frames [] = ret ()"
| "on_frames (fr # frs) = then_do (on_frame fr) (\<lambda>_. on_frames frs)"

definition set_closed :: "unit op" where
  "set_closed r = Some ((), r\<lparr>rn_closed := True\<rparr>)"

definition pump :: "int \<Rightarrow> read_status op" where
  "pump timeout =
     then_do (client_read timeout) (\<lambda>(status, frames).
       then_do (on_frames frames) (\<lambda>_.
         then_do (if status = kClosed then set_closed else ret ()) (\<lambda>_. ret status)))"

section \<open>Waiting\<close>

text \<open>The first element with a property, and the list without it.\<close>

fun take_first :: "('a \<Rightarrow> bool) \<Rightarrow> 'a list \<Rightarrow> ('a \<times> 'a list) option" where
  "take_first p [] = None"
| "take_first p (x # xs) =
     (if p x then Some (x, xs) else map_option (\<lambda>(y, ys). (y, x # ys)) (take_first p xs))"

definition millis_left :: "int \<Rightarrow> int \<Rightarrow> int" where
  "millis_left deadline now = (deadline - now) div 1000000"

text \<open>The loop of \<^verbatim>\<open>wait_message\<close>.\<close>

partial_function (option) wait_message_loop ::
    "(received \<Rightarrow> bool) \<Rightarrow> int \<Rightarrow> int \<Rightarrow> string \<Rightarrow> runner \<Rightarrow> (received option \<times> runner) option" where
  "wait_message_loop pred deadline timeout what r =
     (case take_first pred (rn_queue r) of
        Some (x, q) \<Rightarrow> Some (Some x, r\<lparr>rn_queue := q\<rparr>)
      | None \<Rightarrow>
          if rn_closed r
          then Some (None, r\<lparr>rn_message := ''the connection closed while waiting for '' @ what\<rparr>)
          else Option.bind (clock_now r) (\<lambda>(now, r).
                 if millis_left deadline now \<le> 0
                 then Some (None, r\<lparr>rn_message := ''timed out after '' @ show_int timeout @
                                                   '' ms waiting for '' @ what\<rparr>)
                 else Option.bind (pump (millis_left deadline now) r) (\<lambda>(_, r).
                        wait_message_loop pred deadline timeout what r)))"

definition wait_message :: "(received \<Rightarrow> bool) \<Rightarrow> int \<Rightarrow> string \<Rightarrow> received option op" where
  "wait_message pred timeout what =
     then_do clock_now (\<lambda>now. wait_message_loop pred (now + timeout * 1000000) timeout what)"

definition is_response :: "stype \<Rightarrow> u32 \<Rightarrow> frame \<Rightarrow> bool" where
  "is_response st sys fr \<longleftrightarrow> stype (hdr fr) = stype_byte st \<and> system_bytes (hdr fr) = sys"

partial_function (option) wait_control_loop ::
    "stype \<Rightarrow> u32 \<Rightarrow> int \<Rightarrow> runner \<Rightarrow> (frame option \<times> runner) option" where
  "wait_control_loop st sys deadline r =
     (case take_first (is_response st sys) (rn_control r) of
        Some (x, q) \<Rightarrow> Some (Some x, r\<lparr>rn_control := q\<rparr>)
      | None \<Rightarrow>
          if rn_closed r
          then Some (None, r\<lparr>rn_message := ''the connection closed while waiting for '' @ stype_to_string st\<rparr>)
          else Option.bind (clock_now r) (\<lambda>(now, r).
                 if millis_left deadline now \<le> 0
                 then Some (None, r\<lparr>rn_message := ''timed out waiting for '' @ stype_to_string st\<rparr>)
                 else Option.bind (pump (millis_left deadline now) r) (\<lambda>(_, r).
                        wait_control_loop st sys deadline r)))"

definition wait_control :: "stype \<Rightarrow> u32 \<Rightarrow> int \<Rightarrow> frame option op" where
  "wait_control st sys timeout =
     then_do clock_now (\<lambda>now. wait_control_loop st sys (now + timeout * 1000000))"

section \<open>Commands\<close>

definition do_connect :: "script_command \<Rightarrow> bool op" where
  "do_connect c =
     then_do (client_connect (sc_host c) (sc_port c)) (\<lambda>res.
       case res of
         Inl e \<Rightarrow> give_up (message e)
       | Inr _ \<Rightarrow>
           (\<lambda>r. then_do (log_line (''connected to '' @ sc_host c @ '':'' @ show_nat (unat (sc_port c))))
                  (\<lambda>_. ret True) (r\<lparr>rn_closed := False, rn_queue := [], rn_control := []\<rparr>)))"

definition do_handshake :: "stype \<Rightarrow> stype \<Rightarrow> int \<Rightarrow> bool op" where
  "do_handshake request response expected =
     then_do fresh_sys (\<lambda>sys.
       then_do (runner_send_control request sys) (\<lambda>ok.
         if \<not> ok then ret False
         else then_do (wait_control response sys 5000) (\<lambda>rsp.
                case rsp of
                  None \<Rightarrow> ret False
                | Some fr \<Rightarrow>
                    if response \<noteq> kLinktestRsp \<and> uint (byte3 (hdr fr)) \<noteq> expected
                    then give_up (stype_to_string response @ '' status '' @ show_nat (unat (byte3 (hdr fr))) @
                           '', expected '' @ show_int expected)
                    else ret True)))"

definition sent_message :: "script_command \<Rightarrow> secs_message" where
  "sent_message c =
     \<lparr>stream = word_of_int (sc_stream c), func = word_of_int (sc_function c),
      w_bit = (case sc_w_bit c of Some w \<Rightarrow> w | None \<Rightarrow> sc_function c mod 2 = 1), body = sc_body c\<rparr>"

definition do_send :: "script_command \<Rightarrow> bool op" where
  "do_send c r =
     (let m = sent_message c
      in case (case body m of None \<Rightarrow> Ok [] | Some i \<Rightarrow> encode i) of
           Inl e \<Rightarrow> give_up (message e) r
         | Inr bs \<Rightarrow>
             then_do fresh_sys (\<lambda>sys.
               send_frame
                 (make_data_frame
                    (case sc_device c of Some d \<Rightarrow> word_of_int d | None \<Rightarrow> rn_device r)
                    (stream m) (func m) (w_bit m) sys bs)
                 (message_to_text m @ '' sys='' @ show_nat (unat sys))) r)"

definition is_message :: "int \<Rightarrow> int \<Rightarrow> received \<Rightarrow> bool" where
  "is_message s f x \<longleftrightarrow> uint (stream (rx_message x)) = s \<and> uint (func (rx_message x)) = f"

definition do_expect :: "script_command \<Rightarrow> bool op" where
  "do_expect c =
     (let what = sf_name (sc_stream c) (sc_function c)
      in then_do (wait_message (is_message (sc_stream c) (sc_function c)) (sc_timeout c) what) (\<lambda>got.
           case got of
             None \<Rightarrow> ret False
           | Some x \<Rightarrow>
               if \<not> matches_body (sc_pattern c) (rx_message x)
               then give_up (what @ '' arrived but its body '' @ body_text (rx_message x) @
                      '' does not match the pattern'')
               else ret True))"

definition clear_message :: "unit op" where
  "clear_message r = Some ((), r\<lparr>rn_message := []\<rparr>)"

definition do_expect_no :: "script_command \<Rightarrow> bool op" where
  "do_expect_no c =
     then_do (wait_message (is_message (sc_stream c) (sc_function c)) (sc_timeout c)
                (sf_name (sc_stream c) (sc_function c))) (\<lambda>got.
       then_do clear_message (\<lambda>_.
         case got of
           Some x \<Rightarrow> give_up (''unexpected '' @ message_to_text (rx_message x))
         | None \<Rightarrow> ret True))"

text \<open>The event a message carries, if it is the one \<^verbatim>\<open>wait-event\<close> waits for.\<close>

definition wanted_event :: "script_command \<Rightarrow> received \<Rightarrow> event_report option" where
  "wanted_event c x =
     (let m = rx_message x
      in if stream m \<noteq> 6 \<or> func m \<noteq> 11 then None
         else case parse_s6f11 m of
                Inl _ \<Rightarrow> None
              | Inr e \<Rightarrow>
                  if ceid e \<noteq> sc_id c then None
                  else if list_all (\<lambda>(field, wanted).
                            case find_event_field e field of
                              None \<Rightarrow> False | Some v \<Rightarrow> item_equals_text v wanted) (sc_filters c)
                  then Some e else None)"

definition do_wait_event :: "script_command \<Rightarrow> bool op" where
  "do_wait_event c =
     (let what = ''event '' @ show_nat (unat (sc_id c)) @ '' '' @ ceid_name (sc_id c) @
                 concat (map (\<lambda>(field, wanted). '' '' @ field @ ''='' @ wanted) (sc_filters c))
      in then_do (wait_message (\<lambda>x. wanted_event c x \<noteq> None) (sc_timeout c) what) (\<lambda>got r.
           case got of
             None \<Rightarrow> ret False r
           | Some x \<Rightarrow> Some (True, r\<lparr>rn_event := wanted_event c x\<rparr>)))"

definition wanted_alarm :: "script_command \<Rightarrow> received \<Rightarrow> alarm_report option" where
  "wanted_alarm c x =
     (let m = rx_message x
      in if stream m \<noteq> 5 \<or> func m \<noteq> 1 then None
         else case parse_s5f1 m of
                Inl _ \<Rightarrow> None
              | Inr a \<Rightarrow>
                  if ar_alid a \<noteq> sc_id c then None
                  else if (alcd a AND kAlcdSetBit \<noteq> 0) \<noteq> sc_alarm_set c then None
                  else Some a)"

definition do_wait_alarm :: "script_command \<Rightarrow> bool op" where
  "do_wait_alarm c =
     then_do (wait_message (\<lambda>x. wanted_alarm c x \<noteq> None) (sc_timeout c)
                (''alarm '' @ show_nat (unat (sc_id c)) @ (if sc_alarm_set c then '' set'' else '' clear''))) (\<lambda>got r.
       case got of
         None \<Rightarrow> ret False r
       | Some x \<Rightarrow> Some (True, r\<lparr>rn_alarm := wanted_alarm c x\<rparr>))"

partial_function (option) expect_closed_loop :: "int \<Rightarrow> runner \<Rightarrow> (bool \<times> runner) option" where
  "expect_closed_loop deadline r =
     (if rn_closed r then Some (True, r)
      else Option.bind (clock_now r) (\<lambda>(now, r).
             if millis_left deadline now \<le> 0
             then Some (False, r\<lparr>rn_message := ''the machine did not close the connection''\<rparr>)
             else Option.bind (pump (millis_left deadline now) r) (\<lambda>(_, r). expect_closed_loop deadline r)))"

definition do_expect_closed :: "script_command \<Rightarrow> bool op" where
  "do_expect_closed c = then_do clock_now (\<lambda>now. expect_closed_loop (now + sc_timeout c * 1000000))"

text \<open>Sleeping while still reading; the clock is read for the test and again for the wait.\<close>

partial_function (option) sleep_loop :: "int \<Rightarrow> runner \<Rightarrow> (bool \<times> runner) option" where
  "sleep_loop end_time r =
     Option.bind (clock_now r) (\<lambda>(now, r).
       if now \<ge> end_time then Some (True, r)
       else Option.bind (clock_now r) (\<lambda>(now, r).
              if client_is_open r \<and> \<not> rn_closed r
              then Option.bind (pump (min (millis_left end_time now) 50) r) (\<lambda>(_, r). sleep_loop end_time r)
              else sleep_loop end_time r))"

definition do_sleep :: "int \<Rightarrow> bool op" where
  "do_sleep duration = then_do clock_now (\<lambda>now. sleep_loop (now + duration * 1000000))"

definition answers_status :: "u32 \<Rightarrow> received \<Rightarrow> bool" where
  "answers_status sys x \<longleftrightarrow>
     system_bytes (hdr (rx_frame x)) = sys \<and> stream (rx_message x) = 1 \<and> func (rx_message x) = 4"

text \<open>The value in an S1F4 of one status variable.\<close>

definition status_answer :: "received \<Rightarrow> item option" where
  "status_answer x =
     (case body (rx_message x) of
        Some (LIST [v]) \<Rightarrow> Some v
      | _ \<Rightarrow> None)"

text \<open>One request of \<^verbatim>\<open>expect-status\<close>: its answer, or nothing when the step has failed.\<close>

definition ask_status :: "u32 \<Rightarrow> received option op" where
  "ask_status sv r =
     (let ask = make_s1f3 [sv]
      in case encoded_body ask of
           None \<Rightarrow> None
         | Some bs \<Rightarrow>
             then_do fresh_sys (\<lambda>sys.
               then_do (send_frame (make_data_frame (rn_device r) 1 3 True sys bs)
                          (message_to_text ask @ '' sys='' @ show_nat (unat sys))) (\<lambda>ok.
                 if \<not> ok then ret None
                 else wait_message (answers_status sys) 5000 ''S1F4'')) r)"

partial_function (option) expect_status_loop ::
    "script_command \<Rightarrow> int \<Rightarrow> string \<Rightarrow> runner \<Rightarrow> (bool \<times> runner) option" where
  "expect_status_loop c deadline seen r =
     Option.bind (ask_status (sc_id c) r) (\<lambda>(got, r).
       case got of
         None \<Rightarrow> Some (False, r)
       | Some x \<Rightarrow>
           let v = status_answer x;
               seen = (case v of None \<Rightarrow> seen | Some i \<Rightarrow> item_to_text i);
               found = (case (v, sc_pattern c) of (Some i, Some p) \<Rightarrow> matches p i | _ \<Rightarrow> False)
           in if found then Some (True, r)
              else Option.bind (clock_now r) (\<lambda>(now, r).
                     if now \<ge> deadline
                     then Some (False, r\<lparr>rn_message := ''status variable '' @ show_nat (unat (sc_id c)) @ '' was '' @
                                          seen @ '', never matched the pattern''\<rparr>)
                     else Option.bind (do_sleep 200 r) (\<lambda>(_, r). expect_status_loop c deadline seen r)))"

definition do_expect_status :: "script_command \<Rightarrow> bool op" where
  "do_expect_status c =
     then_do clock_now (\<lambda>now. expect_status_loop c (now + sc_timeout c * 1000000) ''(no answer)'')"

text \<open>The item an assertion is about, or why there is none.\<close>

definition asserted_value :: "string \<Rightarrow> runner \<Rightarrow> string + item" where
  "asserted_value field r =
     (let name = drop 6 field
      in if starts_with ''event.'' field
         then (case rn_event r of
                 None \<Rightarrow> Inl ''no event yet: use wait-event before asserting on event.*''
               | Some e \<Rightarrow>
                   (case find_event_field e name of
                      None \<Rightarrow> Inl (''the last event has no field '' @ name)
                    | Some v \<Rightarrow> Inr v))
         else (case rn_alarm r of
                 None \<Rightarrow> Inl ''no alarm yet: use wait-alarm before asserting on alarm.*''
               | Some a \<Rightarrow>
                   if name = ''ALID'' then Inr (U4 [ar_alid a])
                   else if name = ''ALCD'' then Inr (U1 [alcd a])
                   else if name = ''ALTX'' then Inr (ASCII (altx a))
                   else Inl (''unknown alarm field '' @ name @ '' (ALID, ALCD, ALTX)'')))"

definition assert_equal :: "script_command \<Rightarrow> item \<Rightarrow> bool" where
  "assert_equal c v =
     (if sc_value_is_number c then (case as_number v of None \<Rightarrow> False | Some x \<Rightarrow> near x (sc_number c))
      else if item_format v = kAscii then as_ascii v = sc_value c
      else if item_format v = kBoolean
      then (case as_number v of None \<Rightarrow> False | Some x \<Rightarrow> \<not> f8_eq x 0) = (sc_value c = ''true'')
      else False)"

definition do_assert :: "script_command \<Rightarrow> bool op" where
  "do_assert c r =
     (case asserted_value (sc_field c) r of
        Inl why \<Rightarrow> give_up why r
      | Inr v \<Rightarrow>
          let shown = item_to_text v
          in if sc_op c = kWithin
             then (case as_number v of
                     None \<Rightarrow> give_up (sc_field c @ '' is '' @ shown @ '', not a number'') r
                   | Some x \<Rightarrow>
                       if f8_less (sc_tolerance c) (f8_fabs (f8_sub x (sc_number c)))
                       then give_up (sc_field c @ '' is '' @ shown @ '', outside '' @ show_f (sc_number c) @
                              '' +- '' @ show_f (sc_tolerance c)) r
                       else ret True r)
             else if assert_equal c v \<noteq> (sc_op c = kEqual)
             then give_up (sc_field c @ '' is '' @ shown @
                    (if sc_op c = kEqual then '', expected '' else '', expected not '') @
                    (if sc_value_is_number c then show_f (sc_number c) else sc_value c)) r
             else ret True r)"

definition do_raw :: "script_command \<Rightarrow> bool op" where
  "do_raw c =
     then_do (log_line (''>> raw '' @ show_nat (length (sc_raw c)) @ '' byte(s)'')) (\<lambda>_.
       then_do (send_bytes (sc_raw c)) (\<lambda>sent.
         case sent of Inl e \<Rightarrow> give_up (message e) | Inr _ \<Rightarrow> ret True))"

definition status_or_0 :: "script_command \<Rightarrow> int" where
  "status_or_0 c = (case sc_status c of None \<Rightarrow> 0 | Some n \<Rightarrow> n)"

definition execute :: "script_command \<Rightarrow> bool op" where
  "execute c =
     (case sc_kind c of
        CmdConnect \<Rightarrow> do_connect c
      | CmdSelect \<Rightarrow> do_handshake kSelectReq kSelectRsp (status_or_0 c)
      | CmdDeselect \<Rightarrow> do_handshake kDeselectReq kDeselectRsp (status_or_0 c)
      | CmdLinktest \<Rightarrow> do_handshake kLinktestReq kLinktestRsp 0
      | CmdSeparate \<Rightarrow> then_do fresh_sys (\<lambda>sys. runner_send_control kSeparateReq sys)
      | CmdSend \<Rightarrow> do_send c
      | CmdExpect \<Rightarrow> do_expect c
      | CmdExpectNo \<Rightarrow> do_expect_no c
      | CmdWaitEvent \<Rightarrow> do_wait_event c
      | CmdWaitAlarm \<Rightarrow> do_wait_alarm c
      | CmdExpectClosed \<Rightarrow> do_expect_closed c
      | CmdExpectStatus \<Rightarrow> do_expect_status c
      | CmdAssert \<Rightarrow> do_assert c
      | CmdAutoAck \<Rightarrow> (\<lambda>r. Some (True, r\<lparr>rn_auto_ack := sc_flag c\<rparr>))
      | CmdSleep \<Rightarrow> do_sleep (sc_timeout c)
      | CmdRaw \<Rightarrow> do_raw c
      | CmdDisconnect \<Rightarrow> then_do client_close (\<lambda>_. then_do set_closed (\<lambda>_. ret True)))"

record run_result =
  rr_ok :: bool
  failed_line :: nat
  rr_message :: string

fun run_commands :: "script_command list \<Rightarrow> run_result op" where
  "run_commands [] =
     (\<lambda>r. then_do (if rn_queue r \<noteq> []
                   then log_line (''('' @ show_nat (length (rn_queue r)) @
                          '' received message(s) were never consumed by the script)'')
                   else ret ()) (\<lambda>_.
            then_do client_close (\<lambda>_. ret \<lparr>rr_ok = True, failed_line = 0, rr_message = []\<rparr>)) r)"
| "run_commands (c # cs) =
     then_do clear_message (\<lambda>_.
       then_do (execute c) (\<lambda>ok.
         if ok then run_commands cs
         else then_do client_close (\<lambda>_ r.
                ret \<lparr>rr_ok = False, failed_line = sc_line c, rr_message = sc_text c @ '': '' @ rn_message r\<rparr> r)))"

definition run_script :: "script_command list \<Rightarrow> u16 \<Rightarrow> answer list \<Rightarrow> (run_result \<times> runner) option" where
  "run_script cs device env = run_commands cs (new_runner device env)"

section \<open>What happens while the runner waits\<close>

text \<open>The calls of \<^verbatim>\<open>write\<close>, in order.\<close>

fun wires :: "host_out list \<Rightarrow> byte list list" where
  "wires [] = []"
| "wires (Wire bs # es) = bs # wires es"
| "wires (_ # es) = wires es"

lemma wires_append [simp]: "wires (es @ fs) = wires es @ wires fs"
  by (induction es rule: wires.induct) simp_all

text \<open>The frames that the bytes among some answers complete, and the decoder after them.\<close>

fun read_frames :: "frame_decoder \<Rightarrow> answer list \<Rightarrow> frame list \<times> frame_decoder" where
  "read_frames d [] = ([], d)"
| "read_frames d (Bytes bs # as) =
     (case feed bs d of
        (Inl e, d') \<Rightarrow> read_frames d' as
      | (Inr fs, d') \<Rightarrow> (case read_frames d' as of (gs, d'') \<Rightarrow> (fs @ gs, d'')))"
| "read_frames d (_ # as) = read_frames d as"

lemma read_frames_append:
  "read_frames d (as @ bs) =
     (case read_frames d as of (fs, d') \<Rightarrow> (case read_frames d' bs of (gs, d'') \<Rightarrow> (fs @ gs, d'')))"
  by (induction d as rule: read_frames.induct) (simp_all split: prod.split sum.split)

text \<open>The looks at the clock among some answers.\<close>

fun clocks :: "answer list \<Rightarrow> int list" where
  "clocks [] = []"
| "clocks (Now t # as) = t # clocks as"
| "clocks (_ # as) = clocks as"

lemma clocks_append [simp]: "clocks (as @ bs) = clocks as @ clocks bs"
  by (induction as rule: clocks.induct) simp_all

definition data_of :: "frame \<Rightarrow> received list" where
  "data_of fr =
     (if stype (hdr fr) \<noteq> 0 then []
      else case to_message fr of Inl _ \<Rightarrow> [] | Inr m \<Rightarrow> [\<lparr>rx_frame = fr, rx_message = m\<rparr>])"

definition control_of :: "frame \<Rightarrow> frame list" where
  "control_of fr = (if stype (hdr fr) \<noteq> 0 then [fr] else [])"

text \<open>
  What the runner must write for a frame: the answer to Linktest.req, and with auto-ack the
  acknowledgement of an event or alarm report that asks for one.
\<close>

definition ack_frame :: "frame \<Rightarrow> secs_message \<Rightarrow> frame" where
  "ack_frame fr a =
     make_data_frame (session_id (hdr fr)) (stream a) (func a) False (system_bytes (hdr fr)) (the (encoded_body a))"

definition due_frames :: "bool \<Rightarrow> frame \<Rightarrow> frame list" where
  "due_frames auto fr =
     (if stype (hdr fr) \<noteq> 0
      then (if stype (hdr fr) = stype_byte kLinktestReq
            then [make_control_frame kLinktestRsp (system_bytes (hdr fr)) 0 0] else [])
      else case to_message fr of
             Inl _ \<Rightarrow> []
           | Inr m \<Rightarrow>
               if auto then (case auto_ack_for m of None \<Rightarrow> [] | Some a \<Rightarrow> [ack_frame fr a]) else [])"

definition due :: "bool \<Rightarrow> frame list \<Rightarrow> byte list list" where
  "due auto frs = concat (map (\<lambda>fr. map (\<lambda>g. projr (encode_frame g)) (due_frames auto fr)) frs)"

definition heard :: "answer list \<Rightarrow> frame list \<Rightarrow> runner \<Rightarrow> runner \<Rightarrow> bool" where
  "heard used frs r r' \<longleftrightarrow>
     rn_env r = used @ rn_env r' \<and>
     read_frames (hc_decoder (rn_client r)) used = (frs, hc_decoder (rn_client r')) \<and>
     rn_queue r' = rn_queue r @ concat (map data_of frs) \<and>
     rn_control r' = rn_control r @ concat (map control_of frs) \<and>
     wires (rn_out r') = wires (rn_out r) @ due (rn_auto_ack r) frs \<and>
     rn_auto_ack r' = rn_auto_ack r \<and> rn_next_sys r' = rn_next_sys r"

lemma heard_refl: "heard [] [] r r"
  by (simp add: heard_def due_def)

lemma heard_trans: "heard u1 f1 r r1 \<Longrightarrow> heard u2 f2 r1 r2 \<Longrightarrow> heard (u1 @ u2) (f1 @ f2) r r2"
  by (auto simp: heard_def due_def read_frames_append)

text \<open>The same for answers that bring no bytes.\<close>

definition reacted :: "runner \<Rightarrow> frame list \<Rightarrow> runner \<Rightarrow> bool" where
  "reacted r frs r' \<longleftrightarrow>
     (\<exists>used. rn_env r = used @ rn_env r' \<and> (\<forall>d. read_frames d used = ([], d)) \<and> clocks used = []) \<and>
     rn_client r' = rn_client r \<and>
     rn_queue r' = rn_queue r @ concat (map data_of frs) \<and>
     rn_control r' = rn_control r @ concat (map control_of frs) \<and>
     wires (rn_out r') = wires (rn_out r) @ due (rn_auto_ack r) frs \<and>
     rn_auto_ack r' = rn_auto_ack r \<and> rn_next_sys r' = rn_next_sys r"

lemma then_do_Some:
  "then_do m f r = Some y \<longleftrightarrow> (\<exists>x r'. m r = Some (x, r') \<and> f x r' = Some y)"
  by (auto simp: then_do_def split: option.splits)

lemma send_frame_effect:
  assumes "send_frame fr what r = Some (ok, r')" "encode_frame fr = Ok bs" "hc_open (rn_client r)"
  shows "\<exists>a why. (a = Written \<or> a = Write_failed why) \<and> rn_env r = a # rn_env r' \<and>
    r' = r\<lparr>rn_out := rn_out r @ [Log (''>> '' @ what), Wire bs], rn_env := rn_env r', rn_message := rn_message r'\<rparr>"
  using assms
  by (auto simp: send_frame_def then_do_Some log_line_def emit_def send_bytes_def give_up_def ret_def Let_def
      split: list.splits answer.splits)

lemma encode_small: "length (fbody fr) \<le> 1000 \<Longrightarrow> \<exists>bs. encode_frame fr = Ok bs"
  by (simp add: encode_frame_def Let_def kHeaderSize_def)

lemma ack_encodes: "auto_ack_for m = Some a \<Longrightarrow> encoded_body a = Some [0x21, 1, 0]"
proof -
  assume "auto_ack_for m = Some a"
  then have "body a = Some (BINARY [0])"
    by (auto simp: auto_ack_for_def make_s6f12_def make_s5f2_def make_message_def kAckAccepted_def split: if_splits)
  moreover have "encode (BINARY [0]) = Ok [0x21, 1, 0]" by (simp add: encode_eval)
  ultimately show ?thesis by (simp add: encoded_body_def)
qed

lemma reacted_refl: "reacted r [] r"
  by (auto simp: reacted_def due_def intro!: exI [of _ "[]"])

lemma reacted_trans: "reacted r f1 r1 \<Longrightarrow> reacted r1 f2 r2 \<Longrightarrow> reacted r (f1 @ f2) r2"
proof -
  assume a: "reacted r f1 r1" "reacted r1 f2 r2"
  then obtain u1 u2 where "rn_env r = u1 @ rn_env r1" "rn_env r1 = u2 @ rn_env r2"
    "\<forall>d. read_frames d u1 = ([], d)" "\<forall>d. read_frames d u2 = ([], d)" "clocks u1 = []" "clocks u2 = []"
    by (auto simp: reacted_def)
  then have "rn_env r = (u1 @ u2) @ rn_env r2 \<and> (\<forall>d. read_frames d (u1 @ u2) = ([], d)) \<and> clocks (u1 @ u2) = []"
    by (simp add: read_frames_append)
  with a show ?thesis unfolding reacted_def by (auto simp: due_def)
qed

text \<open>A frame sent as a reaction, before and after which only logs are written.\<close>

lemma sent_reaction:
  assumes "send_frame g what r = Some (ok, r1)" "hc_open (rn_client r)" "length (fbody g) \<le> 1000"
  shows "\<exists>a. rn_env r = a # rn_env r1 \<and> (\<forall>d. read_frames d [a] = ([], d)) \<and> clocks [a] = [] \<and>
    rn_client r1 = rn_client r \<and> rn_queue r1 = rn_queue r \<and> rn_control r1 = rn_control r \<and>
    wires (rn_out r1) = wires (rn_out r) @ [projr (encode_frame g)] \<and>
    rn_auto_ack r1 = rn_auto_ack r \<and> rn_next_sys r1 = rn_next_sys r \<and> rn_closed r1 = rn_closed r"
proof -
  obtain bs where bs: "encode_frame g = Ok bs" using encode_small [OF assms(3)] by blast
  obtain a why where a: "a = Written \<or> a = Write_failed why" and e: "rn_env r = a # rn_env r1"
    and r1: "r1 = r\<lparr>rn_out := rn_out r @ [Log (''>> '' @ what), Wire bs], rn_env := rn_env r1, rn_message := rn_message r1\<rparr>"
    using send_frame_effect [OF assms(1) bs assms(2)] by blast
  have f: "rn_client r1 = rn_client r" "rn_queue r1 = rn_queue r" "rn_control r1 = rn_control r"
    "rn_out r1 = rn_out r @ [Log (''>> '' @ what), Wire bs]" "rn_auto_ack r1 = rn_auto_ack r"
    "rn_next_sys r1 = rn_next_sys r" "rn_closed r1 = rn_closed r"
    by (subst r1, simp)+
  show ?thesis using a e f bs by auto
qed

lemma on_frame_reacts:
  assumes "on_frame fr r = Some (u, r')" "hc_open (rn_client r)"
  shows "reacted r [fr] r' \<and> rn_closed r' = rn_closed r"
proof (cases "stype (hdr fr) \<noteq> 0")
  case control: True
  show ?thesis
  proof (cases "stype_from_byte (stype (hdr fr)) = Some kLinktestReq")
    case True
    then have st: "stype (hdr fr) = stype_byte kLinktestReq" using stype_from_byte_Some by metis
    let ?g = "make_control_frame kLinktestRsp (system_bytes (hdr fr)) 0 0"
    obtain what ok r1 where s: "send_frame ?g what (r\<lparr>rn_out := rn_out r @ [Log (control_text fr)]\<rparr>) = Some (ok, r1)"
      and r': "r' = r1\<lparr>rn_control := rn_control r1 @ [fr]\<rparr>"
      using assms(1) control True
      by (auto simp: on_frame_def then_do_Some log_line_def emit_def runner_send_control_def ret_def push_control_def)
    have "length (fbody ?g) \<le> 1000" by (simp add: make_control_frame_def)
    from sent_reaction [OF s _ this] assms(2) obtain a where
      "rn_env r = a # rn_env r1" "\<forall>d. read_frames d [a] = ([], d)" "clocks [a] = []"
      "rn_client r1 = rn_client r" "rn_queue r1 = rn_queue r" "rn_control r1 = rn_control r"
      "wires (rn_out r1) = wires (rn_out r) @ [projr (encode_frame ?g)]"
      "rn_auto_ack r1 = rn_auto_ack r" "rn_next_sys r1 = rn_next_sys r" "rn_closed r1 = rn_closed r"
      by auto
    then show ?thesis
      using control st unfolding reacted_def r'
      by (auto simp: data_of_def control_of_def due_def due_frames_def intro!: exI [of _ "[a]"])
  next
    case False
    then have "stype (hdr fr) \<noteq> stype_byte kLinktestReq" by (auto simp del: stype_byte.simps)
    then show ?thesis
      using assms(1) control False
      by (auto simp: on_frame_def then_do_Some log_line_def emit_def ret_def push_control_def reacted_def
          data_of_def control_of_def due_def due_frames_def intro!: exI [of _ "[]"])
  qed
next
  case data: False
  show ?thesis
  proof (cases "to_message fr")
    case (Inl e)
    then show ?thesis
      using assms(1) data
      by (auto simp: on_frame_def log_line_def emit_def reacted_def data_of_def control_of_def due_def
          due_frames_def intro!: exI [of _ "[]"])
  next
    case (Inr m)
    show ?thesis
    proof (cases "if rn_auto_ack r then auto_ack_for m else None")
      case None
      then show ?thesis
        using assms(1) data Inr
        by (auto simp: on_frame_def then_do_Some log_line_def emit_def ret_def push_received_def reacted_def
            data_of_def control_of_def due_def due_frames_def intro!: exI [of _ "[]"] split: if_splits)
    next
      case (Some a)
      then have auto: "rn_auto_ack r" "auto_ack_for m = Some a" by (simp_all split: if_splits)
      note enc = ack_encodes [OF auto(2)]
      let ?g = "ack_frame fr a"
      obtain what ok r1 where s: "send_frame ?g what (r\<lparr>rn_out := rn_out r @ [Log (''<< '' @ message_to_text m)]\<rparr>) = Some (ok, r1)"
        and r': "r' = r1\<lparr>rn_queue := rn_queue r1 @ [\<lparr>rx_frame = fr, rx_message = m\<rparr>]\<rparr>"
        using assms(1) data Inr auto enc
        by (auto simp: on_frame_def then_do_Some log_line_def emit_def ret_def push_received_def
            host_reply_def ack_frame_def)
      have "length (fbody ?g) \<le> 1000" by (simp add: ack_frame_def make_data_frame_def enc)
      from sent_reaction [OF s _ this] assms(2) obtain a' where
        "rn_env r = a' # rn_env r1" "\<forall>d. read_frames d [a'] = ([], d)" "clocks [a'] = []"
        "rn_client r1 = rn_client r" "rn_queue r1 = rn_queue r" "rn_control r1 = rn_control r"
        "wires (rn_out r1) = wires (rn_out r) @ [projr (encode_frame ?g)]"
        "rn_auto_ack r1 = rn_auto_ack r" "rn_next_sys r1 = rn_next_sys r" "rn_closed r1 = rn_closed r"
        by auto
      then show ?thesis
        using data Inr auto unfolding reacted_def r'
        by (auto simp: data_of_def control_of_def due_def due_frames_def intro!: exI [of _ "[a']"])
    qed
  qed
qed

lemma on_frames_react:
  assumes "on_frames frs r = Some (u, r')" "hc_open (rn_client r)"
  shows "reacted r frs r' \<and> rn_closed r' = rn_closed r"
  using assms
proof (induction frs arbitrary: r)
  case (Cons fr frs)
  then obtain r1 where 1: "on_frame fr r = Some ((), r1)" "on_frames frs r1 = Some (u, r')"
    by (auto simp: then_do_Some)
  note f = on_frame_reacts [OF 1(1) Cons.prems(2)]
  then have "hc_open (rn_client r1)" using Cons.prems(2) by (simp add: reacted_def)
  with Cons.IH [OF 1(2)] f reacted_trans [of r "[fr]" r1 frs r'] show ?case by simp
qed (auto simp: ret_def reacted_refl)

lemma pump_heard:
  assumes "pump timeout r = Some (status, r')"
  shows "\<exists>used frs. heard used frs r r' \<and> clocks used = []"
proof -
  obtain frs r1 r2 where 1: "client_read timeout r = Some ((status, frs), r1)"
    and 2: "on_frames frs r1 = Some ((), r2)"
    and r': "r' = (if status = kClosed then r2\<lparr>rn_closed := True\<rparr> else r2)"
    using assms by (auto simp: pump_def then_do_Some set_closed_def ret_def split: if_splits)
  have "\<exists>used frs. heard used frs r r2 \<and> clocks used = []"
  proof (cases "hc_open (rn_client r) \<and> \<not> hc_closed (rn_client r)")
    case False
    then have "r1 = r" "frs = []" using 1 by (auto simp: client_read_def)
    then show ?thesis using 2 heard_refl [of r] by (auto simp: ret_def intro!: exI [of _ "[]"])
  next
    case True
    show ?thesis
    proof (cases "\<exists>bs env fs d. rn_env r = Bytes bs # env \<and> feed bs (hc_decoder (rn_client r)) = (Inr fs, d)")
      case False
      then have "frs = []" "\<exists>a. heard [a] [] r r1 \<and> clocks [a] = []" using 1 True
        by (auto simp: client_read_def heard_def due_def set_client_def Let_def
            split: list.splits answer.splits prod.splits sum.splits)
      then show ?thesis using 2 by (auto simp: ret_def)
    next
      case bytes: True
      then obtain bs env d where f: "rn_env r = Bytes bs # env" "feed bs (hc_decoder (rn_client r)) = (Inr frs, d)"
        and r1: "r1 = r\<lparr>rn_env := env, rn_client := (rn_client r)\<lparr>hc_decoder := d\<rparr>\<rparr>"
        using 1 True by (auto simp: client_read_def set_client_def Let_def)
      then have "reacted r1 frs r2" using on_frames_react [OF 2] True by simp
      then obtain used where "env = used @ rn_env r2" "\<forall>d. read_frames d used = ([], d)" "clocks used = []"
        "rn_client r2 = rn_client r1" "rn_queue r2 = rn_queue r @ concat (map data_of frs)"
        "rn_control r2 = rn_control r @ concat (map control_of frs)"
        "wires (rn_out r2) = wires (rn_out r) @ due (rn_auto_ack r) frs"
        "rn_auto_ack r2 = rn_auto_ack r" "rn_next_sys r2 = rn_next_sys r"
        by (auto simp: reacted_def r1)
      then have "heard (Bytes bs # used) frs r r2 \<and> clocks (Bytes bs # used) = []" using f by (simp add: heard_def r1)
      then show ?thesis by blast
    qed
  qed
  then show ?thesis unfolding r' by (auto simp: heard_def)
qed

lemma clock_now_step: "clock_now r = Some (t, r') \<Longrightarrow> heard [Now t] [] r r'"
  by (auto simp: clock_now_def heard_def due_def split: list.splits answer.splits)

lemma take_first_None: "take_first p xs = None \<longleftrightarrow> list_all (\<lambda>x. \<not> p x) xs"
  by (induction xs) auto

text \<open>
  What a wait leaves behind: it took the first match, or there was none and the time or the link was up; and
  it did not go on after a look at the clock that showed the time up.
\<close>

definition in_time :: "int \<Rightarrow> int \<Rightarrow> bool" where
  "in_time deadline t \<longleftrightarrow> 0 < millis_left deadline t"

definition waited :: "(received \<Rightarrow> bool) \<Rightarrow> int \<Rightarrow> received option \<Rightarrow> runner \<Rightarrow> runner \<Rightarrow> bool" where
  "waited pred deadline got r r' \<longleftrightarrow>
     (\<exists>used frs q. heard used frs r (r'\<lparr>rn_queue := q\<rparr>) \<and> list_all (in_time deadline) (butlast (clocks used)) \<and>
        (case got of
           Some x \<Rightarrow> take_first pred q = Some (x, rn_queue r') \<and> list_all (in_time deadline) (clocks used)
         | None \<Rightarrow> take_first pred q = None \<and> rn_queue r' = q \<and>
             (rn_closed r' \<or> clocks used \<noteq> [] \<and> \<not> in_time deadline (last (clocks used)))))"

lemma waited_after:
  assumes "heard u f r r1" "list_all (in_time deadline) (clocks u)" "waited pred deadline got r1 r'"
  shows "waited pred deadline got r r'"
proof -
  from assms(3) obtain used frs q where h: "heard used frs r1 (r'\<lparr>rn_queue := q\<rparr>)"
    and g: "list_all (in_time deadline) (butlast (clocks used))" "case got of
           Some x \<Rightarrow> take_first pred q = Some (x, rn_queue r') \<and> list_all (in_time deadline) (clocks used)
         | None \<Rightarrow> take_first pred q = None \<and> rn_queue r' = q \<and>
             (rn_closed r' \<or> clocks used \<noteq> [] \<and> \<not> in_time deadline (last (clocks used)))"
    unfolding waited_def by blast
  have "heard (u @ used) (f @ frs) r (r'\<lparr>rn_queue := q\<rparr>)" by (rule heard_trans [OF assms(1) h])
  moreover have "list_all (in_time deadline) (butlast (clocks (u @ used)))"
    using g(1) assms(2) by (auto simp: butlast_append list_all_iff dest: in_set_butlastD)
  moreover have "case got of
           Some x \<Rightarrow> take_first pred q = Some (x, rn_queue r') \<and> list_all (in_time deadline) (clocks (u @ used))
         | None \<Rightarrow> take_first pred q = None \<and> rn_queue r' = q \<and>
             (rn_closed r' \<or> clocks (u @ used) \<noteq> [] \<and> \<not> in_time deadline (last (clocks (u @ used))))"
    using g(2) assms(2) by (auto split: option.splits)
  ultimately show ?thesis unfolding waited_def by blast
qed

lemma wait_message_loop_waited:
  "wait_message_loop pred deadline timeout what r = Some y \<Longrightarrow> waited pred deadline (fst y) r (snd y)"
proof (induction rule: wait_message_loop.raw_induct [rotated, consumes 1, case_names step])
  case (step loop pred deadline timeout what r y)
  obtain got r' where y: "y = (got, r')" by force
  note 1 = step(1) step(2) [unfolded y]
  have "waited pred deadline got r r'"
  proof (cases "take_first pred (rn_queue r)")
    case (Some z)
    then obtain x q where y: "take_first pred (rn_queue r) = Some (x, q)" "got = Some x" "r' = r\<lparr>rn_queue := q\<rparr>"
      using 1(2) by (cases z) auto
    have "heard [] [] r (r'\<lparr>rn_queue := rn_queue r\<rparr>)" using heard_refl [of r] by (simp add: y(3))
    with y show ?thesis unfolding waited_def by (intro exI [of _ "[]"] exI [of _ "rn_queue r"]) simp
  next
    case none: None
    show ?thesis
    proof (cases "rn_closed r")
      case True
      then have "got = None" "r' = r\<lparr>rn_message := ''the connection closed while waiting for '' @ what\<rparr>"
        using 1(2) none by simp_all
      with none True show ?thesis
        unfolding waited_def by (auto simp: heard_def due_def intro!: exI [of _ "[]"])
    next
      case False
      then obtain now r1 where c: "clock_now r = Some (now, r1)" using 1(2) none by (cases "clock_now r") auto
      note h = clock_now_step [OF c]
      show ?thesis
      proof (cases "millis_left deadline now \<le> 0")
        case True
        then have "got = None" "r' = r1\<lparr>rn_message := ''timed out after '' @ show_int timeout @ '' ms waiting for '' @ what\<rparr>"
          using 1(2) none False c by simp_all
        with none True h show ?thesis
          unfolding waited_def by (auto simp: heard_def due_def in_time_def intro!: exI [of _ "[Now now]"])
      next
        case more: False
        then obtain st r2 where p: "pump (millis_left deadline now) r1 = Some (st, r2)"
          and l: "loop pred deadline timeout what r2 = Some (got, r')"
          using 1(2) none False c by (cases "pump (millis_left deadline now) r1") auto
        obtain u f where u: "heard u f r1 r2" "clocks u = []" using pump_heard [OF p] by blast
        have "heard (Now now # u) f r r2" using heard_trans [OF h u(1)] by simp
        from waited_after [OF this _ ] 1(1) [OF l] u(2) more show ?thesis by (simp add: in_time_def)
      qed
    qed
  qed
  then show ?case by (simp add: y)
qed

text \<open>
  A machine that is silent or talks while the clock runs on: at each time either nothing comes or some bytes
  do, after which every reply they call for is written.
\<close>

fun talk :: "bool \<Rightarrow> frame_decoder \<Rightarrow> (int \<times> byte list option) list \<Rightarrow> answer list" where
  "talk auto d [] = []"
| "talk auto d ((t, None) # xs) = Now t # Silence # talk auto d xs"
| "talk auto d ((t, Some bs) # xs) =
     Now t # Bytes bs #
       (case feed bs d of
          (Inl e, d') \<Rightarrow> []
        | (Inr frs, d') \<Rightarrow> replicate (length (due auto frs)) Written @ talk auto d' xs)"

text \<open>Nothing of it is malformed, and nothing of it is what the wait is for.\<close>

fun beside :: "(received \<Rightarrow> bool) \<Rightarrow> frame_decoder \<Rightarrow> (int \<times> byte list option) list \<Rightarrow> bool" where
  "beside pred d [] = True"
| "beside pred d ((t, None) # xs) = beside pred d xs"
| "beside pred d ((t, Some bs) # xs) =
     (case feed bs d of
        (Inl e, d') \<Rightarrow> False
      | (Inr frs, d') \<Rightarrow> list_all (\<lambda>x. \<not> pred x) (concat (map data_of frs)) \<and> beside pred d' xs)"

lemma send_frame_written:
  assumes "hc_open (rn_client r)" "rn_env r = Written # env" "length (fbody g) \<le> 1000"
  shows "\<exists>r'. send_frame g what r = Some (True, r') \<and> rn_env r' = env"
  using encode_small [OF assms(3)] assms(1,2)
  by (auto simp: send_frame_def then_do_def log_line_def emit_def send_bytes_def ret_def Let_def)

lemma on_frame_written:
  assumes "hc_open (rn_client r)" "rn_env r = replicate (length (due (rn_auto_ack r) [fr])) Written @ env"
  shows "\<exists>r'. on_frame fr r = Some ((), r') \<and> rn_env r' = env"
proof (cases "stype (hdr fr) \<noteq> 0")
  case control: True
  show ?thesis
  proof (cases "stype_from_byte (stype (hdr fr)) = Some kLinktestReq")
    case True
    then have "stype (hdr fr) = stype_byte kLinktestReq" using stype_from_byte_Some by metis
    then have e: "rn_env r = Written # env" using assms(2) control by (simp add: due_def due_frames_def)
    let ?g = "make_control_frame kLinktestRsp (system_bytes (hdr fr)) 0 0"
    have "length (fbody ?g) \<le> 1000" by (simp add: make_control_frame_def)
    from send_frame_written [OF _ _ this, of "r\<lparr>rn_out := rn_out r @ [Log (control_text fr)]\<rparr>" env
        "stype_to_string kLinktestRsp @ '' sys='' @ show_nat (unat (system_bytes (hdr fr)))"] assms(1) e control True
    show ?thesis
      by (auto simp: on_frame_def then_do_def log_line_def emit_def runner_send_control_def ret_def push_control_def)
  next
    case False
    then have "stype (hdr fr) \<noteq> stype_byte kLinktestReq" by (auto simp del: stype_byte.simps)
    then show ?thesis using assms(2) control False
      by (simp add: due_def due_frames_def on_frame_def then_do_def log_line_def emit_def ret_def push_control_def)
  qed
next
  case data: False
  show ?thesis
  proof (cases "to_message fr")
    case (Inl e)
    then show ?thesis using assms(2) data by (simp add: due_def due_frames_def on_frame_def log_line_def emit_def)
  next
    case (Inr m)
    show ?thesis
    proof (cases "if rn_auto_ack r then auto_ack_for m else None")
      case None
      then show ?thesis using assms(2) data Inr
        by (simp add: due_def due_frames_def on_frame_def then_do_def log_line_def emit_def ret_def push_received_def
            split: if_splits)
    next
      case (Some a)
      then have auto: "rn_auto_ack r" "auto_ack_for m = Some a" by (simp_all split: if_splits)
      note enc = ack_encodes [OF auto(2)]
      have e: "rn_env r = Written # env" using assms(2) data Inr auto by (simp add: due_def due_frames_def)
      have "length (fbody (ack_frame fr a)) \<le> 1000" by (simp add: ack_frame_def make_data_frame_def enc)
      from send_frame_written [OF _ _ this, of "r\<lparr>rn_out := rn_out r @ [Log (''<< '' @ message_to_text m)]\<rparr>" env
          "message_to_text a @ '' (auto-ack)''"] assms(1) e data Inr auto enc
      show ?thesis
        by (auto simp: on_frame_def then_do_def log_line_def emit_def ret_def push_received_def host_reply_def ack_frame_def)
    qed
  qed
qed

lemma due_Cons: "due auto (fr # frs) = due auto [fr] @ due auto frs"
  by (simp add: due_def)

lemma on_frames_written:
  assumes "hc_open (rn_client r)" "rn_env r = replicate (length (due (rn_auto_ack r) frs)) Written @ env"
  shows "\<exists>r'. on_frames frs r = Some ((), r') \<and> rn_env r' = env"
  using assms
proof (induction frs arbitrary: r)
  case (Cons fr frs)
  let ?rest = "replicate (length (due (rn_auto_ack r) frs)) Written @ env"
  have "rn_env r = replicate (length (due (rn_auto_ack r) [fr])) Written @ ?rest"
    using Cons.prems(2) by (simp add: due_Cons [of _ fr frs] replicate_add)
  from on_frame_written [OF Cons.prems(1) this] obtain r1 where r1: "on_frame fr r = Some ((), r1)" "rn_env r1 = ?rest"
    by blast
  then have "hc_open (rn_client r1)" "rn_auto_ack r1 = rn_auto_ack r"
    using on_frame_reacts [OF r1(1) Cons.prems(1)] Cons.prems(1) by (auto simp: reacted_def)
  with Cons.IH [of r1] r1 show ?case by (auto simp: then_do_def)
qed (simp add: due_def ret_def)

lemma pump_talk:
  assumes "client_is_open r" "\<not> rn_closed r" "rn_env r = talk (rn_auto_ack r) (hc_decoder (rn_client r)) ((t, x) # xs) @ env"
    and "beside pred (hc_decoder (rn_client r)) ((t, x) # xs)" "list_all (\<lambda>x. \<not> pred x) (rn_queue r)"
  shows "\<exists>r1 st r2. clock_now r = Some (t, r1) \<and> pump left r1 = Some (st, r2) \<and> client_is_open r2 \<and> \<not> rn_closed r2 \<and>
    rn_env r2 = talk (rn_auto_ack r2) (hc_decoder (rn_client r2)) xs @ env \<and>
    beside pred (hc_decoder (rn_client r2)) xs \<and> list_all (\<lambda>x. \<not> pred x) (rn_queue r2)"
proof (cases x)
  case None
  then show ?thesis using assms
    by (simp add: clock_now_def pump_def then_do_def client_read_def client_is_open_def ret_def Let_def)
next
  case (Some bs)
  then obtain frs d where f: "feed bs (hc_decoder (rn_client r)) = (Inr frs, d)"
    using assms(4) by (auto split: prod.splits sum.splits)
  let ?r = "r\<lparr>rn_env := replicate (length (due (rn_auto_ack r) frs)) Written @ talk (rn_auto_ack r) d xs @ env,
    rn_client := (rn_client r)\<lparr>hc_decoder := d\<rparr>\<rparr>"
  have o: "hc_open (rn_client ?r)" using assms(1) by (simp add: client_is_open_def)
  from on_frames_written [OF this, of frs "talk (rn_auto_ack r) d xs @ env"]
  obtain r2 where r2: "on_frames frs ?r = Some ((), r2)" "rn_env r2 = talk (rn_auto_ack r) d xs @ env" by auto
  note re = on_frames_react [OF r2(1) o]
  have "rn_client r2 = rn_client ?r" "rn_auto_ack r2 = rn_auto_ack r" "\<not> rn_closed r2"
    "rn_queue r2 = rn_queue r @ concat (map data_of frs)"
    using re assms(2) by (auto simp: reacted_def)
  then show ?thesis using assms f Some r2
    by (auto simp: clock_now_def pump_def then_do_def client_read_def client_is_open_def ret_def Let_def set_client_def)
qed

lemma wait_message_loop_talk:
  assumes "client_is_open r" "\<not> rn_closed r"
    and "rn_env r = talk (rn_auto_ack r) (hc_decoder (rn_client r)) xs @ Now t1 # env"
    and "beside pred (hc_decoder (rn_client r)) xs" "list_all (\<lambda>x. \<not> pred x) (rn_queue r)"
    and "list_all (\<lambda>(t, x). in_time deadline t) xs" "\<not> in_time deadline t1"
  shows "\<exists>r'. wait_message_loop pred deadline timeout what r = Some (None, r') \<and> rn_env r' = env"
  using assms
proof (induction xs arbitrary: r)
  case Nil
  then show ?case
    by (subst wait_message_loop.simps) (simp add: clock_now_def take_first_None [THEN iffD2] in_time_def)
next
  case (Cons y xs)
  obtain t x where y: "y = (t, x)" by force
  from pump_talk [OF Cons.prems(1,2) Cons.prems(3,4) [unfolded y] Cons.prems(5), of "millis_left deadline t"]
  obtain r1 st r2 where p: "clock_now r = Some (t, r1)" "pump (millis_left deadline t) r1 = Some (st, r2)"
    and r2: "client_is_open r2" "\<not> rn_closed r2" "list_all (\<lambda>x. \<not> pred x) (rn_queue r2)"
      "rn_env r2 = talk (rn_auto_ack r2) (hc_decoder (rn_client r2)) xs @ Now t1 # env"
      "beside pred (hc_decoder (rn_client r2)) xs" by blast
  from Cons.IH [OF r2(1,2,4,5,3)] Cons.prems(6,7) obtain r' where
    "wait_message_loop pred deadline timeout what r2 = Some (None, r')" "rn_env r' = env" by auto
  then show ?case using Cons.prems(2,5,6) p y
    by (subst wait_message_loop.simps) (simp add: take_first_None [THEN iffD2] in_time_def)
qed

text \<open>
  C27. Waiting never loses or reorders what the machine says, and ends in time. When a wait of the script runner
  ends, the bytes that arrived meanwhile have been cut into frames, and of all messages received
  so far and not yet taken the first one that matches has been taken and every other one is
  still queued in its order; if the wait failed, none of them matches. Meanwhile every
  Linktest.req, and with auto-ack every event and alarm report that asks for a reply, has been
  answered exactly once, in order, under its own system bytes, and nothing else was sent. The time is counted
  from the first look at the clock whatever arrives: only the last look may find it up, a wait that
  succeeds has found it up at none, and a wait that fails on an open connection has found it up. And neither
  silence nor other messages can hang a script: whatever a machine says that is not waited for, the wait
  returns at the first look at the clock past the time-out.
\<close>

theorem wait_takes_first_match:
  "(\<forall>got r'. wait_message pred timeout what r = Some (got, r') \<longrightarrow>
     (\<exists>t used frs. rn_env r = Now t # used @ rn_env r' \<and>
        read_frames (hc_decoder (rn_client r)) used = (frs, hc_decoder (rn_client r')) \<and>
        (case got of
           Some x \<Rightarrow> take_first pred (rn_queue r @ concat (map data_of frs)) = Some (x, rn_queue r') \<and>
             list_all (in_time (t + timeout * 1000000)) (clocks used)
         | None \<Rightarrow> rn_queue r' = rn_queue r @ concat (map data_of frs) \<and> list_all (\<lambda>x. \<not> pred x) (rn_queue r') \<and>
             (rn_closed r' \<or> clocks used \<noteq> [] \<and> \<not> in_time (t + timeout * 1000000) (last (clocks used)))) \<and>
        list_all (in_time (t + timeout * 1000000)) (butlast (clocks used)) \<and>
        wires (rn_out r') = wires (rn_out r) @ due (rn_auto_ack r) frs)) \<and>
   (\<forall>t0 t1 xs env. list_all (\<lambda>x. \<not> pred x) (rn_queue r) \<and> client_is_open r \<and> \<not> rn_closed r \<and>
      rn_env r = Now t0 # talk (rn_auto_ack r) (hc_decoder (rn_client r)) xs @ Now t1 # env \<and>
      beside pred (hc_decoder (rn_client r)) xs \<and>
      list_all (\<lambda>(t, x). in_time (t0 + timeout * 1000000) t) xs \<and> \<not> in_time (t0 + timeout * 1000000) t1 \<longrightarrow>
      (\<exists>r'. wait_message pred timeout what r = Some (None, r') \<and> rn_env r' = env))"
proof (intro conjI allI impI)
  fix got r'
  assume "wait_message pred timeout what r = Some (got, r')"
  then obtain t r1 where c: "clock_now r = Some (t, r1)"
    and l: "wait_message_loop pred (t + timeout * 1000000) timeout what r1 = Some (got, r')"
    by (auto simp: wait_message_def then_do_Some)
  have r1: "rn_env r = Now t # rn_env r1" "r1 = r\<lparr>rn_env := rn_env r1\<rparr>"
    using c by (auto simp: clock_now_def split: list.splits answer.splits)
  have eq: "rn_client r1 = rn_client r" "rn_queue r1 = rn_queue r" "rn_out r1 = rn_out r" "rn_auto_ack r1 = rn_auto_ack r"
    by (subst r1(2), simp)+
  from wait_message_loop_waited [OF l] obtain used frs q where h: "heard used frs r1 (r'\<lparr>rn_queue := q\<rparr>)"
    and g: "list_all (in_time (t + timeout * 1000000)) (butlast (clocks used))" "case got of
           Some x \<Rightarrow> take_first pred q = Some (x, rn_queue r') \<and> list_all (in_time (t + timeout * 1000000)) (clocks used)
         | None \<Rightarrow> take_first pred q = None \<and> rn_queue r' = q \<and>
             (rn_closed r' \<or> clocks used \<noteq> [] \<and> \<not> in_time (t + timeout * 1000000) (last (clocks used)))"
    unfolding waited_def fst_conv snd_conv by blast
  have "q = rn_queue r @ concat (map data_of frs)" using h by (simp add: heard_def eq)
  with g h show "\<exists>t used frs. rn_env r = Now t # used @ rn_env r' \<and>
        read_frames (hc_decoder (rn_client r)) used = (frs, hc_decoder (rn_client r')) \<and>
        (case got of
           Some x \<Rightarrow> take_first pred (rn_queue r @ concat (map data_of frs)) = Some (x, rn_queue r') \<and>
             list_all (in_time (t + timeout * 1000000)) (clocks used)
         | None \<Rightarrow> rn_queue r' = rn_queue r @ concat (map data_of frs) \<and> list_all (\<lambda>x. \<not> pred x) (rn_queue r') \<and>
             (rn_closed r' \<or> clocks used \<noteq> [] \<and> \<not> in_time (t + timeout * 1000000) (last (clocks used)))) \<and>
        list_all (in_time (t + timeout * 1000000)) (butlast (clocks used)) \<and>
        wires (rn_out r') = wires (rn_out r) @ due (rn_auto_ack r) frs"
    by (intro exI [of _ t] exI [of _ used] exI [of _ frs])
      (auto simp: heard_def take_first_None eq r1(1) split: option.splits)
next
  fix t0 t1 xs env
  assume a: "list_all (\<lambda>x. \<not> pred x) (rn_queue r) \<and> client_is_open r \<and> \<not> rn_closed r \<and>
      rn_env r = Now t0 # talk (rn_auto_ack r) (hc_decoder (rn_client r)) xs @ Now t1 # env \<and>
      beside pred (hc_decoder (rn_client r)) xs \<and>
      list_all (\<lambda>(t, x). in_time (t0 + timeout * 1000000) t) xs \<and> \<not> in_time (t0 + timeout * 1000000) t1"
  let ?r = "r\<lparr>rn_env := talk (rn_auto_ack r) (hc_decoder (rn_client r)) xs @ Now t1 # env\<rparr>"
  have "clock_now r = Some (t0, ?r)" using a by (simp add: clock_now_def)
  then show "\<exists>r'. wait_message pred timeout what r = Some (None, r') \<and> rn_env r' = env"
    using a wait_message_loop_talk [of ?r xs t1 env pred "t0 + timeout * 1000000" timeout what]
    by (simp add: wait_message_def then_do_def client_is_open_def)
qed

text \<open>
  A connected runner whose machine is silent, then asks for a link test, then says S1F2 with no body, and after
  that nothing; the messages are the encoded frames.
\<close>

definition linktest_bytes :: "byte list" where
  "linktest_bytes = [0, 0, 0, 10, 0xFF, 0xFF, 0, 0, 0, 5, 0, 0, 0, 7]"

definition s1f2_bytes :: "byte list" where
  "s1f2_bytes = [0, 0, 0, 10, 0, 0, 1, 2, 0, 0, 0, 0, 0, 1]"

definition talking_runner :: "answer list \<Rightarrow> runner" where
  "talking_runner env = (new_runner 0 env)\<lparr>rn_client := new_client\<lparr>hc_open := True\<rparr>, rn_closed := False\<rparr>"

definition asks :: "byte \<Rightarrow> received \<Rightarrow> bool" where
  "asks f x \<longleftrightarrow> stream (rx_message x) = 1 \<and> func (rx_message x) = f"

definition linktest_frame :: frame where
  "linktest_frame = make_control_frame kLinktestReq 7 0 0"

definition s1f2_frame :: frame where
  "s1f2_frame = make_data_frame 0 1 2 False 1 []"

lemmas frame_eval = encode_frame_def kHeaderSize_def make_data_frame_def make_control_frame_def
  put_be16_eq put_be32_eq be_bytes_numeral kControlSessionId_def

lemma talk_encoded:
  "encode_frame linktest_frame = Ok linktest_bytes" "encode_frame s1f2_frame = Ok s1f2_bytes"
  by (simp_all add: linktest_frame_def s1f2_frame_def linktest_bytes_def s1f2_bytes_def frame_eval)

lemma feed_one:
  assumes "encode_frame fr = Ok bs" "frame_fits n fr"
  shows "feed bs (new_decoder n) = (Ok [fr], new_decoder n)"
  using parse_stream_encoded_list [of n "[fr]" "[bs]"] assms by (simp add: feed_parse)

lemma talk_feeds:
  "feed linktest_bytes (new_decoder kMaxFrame) = (Ok [linktest_frame], new_decoder kMaxFrame)"
  "feed s1f2_bytes (new_decoder kMaxFrame) = (Ok [s1f2_frame], new_decoder kMaxFrame)"
  by (rule feed_one [OF talk_encoded(1)] feed_one [OF talk_encoded(2)];
      simp add: linktest_frame_def s1f2_frame_def frame_fits_def frame_eval kMaxFrame_def)+

lemma talk_frames:
  "due True [linktest_frame] = [[0, 0, 0, 10, 0xFF, 0xFF, 0, 0, 0, 6, 0, 0, 0, 7]]" "due True [s1f2_frame] = []"
  "data_of linktest_frame = []"
  "data_of s1f2_frame = [\<lparr>rx_frame = s1f2_frame, rx_message = \<lparr>stream = 1, func = 2, w_bit = False, body = None\<rparr>\<rparr>]"
  by (simp_all add: linktest_frame_def s1f2_frame_def due_def due_frames_def data_of_def frame_eval to_message_def
      header_stream_def header_function_def header_w_bit_def auto_ack_for_def)

lemma talk_eval:
  "stype (hdr linktest_frame) = 5" "stype (hdr s1f2_frame) = 0" "system_bytes (hdr linktest_frame) = 7"
  "to_message s1f2_frame = Ok \<lparr>stream = 1, func = 2, w_bit = False, body = None\<rparr>"
  "encode_frame (make_control_frame kLinktestRsp 7 0 0) = Ok [0, 0, 0, 10, 0xFF, 0xFF, 0, 0, 0, 6, 0, 0, 0, 7]"
  "stype_from_byte 5 = Some kLinktestReq" "auto_ack_for \<lparr>stream = 1, func = 2, w_bit = False, body = None\<rparr> = None"
  by (simp_all add: linktest_frame_def s1f2_frame_def frame_eval to_message_def header_stream_def
      header_function_def header_w_bit_def auto_ack_for_def stype_from_byte_Some)

definition small_talk :: "(int \<times> byte list option) list" where
  "small_talk = [(10, None), (20, Some linktest_bytes), (4000000000, Some s1f2_bytes)]"

theorem wait_takes_first_match_witness:
  "(\<exists>r'. wait_message (asks 4) 5000 ''S1F4'' (talking_runner (Now 0 # talk True (new_decoder kMaxFrame) small_talk @
       Now 5000000000 # [])) = Some (None, r') \<and> rn_env r' = [] \<and> map rx_frame (rn_queue r') = [s1f2_frame] \<and>
     wires (rn_out r') = [[0, 0, 0, 10, 0xFF, 0xFF, 0, 0, 0, 6, 0, 0, 0, 7]]) \<and>
   (\<exists>x r'. wait_message (asks 2) 5000 ''S1F2'' (talking_runner (Now 0 # talk True (new_decoder kMaxFrame) small_talk)) =
       Some (Some x, r') \<and> rx_frame x = s1f2_frame \<and> rn_queue r' = [])"
proof (intro conjI)
  let ?d = "new_decoder kMaxFrame"
  let ?e = "Now 0 # talk True ?d small_talk"
  have t: "talk True ?d small_talk = [Now 10, Silence, Now 20, Bytes linktest_bytes, Written, Now 4000000000, Bytes s1f2_bytes]"
    by (simp add: small_talk_def talk_feeds talk_frames)
  have f: "read_frames ?d (talk True ?d small_talk @ [Now 5000000000]) = ([linktest_frame, s1f2_frame], ?d)"
    "read_frames ?d (talk True ?d small_talk) = ([linktest_frame, s1f2_frame], ?d)"
    by (simp_all add: t talk_feeds)
  have due: "due True [linktest_frame, s1f2_frame] = [[0, 0, 0, 10, 0xFF, 0xFF, 0, 0, 0, 6, 0, 0, 0, 7]]"
    by (simp add: due_Cons [of _ linktest_frame "[s1f2_frame]"] talk_frames)
  let ?r = "talking_runner (Now 0 # talk True ?d small_talk @ Now 5000000000 # [])"
  have r: "rn_queue ?r = []" "rn_auto_ack ?r" "hc_decoder (rn_client ?r) = ?d" "rn_out ?r = []"
    "client_is_open ?r" "\<not> rn_closed ?r" "rn_env ?r = Now 0 # talk True ?d small_talk @ Now 5000000000 # []"
    by (simp_all add: talking_runner_def new_runner_def new_client_def client_is_open_def)
  note w = wait_takes_first_match [of "asks 4" 5000 "''S1F4''" ?r]
  have "beside (asks 4) ?d small_talk" by (simp add: small_talk_def talk_feeds talk_frames asks_def)
  moreover have "list_all (\<lambda>(t, x). in_time (0 + 5000 * 1000000) t) small_talk" "\<not> in_time (0 + 5000 * 1000000) 5000000000"
    by (simp_all add: small_talk_def in_time_def millis_left_def)
  ultimately obtain r' where r': "wait_message (asks 4) 5000 ''S1F4'' ?r = Some (None, r')" "rn_env r' = []"
    using conjunct2 [OF w, rule_format, of 0 small_talk 5000000000 "[]"] r by auto
  with conjunct1 [OF w, rule_format, OF r'(1)] r f(1)
  show "\<exists>r'. wait_message (asks 4) 5000 ''S1F4'' ?r = Some (None, r') \<and>
     rn_env r' = [] \<and> map rx_frame (rn_queue r') = [s1f2_frame] \<and>
     wires (rn_out r') = [[0, 0, 0, 10, 0xFF, 0xFF, 0, 0, 0, 6, 0, 0, 0, 7]]"
    by (auto simp: due talk_frames)
  let ?s = "talking_runner ?e"
  have s: "rn_queue ?s = []" "rn_auto_ack ?s" "hc_decoder (rn_client ?s) = ?d" "rn_out ?s = []" "rn_env ?s = ?e"
    by (simp_all add: talking_runner_def new_runner_def new_client_def)
  have "\<exists>x r'. wait_message (asks 2) 5000 ''S1F2'' ?s = Some (Some x, r') \<and> rn_env r' = []"
    unfolding t talking_runner_def new_runner_def new_client_def wait_message_def
    by (simp add: then_do_def clock_now_def,
        (subst wait_message_loop.simps,
         simp add: clock_now_def millis_left_def pump_def then_do_def client_read_def Let_def set_client_def ret_def
           talk_feeds on_frame_def log_line_def emit_def push_control_def push_received_def runner_send_control_def
           send_frame_def send_bytes_def talk_eval asks_def)+)
  then obtain x r' where x: "wait_message (asks 2) 5000 ''S1F2'' ?s = Some (Some x, r')" "rn_env r' = []" by blast
  from wait_takes_first_match [of "asks 2" 5000 "''S1F2''" ?s, THEN conjunct1, rule_format, OF x(1)] s
  show "\<exists>x r'. wait_message (asks 2) 5000 ''S1F2'' ?s = Some (Some x, r') \<and> rx_frame x = s1f2_frame \<and> rn_queue r' = []"
    using x f(2) by (auto simp: talk_frames asks_def)
qed

end
