(* ===== verification/Event_Bus.thy ===== *)
theory Event_Bus
  imports Event_Machine
begin

text \<open>
  The event bus, \<^verbatim>\<open>src/core/event_bus.cpp\<close>: publishers call the handlers of a type without
  holding the bus lock, and \<^verbatim>\<open>unsubscribe\<close> waits for calls in flight. Any number of threads
  take part; each has a stack of calls, because a handler may itself use the bus. A step is one
  critical section, one notification, or the start or end of a handler; which thread goes next
  and what handlers do is the environment's choice. Subscribers are the objects behind the
  shared pointers, named by the order of their creation; event types are numbers.
\<close>

record subscriber =
  sub_id :: u64
  running :: nat
  removed :: bool

text \<open>
  Where a thread is inside a call. \<open>Looping\<close> is the loop of \<^verbatim>\<open>publish_erased\<close> with the rest of
  its copy, \<open>Running\<close> a handler it called, \<open>Notifying\<close> the end of \<^verbatim>\<open>~Done\<close>; the others are the
  stations of \<^verbatim>\<open>unsubscribe\<close> after the bus lock: before the subscriber's mutex, asleep in
  \<^verbatim>\<open>idle.wait\<close>, and awake again but without the mutex.
\<close>

datatype call =
    Looping "nat list"
  | Running nat "nat list"
  | Notifying nat "nat list"
  | Removing u64 nat
  | Waiting u64 nat
  | Woken u64 nat

record bus =
  subs :: "subscriber list"
  subscribers_by_type :: "nat \<Rightarrow> nat list"
  type_by_id :: "u64 \<rightharpoonup> nat"
  next_id :: u64
  threads :: "call list list"

definition new_bus :: "nat \<Rightarrow> bus" where
  "new_bus n =
     \<lparr>subs = [], subscribers_by_type = (\<lambda>ty. []), type_by_id = Map.empty, next_id = 1,
      threads = replicate n []\<rparr>"

text \<open>
  What a step shows: the id \<^verbatim>\<open>subscribe\<close> returns, a handler starting and ending, and the return of
  \<^verbatim>\<open>unsubscribe\<close> with the subscriber it removed and whether it made sure that none of its calls
  is in flight.
\<close>

datatype bus_out =
    Subscribed u64 nat | Started nat | Ended nat | Unsubscribed u64 "nat option" bool | Published

section \<open>Operations\<close>

definition subscribe_erased :: "nat \<Rightarrow> bus \<Rightarrow> u64 \<times> bus" where
  "subscribe_erased ty b =
     (let p = length (subs b); sid = next_id b
      in (sid, b\<lparr>subs := subs b @ [\<lparr>sub_id = sid, running = 0, removed = False\<rparr>],
                next_id := sid + 1,
                subscribers_by_type := (subscribers_by_type b)(ty := subscribers_by_type b ty @ [p]),
                type_by_id := (if type_by_id b sid = None then (type_by_id b)(sid \<mapsto> ty) else type_by_id b)\<rparr>))"

text \<open>The first critical section of \<^verbatim>\<open>unsubscribe\<close>.\<close>

definition unsubscribe_lookup :: "u64 \<Rightarrow> bus \<Rightarrow> nat option \<times> bus" where
  "unsubscribe_lookup sid b =
     (case type_by_id b sid of
        None \<Rightarrow> (None, b)
      | Some ty \<Rightarrow>
          let ps = subscribers_by_type b ty; b = b\<lparr>type_by_id := (type_by_id b)(sid := None)\<rparr>
          in (case find (\<lambda>p. sub_id (subs b ! p) = sid) ps of
                None \<Rightarrow> (None, b)
              | Some p \<Rightarrow>
                  (Some p, b\<lparr>subscribers_by_type := (subscribers_by_type b)(ty := remove1 p ps)\<rparr>)))"

definition set_thread :: "nat \<Rightarrow> call list \<Rightarrow> bus \<Rightarrow> bus" where
  "set_thread t cs b = b\<lparr>threads := (threads b)[t := cs]\<rparr>"

definition set_sub :: "nat \<Rightarrow> (subscriber \<Rightarrow> subscriber) \<Rightarrow> bus \<Rightarrow> bus" where
  "set_sub p f b = b\<lparr>subs := (subs b)[p := f (subs b ! p)]\<rparr>"

text \<open>\<^verbatim>\<open>t_executing\<close>: the subscribers whose handlers a thread is inside of.\<close>

fun executing :: "call list \<Rightarrow> nat list" where
  "executing [] = []"
| "executing (Running p rest # cs) = p # executing cs"
| "executing (_ # cs) = executing cs"

text \<open>A wait of \<^verbatim>\<open>unsubscribe\<close> looks at its condition, holding the subscriber's mutex.\<close>

definition check_idle :: "nat \<Rightarrow> u64 \<Rightarrow> nat \<Rightarrow> call list \<Rightarrow> bus \<Rightarrow> bus \<times> bus_out list" where
  "check_idle t sid p cs b =
     (if running (subs b ! p) = 0 then (set_thread t cs b, [Unsubscribed sid (Some p) True])
      else (set_thread t (Waiting sid p # cs) b, []))"

fun wake :: "nat \<Rightarrow> call \<Rightarrow> call" where
  "wake p (Waiting sid q) = (if q = p then Woken sid q else Waiting sid q)"
| "wake p c = c"

definition notify_idle :: "nat \<Rightarrow> bus \<Rightarrow> bus" where
  "notify_idle p b = b\<lparr>threads := map (map (wake p)) (threads b)\<rparr>"

text \<open>The next step of a thread inside the bus; \<open>throws\<close> says how a handler ends.\<close>

fun bus_advance :: "bool \<Rightarrow> nat \<Rightarrow> call list \<Rightarrow> bus \<Rightarrow> (bus \<times> bus_out list) option" where
  "bus_advance throws t (Looping [] # cs) b = Some (set_thread t cs b, [Published])"
| "bus_advance throws t (Looping (p # rest) # cs) b =
     (if removed (subs b ! p) then Some (set_thread t (Looping rest # cs) b, [])
      else Some (set_thread t (Running p rest # cs)
                   (set_sub p (\<lambda>s. s\<lparr>running := running s + 1\<rparr>) b), [Started p]))"
| "bus_advance throws t (Running p rest # cs) b =
     Some (set_thread t (Notifying p (if throws then [] else rest) # cs)
             (set_sub p (\<lambda>s. s\<lparr>running := running s - 1\<rparr>) b), [Ended p])"
| "bus_advance throws t (Notifying p rest # cs) b =
     Some (notify_idle p (set_thread t (Looping rest # cs) b), [])"
| "bus_advance throws t (Removing sid p # cs) b =
     (let b = set_sub p (\<lambda>s. s\<lparr>removed := True\<rparr>) b
      in if p \<in> set (executing cs)
         then Some (set_thread t cs b, [Unsubscribed sid (Some p) False])
         else Some (check_idle t sid p cs b))"
| "bus_advance throws t (Woken sid p # cs) b = Some (check_idle t sid p cs b)"
| "bus_advance throws t _ b = None"

section \<open>Steps\<close>

datatype bus_event =
    Subscribe nat nat | Unsubscribe nat u64 | Publish nat nat | Advance nat bool | Wake_up nat

text \<open>A thread may call the bus from outside, or from a handler it is running.\<close>

fun may_call :: "call list \<Rightarrow> bool" where
  "may_call [] = True"
| "may_call (Running p rest # cs) = True"
| "may_call _ = False"

fun bus_thread :: "bus_event \<Rightarrow> nat" where
  "bus_thread (Subscribe t ty) = t"
| "bus_thread (Unsubscribe t sid) = t"
| "bus_thread (Publish t ty) = t"
| "bus_thread (Advance t th) = t"
| "bus_thread (Wake_up t) = t"

fun bus_do :: "bus_event \<Rightarrow> call list \<Rightarrow> bus \<Rightarrow> (bus \<times> bus_out list) option" where
  "bus_do (Subscribe t ty) cs b =
     (if \<not> may_call cs then None
      else case subscribe_erased ty b of (sid, b') \<Rightarrow> Some (b', [Subscribed sid (length (subs b))]))"
| "bus_do (Unsubscribe t sid) cs b =
     (if \<not> may_call cs then None
      else case unsubscribe_lookup sid b of
             (None, b') \<Rightarrow> Some (b', [Unsubscribed sid None False])
           | (Some p, b') \<Rightarrow> Some (set_thread t (Removing sid p # cs) b', []))"
| "bus_do (Publish t ty) cs b =
     (if \<not> may_call cs then None
      else Some (set_thread t (Looping (subscribers_by_type b ty) # cs) b, []))"
| "bus_do (Advance t throws) cs b = bus_advance throws t cs b"
| "bus_do (Wake_up t) cs b =
     (case cs of
        Waiting sid p # cs' \<Rightarrow> Some (set_thread t (Woken sid p # cs') b, [])
      | _ \<Rightarrow> None)"

definition bus_step :: "bus_event \<Rightarrow> bus \<Rightarrow> (bus \<times> bus_out list) option" where
  "bus_step e b =
     (if bus_thread e < length (threads b) then bus_do e (threads b ! bus_thread e) b else None)"

definition bus_init :: "bus \<Rightarrow> bool" where
  "bus_init b \<longleftrightarrow> (\<exists>n. b = new_bus n)"

section \<open>Invariant\<close>

text \<open>The calls of a subscriber's handler that are in flight, over all threads.\<close>

definition in_flight :: "nat \<Rightarrow> bus \<Rightarrow> nat" where
  "in_flight p b = sum_list (map (\<lambda>cs. count_list (executing cs) p) (threads b))"

fun call_ok :: "subscriber list \<Rightarrow> call \<Rightarrow> bool" where
  "call_ok ss (Looping ps) \<longleftrightarrow> (\<forall>p\<in>set ps. p < length ss)"
| "call_ok ss (Running p ps) \<longleftrightarrow> p < length ss \<and> (\<forall>p\<in>set ps. p < length ss)"
| "call_ok ss (Notifying p ps) \<longleftrightarrow> p < length ss \<and> (\<forall>p\<in>set ps. p < length ss)"
| "call_ok ss (Removing sid p) \<longleftrightarrow> p < length ss \<and> sub_id (ss ! p) = sid"
| "call_ok ss (Waiting sid p) \<longleftrightarrow> p < length ss \<and> sub_id (ss ! p) = sid \<and> removed (ss ! p)"
| "call_ok ss (Woken sid p) \<longleftrightarrow> p < length ss \<and> sub_id (ss ! p) = sid \<and> removed (ss ! p)"

definition calls_ok :: "bus \<Rightarrow> bool" where
  "calls_ok b \<longleftrightarrow>
     (\<forall>cs\<in>set (threads b). list_all (call_ok (subs b)) cs) \<and>
     (\<forall>ty. \<forall>p\<in>set (subscribers_by_type b ty). p < length (subs b))"

definition counted :: "bus \<Rightarrow> bool" where
  "counted b \<longleftrightarrow> (\<forall>p<length (subs b). running (subs b ! p) = in_flight p b)"

definition somewhere :: "(call \<Rightarrow> bool) \<Rightarrow> bus \<Rightarrow> bool" where
  "somewhere P b \<longleftrightarrow> list_ex (list_ex P) (threads b)"

abbreviation is_waiting :: "nat \<Rightarrow> call \<Rightarrow> bool" where
  "is_waiting p c \<equiv> \<exists>sid. c = Waiting sid p"

abbreviation is_notifying :: "nat \<Rightarrow> call \<Rightarrow> bool" where
  "is_notifying p c \<equiv> \<exists>rest. c = Notifying p rest"

definition owed :: "bus \<Rightarrow> bool" where
  "owed b \<longleftrightarrow> (\<forall>p. somewhere (is_waiting p) b \<longrightarrow>
     running (subs b ! p) \<noteq> 0 \<or> somewhere (is_notifying p) b)"

definition bus_inv :: "bus \<Rightarrow> bool" where
  "bus_inv b \<longleftrightarrow> calls_ok b \<and> counted b \<and> owed b"

lemma set_thread_fields [simp]:
  "subs (set_thread t cs b) = subs b"
  "subscribers_by_type (set_thread t cs b) = subscribers_by_type b"
  "threads (set_thread t cs b) = (threads b)[t := cs]"
  by (simp_all add: set_thread_def)

lemma set_sub_fields [simp]:
  "subs (set_sub p f b) = (subs b)[p := f (subs b ! p)]"
  "subscribers_by_type (set_sub p f b) = subscribers_by_type b"
  "threads (set_sub p f b) = threads b"
  by (simp_all add: set_sub_def)

lemma notify_idle_fields [simp]:
  "subs (notify_idle p b) = subs b"
  "subscribers_by_type (notify_idle p b) = subscribers_by_type b"
  "threads (notify_idle p b) = map (map (wake p)) (threads b)"
  by (simp_all add: notify_idle_def)

lemma executing_wake [simp]: "executing (map (wake p) cs) = executing cs"
  by (induction cs rule: executing.induct) auto

lemma call_ok_wake [simp]: "call_ok ss c \<Longrightarrow> call_ok ss (wake p c)"
  by (cases c) auto

lemma call_ok_grow: "call_ok ss c \<Longrightarrow> call_ok (ss @ xs) c"
  by (cases c) (auto simp: nth_append)

lemma call_ok_set_sub:
  assumes "call_ok ss c" "sub_id (f (ss ! p)) = sub_id (ss ! p)" "removed (ss ! p) \<Longrightarrow> removed (f (ss ! p))"
  shows "call_ok (ss[p := f (ss ! p)]) c"
proof (cases "p < length ss")
  case True
  with assms show ?thesis by (cases c) (auto simp: nth_list_update)
qed (use assms(1) in \<open>simp add: list_update_beyond\<close>)

lemma wake_eq:
  "wake p c = Waiting sid q \<longleftrightarrow> c = Waiting sid q \<and> q \<noteq> p"
  "wake p c = Notifying q rest \<longleftrightarrow> c = Notifying q rest"
  "Waiting sid q = wake p c \<longleftrightarrow> c = Waiting sid q \<and> q \<noteq> p"
  by (cases c; auto)+

lemma somewhere_set_thread:
  assumes "t < length (threads b)" "threads b ! t = cs"
  shows "somewhere P (set_thread t cs' b) \<longleftrightarrow>
    list_ex P cs' \<or> (\<exists>u<length (threads b). u \<noteq> t \<and> list_ex P (threads b ! u))"
    "somewhere P b \<longleftrightarrow>
    list_ex P cs \<or> (\<exists>u<length (threads b). u \<noteq> t \<and> list_ex P (threads b ! u))"
  using assms by (auto simp: somewhere_def list_ex_length nth_list_update)

lemma in_flight_set_thread:
  assumes "t < length (threads b)"
  shows "in_flight p (set_thread t cs b) =
    in_flight p b + count_list (executing cs) p - count_list (executing (threads b ! t)) p"
  using assms by (simp add: in_flight_def map_update sum_list_update)

lemma in_flight_ge:
  assumes "t < length (threads b)"
  shows "count_list (executing (threads b ! t)) p \<le> in_flight p b"
  unfolding in_flight_def using assms by (intro member_le_sum_list) auto

lemma calls_ok_set_thread:
  assumes "calls_ok b" "list_all (call_ok (subs b)) cs"
  shows "calls_ok (set_thread t cs b)"
  using assms set_update_subset_insert [of "threads b" t cs] by (auto simp: calls_ok_def)

lemma calls_ok_set_sub:
  assumes "calls_ok b" "\<And>s. sub_id (f s) = sub_id s" "\<And>s. removed s \<Longrightarrow> removed (f s)"
  shows "calls_ok (set_sub p f b)"
  using assms by (auto simp: calls_ok_def list_all_iff intro!: call_ok_set_sub)

lemma calls_ok_notify: "calls_ok b \<Longrightarrow> calls_ok (notify_idle p b)"
  by (auto simp: calls_ok_def list_all_iff)

lemma counted_set_thread:
  assumes "counted b" "t < length (threads b)" "executing cs = executing (threads b ! t)"
  shows "counted (set_thread t cs b)"
  using assms in_flight_ge [OF assms(2)] by (simp add: counted_def in_flight_set_thread)

lemma owed_set_thread:
  assumes "owed b" "t < length (threads b)" "threads b ! t = cs"
    and "\<And>p. list_ex (is_notifying p) cs \<Longrightarrow> list_ex (is_notifying p) cs'"
    and "\<And>p. list_ex (is_waiting p) cs' \<Longrightarrow> list_ex (is_waiting p) cs \<or> running (subs b ! p) \<noteq> 0"
  shows "owed (set_thread t cs' b)"
  using assms(1,4,5) unfolding owed_def somewhere_set_thread [OF assms(2,3)] set_thread_fields by blast

lemma bus_inv_set_thread:
  assumes "bus_inv b" "t < length (threads b)" "threads b ! t = cs"
    and "list_all (call_ok (subs b)) cs'" "executing cs' = executing cs"
    and "\<And>p. list_ex (is_notifying p) cs \<Longrightarrow> list_ex (is_notifying p) cs'"
    and "\<And>p. list_ex (is_waiting p) cs' \<Longrightarrow> list_ex (is_waiting p) cs \<or> running (subs b ! p) \<noteq> 0"
  shows "bus_inv (set_thread t cs' b)"
  using assms calls_ok_set_thread counted_set_thread owed_set_thread [OF _ assms(2,3,6,7)]
  unfolding bus_inv_def by metis

lemma threads_ok: "bus_inv b \<Longrightarrow> t < length (threads b) \<Longrightarrow> list_all (call_ok (subs b)) (threads b ! t)"
  by (simp add: bus_inv_def calls_ok_def)

text \<open>A handler starts: the count and the stack grow together.\<close>

lemma bus_inv_start:
  assumes "bus_inv b" "t < length (threads b)" "threads b ! t = Looping (p # rest) # cs"
  shows "bus_inv (set_thread t (Running p rest # cs) (set_sub p (\<lambda>s. s\<lparr>running := running s + 1\<rparr>) b))"
    (is "bus_inv ?b'")
proof -
  let ?b1 = "set_sub p (\<lambda>s. s\<lparr>running := running s + 1\<rparr>) b"
  have c: "list_all (call_ok (subs b)) (Looping (p # rest) # cs)" using threads_ok [OF assms(1,2)] assms(3) by simp
  have calls: "calls_ok ?b1" using assms(1) by (simp add: bus_inv_def calls_ok_set_sub)
  then have "list_all (call_ok (subs ?b1)) (Looping (p # rest) # cs)"
    using assms(2,3) nth_mem [OF assms(2)] unfolding calls_ok_def by (metis set_sub_fields(3))
  then have "calls_ok ?b'" using calls by (intro calls_ok_set_thread) simp_all
  moreover have "counted ?b'"
  proof -
    have "in_flight q ?b1 = in_flight q b" for q by (simp add: in_flight_def)
    then show ?thesis
      using assms c in_flight_ge [OF assms(2)]
      by (auto simp: bus_inv_def counted_def in_flight_set_thread nth_list_update)
  qed
  moreover have "owed ?b1"
  proof -
    have "somewhere P ?b1 = somewhere P b" for P by (simp add: somewhere_def)
    then show ?thesis using assms(1) c by (auto simp: bus_inv_def owed_def nth_list_update)
  qed
  then have "owed ?b'" using assms(2,3) by (intro owed_set_thread [where cs = "Looping (p # rest) # cs"]) auto
  ultimately show ?thesis by (simp add: bus_inv_def)
qed

text \<open>A handler ends: its thread now owes a notification.\<close>

lemma bus_inv_end:
  assumes "bus_inv b" "t < length (threads b)" "threads b ! t = Running p rest # cs"
    and "set rest' \<subseteq> set rest"
  shows "bus_inv (set_thread t (Notifying p rest' # cs) (set_sub p (\<lambda>s. s\<lparr>running := running s - 1\<rparr>) b))"
    (is "bus_inv ?b'")
proof -
  let ?b1 = "set_sub p (\<lambda>s. s\<lparr>running := running s - 1\<rparr>) b"
  have c: "list_all (call_ok (subs b)) (Running p rest # cs)" using threads_ok [OF assms(1,2)] assms(3) by simp
  have calls: "calls_ok ?b1" using assms(1) by (simp add: bus_inv_def calls_ok_set_sub)
  then have "list_all (call_ok (subs ?b1)) (Running p rest # cs)"
    using assms(2,3) nth_mem [OF assms(2)] unfolding calls_ok_def by (metis set_sub_fields(3))
  then have "calls_ok ?b'" using calls assms(4) by (intro calls_ok_set_thread) auto
  moreover have "counted ?b'"
  proof -
    have "in_flight q ?b1 = in_flight q b" for q by (simp add: in_flight_def)
    then show ?thesis
      using assms c in_flight_ge [OF assms(2)]
      by (auto simp: bus_inv_def counted_def in_flight_set_thread nth_list_update)
  qed
  moreover have "owed ?b'"
  proof -
    have b1: "somewhere P ?b1 = somewhere P b" for P by (simp add: somewhere_def)
    note sw = somewhere_set_thread [of t b "Running p rest # cs", OF assms(2,3)]
    note sw' = somewhere_set_thread(1) [of t ?b1 "Running p rest # cs"]
    have "running (subs ?b1 ! q) \<noteq> 0 \<or> somewhere (is_notifying q) ?b'" if w: "somewhere (is_waiting q) ?b'" for q
    proof (cases "q = p")
      case True
      then show ?thesis using sw' assms(2,3) by simp
    next
      case False
      have "somewhere (is_waiting q) b" using w sw' assms(2,3) unfolding sw(2) by simp
      then have "running (subs b ! q) \<noteq> 0 \<or> somewhere (is_notifying q) b"
        using assms(1) by (simp add: bus_inv_def owed_def)
      then show ?thesis using False sw' assms(2,3) unfolding sw(2) by auto
    qed
    then show ?thesis by (simp add: owed_def)
  qed
  ultimately show ?thesis by (simp add: bus_inv_def)
qed

lemma somewhere_notify:
  "somewhere (is_waiting q) (notify_idle p b) \<longleftrightarrow> q \<noteq> p \<and> somewhere (is_waiting q) b"
  "somewhere (is_notifying q) (notify_idle p b) \<longleftrightarrow> somewhere (is_notifying q) b"
  by (auto simp: somewhere_def list_ex_iff wake_eq)

lemma bus_inv_notify:
  assumes "bus_inv b" "t < length (threads b)" "threads b ! t = Notifying p rest # cs"
  shows "bus_inv (notify_idle p (set_thread t (Looping rest # cs) b))"
    (is "bus_inv (notify_idle p ?b1)")
proof -
  have c: "list_all (call_ok (subs b)) (Notifying p rest # cs)" using threads_ok [OF assms(1,2)] assms(3) by simp
  have "calls_ok ?b1" using c assms(1) by (intro calls_ok_set_thread) (simp_all add: bus_inv_def)
  then have "calls_ok (notify_idle p ?b1)" by (rule calls_ok_notify)
  moreover have "counted (notify_idle p ?b1)"
  proof -
    have "counted ?b1" using assms by (intro counted_set_thread) (simp_all add: bus_inv_def)
    moreover have "in_flight q (notify_idle p ?b1) = in_flight q ?b1" for q by (simp add: in_flight_def comp_def)
    ultimately show ?thesis by (simp add: counted_def)
  qed
  moreover have "owed (notify_idle p ?b1)"
  proof -
    note sw = somewhere_set_thread [OF assms(2,3)]
    have "running (subs b ! q) \<noteq> 0 \<or> somewhere (is_notifying q) ?b1"
      if "somewhere (is_waiting q) ?b1" "q \<noteq> p" for q
    proof -
      have "somewhere (is_waiting q) b" using that(1) unfolding sw by simp
      then have "running (subs b ! q) \<noteq> 0 \<or> somewhere (is_notifying q) b"
        using assms(1) by (simp add: bus_inv_def owed_def)
      then show ?thesis using that(2) unfolding sw by auto
    qed
    then show ?thesis by (simp add: owed_def somewhere_notify)
  qed
  ultimately show ?thesis by (simp add: bus_inv_def)
qed

lemma bus_inv_removed:
  assumes "bus_inv b"
  shows "bus_inv (set_sub p (\<lambda>s. s\<lparr>removed := True\<rparr>) b)" (is "bus_inv ?b'")
proof -
  have "running (subs ?b' ! q) = running (subs b ! q)" for q
    by (cases "p < length (subs b)") (auto simp: nth_list_update list_update_beyond)
  moreover have "in_flight q ?b' = in_flight q b" "somewhere P ?b' = somewhere P b" for q P
    by (simp_all add: in_flight_def somewhere_def)
  ultimately show ?thesis
    using assms calls_ok_set_sub [of b "\<lambda>s. s\<lparr>removed := True\<rparr>" p]
    by (simp add: bus_inv_def counted_def owed_def)
qed

lemma bus_inv_check_idle:
  assumes "bus_inv b" "t < length (threads b)" "threads b ! t = c # cs"
    and "executing (c # cs) = executing cs" "\<And>q. \<not> is_notifying q c"
    and "p < length (subs b)" "sub_id (subs b ! p) = sid" "removed (subs b ! p)"
  shows "bus_inv (fst (check_idle t sid p cs b))"
proof -
  have ok: "list_all (call_ok (subs b)) cs" using threads_ok [OF assms(1,2)] assms(3) by simp
  show ?thesis
  proof (cases "running (subs b ! p) = 0")
    case True
    then show ?thesis
      using bus_inv_set_thread [OF assms(1-3), of cs] ok assms(4-) by (auto simp: check_idle_def)
  next
    case False
    have "list_ex (is_waiting q) (c # cs) \<or> running (subs b ! q) \<noteq> 0"
      if "list_ex (is_waiting q) (Waiting sid p # cs)" for q
      using that False by auto
    then have "bus_inv (set_thread t (Waiting sid p # cs) b)"
      using ok assms(4-) by (intro bus_inv_set_thread [OF assms(1-3)]) auto
    then show ?thesis using False by (simp add: check_idle_def)
  qed
qed

lemma bus_advance_inv:
  assumes "bus_inv b" "t < length (threads b)" "bus_advance throws t (threads b ! t) b = Some (b', out)"
  shows "bus_inv b'"
proof -
  have ok: "list_all (call_ok (subs b)) (threads b ! t)" by (rule threads_ok [OF assms(1,2)])
  obtain c cs where cs: "threads b ! t = c # cs" using assms(3) by (cases "threads b ! t") auto
  show ?thesis
  proof (cases c)
    case (Looping ps)
    show ?thesis
    proof (cases ps)
      case Nil
      then show ?thesis
        using assms(3) cs Looping ok bus_inv_set_thread [OF assms(1,2) cs, of cs] by auto
    next
      case (Cons p rest)
      then show ?thesis
        using assms(3) cs Looping ok bus_inv_start [OF assms(1,2)]
          bus_inv_set_thread [OF assms(1,2) cs, of "Looping rest # cs"] by (auto split: if_splits)
    qed
  next
    case (Running p rest)
    then show ?thesis
      using assms(3) cs bus_inv_end [OF assms(1,2), of p rest cs "if throws then [] else rest"] by auto
  next
    case (Notifying p rest)
    then show ?thesis using assms(3) cs bus_inv_notify [OF assms(1,2), of p rest cs] by auto
  next
    case (Removing sid p)
    let ?b = "set_sub p (\<lambda>s. s\<lparr>removed := True\<rparr>) b"
    have i: "bus_inv ?b" by (rule bus_inv_removed [OF assms(1)])
    have t: "t < length (threads ?b)" "threads ?b ! t = c # cs" using assms(2) cs by simp_all
    have "bus_inv (set_thread t cs ?b)"
      using bus_inv_set_thread [OF i t, of cs] threads_ok [OF i t(1)] t(2) Removing by auto
    moreover have "bus_inv (fst (check_idle t sid p cs ?b))"
      using bus_inv_check_idle [OF i t] ok cs Removing by simp
    ultimately show ?thesis using assms(3) cs Removing by (auto simp: Let_def split: if_splits)
  next
    case (Woken sid p)
    then show ?thesis
      using assms(3) cs ok bus_inv_check_idle [OF assms(1,2) cs, of p sid] by auto
  qed (use assms(3) cs in simp)
qed

lemma unsubscribe_lookup_facts:
  assumes "unsubscribe_lookup sid b = (r, b')"
  shows "subs b' = subs b \<and> threads b' = threads b \<and>
    (\<forall>ty. set (subscribers_by_type b' ty) \<subseteq> set (subscribers_by_type b ty)) \<and>
    (\<forall>p. r = Some p \<longrightarrow> sub_id (subs b ! p) = sid \<and> (\<exists>ty. p \<in> set (subscribers_by_type b ty)))"
proof (cases "type_by_id b sid")
  case (Some ty)
  let ?P = "\<lambda>p. sub_id (subs b ! p) = sid"
  have "?P p \<and> p \<in> set (subscribers_by_type b ty)" if "find ?P (subscribers_by_type b ty) = Some p" for p
    using that by (auto simp: find_Some_iff)
  moreover have "set (remove1 p ps) \<subseteq> set ps" for p :: nat and ps by (rule set_remove1_subset)
  ultimately show ?thesis
    using assms Some
    by (auto simp: unsubscribe_lookup_def Let_def split: option.splits if_split_asm
        dest: set_remove1_subset [THEN subsetD])
qed (use assms in \<open>simp add: unsubscribe_lookup_def\<close>)

lemma bus_inv_same_threads:
  assumes "bus_inv b" "subs b' = subs b" "threads b' = threads b"
    and "\<And>ty. set (subscribers_by_type b' ty) \<subseteq> set (subscribers_by_type b ty)"
  shows "bus_inv b'"
proof -
  have "\<forall>p\<in>set (subscribers_by_type b' ty). p < length (subs b)" for ty
    using assms(1) assms(4) [of ty] by (auto simp: bus_inv_def calls_ok_def)
  with assms(1-3) show ?thesis
    by (simp add: bus_inv_def calls_ok_def counted_def owed_def in_flight_def somewhere_def)
qed

lemma bus_inv_subscribe:
  assumes "bus_inv b" "subscribe_erased ty b = (sid, b')"
  shows "bus_inv b'"
proof -
  let ?s = "\<lparr>sub_id = next_id b, running = 0, removed = False\<rparr>"
  have b': "subs b' = subs b @ [?s]" "threads b' = threads b"
    "subscribers_by_type b' = (subscribers_by_type b)(ty := subscribers_by_type b ty @ [length (subs b)])"
    using assms(2) by (auto simp: subscribe_erased_def Let_def)
  have new: "count_list (executing cs) (length (subs b)) = 0" if "cs \<in> set (threads b)" for cs
  proof -
    have "list_all (call_ok (subs b)) cs" using assms(1) that by (simp add: bus_inv_def calls_ok_def)
    then show ?thesis by (induction cs rule: executing.induct) auto
  qed
  have "calls_ok b'" using assms(1) b'
    by (fastforce simp: bus_inv_def calls_ok_def list_all_iff intro: call_ok_grow)
  moreover have "counted b'"
    using assms(1) new
    by (auto simp: bus_inv_def counted_def in_flight_def b' nth_append less_Suc_eq sum_list_eq_0_iff)
  moreover have "owed b'"
  proof -
    have "p < length (subs b)" if "somewhere (is_waiting p) b" for p
      using that assms(1) by (fastforce simp: somewhere_def bus_inv_def calls_ok_def list_ex_iff list_all_iff)
    then show ?thesis using assms(1) by (auto simp: bus_inv_def owed_def somewhere_def b' nth_append)
  qed
  ultimately show ?thesis by (simp add: bus_inv_def)
qed

lemma bus_step_inv:
  assumes "bus_inv b" "bus_step e b = Some (b', out)"
  shows "bus_inv b'"
proof -
  let ?t = "bus_thread e"
  have t: "?t < length (threads b)" and do: "bus_do e (threads b ! ?t) b = Some (b', out)"
    using assms(2) by (simp_all add: bus_step_def split: if_splits)
  have ok: "list_all (call_ok (subs b)) (threads b ! ?t)" by (rule threads_ok [OF assms(1) t])
  show ?thesis
  proof (cases e)
    case (Subscribe u ty)
    then show ?thesis using do bus_inv_subscribe [OF assms(1)] by (auto split: if_splits prod.splits)
  next
    case (Unsubscribe u sid)
    obtain r b1 where l: "unsubscribe_lookup sid b = (r, b1)" by force
    note f = unsubscribe_lookup_facts [OF l]
    have i: "bus_inv b1" by (rule bus_inv_same_threads [OF assms(1)]) (use f in auto)
    show ?thesis
    proof (cases r)
      case None
      then show ?thesis using do l i Unsubscribe by (simp split: if_splits)
    next
      case (Some p)
      have "p < length (subs b)" using f Some assms(1) by (auto simp: bus_inv_def calls_ok_def)
      then have "bus_inv (set_thread u (Removing sid p # threads b ! u) b1)"
        using t ok f Some Unsubscribe
        by (intro bus_inv_set_thread [OF i, of u "threads b ! u"]) simp_all
      then show ?thesis using do l Some Unsubscribe by (simp split: if_splits)
    qed
  next
    case (Publish u ty)
    have "call_ok (subs b) (Looping (subscribers_by_type b ty))"
      using assms(1) by (simp add: bus_inv_def calls_ok_def)
    then have "bus_inv (set_thread u (Looping (subscribers_by_type b ty) # threads b ! u) b)"
      using t Publish ok by (intro bus_inv_set_thread [OF assms(1), of u "threads b ! u"]) simp_all
    then show ?thesis using do Publish by (simp split: if_splits)
  next
    case (Advance u throws)
    then show ?thesis using do t bus_advance_inv [OF assms(1)] by simp
  next
    case (Wake_up u)
    then obtain sid p cs where c: "threads b ! u = Waiting sid p # cs"
      and b': "b' = set_thread u (Woken sid p # cs) b"
      using do by (auto split: list.splits call.splits)
    show ?thesis
      unfolding b' using t ok c Wake_up by (intro bus_inv_set_thread [OF assms(1), of u "Waiting sid p # cs"]) auto
  qed
qed

lemma bus_init_inv: "bus_init b \<Longrightarrow> bus_inv b"
  by (auto simp: bus_init_def new_bus_def bus_inv_def calls_ok_def counted_def owed_def somewhere_def list_ex_iff)

interpretation busm: event_machine bus_init bus_step bus_inv
  by unfold_locales (auto intro: bus_init_inv bus_step_inv)

section \<open>What unsubscribe guarantees\<close>

definition quiet :: "nat \<Rightarrow> bus \<Rightarrow> bool" where
  "quiet p b \<longleftrightarrow> p < length (subs b) \<and> removed (subs b ! p) \<and> running (subs b ! p) = 0"

lemma nth_update: "xs[i := x] ! j = (if i = j \<and> i < length xs then x else xs ! j)"
  by (cases "i < length xs") (auto simp: nth_list_update list_update_beyond)

lemma quiet_step:
  assumes "quiet p b" "bus_step e b = Some (b', out)"
  shows "quiet p b' \<and> Started p \<notin> set out"
proof -
  let ?t = "bus_thread e"
  have do: "bus_do e (threads b ! ?t) b = Some (b', out)"
    using assms(2) by (simp add: bus_step_def split: if_splits)
  show ?thesis
  proof (cases e)
    case (Unsubscribe u sid)
    obtain r b1 where l: "unsubscribe_lookup sid b = (r, b1)" by force
    then show ?thesis using do assms(1) unsubscribe_lookup_facts [OF l] Unsubscribe
      by (auto simp: quiet_def split: if_splits option.splits)
  next
    case (Advance u throws)
    with do have "bus_advance throws u (threads b ! u) b = Some (b', out)" by simp
    then show ?thesis
      using assms(1)
      by (cases "(throws, u, threads b ! u, b)" rule: bus_advance.cases)
        (auto simp: quiet_def nth_update check_idle_def Let_def split: if_splits)
  qed (use do assms(1) in \<open>auto simp: quiet_def subscribe_erased_def nth_append Let_def
        split: if_splits prod.splits list.splits call.splits\<close>)
qed

lemma quiet_run:
  assumes "quiet p b" "run bus_step es b = Some (b', outs)"
  shows "quiet p b' \<and> Started p \<notin> set (concat outs)"
  using assms
proof (induction es arbitrary: b outs)
  case (Cons e es)
  then obtain b1 o1 os where 1: "bus_step e b = Some (b1, o1)" "run bus_step es b1 = Some (b', os)" "outs = o1 # os"
    by (auto split: option.splits)
  then show ?case using quiet_step [OF Cons.prems(1) 1(1)] Cons.IH [of b1 os] by simp
qed simp

lemma unsubscribed_quiet:
  assumes "bus_inv b" "bus_step e b = Some (b', out)" "Unsubscribed sid (Some p) True \<in> set out"
  shows "quiet p b' \<and> sub_id (subs b' ! p) = sid"
proof -
  let ?t = "bus_thread e"
  have t: "?t < length (threads b)" and do: "bus_do e (threads b ! ?t) b = Some (b', out)"
    using assms(2) by (simp_all add: bus_step_def split: if_splits)
  have ok: "list_all (call_ok (subs b)) (threads b ! ?t)" by (rule threads_ok [OF assms(1) t])
  show ?thesis
  proof (cases e)
    case (Advance u throws)
    with do have "bus_advance throws u (threads b ! u) b = Some (b', out)" by simp
    then show ?thesis
      using assms(3) ok Advance
      by (cases "(throws, u, threads b ! u, b)" rule: bus_advance.cases)
        (auto simp: quiet_def nth_update check_idle_def Let_def split: if_splits)
  qed (use do assms(3) in \<open>auto split: if_splits prod.splits list.splits call.splits option.splits\<close>)
qed

lemma in_flight_0: "in_flight p b = 0 \<longleftrightarrow> (\<forall>cs\<in>set (threads b). p \<notin> set (executing cs))"
  by (auto simp: in_flight_def sum_list_eq_0_iff count_list_0_iff)

lemma running_in_flight: "bus_inv b \<Longrightarrow> p < length (subs b) \<Longrightarrow> running (subs b ! p) = in_flight p b"
  unfolding bus_inv_def counted_def by blast

lemma quiet_not_executing:
  assumes "bus_inv b" "quiet p b" "cs \<in> set (threads b)"
  shows "p \<notin> set (executing cs)"
  using assms running_in_flight [OF assms(1), of p] by (simp add: quiet_def in_flight_0)

text \<open>
  C25. When \<^verbatim>\<open>unsubscribe\<close> has removed a subscription and does not run inside the subscription's
  own handler, then from its return on, whatever all threads do, the handler is not running on
  any thread and is never started again. And nobody waits for nothing: while a thread is asleep
  in \<^verbatim>\<open>unsubscribe\<close>, a call it waits for is still in flight, or a thread that ended the last one
  is about to notify it.
\<close>

theorem unsubscribe_quiesces:
  assumes "reach bus_init bus_step b"
  shows "(\<forall>e b1 o1 sid p es b2 outs.
      bus_step e b = Some (b1, o1) \<and> Unsubscribed sid (Some p) True \<in> set o1 \<and>
      run bus_step es b1 = Some (b2, outs) \<longrightarrow>
        sub_id (subs b1 ! p) = sid \<and> Started p \<notin> set (concat outs) \<and>
        (\<forall>cs\<in>set (threads b2). p \<notin> set (executing cs))) \<and>
    (\<forall>p. somewhere (is_waiting p) b \<longrightarrow>
      (\<exists>cs\<in>set (threads b). p \<in> set (executing cs)) \<or> somewhere (is_notifying p) b)"
proof (intro conjI allI impI)
  have i: "bus_inv b" by (rule busm.reach_inv [OF assms])
  fix e b1 o1 sid p es b2 outs
  assume s: "bus_step e b = Some (b1, o1) \<and> Unsubscribed sid (Some p) True \<in> set o1 \<and>
      run bus_step es b1 = Some (b2, outs)"
  then have q: "quiet p b1 \<and> sub_id (subs b1 ! p) = sid" using unsubscribed_quiet [OF i] by blast
  have q2: "quiet p b2 \<and> Started p \<notin> set (concat outs)" using quiet_run q s by blast
  have "reach bus_init bus_step b2" using run_reach [OF reach_step [OF assms]] s by blast
  then have "bus_inv b2" by (rule busm.reach_inv)
  then show "sub_id (subs b1 ! p) = sid" "Started p \<notin> set (concat outs)"
    "\<forall>cs\<in>set (threads b2). p \<notin> set (executing cs)"
    using q q2 quiet_not_executing by blast+
next
  fix p
  assume w: "somewhere (is_waiting p) b"
  have i: "bus_inv b" by (rule busm.reach_inv [OF assms])
  have p: "p < length (subs b)"
    using w i by (fastforce simp: somewhere_def bus_inv_def calls_ok_def list_ex_iff list_all_iff)
  have "running (subs b ! p) \<noteq> 0 \<or> somewhere (is_notifying p) b" using w i by (simp add: bus_inv_def owed_def)
  moreover have "\<exists>cs\<in>set (threads b). p \<in> set (executing cs)" if "running (subs b ! p) \<noteq> 0"
    using that running_in_flight [OF i p] in_flight_0 [of p b] by auto
  ultimately show "(\<exists>cs\<in>set (threads b). p \<in> set (executing cs)) \<or> somewhere (is_notifying p) b" by blast
qed

text \<open>One thread is inside the handler while another unsubscribes it.\<close>

definition busy_calls :: "bus_event list" where
  "busy_calls = [Subscribe 0 7, Publish 1 7, Advance 1 False, Unsubscribe 0 1, Advance 0 False]"

definition busy_end :: "bus_event list" where
  "busy_end = [Advance 1 False, Advance 1 False]"

lemma busy_run:
  "map_option (\<lambda>(b, outs). (threads b, concat outs)) (run bus_step busy_calls (new_bus 3)) =
     Some ([[Waiting 1 0], [Running 0 []], []], [Subscribed 1 0, Started 0])"
  "map_option (\<lambda>(b, outs). (threads b, concat outs)) (run bus_step (busy_calls @ busy_end) (new_bus 3)) =
     Some ([[Woken 1 0], [Looping []], []], [Subscribed 1 0, Started 0, Ended 0])"
  "map_option (\<lambda>(b, outs). (threads b, last outs)) (run bus_step (busy_calls @ busy_end @ [Advance 0 False]) (new_bus 3)) =
     Some ([[], [Looping []], []], [Unsubscribed 1 (Some 0) True])"
  by code_simp+

theorem unsubscribe_quiesces_witness:
  "\<exists>b b1. run bus_step (busy_calls @ busy_end) (new_bus 3) = Some b \<and>
     bus_step (Advance 0 False) (fst b) = Some (b1, [Unsubscribed 1 (Some 0) True]) \<and>
     (\<forall>es b2 outs. run bus_step es b1 = Some (b2, outs) \<longrightarrow> Started 0 \<notin> set (concat outs))"
proof -
  obtain b outs where b: "run bus_step (busy_calls @ busy_end) (new_bus 3) = Some (b, outs)"
    using busy_run(2) by auto
  have r: "reach bus_init bus_step b"
    by (rule run_reach [OF reach_init b]) (auto simp: bus_init_def)
  obtain b1 where 1: "bus_step (Advance 0 False) b = Some (b1, [Unsubscribed 1 (Some 0) True])"
    using busy_run(3) b
    by (auto simp: append_assoc [symmetric] run_append simp del: append_assoc split: option.splits)
  have "Started 0 \<notin> set (concat os)" if "run bus_step es b1 = Some (b2, os)" for es b2 os
    using unsubscribe_quiesces [OF r] 1 that by fastforce
  with b 1 show ?thesis by auto
qed

text \<open>
  The guarantee is that of the call that removes the subscription. A second \<^verbatim>\<open>unsubscribe\<close> of the
  same id, made while the first one still waits, returns at once, with the handler running.
\<close>

lemma second_unsubscribe_does_not_wait:
  "\<exists>b outs. run bus_step (busy_calls @ [Unsubscribe 2 1]) (new_bus 3) = Some (b, outs) \<and>
     last outs = [Unsubscribed 1 None False] \<and> in_flight 0 b = 1"
proof -
  have "map_option (\<lambda>(b, outs). (last outs, in_flight 0 b))
      (run bus_step (busy_calls @ [Unsubscribe 2 1]) (new_bus 3)) = Some ([Unsubscribed 1 None False], 1)"
    by code_simp
  then show ?thesis by auto
qed

end
