(* ===== verification/Std_Rounding.thy ===== *)
theory Std_Rounding
  imports Std_Double
begin

text \<open>
  Order and rounding of doubles: a finite double is an integer multiple of \<open>2\<^sup>-\<^sup>1\<^sup>0\<^sup>7\<^sup>4\<close>, comparison of the
  encodings is comparison of these integers, and subtraction is the exact difference rounded once, by
  a monotone rounding. With the remaining operations the analysis uses: sum, quotient, square root.
\<close>

section \<open>Operations\<close>

definition f8_neg :: "f8 \<Rightarrow> f8" where
  "f8_neg w = f8_make (\<not> f8_sign w) (f8_abs w)"

definition f8_add :: "f8 \<Rightarrow> f8 \<Rightarrow> f8" where
  "f8_add a b = f8_sub a (f8_neg b)"

definition f8_div :: "f8 \<Rightarrow> f8 \<Rightarrow> f8" where
  "f8_div a b =
     (let s = (f8_sign a \<noteq> f8_sign b)
      in if f8_nan a \<or> f8_nan b then quiet_nan
         else if \<not> f8_finite a then (if \<not> f8_finite b then quiet_nan else f8_make s f8_inf)
         else if \<not> f8_finite b then f8_make s 0
         else if f8_abs b = 0 then (if f8_abs a = 0 then quiet_nan else f8_make s f8_inf)
         else case (f8_parts a, f8_parts b) of
                ((m, x), (n, y)) \<Rightarrow>
                  f8_make s (fst (if x \<ge> y then f8_of_ratio (m * 2 ^ nat (x - y)) n
                                  else f8_of_ratio m (n * 2 ^ nat (y - x)))))"

text \<open>The integer square root, two bits at a time.\<close>

fun isqrt :: "nat \<Rightarrow> nat" where
  "isqrt n =
     (if n = 0 then 0
      else let r = 2 * isqrt (n div 4) in if (r + 1) * (r + 1) \<le> n then r + 1 else r)"

declare isqrt.simps [simp del]

text \<open>
  The correctly rounded square root: the root of the mantissa, shifted to at least 55 bits, with one
  more bit that says whether it is exact, rounded once.
\<close>

definition f8_sqrt :: "f8 \<Rightarrow> f8" where
  "f8_sqrt w =
     (if f8_nan w then quiet_nan
      else if f8_abs w = 0 then w
      else if f8_sign w then quiet_nan
      else if \<not> f8_finite w then w
      else case f8_parts w of
             (m, x) \<Rightarrow>
               let k = (if even x then 110 else 111); n = m * 2 ^ k; r = isqrt n
               in f8_of_scaled False (2 * r + (if r * r = n then 0 else 1)) ((x - int k) div 2 - 1))"

section \<open>Comparisons of doubles\<close>

definition f8_le :: "f8 \<Rightarrow> f8 \<Rightarrow> bool" where
  "f8_le a b \<longleftrightarrow> \<not> f8_nan a \<and> \<not> f8_nan b \<and> f8_key a \<le> f8_key b"

definition f8_eq :: "f8 \<Rightarrow> f8 \<Rightarrow> bool" where
  "f8_eq a b \<longleftrightarrow> \<not> f8_nan a \<and> \<not> f8_nan b \<and> f8_key a = f8_key b"

text \<open>The literal \<open>n / d\<close>, rounded to the nearest double.\<close>

definition f8_lit :: "int \<Rightarrow> nat \<Rightarrow> f8" where
  "f8_lit n d = f8_make (n < 0) (fst (f8_of_ratio (nat \<bar>n\<bar>) d))"

lemma bit_length_numeral:
  "bit_length 0 = 0" "bit_length 1 = 1" "bit_length (Suc 0) = 1"
  "bit_length (numeral (num.Bit0 k)) = bit_length (numeral k) + 1"
  "bit_length (numeral (num.Bit1 k)) = bit_length (numeral k) + 1"
  by (subst bit_length.simps; simp add: bit_length.simps [of 0])+

lemmas lit_eval = f8_lit_def f8_of_ratio_def f8_make_def f8_exponent_def scale_down_def
  round_quotient_def f8_inf_def bit_length_numeral

lemma f8_sign_unat: "f8_sign w \<longleftrightarrow> unat w \<ge> 2 ^ 63"
proof -
  have "f8_sign w \<longleftrightarrow> odd (unat w div 2 ^ 63)"
    unfolding f8_sign_def bit_iff_odd [of "unat w" 63, symmetric] by (simp add: bit_unsigned_iff)
  moreover have "unat w div 2 ^ 63 < 2"
    using unsigned_less [where 'a = nat, of w] by (simp add: less_mult_imp_div_less)
  moreover have "unat w \<ge> 2 ^ 63 \<longleftrightarrow> unat w div 2 ^ 63 \<noteq> 0"
    by (simp add: div_eq_0_iff not_less)
  ultimately show ?thesis by (auto simp: less_2_cases_iff)
qed

lemma unat_sign_abs: "unat w = (if f8_sign w then 2 ^ 63 else 0) + f8_abs w"
proof -
  have "unat w < 2 * 2 ^ 63" using unsigned_less [where 'a = nat, of w] by simp
  then show ?thesis
    by (simp add: f8_sign_unat f8_abs_def not_le le_mod_geq)
qed

lemma f8_ext: "f8_sign a = f8_sign b \<Longrightarrow> f8_abs a = f8_abs b \<Longrightarrow> a = b"
  by (simp add: word_unat_eq_iff unat_sign_abs)

lemma f8_abs_make: "a < 2 ^ 63 \<Longrightarrow> f8_abs (f8_make s a) = a"
  by (simp add: f8_abs_def f8_make_def unat_of_nat take_bit_eq_mod)

lemma f8_not_nan_make: "a \<le> f8_inf \<Longrightarrow> \<not> f8_nan (f8_make s a)"
  by (simp add: f8_nan_def f8_abs_make f8_inf_def)

lemma f8_of_ratio_le: "fst (f8_of_ratio n d) \<le> f8_inf"
  by (simp add: f8_of_ratio_def Let_def)

lemma f8_not_nan_lit [simp]: "\<not> f8_nan (f8_lit n d)"
  by (simp add: f8_lit_def f8_not_nan_make f8_of_ratio_le)

lemma f8_not_le: "\<not> f8_nan a \<Longrightarrow> \<not> f8_nan b \<Longrightarrow> \<not> f8_le a b \<longleftrightarrow> f8_less b a"
  by (auto simp: f8_le_def f8_less_def)

lemma f8_not_less: "\<not> f8_nan a \<Longrightarrow> \<not> f8_nan b \<Longrightarrow> \<not> f8_less a b \<longleftrightarrow> f8_le b a"
  by (auto simp: f8_le_def f8_less_def)

section \<open>Bit lengths\<close>

lemma bit_length_0 [simp]: "bit_length 0 = 0"
  by (simp add: bit_length.simps)

lemma bit_length_bounds: "n > 0 \<Longrightarrow> 2 ^ (bit_length n - 1) \<le> n \<and> n < 2 ^ bit_length n \<and> bit_length n > 0"
proof (induction n rule: bit_length.induct)
  case (1 n)
  show ?case
  proof (cases "n div 2 = 0")
    case True
    with 1 have "n = 1" by auto
    then show ?thesis by (simp add: bit_length.simps)
  next
    case False
    then have ih: "2 ^ (bit_length (n div 2) - 1) \<le> n div 2" "n div 2 < 2 ^ bit_length (n div 2)"
      "bit_length (n div 2) > 0"
      using 1 by auto
    then obtain b where b: "bit_length (n div 2) = Suc b" by (cases "bit_length (n div 2)") auto
    then have "bit_length n = Suc (Suc b)" using 1 by (subst bit_length.simps) simp
    then show ?thesis using ih b by simp linarith
  qed
qed

lemma bit_length_unique: "2 ^ b \<le> n \<Longrightarrow> n < 2 ^ Suc b \<Longrightarrow> bit_length n = Suc b"
proof -
  assume a: "2 ^ b \<le> n" "n < 2 ^ Suc b"
  then have "n > 0" by (metis gr0I le_zero_eq power_eq_0_iff zero_neq_numeral)
  note bd = bit_length_bounds [OF this]
  have "2 ^ b < (2 :: nat) ^ bit_length n" "(2 :: nat) ^ (bit_length n - 1) < 2 ^ Suc b"
    using bd a by linarith+
  then have "b < bit_length n" "bit_length n - 1 < Suc b" by (simp_all del: power_Suc)
  then show ?thesis by linarith
qed

lemma bit_length_shift: "n > 0 \<Longrightarrow> bit_length (n * 2 ^ i) = bit_length n + i"
proof -
  assume n: "n > 0"
  obtain b where b: "bit_length n = Suc b" using bit_length_bounds [OF n] by (cases "bit_length n") auto
  have "2 ^ b \<le> n" "n < 2 ^ Suc b" using bit_length_bounds [OF n] b by auto
  then have "2 ^ (b + i) \<le> n * 2 ^ i" "n * 2 ^ i < 2 ^ Suc (b + i)" by (simp_all add: power_add)
  then show ?thesis using bit_length_unique b by simp
qed

lemma bit_length_mono: "m \<le> n \<Longrightarrow> bit_length m \<le> bit_length n"
proof (cases "m = 0")
  case False
  assume mn: "m \<le> n"
  have "(2 :: nat) ^ (bit_length m - 1) < 2 ^ bit_length n"
    using bit_length_bounds [of m] bit_length_bounds [of n] mn False by linarith
  then have "bit_length m - 1 < bit_length n" by simp
  then show ?thesis by linarith
qed simp

lemma bit_length_pow2 [simp]: "bit_length (2 ^ j) = Suc j"
  by (rule bit_length_unique) simp_all

section \<open>Rounding is monotone\<close>

lemma round_quotient_scale: "c > 0 \<Longrightarrow> round_quotient (a * c, b * c) = round_quotient (a, b)"
proof -
  assume c: "c > 0"
  have "2 * (a mod b * c) > b * c \<longleftrightarrow> 2 * (a mod b) > b" "2 * (a mod b * c) = b * c \<longleftrightarrow> 2 * (a mod b) = b"
    using c by (simp_all add: mult.assoc [symmetric])
  then show ?thesis
    using c by (simp add: round_quotient_def Let_def mod_mult_mult2)
qed

lemma round_quotient_cross:
  "a * d = c * b \<Longrightarrow> b > 0 \<Longrightarrow> d > 0 \<Longrightarrow> round_quotient (a, b) = round_quotient (c, d)"
  using round_quotient_scale [of d a b] round_quotient_scale [of b c d] by (simp add: mult.commute)

lemma round_quotient_mono:
  assumes "a \<le> c" "d > 0"
  shows "round_quotient (a, d) \<le> round_quotient (c, d)"
proof (cases "a div d = c div d")
  case True
  then have "a mod d \<le> c mod d"
    using assms by (metis add_le_cancel_left mult_div_mod_eq)
  then show ?thesis using True by (auto simp: round_quotient_def Let_def)
next
  case False
  then have "a div d + 1 \<le> c div d" using assms div_le_mono [of a c d] by simp
  then show ?thesis by (auto simp: round_quotient_def Let_def)
qed

lemma round_quotient_exact: "d > 0 \<Longrightarrow> round_quotient (q * d, d) = q"
  by (simp add: round_quotient_def)

text \<open>The encoding of \<open>n \<sqdot> 2\<^sup>-\<^sup>1\<^sup>0\<^sup>7\<^sup>4\<close>, rounded: the exponent field and the mantissa below it.\<close>

definition rounded :: "nat \<Rightarrow> nat" where
  "rounded n =
     (let k = bit_length n - 53 in min (k * 2 ^ 52 + round_quotient (n, 2 ^ k)) f8_inf)"

lemma rounded_mono:
  assumes "m \<le> n"
  shows "rounded m \<le> rounded n"
proof -
  define k l where "k = bit_length m - 53" and "l = bit_length n - 53"
  have kl: "k \<le> l" using bit_length_mono [OF assms] by (simp add: k_def l_def)
  have "k * 2 ^ 52 + round_quotient (m, 2 ^ k) \<le> l * 2 ^ 52 + round_quotient (n, 2 ^ l)"
  proof (cases "k = l")
    case True
    then show ?thesis using round_quotient_mono [OF assms, of "2 ^ k"] by simp
  next
    case False
    have "m \<le> 2 ^ 53 * 2 ^ k"
    proof (cases "m = 0")
      case False
      have "m < 2 ^ bit_length m" using bit_length_bounds [of m] False by simp
      also have "\<dots> \<le> 2 ^ (53 + k)" by (rule power_increasing) (simp_all add: k_def)
      finally show ?thesis by (simp add: power_add)
    qed simp
    then have up: "round_quotient (m, 2 ^ k) \<le> 2 ^ 53"
      using round_quotient_mono [of m "2 ^ 53 * 2 ^ k" "2 ^ k"] round_quotient_exact [of "2 ^ k" "2 ^ 53"] by simp
    have l: "l > 0" "bit_length n - 1 = 52 + l" "n > 0"
      using False kl by (auto simp: l_def intro: gr0I)
    have "2 ^ (52 + l) \<le> n" using bit_length_bounds [OF l(3)] l(2) by simp
    then have "2 ^ 52 \<le> round_quotient (n, 2 ^ l)"
      using round_quotient_mono [of "2 ^ 52 * 2 ^ l" n "2 ^ l"] round_quotient_exact [of "2 ^ l" "2 ^ 52"]
      by (simp add: power_add)
    moreover have "k * 2 ^ 52 + 2 ^ 53 \<le> l * 2 ^ 52 + 2 ^ 52" using False kl by simp
    ultimately show ?thesis using up by linarith
  qed
  then show ?thesis by (simp add: rounded_def k_def l_def Let_def min.coboundedI1 min.coboundedI2)
qed

lemma rounded_0 [simp]: "rounded 0 = 0"
  by (simp add: rounded_def round_quotient_def)

lemma rounded_le: "rounded n \<le> f8_inf"
  by (simp add: rounded_def Let_def)

section \<open>Doubles as integers\<close>

text \<open>The exponent and the integer value of a finite double, in units of \<open>2\<^sup>-\<^sup>1\<^sup>0\<^sup>7\<^sup>4\<close>.\<close>

definition f8_mag :: "nat \<Rightarrow> nat" where
  "f8_mag a = (if a div 2 ^ 52 = 0 then a else (2 ^ 52 + a mod 2 ^ 52) * 2 ^ (a div 2 ^ 52 - 1))"

definition f8_int :: "f8 \<Rightarrow> int" where
  "f8_int w = (if f8_sign w then - int (f8_mag (f8_abs w)) else int (f8_mag (f8_abs w)))"

lemma f8_mag_strict: "a < b \<Longrightarrow> f8_mag a < f8_mag b"
proof -
  assume ab: "a < b"
  define e f g h where "e = a div 2 ^ 52" and "f = a mod 2 ^ 52" and "g = b div 2 ^ 52" and "h = b mod 2 ^ 52"
  have a: "a = e * 2 ^ 52 + f" "f < 2 ^ 52" and b: "b = g * 2 ^ 52 + h" "h < 2 ^ 52"
    by (simp_all add: e_def f_def g_def h_def)
  have eg: "e \<le> g" using ab by (simp add: e_def g_def div_le_mono)
  have ma: "f8_mag a = (if e = 0 then f else (2 ^ 52 + f) * 2 ^ (e - 1))"
    and mb: "f8_mag b = (if g = 0 then h else (2 ^ 52 + h) * 2 ^ (g - 1))"
    using a b by (auto simp: f8_mag_def e_def [symmetric] f_def [symmetric] g_def [symmetric] h_def [symmetric])
  show ?thesis
  proof (cases "e = g")
    case True
    then have "f < h" using ab a b by simp
    then show ?thesis using True ma mb by simp
  next
    case False
    then have "e < g" using eg by simp
    have "f8_mag a < 2 ^ 52 * 2 ^ e"
    proof (cases "e = 0")
      case False
      have "(2 ^ 52 + f) * 2 ^ (e - 1) < (2 * 2 ^ 52) * (2 :: nat) ^ (e - 1)"
        using a(2) by (intro mult_strict_right_mono) simp_all
      also have "\<dots> = 2 ^ 52 * 2 ^ e" using False by (cases e) simp_all
      finally show ?thesis using ma False by simp
    qed (use ma a in simp)
    also have "\<dots> \<le> (2 ^ 52 + h) * 2 ^ (g - 1)"
      using \<open>e < g\<close> by (intro mult_le_mono power_increasing) simp_all
    finally show ?thesis using mb \<open>e < g\<close> by simp
  qed
qed

lemma f8_mag_less_iff [simp]: "f8_mag a < f8_mag b \<longleftrightarrow> a < b"
  by (metis f8_mag_strict linorder_cases not_less_iff_gr_or_eq)

lemma f8_mag_le_iff [simp]: "f8_mag a \<le> f8_mag b \<longleftrightarrow> a \<le> b"
  using f8_mag_less_iff [of b a] by linarith

lemma f8_mag_0 [simp]: "f8_mag 0 = 0"
  by (simp add: f8_mag_def)

lemma f8_mag_eq_0 [simp]: "f8_mag a = 0 \<longleftrightarrow> a = 0"
  using f8_mag_less_iff [of 0 a] f8_mag_0 by (metis not_gr_zero)

lemma f8_int_le_iff: "f8_int a \<le> f8_int b \<longleftrightarrow> f8_key a \<le> f8_key b"
proof -
  have "int m \<le> - int n \<longleftrightarrow> m = 0 \<and> n = 0" for m n by linarith
  then show ?thesis
    by (cases "f8_sign a"; cases "f8_sign b") (auto simp: f8_int_def f8_key_def)
qed

lemma f8_int_eq_iff: "f8_int a = f8_int b \<longleftrightarrow> f8_key a = f8_key b"
  using f8_int_le_iff [of a b] f8_int_le_iff [of b a] by linarith

lemma f8_int_less_iff: "f8_int a < f8_int b \<longleftrightarrow> f8_key a < f8_key b"
  using f8_int_le_iff [of b a] by linarith

lemma f8_parts_mag:
  assumes "f8_parts w = (m, x)"
  shows "- 1074 \<le> x" "f8_mag (f8_abs w) = m * 2 ^ nat (x + 1074)"
proof -
  show "- 1074 \<le> x" using assms by (auto simp: f8_parts_def Let_def split: if_splits)
  have "f8_abs w div 2 ^ 52 = 0 \<Longrightarrow> f8_abs w mod 2 ^ 52 = f8_abs w"
    by (metis mod_less div_eq_0_iff power_not_zero zero_neq_numeral)
  moreover have "nat (int e - 1075 + 1074) = e - 1" for e by simp
  ultimately show "f8_mag (f8_abs w) = m * 2 ^ nat (x + 1074)"
    using assms unfolding f8_parts_def Let_def f8_mag_def by (auto split: if_splits)
qed

section \<open>The rounded value of a scaled integer\<close>

lemma scaled_quotient:
  assumes "n > 0" and x: "x = int (bit_length n) - int (Suc j) - 53"
  shows "(case scale_down n (2 ^ j) x of (a, d) \<Rightarrow> a div d) \<ge> 2 ^ 53"
proof -
  let ?b = "bit_length n"
  have b: "2 ^ (?b - 1) \<le> n" "?b > 0" using bit_length_bounds [OF assms(1)] by auto
  show ?thesis
  proof (cases "x \<ge> 0")
    case True
    then have e: "?b - 1 = 53 + (j + nat x)" using b x by simp
    have "2 ^ 53 * 2 ^ (j + nat x) \<le> n" using b(1) unfolding e power_add by simp
    then have "2 ^ 53 \<le> n div 2 ^ (j + nat x)" by (simp add: less_eq_div_iff_mult_less_eq)
    then show ?thesis using True by (simp add: scale_down_def power_add)
  next
    case False
    then have e: "?b - 1 + nat (- x) = 53 + j" using b x by simp
    have "2 ^ 53 * 2 ^ j \<le> n * 2 ^ nat (- x)"
      using b(1) mult_le_mono1 [of "2 ^ (?b - 1)" n "2 ^ nat (- x)"] e
      by (metis power_add)
    then have "2 ^ 53 \<le> n * 2 ^ nat (- x) div 2 ^ j" by (simp add: less_eq_div_iff_mult_less_eq)
    then show ?thesis using False by (simp add: scale_down_def)
  qed
qed

lemma f8_of_ratio_pow2:
  assumes "n > 0" "j \<le> 1074"
  shows "fst (f8_of_ratio n (2 ^ j)) = rounded (n * 2 ^ (1074 - j))"
proof -
  let ?b = "bit_length n"
  define x where "x = f8_exponent n (2 ^ j)"
  have x: "x = max (- 1074) (int ?b - int j - 53)"
    using scaled_quotient [OF assms(1) refl, of j]
    by (auto simp: x_def f8_exponent_def Let_def split: prod.splits)
  have k: "bit_length (n * 2 ^ (1074 - j)) - 53 = nat (x + 1074)"
    using bit_length_shift [OF assms(1), of "1074 - j"] assms(2) x by simp
  have rq: "round_quotient (scale_down n (2 ^ j) x) = round_quotient (n * 2 ^ (1074 - j), 2 ^ nat (x + 1074))"
  proof (cases "x \<ge> 0")
    case True
    then have "1074 - j + (j + nat x) = nat (x + 1074)" using assms(2) by simp
    then have "n * 2 ^ nat (x + 1074) = n * 2 ^ (1074 - j) * (2 ^ j * 2 ^ nat x)"
      by (metis mult.assoc power_add)
    then show ?thesis
      using True by (simp only: scale_down_def if_True) (rule round_quotient_cross; simp)
  next
    case False
    then have "nat (- x) + nat (x + 1074) = 1074 - j + j" using assms(2) x by simp
    then have "n * 2 ^ nat (- x) * 2 ^ nat (x + 1074) = n * 2 ^ (1074 - j) * 2 ^ j"
      by (metis mult.assoc power_add)
    then show ?thesis
      using False by (simp only: scale_down_def if_False) (rule round_quotient_cross; simp)
  qed
  show ?thesis
    using assms(1) unfolding f8_of_ratio_def Let_def x_def [symmetric] rounded_def k rq by simp
qed

lemma rounded_scaled:
  assumes "- 1074 \<le> z"
  shows "fst (if z \<ge> 0 then f8_of_ratio (d * 2 ^ nat z) 1 else f8_of_ratio d (2 ^ nat (- z))) =
    rounded (d * 2 ^ nat (z + 1074))"
proof (cases "d = 0")
  case True
  then show ?thesis by (simp add: f8_of_ratio_def)
next
  case False
  show ?thesis
  proof (cases "z \<ge> 0")
    case True
    then have "nat (z + 1074) = nat z + 1074" by simp
    then have "d * 2 ^ nat (z + 1074) = d * 2 ^ nat z * 2 ^ (1074 - 0)"
      by (simp only: power_add mult.assoc diff_zero)
    then show ?thesis
      using True False f8_of_ratio_pow2 [of "d * 2 ^ nat z" 0]
      by (simp only: if_True power_0) simp
  next
    case neg: False
    then have "nat (z + 1074) = 1074 - nat (- z)" "nat (- z) \<le> 1074" using assms by simp_all
    then show ?thesis using neg False f8_of_ratio_pow2 [of d "nat (- z)"] by simp
  qed
qed

text \<open>The encoding of a rounded integer, with its sign.\<close>

definition round_key :: "int \<Rightarrow> int" where
  "round_key i = (if i < 0 then - int (rounded (nat (- i))) else int (rounded (nat i)))"

lemma round_key_mono: "i \<le> j \<Longrightarrow> round_key i \<le> round_key j"
  using rounded_mono [of "nat i" "nat j"] rounded_mono [of "nat (- j)" "nat (- i)"]
  by (auto simp: round_key_def)

lemma round_key_neg: "round_key (- i) = - round_key i"
  by (auto simp: round_key_def)

lemma round_key_sign: "i \<ge> 0 \<Longrightarrow> round_key i \<ge> 0" "i \<le> 0 \<Longrightarrow> round_key i \<le> 0"
  by (auto simp: round_key_def)

lemma f8_make_facts:
  assumes "a \<le> f8_inf"
  shows "f8_abs (f8_make s a) = a" "f8_sign (f8_make s a) = s" "f8_key (f8_make s a) = (if s then - int a else int a)"
proof -
  have a: "a < 2 ^ 63" using assms by (simp add: f8_inf_def)
  have u: "unat (f8_make s a) = (if s then 2 ^ 63 else 0) + a"
    using a by (simp add: f8_make_def unat_of_nat take_bit_eq_mod)
  show "f8_abs (f8_make s a) = a" using u a by (simp add: f8_abs_def)
  moreover show "f8_sign (f8_make s a) = s" using u a by (simp add: f8_sign_unat)
  ultimately show "f8_key (f8_make s a) = (if s then - int a else int a)" by (auto simp: f8_key_def)
qed

lemma f8_of_scaled_facts:
  assumes "- 1074 \<le> z"
  shows "f8_sign (f8_of_scaled s d z) = s" "f8_abs (f8_of_scaled s d z) = rounded (d * 2 ^ nat (z + 1074))"
  using f8_make_facts [OF rounded_le] by (simp_all only: f8_of_scaled_def rounded_scaled [OF assms])

text \<open>Subtraction of finite doubles: the exact difference, rounded once.\<close>

lemma f8_sub_key:
  assumes "f8_finite a" "f8_finite b"
  shows "f8_key (f8_sub a b) = round_key (f8_int a - f8_int b)"
proof -
  obtain m x where a: "f8_parts a = (m, x)" by force
  obtain n y where b: "f8_parts b = (n, y)" by force
  define z where "z = min x y"
  define i where "i = int m * 2 ^ nat (x - z) * (if f8_sign a then - 1 else 1)"
  define j where "j = int n * 2 ^ nat (y - z) * (if f8_sign b then - 1 else 1)"
  have z: "- 1074 \<le> z" using f8_parts_mag(1) [OF a] f8_parts_mag(1) [OF b] by (simp add: z_def)
  have "nat (x + 1074) = nat (x - z) + nat (z + 1074)" "nat (y + 1074) = nat (y - z) + nat (z + 1074)"
    using z by (auto simp: z_def)
  then have ai: "f8_int a = i * 2 ^ nat (z + 1074)" and bj: "f8_int b = j * 2 ^ nat (z + 1074)"
    using f8_parts_mag(2) [OF a] f8_parts_mag(2) [OF b]
    by (auto simp: f8_int_def i_def j_def power_add)
  have nan: "\<not> f8_nan a" "\<not> f8_nan b" using assms by (auto simp: f8_nan_def f8_finite_def)
  have sub: "f8_sub a b =
      (if i = j then f8_make (f8_abs a = 0 \<and> f8_sign a \<and> \<not> f8_sign b) 0
       else f8_of_scaled (i < j) (nat \<bar>i - j\<bar>) z)"
    using assms nan by (simp add: f8_sub_def a b Let_def z_def [symmetric] i_def [symmetric] j_def [symmetric])
  show ?thesis
  proof (cases "i = j")
    case True
    then show ?thesis using sub ai bj f8_make_facts(3) [of 0] by (simp add: round_key_def)
  next
    case False
    let ?d = "nat \<bar>i - j\<bar> * 2 ^ nat (z + 1074)"
    have "f8_key (f8_sub a b) = (if i < j then - int (rounded ?d) else int (rounded ?d))"
      using False sub f8_of_scaled_facts [OF z] by (simp add: f8_key_def)
    moreover have "int ?d = \<bar>f8_int a - f8_int b\<bar>"
      by (simp add: ai bj left_diff_distrib [symmetric] abs_mult)
    then have "?d = nat \<bar>f8_int a - f8_int b\<bar>" by linarith
    moreover have "f8_int a < f8_int b \<longleftrightarrow> i < j" by (simp add: ai bj)
    ultimately show ?thesis by (auto simp: round_key_def)
  qed
qed

section \<open>Distances from a fixed value\<close>

lemma f8_key_cases: "f8_key a = f8_key b \<Longrightarrow> a = b \<or> f8_abs a = 0 \<and> f8_abs b = 0"
  by (auto simp: f8_key_def f8_ext split: if_splits)

text \<open>Rounding keeps a double as it is, so subtracting from zero only changes the sign.\<close>

lemma rounded_mag: "a < f8_inf \<Longrightarrow> rounded (f8_mag a) = a"
proof (cases "a div 2 ^ 52 = 0")
  case True
  assume a: "a < f8_inf"
  have l: "a < 2 ^ 52" using True by (simp add: div_eq_0_iff)
  have "bit_length a \<le> bit_length (2 ^ 52)" by (rule bit_length_mono) (use l in simp)
  then have "bit_length a \<le> 53" by (simp only: bit_length_pow2)
  then show ?thesis
    using True a round_quotient_exact [of 1 a] by (simp add: f8_mag_def rounded_def)
next
  case False
  assume a: "a < f8_inf"
  define e f where "e = a div 2 ^ 52" and "f = a mod 2 ^ 52"
  have ef: "a = e * 2 ^ 52 + f" "f < 2 ^ 52" "e > 0" using False by (simp_all add: e_def f_def)
  have "bit_length (2 ^ 52 + f) = Suc 52" using ef(2) by (intro bit_length_unique) simp_all
  then have b: "bit_length ((2 ^ 52 + f) * 2 ^ (e - 1)) = 53 + (e - 1)"
    by (subst bit_length_shift) simp_all
  have "rounded (f8_mag a) = min ((e - 1) * 2 ^ 52 + (2 ^ 52 + f)) f8_inf"
    using False b round_quotient_exact [of "2 ^ (e - 1)" "2 ^ 52 + f"]
    unfolding f8_mag_def e_def [symmetric] f_def [symmetric] rounded_def by (simp add: Let_def)
  moreover have "(e - 1) * 2 ^ 52 + (2 ^ 52 + f) = a" using ef by (cases e) simp_all
  ultimately show ?thesis using a by simp
qed

lemma f8_sub_zero:
  assumes "f8_finite b" "f8_abs b \<noteq> 0"
  shows "f8_sub 0 b = f8_neg b"
proof -
  have b: "f8_abs b < f8_inf" using assms by (simp add: f8_finite_def)
  have z: "f8_finite 0" "f8_int 0 = 0" by (simp_all add: f8_finite_def f8_int_def f8_abs_def f8_inf_def f8_sign_def)
  have k: "f8_key (f8_neg b) = - f8_key b"
    using f8_make_facts(3) [of "f8_abs b"] b by (auto simp: f8_neg_def f8_key_def)
  have "f8_key (f8_sub 0 b) = round_key (- f8_int b)" using f8_sub_key [OF z(1) assms(1)] z(2) by simp
  also have "\<dots> = - f8_key b"
    using rounded_mag [OF b] assms(2) by (auto simp: round_key_def f8_int_def f8_key_def)
  finally have "f8_key (f8_sub 0 b) = f8_key (f8_neg b)" using k by simp
  moreover have "f8_abs (f8_neg b) \<noteq> 0" using f8_make_facts(1) [of "f8_abs b"] b assms(2) by (simp add: f8_neg_def)
  ultimately show ?thesis using f8_key_cases [of "f8_sub 0 b" "f8_neg b"] by simp
qed

lemma f8_not_nan_finite: "f8_finite a \<Longrightarrow> \<not> f8_nan a"
  by (simp add: f8_finite_def f8_nan_def)

lemma f8_less_key: "f8_finite z \<Longrightarrow> \<not> f8_nan m \<Longrightarrow> f8_less z m \<longleftrightarrow> f8_key z < f8_key m"
  by (simp add: f8_less_def f8_not_nan_finite)

lemma f8_key_fabs: "\<not> f8_nan w \<Longrightarrow> f8_key (f8_fabs w) = \<bar>f8_key w\<bar>"
  using f8_make_facts(3) [of "f8_abs w" False] by (simp add: f8_fabs_def f8_key_def f8_nan_def)

lemma f8_sub_infinite:
  assumes "f8_finite z" "\<not> f8_finite m" "\<not> f8_nan m"
  shows "f8_sub m z = m" "f8_sub z m = f8_make (\<not> f8_sign m) f8_inf"
    "f8_key m = (if f8_sign m then - int f8_inf else int f8_inf)"
    "- int f8_inf < f8_key z" "f8_key z < int f8_inf"
  using assms by (auto simp: f8_sub_def f8_not_nan_finite f8_finite_def f8_nan_def f8_key_def)

lemma f8_abs_le_inf: "\<not> f8_nan w \<longleftrightarrow> f8_abs w \<le> f8_inf"
  by (simp add: f8_nan_def not_less)

lemma f8_sub_not_nan:
  assumes "f8_finite z" "\<not> f8_nan m"
  shows "\<not> f8_nan (f8_sub z m)" "\<not> f8_nan (f8_sub m z)"
proof -
  have fin: "\<not> f8_nan (f8_sub a b)" if "f8_finite a" "f8_finite b" for a b
  proof -
    obtain m x n y where "f8_parts a = (m, x)" "f8_parts b = (n, y)" by force
    then show ?thesis
      using that f8_parts_mag(1) [of a m x] f8_parts_mag(1) [of b n y]
      by (auto simp: f8_sub_def f8_not_nan_finite Let_def f8_abs_le_inf f8_make_facts(1) f8_of_scaled_facts(2) rounded_le)
  qed
  show "\<not> f8_nan (f8_sub z m)" "\<not> f8_nan (f8_sub m z)"
    using fin assms f8_sub_infinite(1,2) [OF assms(1) _ assms(2)] f8_make_facts(1) [of f8_inf]
    by (cases "f8_finite m"; simp add: f8_abs_le_inf)+
qed

lemma f8_distance_mono:
  assumes "f8_finite z" "f8_finite y" "\<not> f8_nan m" "f8_key z \<le> f8_key y"
  shows "f8_key (f8_sub z m) \<le> f8_key (f8_sub y m)" "f8_key (f8_sub m y) \<le> f8_key (f8_sub m z)"
  using assms f8_sub_infinite(1,2) [OF assms(1) _ assms(3)] f8_sub_infinite(1,2) [OF assms(2) _ assms(3)]
  by (cases "f8_finite m"; simp add: f8_sub_key round_key_mono f8_int_le_iff)+

lemma f8_distance_abs:
  assumes "f8_finite z" "\<not> f8_nan m"
  shows "f8_key (f8_fabs (f8_sub z m)) =
      (if f8_less z m then f8_key (f8_sub m z) else f8_key (f8_sub z m))"
proof (cases "f8_finite m")
  case True
  have n: "round_key (f8_int m - f8_int z) = - round_key (f8_int z - f8_int m)"
    using round_key_neg [of "f8_int z - f8_int m"] by simp
  show ?thesis
  proof (cases "f8_int z < f8_int m")
    case less: True
    then have "round_key (f8_int z - f8_int m) \<le> 0" by (intro round_key_sign(2)) simp
    then show ?thesis
      using less True assms n
      by (simp add: f8_key_fabs f8_sub_not_nan f8_less_key f8_int_less_iff [symmetric] f8_sub_key)
  next
    case False
    then have "0 \<le> round_key (f8_int z - f8_int m)" by (intro round_key_sign(1)) simp
    then show ?thesis
      using False True assms
      by (simp add: f8_key_fabs f8_sub_not_nan f8_less_key f8_int_less_iff [symmetric] f8_sub_key)
  qed
next
  case False
  note facts = f8_sub_infinite [OF assms(1) False assms(2)]
  show ?thesis
    using facts(3-5) f8_make_facts(1,3) [of f8_inf] assms
    by (simp add: f8_fabs_def f8_less_key facts(1,2))
qed

end
