(* ===== verification/Config.thy ===== *)
theory Config
  imports Std_Rounding
begin

text \<open>
  The configuration loader of \<^verbatim>\<open>src/core/config.cpp\<close>: reading a JSON document section by section
  over documented defaults, collecting warnings for unknown keys, and checking the ranges. The JSON
  library is a third-party package: what the loader calls of it is the parameter \<open>json_api\<close>, one
  field per call, and nothing is assumed of it unless a theorem says so.
\<close>

section \<open>Data\<close>

type_synonym i32 = "32 word"

definition kConfigErrorExitCode :: int where
  "kConfigErrorExitCode = 2"

definition config_error :: "string \<Rightarrow> error" where
  "config_error m = \<lparr>error.code = kConfigErrorExitCode, message = m\<rparr>"

record machine_config =
  mc_model :: string
  mc_softrev :: string

record wafer_truth_config =
  wt_stress_mpa :: f8
  wt_initial_curvature_1_per_m :: f8
  wt_tilt_x_um_per_mm :: f8
  wt_tilt_y_um_per_mm :: f8
  wt_anisotropy :: f8

record wafer_config =
  wc_diameter_mm :: f8
  wc_thickness_um :: f8
  wc_film_thickness_um :: f8
  wc_biaxial_modulus_gpa :: f8
  wc_truth :: wafer_truth_config
  wc_seed :: u64

record scan_config =
  sn_lines :: i32
  sn_points_per_mm :: i32
  sn_speed_mm_per_s :: f8
  sn_realtime_factor :: f8
  sn_edge_exclusion_mm :: f8

record noise_config =
  nc_sigma_um :: f8

record fault_config =
  fc_wafer :: string
  fc_type :: string
  fc_rate :: f8
  fc_amplitude_um :: f8
  fc_length_samples :: i32
  fc_drift_um_per_s :: f8
  fc_saturation_limit_um :: f8
  fc_stall_duration_s :: f8

record analysis_config =
  an_outlier_mad_k :: f8
  an_outlier_fraction_alarm :: f8
  an_fit_rms_limit_um :: f8
  an_stress_spec_low_mpa :: f8
  an_stress_spec_high_mpa :: f8
  an_stress_plausible_low_mpa :: f8
  an_stress_plausible_high_mpa :: f8
  an_map_grid_mm :: f8
  an_threads :: i32

record cassette_config =
  ca_id :: string
  ca_slots :: i32

record comm_config =
  co_enabled :: bool
  co_bind :: string
  co_port :: i32
  co_device_id :: i32
  co_allow_host_online :: bool
  co_t3_s :: f8
  co_t5_s :: f8
  co_t6_s :: f8
  co_t7_s :: f8
  co_t8_s :: f8
  co_linktest_s :: f8
  co_max_frame_bytes :: u64

record output_config =
  ou_dir :: string
  ou_save_samples :: bool
  ou_sample_decimation :: i32

record config =
  cf_machine :: machine_config
  cf_wafer :: wafer_config
  cf_scan :: scan_config
  cf_noise :: noise_config
  cf_faults :: "fault_config list"
  cf_analysis :: analysis_config
  cf_cassette :: cassette_config
  cf_comm :: comm_config
  cf_output :: output_config

record config_load_result =
  lr_config :: config
  lr_warnings :: "string list"

subsection \<open>Defaults\<close>

definition default_machine :: machine_config where
  "default_machine = \<lparr>mc_model = ''SSIM-128'', mc_softrev = ''0.1.0''\<rparr>"

definition default_truth :: wafer_truth_config where
  "default_truth =
     \<lparr>wt_stress_mpa = f8_lit (- 180) 1, wt_initial_curvature_1_per_m = f8_lit 2 1000,
      wt_tilt_x_um_per_mm = f8_lit 8 10, wt_tilt_y_um_per_mm = f8_lit (- 3) 10,
      wt_anisotropy = f8_lit 5 100\<rparr>"

definition default_wafer :: wafer_config where
  "default_wafer =
     \<lparr>wc_diameter_mm = f8_lit 300 1, wc_thickness_um = f8_lit 775 1, wc_film_thickness_um = f8_lit 1 1,
      wc_biaxial_modulus_gpa = f8_lit 1805 10, wc_truth = default_truth, wc_seed = 12345\<rparr>"

definition default_scan :: scan_config where
  "default_scan =
     \<lparr>sn_lines = 6, sn_points_per_mm = 40, sn_speed_mm_per_s = f8_lit 150 1,
      sn_realtime_factor = f8_lit 1 1, sn_edge_exclusion_mm = f8_lit 3 1\<rparr>"

definition default_noise :: noise_config where
  "default_noise = \<lparr>nc_sigma_um = f8_lit 5 10\<rparr>"

definition default_fault :: fault_config where
  "default_fault =
     \<lparr>fc_wafer = [], fc_type = [], fc_rate = f8_lit 0 1, fc_amplitude_um = f8_lit 0 1,
      fc_length_samples = 1, fc_drift_um_per_s = f8_lit 0 1, fc_saturation_limit_um = f8_lit 0 1,
      fc_stall_duration_s = f8_lit 0 1\<rparr>"

definition default_analysis :: analysis_config where
  "default_analysis =
     \<lparr>an_outlier_mad_k = f8_lit 6 1, an_outlier_fraction_alarm = f8_lit 1 100,
      an_fit_rms_limit_um = f8_lit 2 1, an_stress_spec_low_mpa = f8_lit (- 400) 1,
      an_stress_spec_high_mpa = f8_lit 400 1, an_stress_plausible_low_mpa = f8_lit (- 5000) 1,
      an_stress_plausible_high_mpa = f8_lit 5000 1, an_map_grid_mm = f8_lit 1 1, an_threads = 0\<rparr>"

definition default_cassette :: cassette_config where
  "default_cassette = \<lparr>ca_id = ''C001'', ca_slots = 25\<rparr>"

definition default_comm :: comm_config where
  "default_comm =
     \<lparr>co_enabled = True, co_bind = ''127.0.0.1'', co_port = 5000, co_device_id = 0,
      co_allow_host_online = True, co_t3_s = f8_lit 45 1, co_t5_s = f8_lit 10 1, co_t6_s = f8_lit 5 1,
      co_t7_s = f8_lit 10 1, co_t8_s = f8_lit 5 1, co_linktest_s = f8_lit 60 1,
      co_max_frame_bytes = 1048576\<rparr>"

definition default_output :: output_config where
  "default_output = \<lparr>ou_dir = ''results'', ou_save_samples = True, ou_sample_decimation = 10\<rparr>"

definition default_config :: config where
  "default_config =
     \<lparr>cf_machine = default_machine, cf_wafer = default_wafer, cf_scan = default_scan,
      cf_noise = default_noise, cf_faults = [], cf_analysis = default_analysis,
      cf_cassette = default_cassette, cf_comm = default_comm, cf_output = default_output\<rparr>"

section \<open>The JSON library\<close>

text \<open>
  The calls on \<^verbatim>\<open>nlohmann::json\<close> values of type \<open>'j\<close>. A call that can throw returns the text of the
  exception (\<^verbatim>\<open>e.what()\<close>) on the left. \<open>json_keys\<close> and \<open>json_elements\<close> are what the iterators of an
  object and of an array visit, in their order.
\<close>

record 'j json_api =
  is_object :: "'j \<Rightarrow> bool"
  is_array :: "'j \<Rightarrow> bool"
  json_keys :: "'j \<Rightarrow> string list"
  json_elements :: "'j \<Rightarrow> 'j list"
  json_size :: "'j \<Rightarrow> nat"
  contains :: "'j \<Rightarrow> string \<Rightarrow> bool"
  at_key :: "'j \<Rightarrow> string \<Rightarrow> string + 'j"
  at_index :: "'j \<Rightarrow> nat \<Rightarrow> string + 'j"
  get_string :: "'j \<Rightarrow> string + string"
  get_double :: "'j \<Rightarrow> string + f8"
  get_int :: "'j \<Rightarrow> string + i32"
  get_u64 :: "'j \<Rightarrow> string + u64"
  get_bool :: "'j \<Rightarrow> string + bool"

text \<open>How the body of the \<^verbatim>\<open>try\<close> block is left early: an exception, or a \<^verbatim>\<open>return\<close> with an error.\<close>

datatype exit = Threw string | Returned error

type_synonym 'a reading = "exit + 'a"

definition called :: "string + 'a \<Rightarrow> 'a reading" where
  "called r = map_sum Threw id r"

definition and_then :: "'a reading \<Rightarrow> ('a \<Rightarrow> 'b reading) \<Rightarrow> 'b reading" where
  "and_then r f = (case r of Inl e \<Rightarrow> Inl e | Inr x \<Rightarrow> f x)"

text \<open>Statements in sequence, each on the value the one before left.\<close>

fun in_order :: "('a \<Rightarrow> 'a reading) list \<Rightarrow> 'a \<Rightarrow> 'a reading" where
  "in_order [] x = Inr x"
| "in_order (f # fs) x = and_then (f x) (in_order fs)"

section \<open>Reading\<close>

definition check_unknown_keys :: "'j json_api \<Rightarrow> 'j \<Rightarrow> string \<Rightarrow> string list \<Rightarrow> string list \<Rightarrow> string list" where
  "check_unknown_keys js obj path known_keys warnings =
     (if \<not> is_object js obj then warnings
      else warnings @
           map (\<lambda>k. ''unknown key: '' @ path @ ''.'' @ k)
             (filter (\<lambda>k. k \<notin> set known_keys) (json_keys js obj)))"

definition get_or :: "'j json_api \<Rightarrow> ('j \<Rightarrow> string + 'a) \<Rightarrow> 'j \<Rightarrow> string \<Rightarrow> 'a \<Rightarrow> 'a reading" where
  "get_or js get obj key default_value =
     (if contains js obj key then and_then (called (at_key js obj key)) (\<lambda>v. called (get v))
      else Inr default_value)"

text \<open>\<^verbatim>\<open>x.f = get_or(obj, key, x.f)\<close>, for the field with selector \<open>sel\<close> and update \<open>upd\<close>.\<close>

definition set_or ::
  "'j json_api \<Rightarrow> ('j \<Rightarrow> string + 'a) \<Rightarrow> 'j \<Rightarrow> string \<Rightarrow> ('r \<Rightarrow> 'a) \<Rightarrow> (('a \<Rightarrow> 'a) \<Rightarrow> 'r \<Rightarrow> 'r) \<Rightarrow> 'r \<Rightarrow> 'r reading"
where
  "set_or js get obj key sel upd r =
     and_then (get_or js get obj key (sel r)) (\<lambda>v. Inr (upd (\<lambda>_. v) r))"

text \<open>\<^verbatim>\<open>if (obj.contains(key)) { const auto& j = obj.at(key); ... }\<close>\<close>

definition if_present :: "'j json_api \<Rightarrow> 'j \<Rightarrow> string \<Rightarrow> ('j \<Rightarrow> 'r \<Rightarrow> 'r reading) \<Rightarrow> 'r \<Rightarrow> 'r reading" where
  "if_present js obj key body r =
     (if contains js obj key then and_then (called (at_key js obj key)) (\<lambda>j. body j r) else Inr r)"

text \<open>A statement on one part of the configuration, and the warnings of one object.\<close>

definition on_part ::
  "(config \<Rightarrow> 'p) \<Rightarrow> (('p \<Rightarrow> 'p) \<Rightarrow> config \<Rightarrow> config) \<Rightarrow> ('p \<Rightarrow> 'p reading) \<Rightarrow>
   config_load_result \<Rightarrow> config_load_result reading"
where
  "on_part sel upd f r =
     and_then (f (sel (lr_config r))) (\<lambda>p. Inr (r\<lparr>lr_config := upd (\<lambda>_. p) (lr_config r)\<rparr>))"

definition warn :: "'j json_api \<Rightarrow> 'j \<Rightarrow> string \<Rightarrow> string list \<Rightarrow> config_load_result \<Rightarrow> config_load_result reading" where
  "warn js obj path known r = Inr (r\<lparr>lr_warnings := check_unknown_keys js obj path known (lr_warnings r)\<rparr>)"

definition read_machine :: "'j json_api \<Rightarrow> 'j \<Rightarrow> config_load_result \<Rightarrow> config_load_result reading" where
  "read_machine js m =
     in_order
       [warn js m ''machine'' [''model'', ''softrev''],
        on_part cf_machine cf_machine_update
          (in_order
             [set_or js (get_string js) m ''model'' mc_model mc_model_update,
              set_or js (get_string js) m ''softrev'' mc_softrev mc_softrev_update])]"

definition read_truth :: "'j json_api \<Rightarrow> 'j \<Rightarrow> config_load_result \<Rightarrow> config_load_result reading" where
  "read_truth js t =
     (let num = set_or js (get_double js) t
      in in_order
           [warn js t ''wafer.truth''
              [''stress_mpa'', ''initial_curvature_1_per_m'', ''tilt_x_um_per_mm'',
               ''tilt_y_um_per_mm'', ''anisotropy''],
            on_part (\<lambda>c. wc_truth (cf_wafer c)) (\<lambda>f. cf_wafer_update (wc_truth_update f))
              (in_order
                 [num ''stress_mpa'' wt_stress_mpa wt_stress_mpa_update,
                  num ''initial_curvature_1_per_m'' wt_initial_curvature_1_per_m
                    wt_initial_curvature_1_per_m_update,
                  num ''tilt_x_um_per_mm'' wt_tilt_x_um_per_mm wt_tilt_x_um_per_mm_update,
                  num ''tilt_y_um_per_mm'' wt_tilt_y_um_per_mm wt_tilt_y_um_per_mm_update,
                  num ''anisotropy'' wt_anisotropy wt_anisotropy_update])])"

definition read_wafer :: "'j json_api \<Rightarrow> 'j \<Rightarrow> config_load_result \<Rightarrow> config_load_result reading" where
  "read_wafer js w =
     (let num = set_or js (get_double js) w
      in in_order
           [warn js w ''wafer''
              [''diameter_mm'', ''thickness_um'', ''film_thickness_um'', ''biaxial_modulus_gpa'',
               ''truth'', ''seed''],
            on_part cf_wafer cf_wafer_update
              (in_order
                 [num ''diameter_mm'' wc_diameter_mm wc_diameter_mm_update,
                  num ''thickness_um'' wc_thickness_um wc_thickness_um_update,
                  num ''film_thickness_um'' wc_film_thickness_um wc_film_thickness_um_update,
                  num ''biaxial_modulus_gpa'' wc_biaxial_modulus_gpa wc_biaxial_modulus_gpa_update,
                  set_or js (get_u64 js) w ''seed'' wc_seed wc_seed_update]),
            if_present js w ''truth'' (read_truth js)])"

definition read_scan :: "'j json_api \<Rightarrow> 'j \<Rightarrow> config_load_result \<Rightarrow> config_load_result reading" where
  "read_scan js s =
     (let num = set_or js (get_double js) s; whole = set_or js (get_int js) s
      in in_order
           [warn js s ''scan''
              [''lines'', ''points_per_mm'', ''speed_mm_per_s'', ''realtime_factor'',
               ''edge_exclusion_mm''],
            on_part cf_scan cf_scan_update
              (in_order
                 [whole ''lines'' sn_lines sn_lines_update,
                  whole ''points_per_mm'' sn_points_per_mm sn_points_per_mm_update,
                  num ''speed_mm_per_s'' sn_speed_mm_per_s sn_speed_mm_per_s_update,
                  num ''realtime_factor'' sn_realtime_factor sn_realtime_factor_update,
                  num ''edge_exclusion_mm'' sn_edge_exclusion_mm sn_edge_exclusion_mm_update])])"

definition read_noise :: "'j json_api \<Rightarrow> 'j \<Rightarrow> config_load_result \<Rightarrow> config_load_result reading" where
  "read_noise js n =
     in_order
       [warn js n ''noise'' [''sigma_um''],
        on_part cf_noise cf_noise_update
          (set_or js (get_double js) n ''sigma_um'' nc_sigma_um nc_sigma_um_update)]"

text \<open>One element of the array \<^verbatim>\<open>faults\<close>, read over the defaults and appended.\<close>

definition read_fault :: "'j json_api \<Rightarrow> 'j \<Rightarrow> config_load_result \<Rightarrow> config_load_result reading" where
  "read_fault js item =
     (let num = set_or js (get_double js) item; str = set_or js (get_string js) item
      in in_order
           [warn js item ''faults[]''
              [''wafer'', ''type'', ''rate'', ''amplitude_um'', ''length_samples'', ''drift_um_per_s'',
               ''saturation_limit_um'', ''stall_duration_s''],
            on_part cf_faults cf_faults_update
              (\<lambda>fs. and_then
                 (in_order
                    [str ''wafer'' fc_wafer fc_wafer_update,
                     str ''type'' fc_type fc_type_update,
                     num ''rate'' fc_rate fc_rate_update,
                     num ''amplitude_um'' fc_amplitude_um fc_amplitude_um_update,
                     set_or js (get_int js) item ''length_samples'' fc_length_samples
                       fc_length_samples_update,
                     num ''drift_um_per_s'' fc_drift_um_per_s fc_drift_um_per_s_update,
                     num ''saturation_limit_um'' fc_saturation_limit_um fc_saturation_limit_um_update,
                     num ''stall_duration_s'' fc_stall_duration_s fc_stall_duration_s_update]
                    default_fault)
                 (\<lambda>fc. Inr (fs @ [fc])))])"

definition read_faults :: "'j json_api \<Rightarrow> 'j \<Rightarrow> config_load_result \<Rightarrow> config_load_result reading" where
  "read_faults js f r =
     (if \<not> is_array js f
      then Inl (Returned (config_error ''faults must be an array''))
      else in_order (map (read_fault js) (json_elements js f)) r)"

text \<open>
  A \<^verbatim>\<open>[low, high]\<close> pair. The low value is assigned before the high one is converted; as an
  exception discards the whole result, the order shows only in which exception is reported.
\<close>

definition read_pair ::
  "'j json_api \<Rightarrow> string \<Rightarrow> ((f8 \<Rightarrow> f8) \<Rightarrow> analysis_config \<Rightarrow> analysis_config) \<Rightarrow>
   ((f8 \<Rightarrow> f8) \<Rightarrow> analysis_config \<Rightarrow> analysis_config) \<Rightarrow> 'j \<Rightarrow> analysis_config \<Rightarrow> analysis_config reading"
where
  "read_pair js name low high pr a =
     (if \<not> is_array js pr \<or> json_size js pr \<noteq> 2
      then Inl (Returned (config_error (''analysis.'' @ name @ '' must be a [low, high] array'')))
      else and_then (called (at_index js pr 0)) (\<lambda>j.
           and_then (called (get_double js j)) (\<lambda>x.
           and_then (called (at_index js pr 1)) (\<lambda>k.
           and_then (called (get_double js k)) (\<lambda>y.
             Inr (high (\<lambda>_. y) (low (\<lambda>_. x) a)))))))"

definition read_analysis :: "'j json_api \<Rightarrow> 'j \<Rightarrow> config_load_result \<Rightarrow> config_load_result reading" where
  "read_analysis js a =
     (let num = set_or js (get_double js) a
      in in_order
           [warn js a ''analysis''
              [''outlier_mad_k'', ''outlier_fraction_alarm'', ''fit_rms_limit_um'', ''stress_spec_mpa'',
               ''stress_plausible_mpa'', ''map_grid_mm'', ''threads''],
            on_part cf_analysis cf_analysis_update
              (in_order
                 [num ''outlier_mad_k'' an_outlier_mad_k an_outlier_mad_k_update,
                  num ''outlier_fraction_alarm'' an_outlier_fraction_alarm
                    an_outlier_fraction_alarm_update,
                  num ''fit_rms_limit_um'' an_fit_rms_limit_um an_fit_rms_limit_um_update,
                  if_present js a ''stress_spec_mpa''
                    (read_pair js ''stress_spec_mpa'' an_stress_spec_low_mpa_update
                       an_stress_spec_high_mpa_update),
                  if_present js a ''stress_plausible_mpa''
                    (read_pair js ''stress_plausible_mpa'' an_stress_plausible_low_mpa_update
                       an_stress_plausible_high_mpa_update),
                  num ''map_grid_mm'' an_map_grid_mm an_map_grid_mm_update,
                  set_or js (get_int js) a ''threads'' an_threads an_threads_update])])"

definition read_cassette :: "'j json_api \<Rightarrow> 'j \<Rightarrow> config_load_result \<Rightarrow> config_load_result reading" where
  "read_cassette js c =
     in_order
       [warn js c ''cassette'' [''id'', ''slots''],
        on_part cf_cassette cf_cassette_update
          (in_order
             [set_or js (get_string js) c ''id'' ca_id ca_id_update,
              set_or js (get_int js) c ''slots'' ca_slots ca_slots_update])]"

definition read_comm :: "'j json_api \<Rightarrow> 'j \<Rightarrow> config_load_result \<Rightarrow> config_load_result reading" where
  "read_comm js c =
     (let num = set_or js (get_double js) c; whole = set_or js (get_int js) c;
          flag = set_or js (get_bool js) c
      in in_order
           [warn js c ''comm''
              [''enabled'', ''bind'', ''port'', ''device_id'', ''allow_host_online'', ''t3_s'', ''t5_s'',
               ''t6_s'', ''t7_s'', ''t8_s'', ''linktest_s'', ''max_frame_bytes''],
            on_part cf_comm cf_comm_update
              (in_order
                 [flag ''enabled'' co_enabled co_enabled_update,
                  set_or js (get_string js) c ''bind'' co_bind co_bind_update,
                  whole ''port'' co_port co_port_update,
                  whole ''device_id'' co_device_id co_device_id_update,
                  flag ''allow_host_online'' co_allow_host_online co_allow_host_online_update,
                  num ''t3_s'' co_t3_s co_t3_s_update,
                  num ''t5_s'' co_t5_s co_t5_s_update,
                  num ''t6_s'' co_t6_s co_t6_s_update,
                  num ''t7_s'' co_t7_s co_t7_s_update,
                  num ''t8_s'' co_t8_s co_t8_s_update,
                  num ''linktest_s'' co_linktest_s co_linktest_s_update,
                  set_or js (get_u64 js) c ''max_frame_bytes'' co_max_frame_bytes
                    co_max_frame_bytes_update])])"

definition read_output :: "'j json_api \<Rightarrow> 'j \<Rightarrow> config_load_result \<Rightarrow> config_load_result reading" where
  "read_output js c =
     in_order
       [warn js c ''output'' [''dir'', ''save_samples'', ''sample_decimation''],
        on_part cf_output cf_output_update
          (in_order
             [set_or js (get_string js) c ''dir'' ou_dir ou_dir_update,
              set_or js (get_bool js) c ''save_samples'' ou_save_samples ou_save_samples_update,
              set_or js (get_int js) c ''sample_decimation'' ou_sample_decimation
                ou_sample_decimation_update])]"

text \<open>The body of the \<^verbatim>\<open>try\<close> block.\<close>

definition read_sections :: "'j json_api \<Rightarrow> 'j \<Rightarrow> config_load_result \<Rightarrow> config_load_result reading" where
  "read_sections js raw =
     in_order
       [if_present js raw ''machine'' (read_machine js),
        if_present js raw ''wafer'' (read_wafer js),
        if_present js raw ''scan'' (read_scan js),
        if_present js raw ''noise'' (read_noise js),
        if_present js raw ''faults'' (read_faults js),
        if_present js raw ''analysis'' (read_analysis js),
        if_present js raw ''cassette'' (read_cassette js),
        if_present js raw ''comm'' (read_comm js),
        if_present js raw ''output'' (read_output js)]"

section \<open>Checking\<close>

text \<open>\<^verbatim>\<open>operator<<\<close> on a double prints six significant digits.\<close>

definition range_error :: "string \<Rightarrow> f8 \<Rightarrow> f8 \<Rightarrow> f8 \<Rightarrow> error" where
  "range_error field v lo hi =
     config_error (field @ '' = '' @ show_g 6 v @ '' is out of range ['' @ show_g 6 lo @ '', '' @
                   show_g 6 hi @ '']'')"

text \<open>The \<^verbatim>\<open>if (...) return ...;\<close> statements of \<^verbatim>\<open>validate\<close>, in their order.\<close>

fun first_error :: "(bool \<times> error) list \<Rightarrow> error option" where
  "first_error [] = None"
| "first_error ((c, e) # cs) = (if c then Some e else first_error cs)"

definition outside :: "f8 \<Rightarrow> f8 \<Rightarrow> f8 \<Rightarrow> bool" where
  "outside v lo hi \<longleftrightarrow> f8_less v lo \<or> f8_less hi v"

definition int_check :: "string \<Rightarrow> i32 \<Rightarrow> int \<Rightarrow> int \<Rightarrow> bool \<times> error" where
  "int_check field v lo hi =
     (sint v < lo \<or> sint v > hi,
      range_error field (f8_of_int (sint v)) (f8_of_int lo) (f8_of_int hi))"

definition double_check :: "string \<Rightarrow> f8 \<Rightarrow> f8 \<Rightarrow> f8 \<Rightarrow> bool \<times> error" where
  "double_check field v lo hi = (outside v lo hi, range_error field v lo hi)"

definition positive_check :: "string \<Rightarrow> f8 \<Rightarrow> bool \<times> error" where
  "positive_check field v = (f8_le v (f8_lit 0 1), config_error (field @ '' must be > 0''))"

definition validate :: "config \<Rightarrow> error option" where
  "validate cfg =
     (let scan = cf_scan cfg; wafer = cf_wafer cfg; an = cf_analysis cfg; comm = cf_comm cfg; zero = f8_lit 0 1
      in first_error
       [int_check ''scan.lines'' (sn_lines scan) 1 32,
        int_check ''scan.points_per_mm'' (sn_points_per_mm scan) 10 80,
        double_check ''scan.edge_exclusion_mm'' (sn_edge_exclusion_mm scan) zero (f8_lit 20 1),
        (f8_less (sn_realtime_factor scan) zero, config_error ''scan.realtime_factor must be >= 0''),
        positive_check ''scan.speed_mm_per_s'' (sn_speed_mm_per_s scan),
        (\<not> f8_eq (wc_diameter_mm wafer) (f8_lit 100 1) \<and> \<not> f8_eq (wc_diameter_mm wafer) (f8_lit 150 1) \<and>
         \<not> f8_eq (wc_diameter_mm wafer) (f8_lit 200 1) \<and> \<not> f8_eq (wc_diameter_mm wafer) (f8_lit 300 1),
         config_error ''wafer.diameter_mm must be one of 100, 150, 200, 300 (FR-SCN-1)''),
        positive_check ''wafer.thickness_um'' (wc_thickness_um wafer),
        positive_check ''wafer.film_thickness_um'' (wc_film_thickness_um wafer),
        positive_check ''wafer.biaxial_modulus_gpa'' (wc_biaxial_modulus_gpa wafer),
        (f8_less (nc_sigma_um (cf_noise cfg)) zero, config_error ''noise.sigma_um must be >= 0''),
        double_check ''analysis.fit_rms_limit_um'' (an_fit_rms_limit_um an) (f8_lit 1 10) (f8_lit 50 1),
        double_check ''analysis.stress_spec_mpa[0]'' (an_stress_spec_low_mpa an) (f8_lit (- 5000) 1)
          (f8_lit 5000 1),
        double_check ''analysis.stress_spec_mpa[1]'' (an_stress_spec_high_mpa an) (f8_lit (- 5000) 1)
          (f8_lit 5000 1),
        (f8_less (an_stress_spec_high_mpa an) (an_stress_spec_low_mpa an),
         config_error ''analysis.stress_spec_mpa low must not exceed high''),
        positive_check ''analysis.outlier_mad_k'' (an_outlier_mad_k an),
        double_check ''analysis.outlier_fraction_alarm'' (an_outlier_fraction_alarm an) zero (f8_lit 1 1),
        positive_check ''analysis.map_grid_mm'' (an_map_grid_mm an),
        (sint (an_threads an) < 0, config_error ''analysis.threads must be >= 0 (0 means automatic)''),
        int_check ''cassette.slots'' (ca_slots (cf_cassette cfg)) 1 25,
        int_check ''comm.port'' (co_port comm) 1 65535,
        (f8_le (co_t3_s comm) zero \<or> f8_le (co_t5_s comm) zero \<or> f8_le (co_t6_s comm) zero \<or>
         f8_le (co_t7_s comm) zero \<or> f8_le (co_t8_s comm) zero \<or> f8_le (co_linktest_s comm) zero,
         config_error ''comm timers (t3_s, t5_s, t6_s, t7_s, t8_s, linktest_s) must be > 0''),
        (co_max_frame_bytes comm = 0, config_error ''comm.max_frame_bytes must be > 0''),
        (sint (ou_sample_decimation (cf_output cfg)) < 1,
         config_error ''output.sample_decimation must be >= 1'')])"

section \<open>Loading\<close>

fun caught :: "'a reading \<Rightarrow> 'a result" where
  "caught (Inl (Threw what)) = Inl (config_error (''config parse error: '' @ what))"
| "caught (Inl (Returned e)) = Inl e"
| "caught (Inr x) = Inr x"

text \<open>The default configuration and the warnings of the root object.\<close>

definition load_start :: "'j json_api \<Rightarrow> 'j \<Rightarrow> config_load_result" where
  "load_start js raw =
     \<lparr>lr_config = default_config,
      lr_warnings =
        check_unknown_keys js raw []
          [''machine'', ''wafer'', ''scan'', ''noise'', ''faults'', ''analysis'', ''cassette'', ''comm'',
           ''output''] []\<rparr>"

definition load_config_from_json :: "'j json_api \<Rightarrow> 'j \<Rightarrow> config_load_result result" where
  "load_config_from_json js raw =
     (if \<not> is_object js raw then Inl (config_error ''config root must be a JSON object'')
      else case caught (read_sections js raw (load_start js raw)) of
             Inl e \<Rightarrow> Inl e
           | Inr r \<Rightarrow> (case validate (lr_config r) of Some e \<Rightarrow> Inl e | None \<Rightarrow> Inr r))"

text \<open>
  The file and the JSON parser are parameters: \<open>file\<close> is the content, if the file can be opened,
  and \<open>parse\<close> gives the document or the text of the \<^verbatim>\<open>parse_error\<close>.
\<close>

definition load_config_file ::
  "'j json_api \<Rightarrow> (string \<Rightarrow> string option) \<Rightarrow> (string \<Rightarrow> string + 'j) \<Rightarrow> string \<Rightarrow> config_load_result result"
where
  "load_config_file js file parse path =
     (case file path of
        None \<Rightarrow> Inl (config_error (''cannot open config file: '' @ path))
      | Some text \<Rightarrow>
          (case parse text of
             Inl what \<Rightarrow> Inl (config_error (''config JSON parse error: '' @ what))
           | Inr raw \<Rightarrow> load_config_from_json js raw))"

section \<open>Values of the literals\<close>

lemma f8_lit_0: "f8_lit 0 d = 0"
  by (simp add: f8_lit_def f8_of_ratio_def f8_make_def)

lemma f8_lit_values:
  "f8_lit 1 1 = 0x3FF0000000000000" "f8_lit 20 1 = 0x4034000000000000"
  "f8_lit 100 1 = 0x4059000000000000" "f8_lit 150 1 = 0x4062C00000000000"
  "f8_lit 200 1 = 0x4069000000000000" "f8_lit 300 1 = 0x4072C00000000000"
  "f8_lit 1 10 = 0x3FB999999999999A" "f8_lit 50 1 = 0x4049000000000000"
  "f8_lit 5000 1 = 0x40B3880000000000" "f8_lit (- 5000) 1 = 0xC0B3880000000000"
  by (simp_all add: lit_eval)

lemma f8_lit_defaults:
  "f8_lit 775 1 = 0x4088380000000000" "f8_lit 1805 10 = 0x4066900000000000"
  "f8_lit 3 1 = 0x4008000000000000" "f8_lit 5 10 = 0x3FE0000000000000"
  "f8_lit 6 1 = 0x4018000000000000" "f8_lit 1 100 = 0x3F847AE147AE147B"
  "f8_lit 2 1 = 0x4000000000000000" "f8_lit 400 1 = 0x4079000000000000"
  "f8_lit (- 400) 1 = 0xC079000000000000" "f8_lit 45 1 = 0x4046800000000000"
  "f8_lit 10 1 = 0x4024000000000000" "f8_lit 5 1 = 0x4014000000000000"
  "f8_lit 60 1 = 0x404E000000000000"
  by (simp_all add: lit_eval)

section \<open>Warnings never change the outcome\<close>

text \<open>
  Two statements agree when they leave the same configuration, or the same early exit, from states
  that differ at most in their warnings.
\<close>

definition outcome :: "config_load_result reading \<Rightarrow> config reading" where
  "outcome = map_sum id lr_config"

definition agree ::
  "(config_load_result \<Rightarrow> config_load_result reading) \<Rightarrow> (config_load_result \<Rightarrow> config_load_result reading) \<Rightarrow> bool"
where
  "agree f g \<longleftrightarrow> (\<forall>r s. lr_config r = lr_config s \<longrightarrow> outcome (f r) = outcome (g s))"

lemma agreeD: "agree f g \<Longrightarrow> lr_config r = lr_config s \<Longrightarrow> outcome (f r) = outcome (g s)"
  by (simp add: agree_def)

named_theorems agree_intros \<open>statements that agree up to warnings\<close>

lemma agree_warn [agree_intros]: "agree (warn js j p ks) (warn js' j p ks)"
  by (simp add: agree_def warn_def outcome_def)

lemma agree_on_part [agree_intros]: "agree (on_part sel upd f) (on_part sel upd f)"
  by (auto simp: agree_def on_part_def outcome_def and_then_def split: sum.splits)

lemma agree_in_order_Nil [agree_intros]: "agree (in_order []) (in_order [])"
  by (simp add: agree_def outcome_def)

lemma agree_in_order_Cons [agree_intros]:
  assumes "agree f g" "agree (in_order fs) (in_order gs)"
  shows "agree (in_order (f # fs)) (in_order (g # gs))"
  unfolding agree_def
proof (intro allI impI)
  fix r s :: config_load_result
  assume "lr_config r = lr_config s"
  with assms(1) have "outcome (f r) = outcome (g s)" by (simp add: agree_def)
  then show "outcome (in_order (f # fs) r) = outcome (in_order (g # gs) s)"
    using assms(2) by (cases "f r"; cases "g s") (auto simp: outcome_def and_then_def agree_def)
qed

lemma agree_if_present:
  assumes "contains js' = contains js" "at_key js' = at_key js" "\<And>j. agree (f j) (g j)"
  shows "agree (if_present js obj key f) (if_present js' obj key g)"
  using assms by (auto simp: agree_def if_present_def and_then_def outcome_def split: sum.splits)

lemma agree_in_order_map:
  assumes "\<And>x. agree (f x) (g x)"
  shows "agree (in_order (map f xs)) (in_order (map g xs))"
  by (induction xs) (simp_all only: list.map agree_in_order_Nil agree_in_order_Cons [OF assms])

text \<open>The same library, but whose object iterators visit other keys.\<close>

lemma set_or_keys [simp]: "set_or (js\<lparr>json_keys := k\<rparr>) = set_or js"
  by (intro ext) (simp add: set_or_def get_or_def)

lemma if_present_keys [simp]: "if_present (js\<lparr>json_keys := k\<rparr>) = if_present js"
  by (intro ext) (simp add: if_present_def)

lemma read_pair_keys [simp]: "read_pair (js\<lparr>json_keys := k\<rparr>) = read_pair js"
  by (intro ext) (simp add: read_pair_def)

lemma get_keys:
  fixes js :: "'j json_api"
  shows "get_string (js\<lparr>json_keys := k\<rparr>) = get_string js" "get_double (js\<lparr>json_keys := k\<rparr>) = get_double js"
    "get_int (js\<lparr>json_keys := k\<rparr>) = get_int js" "get_u64 (js\<lparr>json_keys := k\<rparr>) = get_u64 js"
    "get_bool (js\<lparr>json_keys := k\<rparr>) = get_bool js"
  by simp_all

lemmas same_library = set_or_keys if_present_keys read_pair_keys get_keys

lemmas agree_if = agree_if_present [OF refl refl]

lemma agree_sections [agree_intros]:
  "agree (read_machine js j) (read_machine (js\<lparr>json_keys := k\<rparr>) j)"
  "agree (read_truth js j) (read_truth (js\<lparr>json_keys := k\<rparr>) j)"
  "agree (read_scan js j) (read_scan (js\<lparr>json_keys := k\<rparr>) j)"
  "agree (read_noise js j) (read_noise (js\<lparr>json_keys := k\<rparr>) j)"
  "agree (read_fault js j) (read_fault (js\<lparr>json_keys := k\<rparr>) j)"
  "agree (read_analysis js j) (read_analysis (js\<lparr>json_keys := k\<rparr>) j)"
  "agree (read_cassette js j) (read_cassette (js\<lparr>json_keys := k\<rparr>) j)"
  "agree (read_comm js j) (read_comm (js\<lparr>json_keys := k\<rparr>) j)"
  "agree (read_output js j) (read_output (js\<lparr>json_keys := k\<rparr>) j)"
  by (simp_all only: read_machine_def read_truth_def read_scan_def read_noise_def read_fault_def
        read_analysis_def read_cassette_def read_comm_def read_output_def Let_def same_library)
    (intro agree_intros)+

lemma agree_faults [agree_intros]: "agree (read_faults js j) (read_faults (js\<lparr>json_keys := k\<rparr>) j)"
proof -
  have "agree (in_order (map (read_fault js) (json_elements js j)))
      (in_order (map (read_fault (js\<lparr>json_keys := k\<rparr>)) (json_elements js j)))"
    by (intro agree_in_order_map agree_intros)
  then show ?thesis by (simp add: agree_def read_faults_def outcome_def)
qed

lemma agree_wafer [agree_intros]: "agree (read_wafer js j) (read_wafer (js\<lparr>json_keys := k\<rparr>) j)"
  by (simp only: read_wafer_def Let_def same_library)
    (intro agree_intros agree_if)

lemma agree_read_sections:
  "agree (read_sections js raw) (read_sections (js\<lparr>json_keys := k\<rparr>) raw)"
  by (simp only: read_sections_def same_library) (intro agree_intros agree_if)

lemma caught_outcome: "map_sum id lr_config (caught r) = caught (outcome r)"
  by (cases "r" rule: caught.cases) (simp_all add: outcome_def)

lemma load_outcome:
  "map_sum id lr_config (load_config_from_json js raw) =
     (if \<not> is_object js raw then Inl (config_error ''config root must be a JSON object'')
      else case caught (outcome (read_sections js raw (load_start js raw))) of
             Inl e \<Rightarrow> Inl e
           | Inr c \<Rightarrow> (case validate c of Some e \<Rightarrow> Inl e | None \<Rightarrow> Inr c))"
  unfolding load_config_from_json_def caught_outcome [symmetric]
  by (cases "caught (read_sections js raw (load_start js raw))") (simp_all split: option.split)

text \<open>
  Unknown keys are never an error (FR-CFG-2): whatever keys the iterators of the JSON objects
  report, loading the document ends in the same error, or in the same configuration. Only the list
  of warnings can differ.
\<close>

theorem unknown_keys_only_warn:
  "map_sum id lr_config (load_config_from_json (js\<lparr>json_keys := k\<rparr>) raw) =
   map_sum id lr_config (load_config_from_json js raw)"
proof -
  have "outcome (read_sections js raw (load_start js raw)) =
      outcome (read_sections (js\<lparr>json_keys := k\<rparr>) raw (load_start (js\<lparr>json_keys := k\<rparr>) raw))"
    by (rule agreeD [OF agree_read_sections]) (simp add: load_start_def)
  then show ?thesis by (simp add: load_outcome)
qed

section \<open>A loaded configuration is within its limits\<close>

text \<open>The limits, stated positively: on a NaN none of the comparisons of \<open>f8_le\<close> and \<open>f8_less\<close> holds.\<close>

definition within :: "f8 \<Rightarrow> f8 \<Rightarrow> f8 \<Rightarrow> bool" where
  "within lo v hi \<longleftrightarrow> f8_le lo v \<and> f8_le v hi"

definition scan_limits :: "scan_config \<Rightarrow> bool" where
  "scan_limits s \<longleftrightarrow>
     sint (sn_lines s) \<in> {1..32} \<and> sint (sn_points_per_mm s) \<in> {10..80} \<and>
     within (f8_lit 0 1) (sn_edge_exclusion_mm s) (f8_lit 20 1) \<and>
     f8_le (f8_lit 0 1) (sn_realtime_factor s) \<and> f8_less (f8_lit 0 1) (sn_speed_mm_per_s s)"

definition wafer_limits :: "wafer_config \<Rightarrow> bool" where
  "wafer_limits w \<longleftrightarrow>
     wc_diameter_mm w \<in> {f8_lit 100 1, f8_lit 150 1, f8_lit 200 1, f8_lit 300 1} \<and>
     f8_less (f8_lit 0 1) (wc_thickness_um w) \<and> f8_less (f8_lit 0 1) (wc_film_thickness_um w) \<and>
     f8_less (f8_lit 0 1) (wc_biaxial_modulus_gpa w)"

definition analysis_limits :: "analysis_config \<Rightarrow> bool" where
  "analysis_limits a \<longleftrightarrow>
     within (f8_lit 1 10) (an_fit_rms_limit_um a) (f8_lit 50 1) \<and>
     within (f8_lit (- 5000) 1) (an_stress_spec_low_mpa a) (an_stress_spec_high_mpa a) \<and>
     f8_le (an_stress_spec_high_mpa a) (f8_lit 5000 1) \<and>
     f8_less (f8_lit 0 1) (an_outlier_mad_k a) \<and>
     within (f8_lit 0 1) (an_outlier_fraction_alarm a) (f8_lit 1 1) \<and>
     f8_less (f8_lit 0 1) (an_map_grid_mm a) \<and> 0 \<le> sint (an_threads a)"

definition comm_limits :: "comm_config \<Rightarrow> bool" where
  "comm_limits c \<longleftrightarrow>
     sint (co_port c) \<in> {1..65535} \<and> 0 < co_max_frame_bytes c \<and>
     list_all (f8_less (f8_lit 0 1)) [co_t3_s c, co_t5_s c, co_t6_s c, co_t7_s c, co_t8_s c, co_linktest_s c]"

definition config_limits :: "config \<Rightarrow> bool" where
  "config_limits c \<longleftrightarrow>
     scan_limits (cf_scan c) \<and> wafer_limits (cf_wafer c) \<and>
     f8_le (f8_lit 0 1) (nc_sigma_um (cf_noise c)) \<and> analysis_limits (cf_analysis c) \<and>
     sint (ca_slots (cf_cassette c)) \<in> {1..25} \<and> comm_limits (cf_comm c) \<and>
     1 \<le> sint (ou_sample_decimation (cf_output c))"

text \<open>The doubles \<^verbatim>\<open>validate\<close> looks at.\<close>

definition checked_doubles :: "config \<Rightarrow> f8 list" where
  "checked_doubles c =
     (let s = cf_scan c; w = cf_wafer c; a = cf_analysis c; m = cf_comm c
      in [sn_edge_exclusion_mm s, sn_realtime_factor s, sn_speed_mm_per_s s, wc_thickness_um w,
          wc_film_thickness_um w, wc_biaxial_modulus_gpa w, nc_sigma_um (cf_noise c),
          an_fit_rms_limit_um a, an_stress_spec_low_mpa a, an_stress_spec_high_mpa a,
          an_outlier_mad_k a, an_outlier_fraction_alarm a, an_map_grid_mm a, co_t3_s m, co_t5_s m,
          co_t6_s m, co_t7_s m, co_t8_s m, co_linktest_s m])"

definition no_nan :: "config \<Rightarrow> bool" where
  "no_nan c \<longleftrightarrow> (\<forall>x \<in> set (checked_doubles c). \<not> f8_nan x)"

lemma first_error_None: "first_error cs = None \<longleftrightarrow> (\<forall>(c, e) \<in> set cs. \<not> c)"
  by (induction cs rule: first_error.induct) auto

lemma f8_eqD:
  assumes "f8_eq a b" "f8_key b \<noteq> 0"
  shows "a = b"
  using assms by (auto simp: f8_eq_def f8_key_def f8_ext split: if_splits)

lemma diameter_literals:
  "f8_key (f8_lit 100 1) \<noteq> 0" "f8_key (f8_lit 150 1) \<noteq> 0" "f8_key (f8_lit 200 1) \<noteq> 0"
  "f8_key (f8_lit 300 1) \<noteq> 0"
  by (simp_all only: f8_lit_values) (simp_all add: f8_key_def f8_abs_def)

lemma validate_limits: "validate c = None \<Longrightarrow> no_nan c \<Longrightarrow> config_limits c"
  unfolding validate_def Let_def first_error_None no_nan_def checked_doubles_def config_limits_def
   scan_limits_def wafer_limits_def analysis_limits_def comm_limits_def int_check_def
   double_check_def positive_check_def outside_def within_def
  using diameter_literals
  by (auto simp: f8_not_le f8_not_less word_gt_0 dest: f8_eqD)

subsection \<open>The sections keep NaNs out\<close>

definition keeps :: "('r \<Rightarrow> bool) \<Rightarrow> ('r \<Rightarrow> 'r reading) \<Rightarrow> bool" where
  "keeps P f \<longleftrightarrow> (\<forall>r s. P r \<longrightarrow> f r = Inr s \<longrightarrow> P s)"

text \<open>Documented behaviour of the library: JSON has no NaN, so a number of a parsed document is never one.\<close>

definition numbers_only :: "'j json_api \<Rightarrow> bool" where
  "numbers_only js \<longleftrightarrow> (\<forall>j x. get_double js j = Inr x \<longrightarrow> \<not> f8_nan x)"

definition ok_result :: "config_load_result \<Rightarrow> bool" where
  "ok_result r \<longleftrightarrow> no_nan (lr_config r)"

lemma and_then_simps [simp]: "and_then (Inr x) f = f x" "and_then (Inl e) f = Inl e"
  by (simp_all add: and_then_def)

lemma called_simps [simp]: "called (Inr x) = Inr x" "called (Inl w) = Inl (Threw w)"
  by (simp_all add: called_def)

lemma and_then_Inr [simp]: "and_then r f = Inr y \<longleftrightarrow> (\<exists>x. r = Inr x \<and> f x = Inr y)"
  by (cases r) (auto simp: and_then_def)

lemma called_Inr [simp]: "called r = Inr y \<longleftrightarrow> r = Inr y"
  by (cases r) (auto simp: called_def)

lemma keepsD: "keeps P f \<Longrightarrow> P r \<Longrightarrow> f r = Inr s \<Longrightarrow> P s"
  by (simp add: keeps_def)

lemma keepsI: "(\<And>r s. P r \<Longrightarrow> f r = Inr s \<Longrightarrow> P s) \<Longrightarrow> keeps P f"
  by (simp add: keeps_def)

lemma keeps_in_order: "list_all (keeps P) fs \<Longrightarrow> keeps P (in_order fs)"
proof (induction fs)
  case (Cons f fs)
  show ?case
  proof (rule keepsI)
    fix r s assume "P r" "in_order (f # fs) r = Inr s"
    then obtain m where "f r = Inr m" "in_order fs m = Inr s" by auto
    with Cons \<open>P r\<close> show "P s" by (auto dest: keepsD [of P f r m] keepsD [of P _ m s])
  qed
qed (simp add: keeps_def)

lemma keeps_map: "(\<And>x. keeps P (f x)) \<Longrightarrow> keeps P (in_order (map f xs))"
  by (rule keeps_in_order) (simp add: list_all_iff)

lemma keeps_warn: "keeps ok_result (warn js j p ks)"
  by (simp add: keeps_def warn_def ok_result_def)

lemma keeps_if_present: "(\<And>j. keeps P (f j)) \<Longrightarrow> keeps P (if_present js obj key f)"
  by (auto simp: keeps_def if_present_def split: if_splits)

lemma keeps_set_or: "(\<And>r v. P r \<Longrightarrow> P (upd (\<lambda>_. v) r)) \<Longrightarrow> keeps P (set_or js g obj key sel upd)"
  by (auto simp: keeps_def set_or_def)

text \<open>A double either comes from the document or is the one that was there.\<close>

lemma keeps_set_double:
  assumes "numbers_only js" "\<And>r v. P r \<Longrightarrow> \<not> f8_nan v \<Longrightarrow> P (upd (\<lambda>_. v) r)"
    "\<And>r. P r \<Longrightarrow> P (upd (\<lambda>_. sel r) r)"
  shows "keeps P (set_or js (get_double js) obj key sel upd)"
  using assms by (auto simp: keeps_def set_or_def get_or_def numbers_only_def split: if_splits)

lemma keeps_read_pair:
  assumes "numbers_only js"
    "\<And>r x y. P r \<Longrightarrow> \<not> f8_nan x \<Longrightarrow> \<not> f8_nan y \<Longrightarrow> P (high (\<lambda>_. y) (low (\<lambda>_. x) r))"
  shows "keeps P (read_pair js name low high j)"
  using assms by (auto simp: keeps_def read_pair_def numbers_only_def split: if_splits)

text \<open>A part read on its own, whose doubles are among the checked ones.\<close>

lemma keeps_on_part:
  assumes "keeps P f" "\<And>c. no_nan c \<Longrightarrow> P (sel c)" "\<And>c p. no_nan c \<Longrightarrow> P p \<Longrightarrow> no_nan (upd (\<lambda>_. p) c)"
  shows "keeps ok_result (on_part sel upd f)"
  using assms by (fastforce simp: keeps_def on_part_def ok_result_def)

definition ok_wafer :: "wafer_config \<Rightarrow> bool" where
  "ok_wafer w \<longleftrightarrow>
     \<not> f8_nan (wc_thickness_um w) \<and> \<not> f8_nan (wc_film_thickness_um w) \<and>
     \<not> f8_nan (wc_biaxial_modulus_gpa w)"

definition ok_scan :: "scan_config \<Rightarrow> bool" where
  "ok_scan s \<longleftrightarrow>
     \<not> f8_nan (sn_edge_exclusion_mm s) \<and> \<not> f8_nan (sn_realtime_factor s) \<and>
     \<not> f8_nan (sn_speed_mm_per_s s)"

definition ok_analysis :: "analysis_config \<Rightarrow> bool" where
  "ok_analysis a \<longleftrightarrow>
     \<not> f8_nan (an_fit_rms_limit_um a) \<and> \<not> f8_nan (an_stress_spec_low_mpa a) \<and>
     \<not> f8_nan (an_stress_spec_high_mpa a) \<and> \<not> f8_nan (an_outlier_mad_k a) \<and>
     \<not> f8_nan (an_outlier_fraction_alarm a) \<and> \<not> f8_nan (an_map_grid_mm a)"

definition ok_comm :: "comm_config \<Rightarrow> bool" where
  "ok_comm m \<longleftrightarrow>
     \<not> f8_nan (co_t3_s m) \<and> \<not> f8_nan (co_t5_s m) \<and> \<not> f8_nan (co_t6_s m) \<and> \<not> f8_nan (co_t7_s m) \<and>
     \<not> f8_nan (co_t8_s m) \<and> \<not> f8_nan (co_linktest_s m)"

lemma no_nan_parts:
  "no_nan c \<longleftrightarrow> ok_scan (cf_scan c) \<and> ok_wafer (cf_wafer c) \<and> \<not> f8_nan (nc_sigma_um (cf_noise c)) \<and>
     ok_analysis (cf_analysis c) \<and> ok_comm (cf_comm c)"
  by (auto simp: no_nan_def checked_doubles_def Let_def ok_scan_def ok_wafer_def ok_analysis_def ok_comm_def)

lemmas ok_defs = ok_wafer_def ok_scan_def ok_analysis_def ok_comm_def

lemma keeps_true [simp]: "keeps (\<lambda>_. True) f"
  by (simp add: keeps_def)

lemmas keeps_statements = keeps_set_or [where g = "get_string js" and js = js for js]
  keeps_set_or [where g = "get_int js" and js = js for js] keeps_set_or [where g = "get_u64 js" and js = js for js]
  keeps_set_or [where g = "get_bool js" and js = js for js] keeps_set_double keeps_read_pair keeps_if_present

lemma keeps_sections:
  assumes js: "numbers_only js"
  shows "keeps ok_result (read_machine js j)" "keeps ok_result (read_truth js j)"
    "keeps ok_result (read_scan js j)" "keeps ok_result (read_noise js j)" 
    "keeps ok_result (read_fault js j)" "keeps ok_result (read_analysis js j)"
    "keeps ok_result (read_cassette js j)" "keeps ok_result (read_comm js j)"
    "keeps ok_result (read_output js j)"
proof -
  show "keeps ok_result (read_machine js j)" "keeps ok_result (read_truth js j)"
    "keeps ok_result (read_fault js j)" "keeps ok_result (read_cassette js j)"
    "keeps ok_result (read_output js j)"
    unfolding read_machine_def read_truth_def read_fault_def read_cassette_def read_output_def Let_def
    by (rule keeps_in_order, simp,
        intro conjI keeps_warn keeps_on_part [where P = "\<lambda>_. True"]; simp add: no_nan_parts ok_defs)+
  show "keeps ok_result (read_scan js j)"
    unfolding read_scan_def Let_def
    by (rule keeps_in_order, simp, intro conjI keeps_warn keeps_on_part [where P = ok_scan] keeps_in_order)
     (auto simp: no_nan_parts ok_defs js intro!: keeps_statements)
  show "keeps ok_result (read_noise js j)"
    unfolding read_noise_def
    by (rule keeps_in_order, simp, intro conjI keeps_warn
         keeps_on_part [where P = "\<lambda>n. \<not> f8_nan (nc_sigma_um n)"])
     (auto simp: no_nan_parts js intro!: keeps_set_double)
  show "keeps ok_result (read_analysis js j)"
    unfolding read_analysis_def Let_def
    by (rule keeps_in_order, simp, intro conjI keeps_warn keeps_on_part [where P = ok_analysis] keeps_in_order)
     (auto simp: no_nan_parts ok_defs js intro!: keeps_statements)
  show "keeps ok_result (read_comm js j)"
    unfolding read_comm_def Let_def
    by (rule keeps_in_order, simp, intro conjI keeps_warn keeps_on_part [where P = ok_comm] keeps_in_order)
     (auto simp: no_nan_parts ok_defs js intro!: keeps_statements)
qed

lemma keeps_wafer:
  assumes js: "numbers_only js"
  shows "keeps ok_result (read_wafer js j)"
  unfolding read_wafer_def Let_def
  by (rule keeps_in_order, simp,
      intro conjI keeps_warn keeps_if_present keeps_sections [OF js] keeps_on_part [where P = ok_wafer]
        keeps_in_order)
    (auto simp: no_nan_parts ok_defs js intro!: keeps_statements)

lemma keeps_read_sections:
  assumes js: "numbers_only js"
  shows "keeps ok_result (read_sections js raw)"
proof -
  have "keeps ok_result (read_faults js j)" for j
    using keeps_map [OF keeps_sections(5) [OF js], where xs = "json_elements js j"]
    by (auto simp: keeps_def read_faults_def)
  then show ?thesis
    unfolding read_sections_def
    by (intro keeps_in_order) (simp add: keeps_if_present keeps_sections keeps_wafer js)
qed

lemma default_no_nan: "no_nan default_config"
  by (simp add: no_nan_parts ok_defs default_config_def default_scan_def default_wafer_def
      default_noise_def default_analysis_def default_comm_def)

lemma load_config_Inr:
  "load_config_from_json js raw = Inr r \<Longrightarrow>
   read_sections js raw (load_start js raw) = Inr r \<and> validate (lr_config r) = None"
  by (cases "read_sections js raw (load_start js raw)" rule: caught.cases)
    (auto simp: load_config_from_json_def split: if_splits option.splits)

lemma load_start_ok: "ok_result (load_start js raw)"
  by (simp add: ok_result_def load_start_def default_no_nan)

lemma loaded_no_nan:
  assumes "numbers_only js" "load_config_from_json js raw = Inr r"
  shows "no_nan (lr_config r)"
  using load_config_Inr [OF assms(2)] keepsD [OF keeps_read_sections [OF assms(1)] load_start_ok]
  by (auto simp: ok_result_def)

text \<open>
  C28. A configuration that loads is within every limit \<^verbatim>\<open>validate\<close> is there to enforce (FR-CFG-2): line and sample
  counts, edge exclusion, speed and real-time factor of the scan; diameter, thicknesses and modulus of the wafer;
  the noise; residual limit, specification window (ordered and inside the equipment constants' range), outlier
  factor and fraction, map grid and thread count of the analysis; cassette slots; port, frame limit and the six
  timers of the link; the decimation. Nothing checks the plausibility window, the wafer's true curvature, the
  fault fields and the device id, and nothing is claimed of them.
\<close>

theorem loaded_config_limits:
  assumes "numbers_only js" "load_config_from_json js raw = Inr r"
  shows "config_limits (lr_config r)"
  using loaded_no_nan [OF assms] load_config_Inr [OF assms(2)] validate_limits by blast

text \<open>A small instance of the library, enough for a document with the sections \<^verbatim>\<open>scan\<close> and \<^verbatim>\<open>note\<close>.\<close>

datatype sample_json = Members "(string \<times> sample_json) list" | Whole i32

fun members :: "sample_json \<Rightarrow> (string \<times> sample_json) list" where
  "members (Members ms) = ms"
| "members (Whole _) = []"

definition sample_api :: "sample_json json_api" where
  "sample_api =
     \<lparr>is_object = (\<lambda>j. case j of Members _ \<Rightarrow> True | Whole _ \<Rightarrow> False), is_array = (\<lambda>j. False),
      json_keys = (\<lambda>j. map fst (members j)), json_elements = (\<lambda>j. []), json_size = (\<lambda>j. 1),
      contains = (\<lambda>j k. map_of (members j) k \<noteq> None),
      at_key = (\<lambda>j k. case map_of (members j) k of Some v \<Rightarrow> Inr v | None \<Rightarrow> Inl ''key not found''),
      at_index = (\<lambda>j i. Inl ''not an array''), get_string = (\<lambda>j. Inl ''type must be string''),
      get_double = (\<lambda>j. case j of Whole i \<Rightarrow> Inr (f8_of_int (sint i)) | _ \<Rightarrow> Inl ''type must be number''),
      get_int = (\<lambda>j. case j of Whole i \<Rightarrow> Inr i | _ \<Rightarrow> Inl ''type must be number''),
      get_u64 = (\<lambda>j. Inl ''type must be number''), get_bool = (\<lambda>j. Inl ''type must be boolean'')\<rparr>"

definition sample_document :: sample_json where
  "sample_document = Members [(''note'', Whole 1), (''scan'', Members [(''lines'', Whole 8)])]"

lemma sample_api_simps:
  "is_object sample_api j = (case j of Members _ \<Rightarrow> True | Whole _ \<Rightarrow> False)"
  "json_keys sample_api j = map fst (members j)"
  "contains sample_api j k = (map_of (members j) k \<noteq> None)"
  "at_key sample_api j k = (case map_of (members j) k of Some v \<Rightarrow> Inr v | None \<Rightarrow> Inl ''key not found'')"
  "get_int sample_api j = (case j of Whole i \<Rightarrow> Inr i | _ \<Rightarrow> Inl ''type must be number'')"
  by (simp_all add: sample_api_def)

lemma sample_numbers_only: "numbers_only sample_api"
  by (auto simp: numbers_only_def sample_api_def f8_of_int_def f8_of_scaled_def f8_not_nan_make
      f8_of_ratio_le split: sample_json.splits)

lemma sample_loads:
  "load_config_from_json sample_api sample_document =
   Inr \<lparr>lr_config = default_config\<lparr>cf_scan := default_scan\<lparr>sn_lines := 8\<rparr>\<rparr>,
        lr_warnings = [''unknown key: .note'']\<rparr>"
proof -
  have "read_sections sample_api sample_document (load_start sample_api sample_document) =
      Inr \<lparr>lr_config = default_config\<lparr>cf_scan := default_scan\<lparr>sn_lines := 8\<rparr>\<rparr>,
           lr_warnings = [''unknown key: .note'']\<rparr>"
    by (simp add: read_sections_def if_present_def sample_api_simps sample_document_def load_start_def
        read_scan_def warn_def on_part_def set_or_def get_or_def check_unknown_keys_def default_config_def Let_def)
  moreover have "validate (default_config\<lparr>cf_scan := default_scan\<lparr>sn_lines := 8\<rparr>\<rparr>) = None"
    unfolding validate_def default_config_def default_scan_def default_wafer_def default_noise_def
      default_analysis_def default_comm_def default_cassette_def default_output_def
    by (simp only: f8_lit_values f8_lit_defaults)
      (simp add: int_check_def double_check_def positive_check_def outside_def f8_lit_0 f8_less_def
        f8_le_def f8_eq_def f8_key_def f8_sign_def f8_abs_def f8_nan_def f8_inf_def)
  ultimately show ?thesis
    by (simp add: load_config_from_json_def sample_api_def sample_document_def)
qed

theorem loaded_config_limits_witness:
  "config_limits (default_config\<lparr>cf_scan := default_scan\<lparr>sn_lines := 8\<rparr>\<rparr>)"
  using loaded_config_limits [OF sample_numbers_only sample_loads] by simp

end
