(* ===== verification/Hsms_Server.thy ===== *)
theory Hsms_Server
  imports Hsms_Session Config
begin

text \<open>
  The HSMS server, \<^verbatim>\<open>src/secsgem/hsms/server.cpp\<close>, and the conversion of its configuration
  (\<^verbatim>\<open>session_config_from\<close>, \<^verbatim>\<open>server_config_from\<close>). Everything after \<^verbatim>\<open>start()\<close> happens on one I/O
  thread, in completion handlers the Asio library calls one after the other. Asio is not part of the
  sources: an outstanding operation is an entry of the state, and an event of the model is the
  library completing one of them, in any order and with any result. That a handler runs once per
  started operation, and none after \<^verbatim>\<open>io.stop()\<close>, is what Asio documents.
\<close>

section \<open>Configuration\<close>

text \<open>
  \<^verbatim>\<open>std::llround\<close>: to the nearest integer, halves away from zero. \<open>None\<close> where the result does not
  fit, which the standard leaves unspecified.
\<close>

definition llround :: "f8 \<Rightarrow> int option" where
  "llround w =
     (if \<not> f8_finite w then None
      else case f8_parts w of
             (m, x) \<Rightarrow>
               let a = (if x \<ge> 0 then m * 2 ^ nat x
                        else (m + 2 ^ nat (- x - 1)) div 2 ^ nat (- x));
                   i = (if f8_sign w then - int a else int a)
               in if - (2 ^ 63) \<le> i \<and> i < 2 ^ 63 then Some i else None)"

definition seconds_to_duration :: "f8 \<Rightarrow> int option" where
  "seconds_to_duration seconds = llround (f8_mul seconds (f8_lit 1000 1))"

definition session_config_from :: "comm_config \<Rightarrow> session_config option" where
  "session_config_from c =
     (case map seconds_to_duration [co_t3_s c, co_t6_s c, co_t7_s c, co_t8_s c, co_linktest_s c] of
        [Some a, Some b, Some d, Some e, Some f] \<Rightarrow>
          Some (default_session_config
                  \<lparr>cfg_t3 := a, cfg_t6 := b, cfg_t7 := d, cfg_t8 := e, linktest_interval := f,
                   cfg_max_frame_bytes := unat (co_max_frame_bytes c),
                   device_id := ucast (co_device_id c)\<rparr>)
      | _ \<Rightarrow> None)"

record server_config =
  sc_bind :: string
  sc_port :: u16
  sc_session :: session_config
  sc_tick_interval :: int

definition server_config_from :: "comm_config \<Rightarrow> server_config option" where
  "server_config_from c =
     map_option (\<lambda>sc. \<lparr>sc_bind = co_bind c, sc_port = ucast (co_port c), sc_session = sc,
                       sc_tick_interval = 20\<rparr>)
       (session_config_from c)"

section \<open>State\<close>

definition kErrBadBindAddress :: int where "kErrBadBindAddress = 420"
definition kErrListenFailed :: int where "kErrListenFailed = 421"
definition kErrAlreadyStarted :: int where "kErrAlreadyStarted = 422"

text \<open>What other threads hand to the I/O thread; \<open>P_request\<close> says whether \<^verbatim>\<open>on_sent\<close> is set.\<close>

datatype posted = P_request secs_message bool | P_reply u32 secs_message | P_task nat | P_stop

text \<open>Calls to the handler, callbacks, and connections refused.\<close>

datatype server_action =
    A_state connection_state | A_data delivery | A_timeout u32 | A_error string | A_sent u32
  | A_task nat | A_refused

text \<open>
  A connection is identified by the value of \<open>sv_bumps\<close> when it was accepted; \<open>sv_bumps\<close> counts how
  often \<^verbatim>\<open>generation\<close> was incremented, without its wrap-around. The operations in flight carry the
  generation the lambda captured and the connection they were started on. \<open>sv_given\<close> and
  \<open>sv_written\<close> are history variables of the current connection: the frames the session produced, and
  those whose write completed. No operation reads \<open>sv_bumps\<close> or a history variable.
\<close>

record server =
  sv_config :: server_config
  sv_socket :: "nat option"
  sv_session :: session
  sv_write_queue :: "byte list list"
  sv_writing :: bool
  sv_generation :: u64
  sv_notified_state :: connection_state
  sv_port :: u16
  sv_started :: bool
  sv_stopped :: bool
  sv_accepts :: nat
  sv_ticks :: nat
  sv_reads :: "(u64 \<times> nat) list"
  sv_writes :: "(u64 \<times> nat \<times> byte list) list"
  sv_posts :: "posted list"
  sv_bumps :: nat
  sv_given :: "byte list list"
  sv_written :: "byte list list"

definition new_server :: "server_config \<Rightarrow> server" where
  "new_server c =
     \<lparr>sv_config = c, sv_socket = None, sv_session = new_session (sc_session c), sv_write_queue = [],
      sv_writing = False, sv_generation = 0, sv_notified_state = kNotConnected, sv_port = 0,
      sv_started = False, sv_stopped = False, sv_accepts = 0, sv_ticks = 0, sv_reads = [],
      sv_writes = [], sv_posts = [], sv_bumps = 0, sv_given = [], sv_written = []\<rparr>"

section \<open>Operations of the I/O thread\<close>

definition notify_state :: "server \<Rightarrow> server \<times> server_action list" where
  "notify_state s =
     (if fsm (sv_session s) \<noteq> sv_notified_state s
      then (s\<lparr>sv_notified_state := fsm (sv_session s)\<rparr>, [A_state (fsm (sv_session s))])
      else (s, []))"

definition bump :: "server \<Rightarrow> server" where
  "bump s = s\<lparr>sv_generation := sv_generation s + 1, sv_bumps := sv_bumps s + 1,
              sv_given := [], sv_written := []\<rparr>"

definition close_socket :: "server \<Rightarrow> server \<times> server_action list" where
  "close_socket s =
     notify_state
       ((bump s)\<lparr>sv_socket := None, sv_write_queue := [], sv_writing := False,
                 sv_session := on_disconnect (sv_session s)\<rparr>)"

definition write_next :: "server \<Rightarrow> server" where
  "write_next s =
     (case (sv_socket s, sv_write_queue s) of
        (Some c, front # _) \<Rightarrow>
          s\<lparr>sv_writing := True, sv_writes := sv_writes s @ [(sv_generation s, c, front)]\<rparr>
      | _ \<Rightarrow> s\<lparr>sv_writing := False\<rparr>)"

definition read_next :: "server \<Rightarrow> server" where
  "read_next s =
     (case sv_socket s of
        None \<Rightarrow> s
      | Some c \<Rightarrow> s\<lparr>sv_reads := sv_reads s @ [(sv_generation s, c)]\<rparr>)"

definition apply_output :: "session_output \<Rightarrow> server \<Rightarrow> server \<times> server_action list" where
  "apply_output out s =
     (let s1 = s\<lparr>sv_write_queue := sv_write_queue s @ to_send out, sv_given := sv_given s @ to_send out\<rparr>;
          s2 = (if \<not> close out \<and> sv_write_queue s1 \<noteq> [] \<and> \<not> sv_writing s1 then write_next s1 else s1);
          acts = map A_data (deliveries out) @ map A_timeout (timed_out out)
      in case notify_state s2 of
           (s3, a3) \<Rightarrow>
             if close out then (case close_socket s3 of (s4, a4) \<Rightarrow> (s4, acts @ a3 @ a4))
             else (s3, acts @ a3))"

text \<open>The completion handler of \<^verbatim>\<open>async_write\<close>: the captured generation and the error, if any.\<close>

definition write_done :: "u64 \<Rightarrow> string option \<Rightarrow> server \<Rightarrow> server \<times> server_action list" where
  "write_done gen ec s =
     (if gen \<noteq> sv_generation s then (s, [])
      else case ec of
             Some e \<Rightarrow> (case close_socket s of (s', a) \<Rightarrow> (s', A_error (''write failed: '' @ e) # a))
           | None \<Rightarrow>
               (write_next (s\<lparr>sv_write_queue := tl (sv_write_queue s),
                              sv_written := sv_written s @ [hd (sv_write_queue s)]\<rparr>), []))"

definition read_done :: "int \<Rightarrow> u64 \<Rightarrow> string + byte list \<Rightarrow> server \<Rightarrow> server \<times> server_action list" where
  "read_done now gen r s =
     (if gen \<noteq> sv_generation s then (s, [])
      else case r of
             Inl _ \<Rightarrow> close_socket s
           | Inr bytes \<Rightarrow>
               (case on_bytes now bytes (sv_session s) of
                  (sess, out) \<Rightarrow>
                    (case apply_output out (s\<lparr>sv_session := sess\<rparr>) of
                       (s', a) \<Rightarrow>
                         (if sv_socket s' \<noteq> None \<and> gen = sv_generation s' then read_next s' else s', a))))"

datatype accept_result = Accept_aborted | Accept_failed | Accept_connected

definition accept_next :: "server \<Rightarrow> server" where
  "accept_next s = s\<lparr>sv_accepts := sv_accepts s + 1\<rparr>"

definition accept_done :: "int \<Rightarrow> accept_result \<Rightarrow> server \<Rightarrow> server \<times> server_action list" where
  "accept_done now r s =
     (case r of
        Accept_aborted \<Rightarrow> (s, [])
      | Accept_failed \<Rightarrow> (accept_next s, [])
      | Accept_connected \<Rightarrow>
          if sv_socket s \<noteq> None then (accept_next s, [A_refused])
          else (let s1 = (bump s)\<lparr>sv_socket := Some (sv_bumps s + 1)\<rparr>
                in case on_connect now (sv_session s1) of
                     (sess, out) \<Rightarrow>
                       (case apply_output out (s1\<lparr>sv_session := sess\<rparr>) of
                          (s2, a) \<Rightarrow> (accept_next (read_next s2), a))))"

definition schedule_tick :: "server \<Rightarrow> server" where
  "schedule_tick s = s\<lparr>sv_ticks := sv_ticks s + 1\<rparr>"

text \<open>\<open>None\<close>: \<^verbatim>\<open>Session::on_tick\<close> or \<^verbatim>\<open>send_request\<close> did not return.\<close>

definition tick_done :: "int \<Rightarrow> bool \<Rightarrow> server \<Rightarrow> (server \<times> server_action list) option" where
  "tick_done now ec s =
     (if ec then Some (s, [])
      else map_option (\<lambda>(s', a). (schedule_tick s', a))
             (if sv_socket s \<noteq> None
              then map_option (\<lambda>(sess, out). apply_output out (s\<lparr>sv_session := sess\<rparr>))
                     (on_tick now (sv_session s))
              else Some (s, [])))"

fun run_posted :: "int \<Rightarrow> posted \<Rightarrow> server \<Rightarrow> (server \<times> server_action list) option" where
  "run_posted now (P_request m has_callback) s =
     (if sv_socket s = None then Some (s, [A_error ''request dropped: no host connected''])
      else map_option (\<lambda>(sent, sess, out).
             case apply_output out (s\<lparr>sv_session := sess\<rparr>) of
               (s', a) \<Rightarrow>
                 (s', (case sent of
                         Inl e \<Rightarrow> A_error (''request not sent: '' @ message e) # a
                       | Inr sys \<Rightarrow> a @ (if has_callback then [A_sent sys] else []))))
             (send_request now m (sv_session s, no_output)))"
| "run_posted now (P_reply sys m) s =
     (if sv_socket s = None then Some (s, [A_error ''reply dropped: no host connected''])
      else case send_reply sys m (sv_session s, no_output) of
             (sent, sess, out) \<Rightarrow>
               (case apply_output out (s\<lparr>sv_session := sess\<rparr>) of
                  (s', a) \<Rightarrow>
                    Some (s', (case sent of
                                 Inl e \<Rightarrow> A_error (''reply not sent: '' @ message e) # a
                               | Inr _ \<Rightarrow> a))))"
| "run_posted now (P_task n) s = Some (s, [A_task n])"
| "run_posted now P_stop s =
     (case close_socket s of (s', a) \<Rightarrow> Some (s'\<lparr>sv_stopped := True\<rparr>, a))"

section \<open>The calls of the owner\<close>

text \<open>
  \<open>address_ok\<close> is the answer of \<^verbatim>\<open>make_address\<close>; \<open>listen\<close> stands for opening, binding and listening: the
  text of the first error, or the port bound.
\<close>

definition start :: "(string \<Rightarrow> bool) \<Rightarrow> (string \<Rightarrow> u16 \<Rightarrow> string + u16) \<Rightarrow> server \<Rightarrow> bool result \<times> server" where
  "start address_ok listen s =
     (let bind = sc_bind (sv_config s); port = sc_port (sv_config s)
      in if sv_started s then (Err kErrAlreadyStarted ''server already started'', s)
         else if \<not> address_ok bind
         then (Err kErrBadBindAddress (''bad bind address '' @ [CHR 0x27] @ bind @ [CHR 0x27]), s)
         else case listen bind port of
                Inl e \<Rightarrow> (Err kErrListenFailed
                            (''cannot listen on '' @ bind @ '':'' @ show_nat (unat port) @ '': '' @ e), s)
              | Inr p \<Rightarrow> (Ok True, (schedule_tick (accept_next (s\<lparr>sv_port := p\<rparr>)))\<lparr>sv_started := True\<rparr>))"

definition local_port :: "server \<Rightarrow> u16" where
  "local_port s = sv_port s"

section \<open>Events\<close>

text \<open>
  An operation completes, picked by its position among those in flight, or another thread posts work.
  Where there is no such operation, or the loop was stopped, nothing happens.
\<close>

datatype io_event =
    E_accept int accept_result | E_tick int bool | E_write nat "string option"
  | E_read int nat "string + byte list" | E_post posted | E_run int nat

fun remove_at :: "nat \<Rightarrow> 'a list \<Rightarrow> 'a list" where
  "remove_at i xs = take i xs @ drop (Suc i) xs"

fun io_step :: "io_event \<Rightarrow> server \<Rightarrow> (server \<times> server_action list) option" where
  "io_step (E_post p) s = Some (s\<lparr>sv_posts := sv_posts s @ [p]\<rparr>, [])"
| "io_step (E_accept now r) s =
     Some (if sv_stopped s \<or> sv_accepts s = 0 then (s, [])
           else accept_done now r (s\<lparr>sv_accepts := sv_accepts s - 1\<rparr>))"
| "io_step (E_tick now ec) s =
     (if sv_stopped s \<or> sv_ticks s = 0 then Some (s, [])
      else tick_done now ec (s\<lparr>sv_ticks := sv_ticks s - 1\<rparr>))"
| "io_step (E_write i ec) s =
     Some (if sv_stopped s \<or> i \<ge> length (sv_writes s) then (s, [])
           else write_done (fst (sv_writes s ! i)) ec (s\<lparr>sv_writes := remove_at i (sv_writes s)\<rparr>))"
| "io_step (E_read now i r) s =
     Some (if sv_stopped s \<or> i \<ge> length (sv_reads s) then (s, [])
           else read_done now (fst (sv_reads s ! i)) r (s\<lparr>sv_reads := remove_at i (sv_reads s)\<rparr>))"
| "io_step (E_run now i) s =
     (if sv_stopped s \<or> i \<ge> length (sv_posts s) then Some (s, [])
      else run_posted now (sv_posts s ! i) (s\<lparr>sv_posts := remove_at i (sv_posts s)\<rparr>))"

text \<open>A server right after a successful \<^verbatim>\<open>start()\<close>.\<close>

definition server_init :: "server \<Rightarrow> bool" where
  "server_init s \<longleftrightarrow>
     (\<exists>c ok l. session_config_ok (sc_session c) \<and> start ok l (new_server c) = (Ok True, s))"

section \<open>What the session tells the server\<close>

fun is_link_event :: "session_event \<Rightarrow> bool" where
  "is_link_event (Connected _) = False"
| "is_link_event Disconnected = False"
| "is_link_event _ = True"

lemma session_stays_connected:
  assumes "session_inv s" "session_step e s = Some (s', out)" "\<not> close out" "is_link_event e"
    "fsm s \<noteq> kNotConnected"
  shows "fsm s' \<noteq> kNotConnected"
proof (cases e)
  case (Bytes now bs)
  obtain r d where f: "feed bs (decoder s) = (r, d)" by force
  show ?thesis
  proof (cases r)
    case (Inl err)
    then show ?thesis using assms Bytes f by (auto simp: on_bytes_def close_connection_def)
  next
    case (Inr frs)
    let ?s = "s\<lparr>last_activity := now, decoder := d\<rparr>"
    obtain s1 o1 where h: "handle_frames now frs (?s, no_output) = (s1, o1)" by force
    have "frame_inv ?s"
      using assms(1,5) f Inr by (intro frame_inv_fed) (auto simp: session_inv_frame_inv)
    then have "frame_post s1 o1"
      using handle_frames_inv [OF _ _ _ h] assms(5) by (simp add: no_output_def)
    then show ?thesis
      using assms(2,3,5) Bytes f h Inr by (auto simp: on_bytes_def Let_def frame_post_def split: if_splits)
  qed
next
  case (Tick now)
  from assms(1) show ?thesis
    by (cases rule: on_tick_cases [where now = now]) (use assms Tick in auto)
next
  case (Request now m)
  then obtain r where "send_request now m (s, no_output) = Some (r, s', out)" using assms(2) by auto
  from send_request_Ok [OF assms(1) this] show ?thesis
    using assms(5) by (cases "has_value r") auto
next
  case (Reply sys m)
  then show ?thesis
    using assms(2,5) send_reply_state [of sys m s no_output] by (cases "send_reply sys m (s, no_output)") auto
qed (use assms in auto)

text \<open>What one call leaves: the invariant, and a session that is connected unless it asks to close.\<close>

definition session_after :: "session \<Rightarrow> session_output \<Rightarrow> bool" where
  "session_after s out \<longleftrightarrow> session_inv s \<and> (close out \<longleftrightarrow> fsm s = kNotConnected)"

lemma session_after_step:
  assumes "session_inv s" "session_step e s = Some (s', out)" "is_link_event e" "fsm s \<noteq> kNotConnected"
  shows "session_after s' out"
  using assms session_step_inv session_stays_connected step_close unfolding session_after_def by blast

lemma session_after_connect:
  assumes "session_inv s" "fsm s = kNotConnected" "on_connect now s = (s', out)"
  shows "session_after s' out"
  using assms on_connect_inv [OF assms(1), of now]
  by (auto simp: session_after_def on_connect_def connection_apply_def no_output_def reset_link_state_def Let_def)

section \<open>Lists of operations in flight\<close>

lemma filter_remove_at:
  assumes "i < length xs"
  shows "\<not> P (xs ! i) \<Longrightarrow> filter P (remove_at i xs) = filter P xs"
    and "P (xs ! i) \<Longrightarrow> filter P xs = (if b then [y] else []) \<Longrightarrow> b \<and> xs ! i = y \<and> filter P (remove_at i xs) = []"
proof -
  have xs: "xs = take i xs @ xs ! i # drop (Suc i) xs" using assms by (rule id_take_nth_drop)
  then have f: "filter P xs = filter P (take i xs) @ filter P [xs ! i] @ filter P (drop (Suc i) xs)"
    by (metis append_Cons append_Nil filter_append)
  show "\<not> P (xs ! i) \<Longrightarrow> filter P (remove_at i xs) = filter P xs"
    by (simp add: f)
  show "P (xs ! i) \<Longrightarrow> filter P xs = (if b then [y] else []) \<Longrightarrow> b \<and> xs ! i = y \<and> filter P (remove_at i xs) = []"
    using f by (auto simp: Cons_eq_append_conv append_eq_Cons_conv split: if_splits)
qed

lemma set_remove_at: "set (remove_at i xs) \<subseteq> set xs"
  by (auto dest: in_set_takeD in_set_dropD)

declare remove_at.simps [simp del]

section \<open>Invariant\<close>

text \<open>The operations of the connection, or of none, that the newest generation stands for.\<close>

definition current_writes :: "server \<Rightarrow> (u64 \<times> nat \<times> byte list) list" where
  "current_writes s = filter (\<lambda>(g, c, d). c = sv_bumps s) (sv_writes s)"

definition current_reads :: "server \<Rightarrow> (u64 \<times> nat) list" where
  "current_reads s = filter (\<lambda>(g, c). c = sv_bumps s) (sv_reads s)"

text \<open>Every operation in flight was started under the generation of its own connection.\<close>

definition stamps_ok :: "server \<Rightarrow> bool" where
  "stamps_ok s \<longleftrightarrow>
     sv_generation s = word_of_nat (sv_bumps s) \<and>
     (\<forall>(g, c) \<in> set (sv_reads s). c \<le> sv_bumps s \<and> g = word_of_nat c) \<and>
     (\<forall>(g, c, d) \<in> set (sv_writes s). c \<le> sv_bumps s \<and> g = word_of_nat c) \<and>
     (\<forall>c. sv_socket s = Some c \<longrightarrow> c = sv_bumps s)"

text \<open>The write side: one write in flight exactly while the queue holds something, its first element.\<close>

definition writes_ok :: "server \<Rightarrow> bool" where
  "writes_ok s \<longleftrightarrow>
     current_writes s =
       (if sv_writing s then [(sv_generation s, sv_bumps s, hd (sv_write_queue s))] else []) \<and>
     (sv_writing s \<longleftrightarrow> sv_write_queue s \<noteq> []) \<and>
     (sv_socket s = None \<longrightarrow> sv_write_queue s = []) \<and>
     sv_given s = sv_written s @ sv_write_queue s"

definition reads_ok :: "server \<Rightarrow> bool" where
  "reads_ok s \<longleftrightarrow>
     current_reads s = (if sv_socket s \<noteq> None then [(sv_generation s, sv_bumps s)] else [])"

definition link_ok :: "server \<Rightarrow> bool" where
  "link_ok s \<longleftrightarrow>
     session_inv (sv_session s) \<and> (sv_socket s = None \<longleftrightarrow> fsm (sv_session s) = kNotConnected) \<and>
     sv_notified_state s = fsm (sv_session s)"

definition server_inv :: "server \<Rightarrow> bool" where
  "server_inv s \<longleftrightarrow> stamps_ok s \<and> writes_ok s \<and> reads_ok s \<and> link_ok s"

lemma notify_state_fields:
  "fst (notify_state s) = s\<lparr>sv_notified_state := fsm (sv_session s)\<rparr>"
  by (simp add: notify_state_def)

lemma on_disconnect_fsm [simp]: "fsm (on_disconnect s) = kNotConnected"
  by (simp add: on_disconnect_def connection_apply_def reset_link_state_def)

lemma stamps_ok_bump:
  assumes "stamps_ok s"
  shows "sv_generation s + 1 = word_of_nat (sv_bumps s + 1)"
    and "filter (\<lambda>(g, c). c = sv_bumps s + 1) (sv_reads s) = []"
    and "filter (\<lambda>(g, c, d). c = sv_bumps s + 1) (sv_writes s) = []"
    and "\<forall>(g, c) \<in> set (sv_reads s). c \<le> sv_bumps s + 1 \<and> g = word_of_nat c"
    and "\<forall>(g, c, d) \<in> set (sv_writes s). c \<le> sv_bumps s + 1 \<and> g = word_of_nat c"
  using assms by (fastforce simp: stamps_ok_def filter_empty_conv)+

lemma close_socket_inv:
  assumes "stamps_ok s" "session_inv (sv_session s)"
  shows "server_inv (fst (close_socket s))" "sv_socket (fst (close_socket s)) = None"
    "sv_bumps (fst (close_socket s)) = sv_bumps s + 1"
  using stamps_ok_bump [OF assms(1)] on_disconnect_inv [OF assms(2)]
  by (simp_all add: close_socket_def notify_state_fields bump_def server_inv_def stamps_ok_def
      writes_ok_def reads_ok_def link_ok_def current_writes_def current_reads_def)

lemma write_next_ok:
  assumes "stamps_ok s" "current_writes s = []" "sv_socket s = None \<longrightarrow> sv_write_queue s = []"
    "sv_given s = sv_written s @ sv_write_queue s"
  shows "stamps_ok (write_next s)" "writes_ok (write_next s)"
    "sv_socket (write_next s) = sv_socket s" "sv_bumps (write_next s) = sv_bumps s"
    "sv_generation (write_next s) = sv_generation s" "sv_reads (write_next s) = sv_reads s"
    "sv_session (write_next s) = sv_session s" "sv_notified_state (write_next s) = sv_notified_state s"
  using assms
  by (auto simp: write_next_def stamps_ok_def writes_ok_def current_writes_def split: option.splits list.splits)

lemma apply_output_inv:
  assumes "stamps_ok s" "writes_ok s" "sv_socket s \<noteq> None" "session_after (sv_session s) out"
    "apply_output out s = (s', a)"
  shows "if close out then server_inv s' \<and> sv_socket s' = None \<and> sv_bumps s' = sv_bumps s + 1
    else stamps_ok s' \<and> writes_ok s' \<and> link_ok s' \<and> sv_socket s' = sv_socket s \<and>
      sv_bumps s' = sv_bumps s \<and> sv_generation s' = sv_generation s \<and> sv_reads s' = sv_reads s"
proof -
  define s1 where "s1 = s\<lparr>sv_write_queue := sv_write_queue s @ to_send out, sv_given := sv_given s @ to_send out\<rparr>"
  define s2 where "s2 = (if \<not> close out \<and> sv_write_queue s1 \<noteq> [] \<and> \<not> sv_writing s1 then write_next s1 else s1)"
  have 1: "stamps_ok s1" "sv_given s1 = sv_written s1 @ sv_write_queue s1" "sv_socket s1 = sv_socket s"
    using assms(1,2) by (auto simp: s1_def stamps_ok_def writes_ok_def)
  have 2: "stamps_ok s2" "sv_socket s2 = sv_socket s" "sv_bumps s2 = sv_bumps s"
    "sv_generation s2 = sv_generation s" "sv_reads s2 = sv_reads s" "sv_session s2 = sv_session s"
    using 1 by (auto simp: s2_def s1_def write_next_def stamps_ok_def split: option.splits list.splits)
  have w: "writes_ok s2" if "\<not> close out"
  proof (cases "sv_writing s")
    case True
    then show ?thesis
      using assms(2,3) by (auto simp: s2_def s1_def writes_ok_def current_writes_def)
  next
    case False
    then have "current_writes s1 = []" "sv_write_queue s = []"
      using assms(2) by (auto simp: writes_ok_def s1_def current_writes_def)
    then show ?thesis
      using write_next_ok [OF 1(1) _ _ 1(2)] assms(2,3) False that
      by (auto simp: s2_def s1_def writes_ok_def current_writes_def)
  qed
  obtain s3 a3 where n: "notify_state s2 = (s3, a3)" by force
  then have 3: "s3 = s2\<lparr>sv_notified_state := fsm (sv_session s2)\<rparr>"
    using notify_state_fields [of s2] by simp
  show ?thesis
  proof (cases "close out")
    case True
    then have "s' = fst (close_socket s3)"
      using assms(5) n unfolding apply_output_def Let_def s1_def [symmetric] s2_def [symmetric]
      by (auto split: prod.splits)
    then show ?thesis
      using True close_socket_inv [of s3] 2 3 assms(4) by (simp add: stamps_ok_def session_after_def)
  next
    case False
    then have "s' = s3"
      using assms(5) n unfolding apply_output_def Let_def s1_def [symmetric] s2_def [symmetric]
      by auto
    then show ?thesis
      using False 2 3 w assms(3,4)
      by (simp add: stamps_ok_def writes_ok_def current_writes_def link_ok_def session_after_def)
  qed
qed

lemma generation_exact:
  assumes "stamps_ok s" "sv_bumps s < 2 ^ 64" "c \<le> sv_bumps s"
  shows "word_of_nat c = sv_generation s \<longleftrightarrow> c = sv_bumps s"
proof -
  have "word_of_nat c = (word_of_nat (sv_bumps s) :: u64) \<longleftrightarrow> c = sv_bumps s"
    using assms(2,3) by (simp add: word_of_nat_eq_iff take_bit_eq_mod)
  then show ?thesis using assms(1) by (simp add: stamps_ok_def)
qed

text \<open>
  Completions of an operation of an older connection: the handler does nothing.
\<close>

lemma write_done_late:
  assumes "stamps_ok s" "sv_bumps s < 2 ^ 64" "(g, c, d) \<in> set (sv_writes s)" "c \<noteq> sv_bumps s"
  shows "write_done g ec (s\<lparr>sv_writes := ws\<rparr>) = (s\<lparr>sv_writes := ws\<rparr>, [])"
proof -
  have "c \<le> sv_bumps s" "g = word_of_nat c" using assms(1,3) by (auto simp: stamps_ok_def)
  then show ?thesis using generation_exact [OF assms(1,2)] assms(4) by (simp add: write_done_def)
qed

lemma read_done_late:
  assumes "stamps_ok s" "sv_bumps s < 2 ^ 64" "(g, c) \<in> set (sv_reads s)" "c \<noteq> sv_bumps s"
  shows "read_done now g r (s\<lparr>sv_reads := rs\<rparr>) = (s\<lparr>sv_reads := rs\<rparr>, [])"
proof -
  have "c \<le> sv_bumps s" "g = word_of_nat c" using assms(1,3) by (auto simp: stamps_ok_def)
  then show ?thesis using generation_exact [OF assms(1,2)] assms(4) by (simp add: read_done_def)
qed

lemma stamps_ok_remove:
  "stamps_ok s \<Longrightarrow> stamps_ok (s\<lparr>sv_writes := remove_at i (sv_writes s)\<rparr>)"
  "stamps_ok s \<Longrightarrow> stamps_ok (s\<lparr>sv_reads := remove_at i (sv_reads s)\<rparr>)"
  using set_remove_at [of i "sv_writes s"] set_remove_at [of i "sv_reads s"]
  by (auto simp: stamps_ok_def)

lemma server_inv_write:
  assumes inv: "server_inv s" and b: "sv_bumps s < 2 ^ 64" and i: "i < length (sv_writes s)"
  shows "server_inv (fst (write_done (fst (sv_writes s ! i)) ec (s\<lparr>sv_writes := remove_at i (sv_writes s)\<rparr>)))"
    (is "server_inv (fst (write_done _ ec ?s))")
proof -
  obtain g c d where op: "sv_writes s ! i = (g, c, d)" by (cases "sv_writes s ! i") auto
  have mem: "(g, c, d) \<in> set (sv_writes s)" using i op nth_mem by metis
  have st: "stamps_ok s" "stamps_ok ?s" and w: "writes_ok s"
    using inv stamps_ok_remove(1) by (auto simp: server_inv_def)
  show ?thesis
  proof (cases "c = sv_bumps s")
    case False
    then have "current_writes ?s = current_writes s"
      using filter_remove_at(1) [OF i] by (simp add: current_writes_def op)
    then show ?thesis
      using write_done_late [OF st(1) b mem False] inv st(2) op
      by (auto simp: server_inv_def writes_ok_def reads_ok_def link_ok_def current_reads_def)
  next
    case True
    have g: "g = sv_generation s"
      using mem st(1) True by (auto simp: stamps_ok_def)
    have hit: "sv_writing s" "current_writes ?s = []"
      using filter_remove_at(2) [OF i, of "\<lambda>(g, c, d). c = sv_bumps s"] w True op
      by (auto simp: writes_ok_def current_writes_def)
    then have soc: "sv_socket s \<noteq> None" "sv_write_queue s \<noteq> []" using w by (auto simp: writes_ok_def)
    have sess: "session_inv (sv_session s)" using inv by (simp add: server_inv_def link_ok_def)
    show ?thesis
    proof (cases ec)
      case (Some e)
      then show ?thesis
        using close_socket_inv(1) [OF st(2)] sess op g
        by (cases "close_socket ?s") (simp add: write_done_def)
    next
      case None
      let ?t = "?s\<lparr>sv_write_queue := tl (sv_write_queue s), sv_written := sv_written s @ [hd (sv_write_queue s)]\<rparr>"
      have "stamps_ok ?t" using st(2) by (simp add: stamps_ok_def)
      moreover have "current_writes ?t = []" using hit(2) by (simp add: current_writes_def)
      moreover have "sv_given ?t = sv_written ?t @ sv_write_queue ?t"
        using w soc by (simp add: writes_ok_def)
      ultimately have "stamps_ok (write_next ?t) \<and> writes_ok (write_next ?t)"
        using write_next_ok(1,2) [of ?t] soc by simp
      moreover have "write_done (fst (sv_writes s ! i)) ec ?s = (write_next ?t, [])"
        using None op g by (simp add: write_done_def)
      ultimately show ?thesis
        using inv by (auto simp: server_inv_def reads_ok_def link_ok_def current_reads_def write_next_def
            split: option.splits list.splits)
    qed
  qed
qed

lemma read_next_inv:
  assumes "stamps_ok s" "writes_ok s" "link_ok s" "current_reads s = []"
  shows "server_inv (read_next s)"
  using assms
  by (auto simp: server_inv_def read_next_def stamps_ok_def writes_ok_def reads_ok_def link_ok_def
      current_reads_def current_writes_def split: option.splits)

lemma server_inv_read:
  assumes inv: "server_inv s" and b: "sv_bumps s < 2 ^ 64" and i: "i < length (sv_reads s)"
  shows "server_inv (fst (read_done now (fst (sv_reads s ! i)) r (s\<lparr>sv_reads := remove_at i (sv_reads s)\<rparr>)))"
    (is "server_inv (fst (read_done _ _ _ ?s))")
proof -
  obtain g c where op: "sv_reads s ! i = (g, c)" by (cases "sv_reads s ! i") auto
  have mem: "(g, c) \<in> set (sv_reads s)" using i op nth_mem by metis
  have st: "stamps_ok s" "stamps_ok ?s" and w: "writes_ok ?s"
    using inv stamps_ok_remove(2) by (auto simp: server_inv_def writes_ok_def current_writes_def)
  show ?thesis
  proof (cases "c = sv_bumps s")
    case False
    then have "current_reads ?s = current_reads s"
      using filter_remove_at(1) [OF i] by (simp add: current_reads_def op)
    then show ?thesis
      using read_done_late [OF st(1) b mem False] inv st(2) w op
      by (auto simp: server_inv_def reads_ok_def link_ok_def)
  next
    case True
    have g: "g = sv_generation s" using mem st(1) True by (auto simp: stamps_ok_def)
    have hit: "sv_socket s \<noteq> None" "current_reads ?s = []"
      using filter_remove_at(2) [OF i, of "\<lambda>(g, c). c = sv_bumps s" "sv_socket s \<noteq> None"] inv True op
      by (auto simp: server_inv_def reads_ok_def current_reads_def)
    have sess: "session_inv (sv_session s)" "fsm (sv_session s) \<noteq> kNotConnected"
      using inv hit by (auto simp: server_inv_def link_ok_def)
    show ?thesis
    proof (cases r)
      case (Inl e)
      then show ?thesis using close_socket_inv(1) [OF st(2)] sess op g by (simp add: read_done_def)
    next
      case (Inr bs)
      obtain sess' out where o: "on_bytes now bs (sv_session s) = (sess', out)" by force
      obtain s' a where ap: "apply_output out (?s\<lparr>sv_session := sess'\<rparr>) = (s', a)" by force
      have af: "session_after sess' out"
        using session_after_step [OF sess(1), of "Bytes now bs"] o sess(2) by simp
      have "stamps_ok (?s\<lparr>sv_session := sess'\<rparr>)" "writes_ok (?s\<lparr>sv_session := sess'\<rparr>)"
        using st(2) w by (simp_all add: stamps_ok_def writes_ok_def current_writes_def)
      note facts = apply_output_inv [OF this _ _ ap]
      have rd: "read_done now (fst (sv_reads s ! i)) r ?s =
          (if sv_socket s' \<noteq> None \<and> g = sv_generation s' then read_next s' else s', a)"
        using Inr op g o ap by (simp add: read_done_def)
      show ?thesis
      proof (cases "close out")
        case True
        then show ?thesis using facts hit(1) af rd by simp
      next
        case False
        then have "stamps_ok s' \<and> writes_ok s' \<and> link_ok s' \<and> sv_socket s' = sv_socket s \<and>
            sv_bumps s' = sv_bumps s \<and> sv_generation s' = sv_generation s \<and> sv_reads s' = sv_reads ?s"
          using facts hit(1) af by simp
        moreover from this have "current_reads s' = []" using hit(2) by (simp add: current_reads_def)
        ultimately show ?thesis using read_next_inv rd hit(1) g by simp
      qed
    qed
  qed
qed

text \<open>A call of the session by a tick or a posted task, on a connected server.\<close>

lemma server_inv_apply:
  assumes inv: "server_inv s" and soc: "sv_socket s \<noteq> None"
    and step: "session_step e (sv_session s) = Some (sess, out)" "is_link_event e"
    and ap: "apply_output out (s\<lparr>sv_session := sess\<rparr>) = (s', a)"
  shows "server_inv s'" "sv_bumps s \<le> sv_bumps s'"
proof -
  have "session_inv (sv_session s)" "fsm (sv_session s) \<noteq> kNotConnected"
    using inv soc by (auto simp: server_inv_def link_ok_def)
  then have "session_after sess out" using session_after_step step by blast
  moreover have "stamps_ok (s\<lparr>sv_session := sess\<rparr>)" "writes_ok (s\<lparr>sv_session := sess\<rparr>)"
    using inv by (simp_all add: server_inv_def stamps_ok_def writes_ok_def current_writes_def)
  ultimately have "if close out then server_inv s' \<and> sv_socket s' = None \<and> sv_bumps s' = sv_bumps s + 1
    else stamps_ok s' \<and> writes_ok s' \<and> link_ok s' \<and> sv_socket s' = sv_socket s \<and>
      sv_bumps s' = sv_bumps s \<and> sv_generation s' = sv_generation s \<and> sv_reads s' = sv_reads s"
    using apply_output_inv [OF _ _ _ _ ap] soc by simp
  then show "server_inv s'" "sv_bumps s \<le> sv_bumps s'"
    using inv by (cases "close out"; simp add: server_inv_def reads_ok_def current_reads_def)+
qed

lemma server_inv_counters [simp]:
  "server_inv (s\<lparr>sv_accepts := n\<rparr>) = server_inv s" "server_inv (s\<lparr>sv_ticks := n\<rparr>) = server_inv s"
  "server_inv (s\<lparr>sv_posts := ps\<rparr>) = server_inv s" "server_inv (s\<lparr>sv_stopped := b\<rparr>) = server_inv s"
  by (simp_all add: server_inv_def stamps_ok_def writes_ok_def reads_ok_def link_ok_def
      current_writes_def current_reads_def)

lemma server_inv_accept:
  assumes "server_inv s" "accept_done now r s = (s', a)"
  shows "server_inv s'"
proof (cases "r = Accept_connected \<and> sv_socket s = None")
  case False
  then show ?thesis
    using assms by (auto simp: accept_done_def accept_next_def split: accept_result.splits if_splits)
next
  case True
  define s1 where "s1 = (bump s)\<lparr>sv_socket := Some (sv_bumps s + 1)\<rparr>"
  have st: "stamps_ok s" and sess: "session_inv (sv_session s)" "fsm (sv_session s) = kNotConnected"
    and q: "sv_write_queue s = []" "\<not> sv_writing s"
    using assms(1) True by (auto simp: server_inv_def link_ok_def writes_ok_def)
  obtain ss out where c: "on_connect now (sv_session s) = (ss, out)" by force
  obtain s2 a2 where ap: "apply_output out (s1\<lparr>sv_session := ss\<rparr>) = (s2, a2)" by force
  have "stamps_ok (s1\<lparr>sv_session := ss\<rparr>)" "writes_ok (s1\<lparr>sv_session := ss\<rparr>)" "current_reads s1 = []"
    using stamps_ok_bump [OF st] q
    by (simp_all add: s1_def bump_def stamps_ok_def writes_ok_def current_writes_def current_reads_def)
  moreover have "\<not> close out" using c by (auto simp: on_connect_def no_output_def Let_def split: prod.splits sum.splits)
  ultimately have "stamps_ok s2" "writes_ok s2" "link_ok s2" "current_reads s2 = []"
    using apply_output_inv [OF _ _ _ _ ap] session_after_connect [OF sess c]
    by (auto simp: s1_def current_reads_def)
  then have "server_inv (read_next s2)" by (rule read_next_inv)
  moreover have "s' = accept_next (read_next s2)"
    using assms(2) True c ap by (auto simp: accept_done_def s1_def bump_def Let_def)
  ultimately show ?thesis by (simp add: accept_next_def)
qed

lemma server_inv_tick:
  assumes "server_inv s" "tick_done now ec s = Some (s', a)"
  shows "server_inv s'"
proof -
  have "server_inv t" if "sv_socket s \<noteq> None" "on_tick now (sv_session s) = Some (sess, out)"
    "apply_output out (s\<lparr>sv_session := sess\<rparr>) = (t, b)" for sess out t b
    by (rule server_inv_apply(1) [OF assms(1) that(1) _ _ that(3), of "Tick now"]) (simp_all add: that)
  then show ?thesis
    using assms by (auto simp: tick_done_def schedule_tick_def split: if_splits)
qed

lemma run_posted_cases:
  assumes "run_posted now p s = Some (s', a)"
  obtains (same) "s' = s"
  | (calls) e sess out b where "sv_socket s \<noteq> None" "session_step e (sv_session s) = Some (sess, out)"
      "is_link_event e" "apply_output out (s\<lparr>sv_session := sess\<rparr>) = (s', b)"
  | (stops) "s' = (fst (close_socket s))\<lparr>sv_stopped := True\<rparr>"
proof (cases p)
  case (P_request m cb)
  show thesis
  proof (cases "sv_socket s = None")
    case False
    then obtain r sess out where r: "send_request now m (sv_session s, no_output) = Some (r, sess, out)"
      using assms P_request by auto
    obtain t b where t: "apply_output out (s\<lparr>sv_session := sess\<rparr>) = (t, b)" by force
    then have "t = s'" using assms P_request False r by simp
    then show thesis using calls [of "Request now m"] False r t by simp
  qed (use assms P_request same in simp)
next
  case (P_reply sys m)
  show thesis
  proof (cases "sv_socket s = None")
    case False
    obtain r sess out where r: "send_reply sys m (sv_session s, no_output) = (r, sess, out)"
      by (cases "send_reply sys m (sv_session s, no_output)") auto
    obtain t b where t: "apply_output out (s\<lparr>sv_session := sess\<rparr>) = (t, b)" by force
    then have "t = s'" using assms P_reply False r by simp
    then show thesis using calls [of "Reply sys m"] False r t by simp
  qed (use assms P_reply same in simp)
qed (use assms same stops in \<open>auto split: prod.splits\<close>)

lemma server_inv_posted:
  assumes "server_inv s" "run_posted now p s = Some (s', a)"
  shows "server_inv s'"
  using assms(2)
proof (cases rule: run_posted_cases)
  case stops
  then show ?thesis
    using assms(1) close_socket_inv(1) [of s] by (simp add: server_inv_def [of s] link_ok_def)
qed (use assms(1) server_inv_apply(1) in auto)

text \<open>\<open>sv_bumps\<close> never decreases, so a server below the limit was below it all along.\<close>

lemma bumps_mono:
  "sv_bumps s \<le> sv_bumps (fst (close_socket s))"
  "sv_bumps s \<le> sv_bumps (fst (apply_output out s))"
  "sv_bumps (read_next s) = sv_bumps s" "sv_bumps (write_next s) = sv_bumps s"
  by (auto simp: close_socket_def notify_state_def bump_def apply_output_def Let_def write_next_def
      read_next_def split: prod.splits option.splits list.splits if_splits)

lemma apply_output_mono: "apply_output out s = (s', a) \<Longrightarrow> sv_bumps s \<le> sv_bumps s'"
  using bumps_mono(2) [of s out] by simp

lemma close_socket_mono: "close_socket s = (s', a) \<Longrightarrow> sv_bumps s \<le> sv_bumps s'"
  using bumps_mono(1) [of s] by simp

lemma io_step_mono:
  assumes "io_step e s = Some (s', a)"
  shows "sv_bumps s \<le> sv_bumps s'"
proof (cases e)
  case (E_accept now r)
  then show ?thesis
    using assms
    by (auto simp: accept_done_def accept_next_def bumps_mono bump_def Let_def split: if_splits accept_result.splits
        prod.splits dest!: apply_output_mono)
next
  case (E_tick now ec)
  then show ?thesis
    using assms by (auto simp: tick_done_def schedule_tick_def split: if_splits dest!: apply_output_mono)
next
  case (E_write i ec)
  then show ?thesis
    using assms by (auto simp: write_done_def bumps_mono split: if_splits option.splits prod.splits dest!: close_socket_mono)
next
  case (E_read now i r)
  then show ?thesis
    using assms
    by (auto simp: read_done_def bumps_mono split: if_splits sum.splits prod.splits
        dest!: close_socket_mono apply_output_mono)
next
  case (E_run now i)
  have "sv_bumps t \<le> sv_bumps s'" if "run_posted now p t = Some (s', a)" for p t
    using that
    by (cases rule: run_posted_cases) (auto dest: apply_output_mono simp: bumps_mono)
  then show ?thesis using assms E_run by (fastforce split: if_splits)
qed (use assms in auto)

lemma server_inv_step:
  assumes "server_inv s" "sv_bumps s < 2 ^ 64" "io_step e s = Some (s', a)"
  shows "server_inv s'"
proof (cases e)
  case (E_accept now r)
  then show ?thesis
    using assms server_inv_accept [of "s\<lparr>sv_accepts := sv_accepts s - 1\<rparr>" now r s' a]
    by (auto split: if_splits)
next
  case (E_tick now ec)
  then show ?thesis
    using assms server_inv_tick [of "s\<lparr>sv_ticks := sv_ticks s - 1\<rparr>" now ec s' a]
    by (auto split: if_splits)
next
  case (E_write i ec)
  then show ?thesis
    using assms server_inv_write [OF assms(1,2), of i ec] by (auto split: if_splits)
next
  case (E_read now i r)
  then show ?thesis
    using assms server_inv_read [OF assms(1,2), of i now r] by (auto split: if_splits)
next
  case (E_run now i)
  then show ?thesis
    using assms server_inv_posted [of "s\<lparr>sv_posts := remove_at i (sv_posts s)\<rparr>" now "sv_posts s ! i" s' a]
    by (auto split: if_splits)
qed (use assms in auto)

lemma server_init_cases:
  assumes "server_init s"
  obtains c p where "session_config_ok (sc_session c)"
    "s = (new_server c)\<lparr>sv_port := p, sv_started := True, sv_accepts := 1, sv_ticks := 1\<rparr>"
proof -
  from assms obtain c ok l where c: "session_config_ok (sc_session c)" "start ok l (new_server c) = (Ok True, s)"
    by (auto simp: server_init_def)
  then obtain p where "l (sc_bind c) (sc_port c) = Inr p"
    by (auto simp: start_def new_server_def Let_def split: if_splits sum.splits)
  with c show thesis
    by (intro that [of c p])
      (auto simp: start_def new_server_def Let_def schedule_tick_def accept_next_def split: if_splits)
qed

lemma server_init_inv:
  assumes "server_init s"
  shows "server_inv s"
proof -
  from assms obtain c p where "session_config_ok (sc_session c)"
    "s = (new_server c)\<lparr>sv_port := p, sv_started := True, sv_accepts := 1, sv_ticks := 1\<rparr>"
    by (rule server_init_cases)
  then show ?thesis
    using new_session_inv [of "sc_session c"]
    by (simp add: new_server_def server_inv_def stamps_ok_def writes_ok_def reads_ok_def link_ok_def
        current_writes_def current_reads_def) (simp add: new_session_def)
qed

definition server_guarded :: "server \<Rightarrow> bool" where
  "server_guarded s \<longleftrightarrow> (sv_bumps s < 2 ^ 64 \<longrightarrow> server_inv s)"

interpretation hsms_server: event_machine server_init io_step server_guarded
proof unfold_locales
  fix s e s' out
  assume "server_guarded s" "io_step e s = Some (s', out)"
  then show "server_guarded s'"
    using server_inv_step io_step_mono unfolding server_guarded_def by (meson le_less_trans)
qed (simp add: server_guarded_def server_init_inv)

lemma reach_server_inv:
  "reach server_init io_step s \<Longrightarrow> sv_bumps s < 2 ^ 64 \<Longrightarrow> server_inv s"
  using hsms_server.reach_inv by (auto simp: server_guarded_def)

section \<open>Properties\<close>

text \<open>Every completion handler returns.\<close>

lemma io_step_returns:
  assumes "server_inv s"
  shows "io_step e s \<noteq> None"
proof -
  have inv: "session_inv (sv_session s)" using assms by (simp add: server_inv_def link_ok_def)
  have "on_tick now (sv_session s) \<noteq> None" "send_request now m (sv_session s, no_output) \<noteq> None" for now m
    using session_step_returns [OF inv, of "Tick now"] session_step_returns [OF inv, of "Request now m"]
    by simp_all
  moreover have "run_posted now p (s\<lparr>sv_posts := ps\<rparr>) \<noteq> None" for now p ps
    using calculation by (cases p) (simp_all split: prod.split del: not_None_eq)
  ultimately show ?thesis
    by (cases e) (simp_all add: tick_done_def del: not_None_eq)
qed

lemma old_operations:
  assumes "server_inv s"
  shows "(g, c, d) \<in> set (sv_writes s) \<Longrightarrow> sv_socket s \<noteq> Some c \<Longrightarrow> c \<noteq> sv_bumps s"
    and "(g, c) \<in> set (sv_reads s) \<Longrightarrow> sv_socket s \<noteq> Some c \<Longrightarrow> c \<noteq> sv_bumps s"
proof -
  have none: "current_writes s = [] \<and> current_reads s = []" if "sv_socket s = None"
    using assms that by (simp add: server_inv_def writes_ok_def reads_ok_def)
  have some: "sv_socket s = None \<or> sv_socket s = Some (sv_bumps s)"
    using assms by (cases "sv_socket s") (auto simp: server_inv_def stamps_ok_def)
  show "(g, c, d) \<in> set (sv_writes s) \<Longrightarrow> sv_socket s \<noteq> Some c \<Longrightarrow> c \<noteq> sv_bumps s"
    "(g, c) \<in> set (sv_reads s) \<Longrightarrow> sv_socket s \<noteq> Some c \<Longrightarrow> c \<noteq> sv_bumps s"
    using none some by (auto simp: current_writes_def current_reads_def filter_empty_conv)
qed

text \<open>
  A late completion can never touch a newer connection: when a write or a read that was started
  on one connection completes, with whatever result, while that connection is no longer the active
  one, nothing changes but that the operation is no longer outstanding, and nobody is told. The
  generation counter has 64 bits, so the hypothesis on it covers every run of fewer than \<open>2\<^sup>6\<^sup>4\<close> connects
  and disconnects.
\<close>

theorem late_completion_ignored:
  assumes "reach server_init io_step s" "sv_bumps s < 2 ^ 64" "\<not> sv_stopped s"
  shows "(i < length (sv_writes s) \<and> sv_socket s \<noteq> Some (fst (snd (sv_writes s ! i))) \<longrightarrow>
      io_step (E_write i ec) s = Some (s\<lparr>sv_writes := remove_at i (sv_writes s)\<rparr>, [])) \<and>
    (j < length (sv_reads s) \<and> sv_socket s \<noteq> Some (snd (sv_reads s ! j)) \<longrightarrow>
      io_step (E_read now j r) s = Some (s\<lparr>sv_reads := remove_at j (sv_reads s)\<rparr>, []))"
proof (intro conjI impI)
  have inv: "server_inv s" and st: "stamps_ok s"
    using reach_server_inv [OF assms(1,2)] by (auto simp: server_inv_def)
  assume i: "i < length (sv_writes s) \<and> sv_socket s \<noteq> Some (fst (snd (sv_writes s ! i)))"
  obtain g c d where op: "sv_writes s ! i = (g, c, d)" by (cases "sv_writes s ! i") auto
  have mem: "(g, c, d) \<in> set (sv_writes s)" using i op nth_mem by metis
  have "c \<noteq> sv_bumps s" using old_operations(1) [OF inv mem] i op by simp
  then show "io_step (E_write i ec) s = Some (s\<lparr>sv_writes := remove_at i (sv_writes s)\<rparr>, [])"
    using write_done_late [OF st assms(2) mem] i op assms(3) by simp
next
  have inv: "server_inv s" and st: "stamps_ok s"
    using reach_server_inv [OF assms(1,2)] by (auto simp: server_inv_def)
  assume j: "j < length (sv_reads s) \<and> sv_socket s \<noteq> Some (snd (sv_reads s ! j))"
  obtain g c where op: "sv_reads s ! j = (g, c)" by (cases "sv_reads s ! j") auto
  have mem: "(g, c) \<in> set (sv_reads s)" using j op nth_mem by metis
  have "c \<noteq> sv_bumps s" using old_operations(2) [OF inv mem] j op by simp
  then show "io_step (E_read now j r) s = Some (s\<lparr>sv_reads := remove_at j (sv_reads s)\<rparr>, [])"
    using read_done_late [OF st assms(2) mem] j op assms(3) by simp
qed

text \<open>
  A run used as evidence: a host connects and selects, its answer is being written when the read side
  reports the end of the connection, and a second host connects before the old write completes.
\<close>

definition select_req_bytes :: "byte list" where
  "select_req_bytes = [0, 0, 0, 10, 0xFF, 0xFF, 0, 0, 0, 1, 0, 0, 0, 7]"

definition select_rsp_bytes :: "byte list" where
  "select_rsp_bytes = [0, 0, 0, 10, 0xFF, 0xFF, 0, 0, 0, 2, 0, 0, 0, 7]"

definition sample_server_config :: server_config where
  "sample_server_config =
     \<lparr>sc_bind = ''127.0.0.1'', sc_port = 5000, sc_session = default_session_config, sc_tick_interval = 20\<rparr>"

definition sample_server :: server where
  "sample_server = snd (start (\<lambda>_. True) (\<lambda>_ p. Inr p) (new_server sample_server_config))"

definition sample_server_events :: "io_event list" where
  "sample_server_events =
     [E_accept 0 Accept_connected, E_read 1 0 (Inr select_req_bytes), E_read 2 0 (Inl ''eof''),
      E_accept 3 Accept_connected]"

lemma select_req_feed:
  "feed select_req_bytes (new_decoder 1048576) = (Ok [make_control_frame kSelectReq 7 0 0], new_decoder 1048576)"
proof -
  have "encode_frame (make_control_frame kSelectReq 7 0 0) = Ok select_req_bytes"
    by (simp add: encode_frame_def kHeaderSize_def make_control_frame_def put_be16_eq put_be32_eq
        be_bytes_numeral kControlSessionId_def select_req_bytes_def)
  then have "parse_stream 1048576 select_req_bytes = Ok ([make_control_frame kSelectReq 7 0 0], [])"
    using parse_stream_encoded_list [of 1048576 "[make_control_frame kSelectReq 7 0 0]" "[select_req_bytes]"]
    by (simp add: frame_fits_def make_control_frame_def kHeaderSize_def)
  then show ?thesis by (simp add: feed_parse)
qed

lemma select_rsp_encode: "encode_frame (make_control_frame kSelectRsp 7 0 0) = Ok select_rsp_bytes"
  by (simp add: encode_frame_def kHeaderSize_def make_control_frame_def put_be16_eq put_be32_eq
      be_bytes_numeral kControlSessionId_def select_rsp_bytes_def)

lemma sample_server_run:
  "\<exists>s outs. run io_step sample_server_events sample_server = Some (s, outs) \<and>
     sv_writes s = [(1, 1, select_rsp_bytes)] \<and> sv_reads s = [(3, 3)] \<and> sv_socket s = Some 3 \<and>
     sv_bumps s = 3 \<and> \<not> sv_stopped s \<and> sv_write_queue s = []"
  by (simp add: sample_server_events_def sample_server_def start_def new_server_def
      sample_server_config_def Let_def accept_next_def schedule_tick_def accept_done_def bump_def
      on_connect_def new_session_def connection_apply_def reset_link_state_def default_session_config_def
      apply_output_def notify_state_def no_output_def read_next_def read_done_def remove_at.simps
      on_bytes_def select_req_feed handle_frame_def make_control_frame_def [of kSelectReq] stype_from_byte_def
      has_partial_def select_rsp_encode send_control_def kSelectOk_def write_next_def close_socket_def on_disconnect_def)

lemma sample_server_reach:
  assumes "run io_step es sample_server = Some (s, outs)"
  shows "reach server_init io_step s"
proof -
  have "server_init sample_server"
    unfolding server_init_def sample_server_def
    by (rule exI [of _ sample_server_config], rule exI [of _ "\<lambda>_. True"], rule exI [of _ "\<lambda>_ p. Inr p"])
      (simp add: start_def new_server_def Let_def sample_server_config_def session_config_ok_def
        default_session_config_def)
  then show ?thesis using assms reach_init run_reach by metis
qed

theorem late_completion_ignored_witness:
  "\<exists>s outs. run io_step sample_server_events sample_server = Some (s, outs) \<and> sv_socket s = Some 3 \<and>
     io_step (E_write 0 (Some ''operation aborted'')) s = Some (s\<lparr>sv_writes := []\<rparr>, [])"
proof -
  obtain s outs where s: "run io_step sample_server_events sample_server = Some (s, outs)"
    "sv_writes s = [(1, 1, select_rsp_bytes)]" "sv_socket s = Some 3" "sv_bumps s = 3" "\<not> sv_stopped s"
    using sample_server_run by blast
  have "io_step (E_write 0 (Some ''operation aborted'')) s = Some (s\<lparr>sv_writes := remove_at 0 (sv_writes s)\<rparr>, [])"
    using late_completion_ignored [OF sample_server_reach [OF s(1)], of 0] s by simp
  then show ?thesis using s by (simp add: remove_at.simps)
qed

text \<open>
  C29. The server and its connection agree after every event: a host is connected exactly when the
  session is, and the handler was last told the session's state; a connected server is always
  listening to its host, with one read in flight; at most one write is in flight, and it carries the
  first frame of the queue; and the frames the session produced on this connection are, in order,
  those written and those still queued, so that none is lost, repeated or overtaken.
\<close>

theorem server_serves_connection:
  assumes "reach server_init io_step s" "sv_bumps s < 2 ^ 64"
  shows "(sv_socket s = None \<longleftrightarrow> fsm (sv_session s) = kNotConnected) \<and>
    sv_notified_state s = fsm (sv_session s) \<and>
    current_reads s = (if sv_socket s = None then [] else [(sv_generation s, sv_bumps s)]) \<and>
    current_writes s =
      (case sv_write_queue s of [] \<Rightarrow> [] | front # _ \<Rightarrow> [(sv_generation s, sv_bumps s, front)]) \<and>
    sv_given s = sv_written s @ sv_write_queue s"
  using reach_server_inv [OF assms]
  by (auto simp: server_inv_def writes_ok_def reads_ok_def link_ok_def split: list.split)

theorem server_serves_connection_witness:
  "\<exists>s outs. run io_step sample_server_events sample_server = Some (s, outs) \<and>
     sv_notified_state s \<noteq> kNotConnected \<and> current_writes s = [] \<and> length (current_reads s) = 1"
proof -
  obtain s outs where s: "run io_step sample_server_events sample_server = Some (s, outs)"
    "sv_socket s = Some 3" "sv_bumps s = 3" "sv_write_queue s = []"
    using sample_server_run by blast
  from server_serves_connection [OF sample_server_reach [OF s(1)]] s show ?thesis by auto
qed

section \<open>Observations\<close>

text \<open>
  The buffer of a write must stay valid until its handler runs (Asio's requirement), and
  \<^verbatim>\<open>close_socket\<close> clears the queue that owns it: here a write of the first connection is in flight while
  its bytes are in no queue any more.
\<close>

lemma close_frees_buffer_in_flight:
  "\<exists>s outs. run io_step sample_server_events sample_server = Some (s, outs) \<and>
     (1, 1, select_rsp_bytes) \<in> set (sv_writes s) \<and> select_rsp_bytes \<notin> set (sv_write_queue s)"
  using sample_server_run by force

text \<open>
  \<^verbatim>\<open>stop()\<close> leaves the I/O loop stopped and \<^verbatim>\<open>start()\<close> never restarts it: a second start succeeds and
  binds the port, but no handler ever runs again.
\<close>

lemma restart_serves_nobody:
  assumes "sv_stopped s" "start ok l (s\<lparr>sv_started := False\<rparr>) = (Ok True, s')"
    "io_step e s' = Some (s'', a)"
  shows "a = [] \<and> sv_socket s'' = sv_socket s' \<and> sv_stopped s''"
proof -
  have "sv_stopped s'"
    using assms(1,2) by (auto simp: start_def Let_def schedule_tick_def accept_next_def split: if_splits sum.splits)
  then show ?thesis using assms(3) by (cases e) auto
qed

section \<open>A loaded configuration makes a session\<close>

lemma f8_make_positive: "\<not> f8_sign (f8_make False a)" if "a < 2 ^ 63"
  using that by (simp add: f8_sign_unat f8_make_def unat_of_nat take_bit_eq_mod)

lemma f8_of_scaled_positive: "\<not> f8_sign (f8_of_scaled False m x)"
  unfolding f8_of_scaled_def
  by (rule f8_make_positive, rule le_less_trans [of _ f8_inf])
    (simp add: f8_of_ratio_le, simp add: f8_inf_def)

lemma llround_nonneg: "\<not> f8_sign w \<Longrightarrow> llround w = Some i \<Longrightarrow> 0 \<le> i"
  by (auto simp: llround_def Let_def split: if_splits prod.splits)

lemma f8_lit_1000: "f8_lit 1000 1 = 0x408F400000000000"
  by (simp add: lit_eval)

lemma f8_positive: "f8_less (f8_lit 0 1) w \<Longrightarrow> \<not> f8_sign w \<and> \<not> f8_nan w \<and> f8_abs w \<noteq> 0"
  unfolding f8_lit_0 by (auto simp: f8_less_def f8_key_def f8_abs_def split: if_splits)

lemma seconds_to_duration_nonneg:
  assumes "f8_less (f8_lit 0 1) w" "seconds_to_duration w = Some d"
  shows "0 \<le> d"
proof -
  have k: "\<not> f8_sign (f8_lit 1000 1)" "\<not> f8_nan (f8_lit 1000 1)" "f8_finite (f8_lit 1000 1)"
    "f8_abs (f8_lit 1000 1) \<noteq> 0"
    by (simp_all only: f8_lit_1000)
      (simp_all add: f8_sign_def f8_nan_def f8_finite_def f8_abs_def f8_inf_def)
  have "\<not> f8_sign (f8_mul w (f8_lit 1000 1))"
    using f8_positive [OF assms(1)] k
    by (auto simp: f8_mul_def f8_of_scaled_positive split: prod.splits)
      (simp_all add: f8_make_positive f8_inf_def)
  then show ?thesis using assms(2) llround_nonneg by (simp add: seconds_to_duration_def)
qed

lemma session_config_from_Some:
  assumes "session_config_from c = Some sc"
  shows "seconds_to_duration (co_t3_s c) = Some (cfg_t3 sc)" "seconds_to_duration (co_t6_s c) = Some (cfg_t6 sc)"
    "seconds_to_duration (co_t7_s c) = Some (cfg_t7 sc)" "seconds_to_duration (co_t8_s c) = Some (cfg_t8 sc)"
    "seconds_to_duration (co_linktest_s c) = Some (linktest_interval sc)"
    "cfg_max_frame_bytes sc = unat (co_max_frame_bytes c)" "max_open_transactions sc = 256"
  using assms by (auto simp: session_config_from_def default_session_config_def split: option.splits)

text \<open>
  A configuration that loads gives the session sane parameters: no timer is negative, the frame
  limit is positive, and the table of open transactions leaves the system-bytes generator a value to
  find, which is what the session's invariant and the return of its calls rest on.
\<close>

theorem loaded_config_makes_session:
  assumes "numbers_only js" "load_config_from_json js raw = Inr r"
    "session_config_from (cf_comm (lr_config r)) = Some sc"
  shows "session_config_ok sc \<and> 0 < cfg_max_frame_bytes sc \<and>
    list_all (\<lambda>t. 0 \<le> t) [cfg_t3 sc, cfg_t6 sc, cfg_t7 sc, cfg_t8 sc, linktest_interval sc]"
proof -
  have "config_limits (lr_config r)"
    using loaded_no_nan [OF assms(1,2)] load_config_Inr [OF assms(2)] validate_limits by blast
  then have "comm_limits (cf_comm (lr_config r))" by (simp add: config_limits_def)
  then show ?thesis
    using session_config_from_Some [OF assms(3)] seconds_to_duration_nonneg
    by (auto simp: comm_limits_def session_config_ok_def unat_gt_0)
qed

text \<open>A timer of less than half a millisecond passes the check and becomes 0.\<close>

lemma short_timer_vanishes:
  "f8_less (f8_lit 0 1) (f8_lit 4 10000) \<and> seconds_to_duration (f8_lit 4 10000) = Some 0"
proof -
  have l: "f8_lit 4 10000 = 0x3F3A36E2EB1C432D" by (simp add: lit_eval)
  have "f8_mul 0x3F3A36E2EB1C432D 0x408F400000000000 = 0x3FD999999999999A"
    by (simp add: f8_mul_def f8_sign_def f8_nan_def f8_finite_def f8_abs_def f8_parts_def f8_of_scaled_def lit_eval)
  moreover have "llround 0x3FD999999999999A = Some 0"
    by (simp add: llround_def f8_finite_def f8_sign_def f8_abs_def f8_parts_def f8_inf_def)
  ultimately show ?thesis
    unfolding l f8_lit_0 seconds_to_duration_def f8_lit_1000
    by (simp add: f8_less_def f8_nan_def f8_key_def f8_abs_def f8_sign_def f8_inf_def)
qed

lemma default_durations:
  "session_config_from default_comm = Some default_session_config"
proof -
  have l: "f8_lit 45 1 = 0x4046800000000000" "f8_lit 10 1 = 0x4024000000000000"
    "f8_lit 5 1 = 0x4014000000000000" "f8_lit 60 1 = 0x404E000000000000"
    by (simp_all only: f8_lit_defaults)
  have m: "f8_mul 0x4046800000000000 0x408F400000000000 = 0x40E5F90000000000"
    "f8_mul 0x4024000000000000 0x408F400000000000 = 0x40C3880000000000"
    "f8_mul 0x4014000000000000 0x408F400000000000 = 0x40B3880000000000"
    "f8_mul 0x404E000000000000 0x408F400000000000 = 0x40ED4C0000000000"
    by (simp_all add: f8_mul_def f8_sign_def f8_nan_def f8_finite_def f8_abs_def f8_parts_def
        f8_of_scaled_def lit_eval)
  have "llround 0x40E5F90000000000 = Some 45000" "llround 0x40C3880000000000 = Some 10000"
    "llround 0x40B3880000000000 = Some 5000" "llround 0x40ED4C0000000000 = Some 60000"
    by (simp_all add: llround_def f8_finite_def f8_sign_def f8_abs_def f8_parts_def f8_inf_def)
  then show ?thesis
    unfolding session_config_from_def default_comm_def l
    by (simp add: seconds_to_duration_def f8_lit_1000 [unfolded One_nat_def] m default_session_config_def)
qed

theorem loaded_config_makes_session_witness:
  "session_config_from (cf_comm default_config) = Some default_session_config \<and>
   session_config_ok default_session_config \<and> 0 \<le> cfg_t3 default_session_config"
proof -
  have d: "session_config_from (cf_comm default_config) = Some default_session_config"
    using default_durations by (simp add: default_config_def)
  then show ?thesis
    using loaded_config_makes_session [OF sample_numbers_only sample_loads, of default_session_config]
    by simp
qed

end
