(* ===== verification/Analysis_Filter.thy ===== *)
theory Analysis_Filter
  imports Std_Rounding "HOL-Library.Multiset"
begin

text \<open>
  The sample filters of the analysis: edge exclusion (\<^verbatim>\<open>src/analysis/edge_exclusion.cpp\<close>) and the
  sliding-window outlier rejection (\<^verbatim>\<open>src/analysis/outlier_rejection.cpp\<close>), with the straightforward
  version the latter replaced (kept in \<^verbatim>\<open>tests\<close> as its reference) and the proof that they agree.
  Arithmetic is that of doubles, every operation rounded on its own.
\<close>

section \<open>Data\<close>

record line_samples =
  ls_angle_rad :: f8
  ls_s_m :: "f8 list"
  ls_z_m :: "f8 list"

datatype sample_flag = kKept | kEdgeExcluded | kOutlier | kDropped

record filtered_sample =
  fs_s_m :: f8
  fs_z_m :: f8
  fs_flag :: sample_flag

record filter_result =
  fr_angle_rad :: f8
  fr_samples :: "filtered_sample list"
  fr_removed_count :: nat
  fr_removed_fraction :: f8

definition count_removed :: "filtered_sample list \<Rightarrow> nat" where
  "count_removed ss = length (filter (\<lambda>s. fs_flag s \<noteq> kKept) ss)"

text \<open>Both filters end by counting: \<^verbatim>\<open>removed_count\<close> and \<^verbatim>\<open>removed_fraction\<close>.\<close>

definition with_counts :: "filter_result \<Rightarrow> filter_result" where
  "with_counts r =
     (let n = count_removed (fr_samples r)
      in r\<lparr>fr_removed_count := n,
           fr_removed_fraction := f8_div (f8_of_int (int n)) (f8_of_int (int (length (fr_samples r))))\<rparr>)"

section \<open>Edge exclusion\<close>

text \<open>\<^verbatim>\<open>std::minmax_element\<close>: the first smallest and the last largest element.\<close>

fun min_element :: "f8 \<Rightarrow> f8 list \<Rightarrow> f8" where
  "min_element m [] = m"
| "min_element m (x # xs) = min_element (if f8_less x m then x else m) xs"

fun max_element :: "f8 \<Rightarrow> f8 list \<Rightarrow> f8" where
  "max_element m [] = m"
| "max_element m (x # xs) = max_element (if f8_less x m then m else x) xs"

definition edge_sample :: "f8 \<Rightarrow> f8 \<Rightarrow> f8 \<Rightarrow> f8 \<Rightarrow> filtered_sample" where
  "edge_sample lo hi s z =
     \<lparr>fs_s_m = s, fs_z_m = z,
      fs_flag = (if f8_nan z then kDropped
                 else if f8_less s lo \<or> f8_less hi s then kEdgeExcluded else kKept)\<rparr>"

text \<open>Where \<open>z_m\<close> is shorter than \<open>s_m\<close> the code reads past its end; blocks always have both equally long.\<close>

definition apply_edge_exclusion :: "line_samples \<Rightarrow> f8 \<Rightarrow> filter_result" where
  "apply_edge_exclusion line edge_exclusion_mm =
     (let r = \<lparr>fr_angle_rad = ls_angle_rad line, fr_samples = [], fr_removed_count = 0,
               fr_removed_fraction = 0\<rparr>
      in case ls_s_m line of
           [] \<Rightarrow> r
         | s # ss \<Rightarrow>
             let edge_exclusion_m = f8_mul edge_exclusion_mm (f8_lit 1 1000);
                 lo = f8_add (min_element s ss) edge_exclusion_m;
                 hi = f8_sub (max_element s ss) edge_exclusion_m
             in with_counts (r\<lparr>fr_samples := map2 (edge_sample lo hi) (ls_s_m line) (ls_z_m line)\<rparr>))"

section \<open>Outlier rejection\<close>

text \<open>\<^verbatim>\<open>std::lower_bound\<close> and \<^verbatim>\<open>std::upper_bound\<close> on a sorted vector.\<close>

definition lower_bound :: "f8 list \<Rightarrow> f8 \<Rightarrow> nat" where
  "lower_bound w v = length (takeWhile (\<lambda>y. f8_less y v) w)"

definition upper_bound :: "f8 list \<Rightarrow> f8 \<Rightarrow> nat" where
  "upper_bound w v = length (takeWhile (\<lambda>y. \<not> f8_less v y) w)"

definition half :: f8 where
  "half = f8_lit 5 10"

definition sorted_median :: "f8 list \<Rightarrow> f8" where
  "sorted_median w =
     (let mid = length w div 2
      in if length w mod 2 = 0 then f8_mul half (f8_add (w ! mid) (w ! (mid - 1))) else w ! mid)"

text \<open>One step of the merge: the next left and right candidates, and the last two distances taken.\<close>

fun mad_step :: "f8 list \<Rightarrow> f8 \<Rightarrow> nat \<times> nat \<times> f8 \<times> f8 \<Rightarrow> nat \<times> nat \<times> f8 \<times> f8" where
  "mad_step w med (left, right, previous, current) =
     (let have_left = left > 0; have_right = right < length w;
          dev_left = (if have_left then f8_sub med (w ! (left - 1)) else 0);
          dev_right = (if have_right then f8_sub (w ! right) med else 0)
      in if have_left \<and> (\<not> have_right \<or> f8_le dev_left dev_right)
         then (left - 1, right, current, dev_left)
         else (left, right + 1, current, dev_right))"

definition median_abs_deviation :: "f8 list \<Rightarrow> f8 \<Rightarrow> f8" where
  "median_abs_deviation w med =
     (let mid = length w div 2; split = lower_bound w med
      in case (mad_step w med ^^ (mid + 1)) (split, split, 0, 0) of
           (left, right, previous, current) \<Rightarrow>
             if length w mod 2 = 0 then f8_mul half (f8_add current previous) else current)"

definition window_erase :: "f8 \<Rightarrow> f8 list \<Rightarrow> f8 list" where
  "window_erase z w = (let i = lower_bound w z in take i w @ drop (Suc i) w)"

definition window_insert :: "f8 \<Rightarrow> f8 list \<Rightarrow> f8 list" where
  "window_insert z w = (let i = upper_bound w z in take i w @ z # drop i w)"

text \<open>The verdict on one kept height, from the median and the deviation of its window.\<close>

definition exceeds :: "f8 \<Rightarrow> f8 \<Rightarrow> f8 \<Rightarrow> f8 \<Rightarrow> bool" where
  "exceeds mad_k z med mad =
     (let threshold = f8_mul mad_k mad
      in f8_less 0 threshold \<and> f8_less threshold (f8_fabs (f8_sub z med)))"

text \<open>
  The loop over the kept samples: the window, its bounds and the verdicts so far. The two inner loops
  move the bounds one value at a time.
\<close>

definition slide :: "f8 list \<Rightarrow> nat \<Rightarrow> nat \<Rightarrow> f8 list \<times> nat \<times> nat \<Rightarrow> f8 list \<times> nat \<times> nat" where
  "slide zs lo stop = (\<lambda>(w, window_lo, window_end).
     (fold window_insert (map ((!) zs) [window_end..<stop])
        (fold window_erase (map ((!) zs) [window_lo..<lo]) w),
      max window_lo lo, max window_end stop))"

fun outlier_loop :: "f8 list \<Rightarrow> f8 \<Rightarrow> nat \<Rightarrow> nat list \<Rightarrow> f8 list \<times> nat \<times> nat \<Rightarrow> bool list" where
  "outlier_loop zs mad_k radius [] st = []"
| "outlier_loop zs mad_k radius (k # ks) st =
     (let lo = (if k > radius then k - radius else 0);
          stop = min (length zs) (k + radius + 1);
          st' = slide zs lo stop st; w = fst st';
          med = sorted_median w; mad = median_abs_deviation w med
      in exceeds mad_k (zs ! k) med mad # outlier_loop zs mad_k radius ks st')"

definition kept_indices :: "filtered_sample list \<Rightarrow> nat list" where
  "kept_indices ss = filter (\<lambda>i. fs_flag (ss ! i) = kKept) [0..<length ss]"

definition kept_z :: "filtered_sample list \<Rightarrow> f8 list" where
  "kept_z ss = map (\<lambda>i. fs_z_m (ss ! i)) (kept_indices ss)"

definition flag_outlier :: "nat \<Rightarrow> filtered_sample list \<Rightarrow> filtered_sample list" where
  "flag_outlier i ss = ss[i := (ss ! i)\<lparr>fs_flag := kOutlier\<rparr>]"

definition flag_outliers :: "nat list \<Rightarrow> bool list \<Rightarrow> filtered_sample list \<Rightarrow> filtered_sample list" where
  "flag_outliers is verdicts ss = fold (\<lambda>(i, v). if v then flag_outlier i else id) (zip is verdicts) ss"

definition window_radius :: "32 word \<Rightarrow> nat" where
  "window_radius r = nat (max 1 (sint r))"

definition apply_outlier_rejection :: "filter_result \<Rightarrow> f8 \<Rightarrow> 32 word \<Rightarrow> filter_result" where
  "apply_outlier_rejection input mad_k window_radius_samples =
     (let ss = fr_samples input; is = kept_indices ss; zs = kept_z ss; n = length is
      in if n < 2 then input
         else with_counts
                (input\<lparr>fr_samples :=
                   flag_outliers is
                     (outlier_loop zs mad_k (window_radius window_radius_samples) [0..<n] ([], 0, 0)) ss\<rparr>))"

text \<open>The default of the parameter \<^verbatim>\<open>window_radius_samples\<close>.\<close>

definition default_window_radius :: "32 word" where
  "default_window_radius = 40"

section \<open>The reference\<close>

text \<open>\<^verbatim>\<open>std::nth_element\<close> leaves at a position what sorting would leave there.\<close>

definition reference_median :: "f8 list \<Rightarrow> f8" where
  "reference_median vs = (if vs = [] then 0 else sorted_median (sort_key f8_key vs))"

definition reference_window :: "f8 list \<Rightarrow> nat \<Rightarrow> nat \<Rightarrow> f8 list" where
  "reference_window zs radius k =
     (let lo = (if k > radius then k - radius else 0); hi = min (length zs - 1) (k + radius)
      in map ((!) zs) [lo..<Suc hi])"

definition reference_verdict :: "f8 list \<Rightarrow> f8 \<Rightarrow> nat \<Rightarrow> nat \<Rightarrow> bool" where
  "reference_verdict zs mad_k radius k =
     (let w = reference_window zs radius k; med = reference_median w;
          mad = reference_median (map (\<lambda>z. f8_fabs (f8_sub z med)) w)
      in exceeds mad_k (zs ! k) med mad)"

definition reference_outlier_rejection :: "filter_result \<Rightarrow> f8 \<Rightarrow> 32 word \<Rightarrow> filter_result" where
  "reference_outlier_rejection input mad_k window_radius_samples =
     (let ss = fr_samples input; is = kept_indices ss; zs = kept_z ss; n = length is
      in if n < 2 then input
         else with_counts
                (input\<lparr>fr_samples :=
                   flag_outliers is
                     (map (reference_verdict zs mad_k (window_radius window_radius_samples)) [0..<n]) ss\<rparr>))"

section \<open>The sliding window is the sorted window\<close>

lemma window_erase_insort:
  assumes "\<forall>y \<in> set (z # ws). \<not> f8_nan y"
  shows "window_erase z (insort_key f8_key z ws) = ws"
  using assms
  by (induction ws) (auto simp: window_erase_def lower_bound_def f8_less_def Let_def)

lemma window_insert_Cons:
  "\<not> f8_less z y \<Longrightarrow> window_insert z (y # ys) = y # window_insert z ys"
  "f8_less z y \<Longrightarrow> window_insert z (y # ys) = z # y # ys"
  by (auto simp: window_insert_def upper_bound_def Let_def)

lemma window_insert_insort:
  assumes "\<forall>y \<in> set (y # z # ws). \<not> f8_nan y" "sorted (map f8_key ws)"
  shows "window_insert z (insort_key f8_key y ws) = insort_key f8_key y (window_insert z ws)"
  using assms
proof (induction ws)
  case Nil
  then show ?case
    by (auto simp: window_insert_def upper_bound_def f8_less_def)
next
  case (Cons x xs)
  then show ?case
    by (cases "f8_less z x"; cases "f8_less z y")
      (auto simp: window_insert_Cons f8_less_def)
qed

lemma set_window_insert [simp]: "set (window_insert z ws) = insert z (set ws)"
proof -
  have "set (take i ws) \<union> set (drop i ws) = set ws" for i
    by (metis append_take_drop_id set_append)
  then show ?thesis by (auto simp: window_insert_def Let_def)
qed

lemma window_insert_sort:
  assumes "\<forall>y \<in> set (xs @ [z]). \<not> f8_nan y"
  shows "window_insert z (sort_key f8_key xs) = sort_key f8_key (xs @ [z])"
  using assms
proof (induction xs)
  case Nil
  then show ?case by (simp add: window_insert_def upper_bound_def)
next
  case (Cons x xs)
  then show ?case by (simp add: window_insert_insort)
qed

lemma fold_window_erase:
  assumes "lo \<le> stop" "start \<le> lo" "\<forall>i \<in> {start..<stop}. \<not> f8_nan (zs ! i)"
  shows "fold window_erase (map ((!) zs) [start..<lo]) (sort_key f8_key (map ((!) zs) [start..<stop])) =
    sort_key f8_key (map ((!) zs) [lo..<stop])"
  using assms(2,1,3)
proof (induction "lo - start" arbitrary: start)
  case (Suc d)
  then have "start < lo" by simp
  then have u: "[start..<lo] = start # [Suc start..<lo]" "[start..<stop] = start # [Suc start..<stop]"
    using Suc.prems by (auto simp: upt_conv_Cons)
  have "window_erase (zs ! start) (insort_key f8_key (zs ! start) (sort_key f8_key (map ((!) zs) [Suc start..<stop]))) =
      sort_key f8_key (map ((!) zs) [Suc start..<stop])"
    using Suc.prems \<open>start < lo\<close> by (intro window_erase_insort) auto
  then show ?case using Suc.hyps(1) [of "Suc start"] Suc.hyps(2) Suc.prems \<open>start < lo\<close> by (simp add: u)
qed simp

lemma fold_window_insert:
  assumes "lo \<le> start" "start \<le> stop" "\<forall>i \<in> {lo..<stop}. \<not> f8_nan (zs ! i)"
  shows "fold window_insert (map ((!) zs) [start..<stop]) (sort_key f8_key (map ((!) zs) [lo..<start])) =
    sort_key f8_key (map ((!) zs) [lo..<stop])"
  using assms
proof (induction "stop - start" arbitrary: start)
  case (Suc d)
  then have "start < stop" by simp
  then have u: "[start..<stop] = start # [Suc start..<stop]" by (simp add: upt_conv_Cons)
  have "window_insert (zs ! start) (sort_key f8_key (map ((!) zs) [lo..<start])) =
      sort_key f8_key (map ((!) zs) [lo..<Suc start])"
    using Suc.prems \<open>start < stop\<close> window_insert_sort [of "map ((!) zs) [lo..<start]" "zs ! start"] by auto
  then show ?case using Suc.hyps(1) [of "Suc start"] Suc.hyps(2) Suc.prems \<open>start < stop\<close> by (simp add: u)
qed simp

definition window_state :: "f8 list \<Rightarrow> nat \<Rightarrow> nat \<Rightarrow> f8 list \<times> nat \<times> nat" where
  "window_state zs lo stop = (sort_key f8_key (map ((!) zs) [lo..<stop]), lo, stop)"

lemma slide_window:
  assumes "a \<le> lo" "lo \<le> b" "b \<le> stop" "stop \<le> length zs" "\<forall>z \<in> set zs. \<not> f8_nan z"
  shows "slide zs lo stop (window_state zs a b) = window_state zs lo stop"
proof -
  have ok: "\<not> f8_nan (zs ! i)" if "i < stop" for i using assms(4,5) that by simp
  have "fold window_erase (map ((!) zs) [a..<lo]) (sort_key f8_key (map ((!) zs) [a..<b])) =
      sort_key f8_key (map ((!) zs) [lo..<b])"
    using assms(3) ok by (intro fold_window_erase [OF assms(2,1)]) simp
  moreover have "fold window_insert (map ((!) zs) [b..<stop]) (sort_key f8_key (map ((!) zs) [lo..<b])) =
      sort_key f8_key (map ((!) zs) [lo..<stop])"
    using ok by (intro fold_window_insert [OF assms(2,3)]) simp
  ultimately show ?thesis using assms(1,3) by (simp add: slide_def window_state_def)
qed

section \<open>The merge finds the middle distances\<close>

fun merge :: "int list \<Rightarrow> int list \<Rightarrow> int list" where
  "merge [] ys = ys"
| "merge xs [] = xs"
| "merge (x # xs) (y # ys) = (if x \<le> y then x # merge xs (y # ys) else y # merge (x # xs) ys)"

lemma merge_Nil2 [simp]: "merge xs [] = xs"
  by (cases xs) auto

lemma mset_merge [simp]: "mset (merge xs ys) = mset xs + mset ys"
  by (induction xs ys rule: merge.induct) auto

lemma length_merge [simp]: "length (merge xs ys) = length xs + length ys"
  by (induction xs ys rule: merge.induct) auto

lemma set_merge [simp]: "set (merge xs ys) = set xs \<union> set ys"
  by (induction xs ys rule: merge.induct) auto

lemma sorted_merge: "sorted xs \<Longrightarrow> sorted ys \<Longrightarrow> sorted (merge xs ys)"
  by (induction xs ys rule: merge.induct) auto

text \<open>The distances, as the merge computes them, of a window split at the median.\<close>

definition distance :: "f8 list \<Rightarrow> f8 \<Rightarrow> nat \<Rightarrow> int" where
  "distance w med i =
     f8_key (if i < lower_bound w med then f8_sub med (w ! i) else f8_sub (w ! i) med)"

definition left_side :: "f8 list \<Rightarrow> f8 \<Rightarrow> int list" where
  "left_side w med = map (distance w med) (rev [0..<lower_bound w med])"

definition right_side :: "f8 list \<Rightarrow> f8 \<Rightarrow> int list" where
  "right_side w med = map (distance w med) [lower_bound w med..<length w]"

text \<open>What holds after \<open>t\<close> steps.\<close>

definition merging :: "f8 list \<Rightarrow> f8 \<Rightarrow> nat \<Rightarrow> nat \<times> nat \<times> f8 \<times> f8 \<Rightarrow> bool" where
  "merging w med t = (\<lambda>(left, right, previous, current).
     let split = lower_bound w med; m = merge (left_side w med) (right_side w med)
     in left \<le> split \<and> split \<le> right \<and> right \<le> length w \<and> (split - left) + (right - split) = t \<and>
        merge (drop (split - left) (left_side w med)) (drop (right - split) (right_side w med)) = drop t m \<and>
        (t \<ge> 1 \<longrightarrow> f8_key current = m ! (t - 1)) \<and> (t \<ge> 2 \<longrightarrow> f8_key previous = m ! (t - 2)))"

lemma lower_bound_le: "lower_bound w v \<le> length w"
  by (simp add: lower_bound_def length_takeWhile_le)

lemma left_drop:
  "left \<le> lower_bound w med \<Longrightarrow> drop (lower_bound w med - left) (left_side w med) = map (distance w med) (rev [0..<left])"
  by (simp add: left_side_def drop_map drop_rev)

lemma right_drop:
  "lower_bound w med \<le> right \<Longrightarrow> drop (right - lower_bound w med) (right_side w med) = map (distance w med) [right..<length w]"
  by (simp add: right_side_def drop_map)

lemma mad_step_merging:
  assumes "merging w med t st" "t < length w" "\<forall>z \<in> set w. f8_finite z" "\<not> f8_nan med"
  shows "merging w med (Suc t) (mad_step w med st)"
proof -
  obtain left right previous current where st: "st = (left, right, previous, current)" by (cases st)
  define split where "split = lower_bound w med"
  define m where "m = merge (left_side w med) (right_side w med)"
  have b: "left \<le> split" "split \<le> right" "right \<le> length w" "(split - left) + (right - split) = t"
    and rest': "merge (drop (split - left) (left_side w med)) (drop (right - split) (right_side w med)) = drop t m"
    and cur: "t \<ge> 1 \<longrightarrow> f8_key current = m ! (t - 1)"
    using assms(1) unfolding st merging_def Let_def split_def m_def by simp_all
  have rest: "merge (map (distance w med) (rev [0..<left])) (map (distance w med) [right..<length w]) = drop t m"
    using rest' b(1,2) by (simp only: split_def left_drop right_drop)
  have len: "length m = length w"
    using lower_bound_le [of w med] by (simp add: m_def left_side_def right_side_def)
  have nan: "\<not> f8_nan (f8_sub med (w ! i))" "\<not> f8_nan (f8_sub (w ! i) med)" if "i < length w" for i
    using f8_sub_not_nan assms(3,4) that by auto
  have l: "rev [0..<left] = (left - 1) # rev [0..<left - 1]" if "left > 0"
    using that by (cases left) auto
  have r: "[right..<length w] = right # [Suc right..<length w]" if "right < length w"
    using that by (simp add: upt_conv_Cons)
  have dl: "distance w med (left - 1) = f8_key (f8_sub med (w ! (left - 1)))" if "left > 0"
  proof -
    have "left - 1 < split" using that b(1) by linarith
    then show ?thesis by (simp add: distance_def split_def)
  qed
  have dr: "distance w med right = f8_key (f8_sub (w ! right) med)"
    using b by (simp add: distance_def split_def [symmetric])
  have next_elem: "m ! t = x \<and> drop (Suc t) m = xs" if "drop t m = x # xs" for x xs
    using that by (metis drop_Suc hd_drop_conv_nth list.sel(1,3) length_drop list.discI nth_via_drop tl_drop)
  consider (left) "left > 0" "right \<ge> length w \<or> distance w med (left - 1) \<le> distance w med right"
    | (right) "right < length w" "left = 0 \<or> \<not> distance w med (left - 1) \<le> distance w med right"
    using b assms(2) by (cases "left > 0"; cases "right < length w") auto
  then show ?thesis
  proof cases
    case left
    have le: "f8_le (f8_sub med (w ! (left - 1))) (f8_sub (w ! right) med)" if "right < length w"
      using left that nan [of "left - 1"] nan [of right] b dl [OF left(1)] dr by (simp add: f8_le_def)
    have step: "mad_step w med st = (left - 1, right, current, f8_sub med (w ! (left - 1)))"
      using left(1) le by (auto simp: st Let_def)
    have "drop t m = distance w med (left - 1) #
        merge (map (distance w med) (rev [0..<left - 1])) (map (distance w med) [right..<length w])"
      using left(2) rest r by (cases "right < length w") (auto simp: l [OF left(1)])
    from next_elem [OF this] show ?thesis
      using b left(1) cur left_drop [of "left - 1" w med] right_drop [of w med right] dl [OF left(1)]
      unfolding step merging_def Let_def split_def [symmetric] m_def [symmetric]
      by (auto simp: numeral_2_eq_2)
  next
    case right
    have le: "\<not> f8_le (f8_sub med (w ! (left - 1))) (f8_sub (w ! right) med)" if "left > 0"
      using right that dl [OF that] dr by (simp add: f8_le_def)
    have step: "mad_step w med st = (left, right + 1, current, f8_sub (w ! right) med)"
      using right(1) le by (auto simp: st Let_def)
    have "drop t m = distance w med right #
        merge (map (distance w med) (rev [0..<left])) (map (distance w med) [Suc right..<length w])"
      using right(2) rest l by (cases "left > 0") (auto simp: r [OF right(1)])
    from next_elem [OF this] show ?thesis
      using b right(1) cur left_drop [of left w med] right_drop [of w med "Suc right"] dr
      unfolding step merging_def Let_def split_def [symmetric] m_def [symmetric]
      by (auto simp: numeral_2_eq_2 Suc_diff_le)
  qed
qed

lemma mad_steps_merging:
  assumes "t \<le> length w" "\<forall>z \<in> set w. f8_finite z" "\<not> f8_nan med"
  shows "merging w med t ((mad_step w med ^^ t) (lower_bound w med, lower_bound w med, 0, 0))"
  using assms(1)
proof (induction t)
  case 0
  then show ?case using lower_bound_le [of w med] by (simp add: merging_def)
next
  case (Suc t)
  then show ?case using mad_step_merging [OF _ _ assms(2,3)] by simp
qed

text \<open>In a sorted window the distances grow to both sides of the median.\<close>

lemma lower_bound_split:
  assumes "sorted (map f8_key w)" "\<forall>z \<in> set w. f8_finite z" "\<not> f8_nan med" "i < length w"
  shows "i < lower_bound w med \<longleftrightarrow> f8_less (w ! i) med"
proof
  assume "i < lower_bound w med"
  then show "f8_less (w ! i) med"
    unfolding lower_bound_def by (metis nth_mem set_takeWhileD takeWhile_nth)
next
  assume less: "f8_less (w ! i) med"
  show "i < lower_bound w med"
  proof (rule ccontr)
    assume n: "\<not> i < lower_bound w med"
    then have l: "lower_bound w med < length w" using assms(4) by simp
    then have "\<not> f8_less (w ! lower_bound w med) med"
      unfolding lower_bound_def by (rule nth_length_takeWhile)
    moreover have "f8_key (w ! lower_bound w med) \<le> f8_key (w ! i)"
      using assms(1,4) n by (simp add: sorted_iff_nth_mono)
    ultimately show False
      using less l assms(2-4) by (simp add: f8_less_key)
  qed
qed

lemma sides_sorted:
  assumes "sorted (map f8_key w)" "\<forall>z \<in> set w. f8_finite z" "\<not> f8_nan med"
  shows "sorted (left_side w med)" "sorted (right_side w med)"
proof -
  have key: "f8_key (w ! i) \<le> f8_key (w ! j)" if "i \<le> j" "j < length w" for i j
    using assms(1) that by (simp add: sorted_iff_nth_mono)
  have "distance w med j \<le> distance w med i" if "i \<le> j" "j < lower_bound w med" for i j
    using f8_distance_mono(2) [OF _ _ assms(3) key] assms(2) that lower_bound_le [of w med]
    by (simp add: distance_def)
  then show "sorted (left_side w med)"
    by (simp add: left_side_def sorted_iff_nth_mono rev_nth)
  have "distance w med i \<le> distance w med j" if "lower_bound w med \<le> i" "i \<le> j" "j < length w" for i j
    using f8_distance_mono(1) [OF _ _ assms(3) key] assms(2) that by (simp add: distance_def)
  then show "sorted (right_side w med)"
    by (simp add: right_side_def sorted_iff_nth_mono)
qed

lemma distance_fabs:
  assumes "sorted (map f8_key w)" "\<forall>z \<in> set w. f8_finite z" "\<not> f8_nan med" "i < length w"
  shows "distance w med i = f8_key (f8_fabs (f8_sub (w ! i) med))"
  using assms lower_bound_split [OF assms] f8_distance_abs [of "w ! i" med] by (simp add: distance_def)

lemma merge_is_sorted_distances:
  assumes "sorted (map f8_key w)" "\<forall>z \<in> set w. f8_finite z" "\<not> f8_nan med"
  shows "merge (left_side w med) (right_side w med) = sort (map (\<lambda>z. f8_key (f8_fabs (f8_sub z med))) w)"
proof (rule properties_for_sort [symmetric])
  show "sorted (merge (left_side w med) (right_side w med))"
    using sides_sorted [OF assms] by (rule sorted_merge)
  have "map (\<lambda>z. f8_key (f8_fabs (f8_sub z med))) w = map (distance w med) [0..<length w]"
    using distance_fabs [OF assms] by (intro nth_equalityI) simp_all
  also have "[0..<length w] = [0..<lower_bound w med] @ [lower_bound w med..<length w]"
    using lower_bound_le [of w med] by (metis le_add_diff_inverse upt_add_eq_append zero_le)
  finally show "mset (merge (left_side w med) (right_side w med)) =
      mset (map (\<lambda>z. f8_key (f8_fabs (f8_sub z med))) w)"
    by (simp add: left_side_def right_side_def)
qed

section \<open>Equal up to the sign of zero\<close>

lemma f8_int_zero: "f8_abs a = 0 \<Longrightarrow> f8_int a = 0"
  by (simp add: f8_int_def)

lemma f8_zero_finite: "f8_abs a = 0 \<Longrightarrow> f8_finite a"
  by (simp add: f8_finite_def f8_inf_def)

lemma f8_sub_zero_cong:
  assumes "f8_abs a = 0" "f8_abs b = 0"
  shows "f8_key (f8_sub a x) = f8_key (f8_sub b x)" "f8_key (f8_sub x a) = f8_key (f8_sub x b)"
proof -
  have fin: "f8_finite a" "f8_finite b" "\<not> f8_nan a" "\<not> f8_nan b"
    using assms by (simp_all add: f8_zero_finite f8_not_nan_finite)
  show "f8_key (f8_sub a x) = f8_key (f8_sub b x)" "f8_key (f8_sub x a) = f8_key (f8_sub x b)"
    using fin f8_int_zero [OF assms(1)] f8_int_zero [OF assms(2)]
    by (cases "f8_finite x"; simp add: f8_sub_key; simp add: f8_sub_def)+
qed

lemma f8_abs_neg: "\<not> f8_nan a \<Longrightarrow> f8_abs (f8_neg a) = f8_abs a"
  by (simp add: f8_neg_def f8_make_facts f8_abs_le_inf)

lemma f8_add_key_cong:
  assumes "f8_key a = f8_key b" "f8_key x = f8_key y"
  shows "f8_key (f8_add a x) = f8_key (f8_add b y)"
proof -
  have "f8_key (f8_add a x) = f8_key (f8_add b x)"
    using f8_key_cases [OF assms(1)] f8_sub_zero_cong(1) [of a b] unfolding f8_add_def by blast
  also have "\<dots> = f8_key (f8_add b y)"
  proof (cases "x = y")
    case False
    then have "f8_abs (f8_neg x) = 0" "f8_abs (f8_neg y) = 0"
      using f8_key_cases [OF assms(2)] by (auto simp: f8_abs_neg f8_not_nan_finite f8_zero_finite)
    then show ?thesis unfolding f8_add_def by (rule f8_sub_zero_cong(2))
  qed simp
  finally show ?thesis .
qed

lemma f8_mul_zero:
  assumes "f8_abs b = 0"
  shows "f8_nan (f8_mul a b) \<or> f8_abs (f8_mul a b) = 0"
proof -
  have q: "f8_nan quiet_nan"
    by (simp add: quiet_nan_def f8_nan_def f8_abs_make f8_inf_def)
  have p: "fst (f8_parts b) = 0"
    using assms by (simp add: f8_parts_def)
  have "f8_abs (f8_of_scaled s 0 x) = 0" for s x
    using f8_make_facts(1) [of 0 s] by (simp add: f8_of_scaled_def f8_of_ratio_def)
  then show ?thesis
    using q p assms f8_zero_finite [OF assms] f8_not_nan_finite
    by (auto simp: f8_mul_def Let_def split: prod.splits)
qed

lemma half_times_key_cong:
  assumes "f8_key a = f8_key b"
  shows "f8_key (f8_mul half a) = f8_key (f8_mul half b)"
proof (cases "a = b")
  case False
  have h: "f8_finite half" by (simp add: half_def lit_eval f8_finite_def f8_abs_def)
  have z: "f8_abs a = 0" "f8_abs b = 0" using False f8_key_cases [OF assms] by auto
  have "\<not> f8_nan (f8_mul half w)" if "f8_abs w = 0" for w
  proof -
    have "\<not> f8_nan (f8_of_scaled s m x)" for s m x
      by (simp add: f8_of_scaled_def f8_not_nan_make f8_of_ratio_le)
    then show ?thesis
      using h f8_zero_finite [OF that] by (simp add: f8_mul_def Let_def f8_not_nan_finite split: prod.splits)
  qed
  then have "f8_abs (f8_mul half a) = 0" "f8_abs (f8_mul half b) = 0" using f8_mul_zero z by blast+
  then show ?thesis by (simp add: f8_key_def)
qed simp

lemma exceeds_key_cong:
  assumes "f8_key mad = f8_key mad'"
  shows "exceeds k z med mad = exceeds k z med mad'"
proof (cases "mad = mad'")
  case False
  have "\<not> exceeds k z med m" if "f8_abs m = 0" for m
    using f8_mul_zero [OF that, of k] by (auto simp: exceeds_def Let_def f8_less_def f8_key_def f8_abs_def)
  then show ?thesis using False f8_key_cases [OF assms] by simp
qed simp

section \<open>The filters agree\<close>

lemma map_sort_key: "map f (sort_key f xs) = sort (map f xs)"
  by (rule properties_for_sort [symmetric]) (simp_all add: mset_map [symmetric] del: mset_map, simp add: mset_map)

lemma median_abs_deviation_reference:
  assumes "w \<noteq> []" "\<forall>z \<in> set w. f8_finite z" "\<not> f8_nan med"
  shows "f8_key (median_abs_deviation (sort_key f8_key w) med) =
    f8_key (reference_median (map (\<lambda>z. f8_fabs (f8_sub z med)) w))"
proof -
  let ?s = "sort_key f8_key w"
  define ds where "ds = sort_key f8_key (map (\<lambda>z. f8_fabs (f8_sub z med)) w)"
  define m where "m = merge (left_side ?s med) (right_side ?s med)"
  let ?mid = "length w div 2"
  have s: "sorted (map f8_key ?s)" "\<forall>z \<in> set ?s. f8_finite z" using assms(2) by simp_all
  have "m = sort (map (\<lambda>z. f8_key (f8_fabs (f8_sub z med))) ?s)"
    unfolding m_def by (rule merge_is_sorted_distances [OF s assms(3)])
  also have "\<dots> = sort (map f8_key (map (\<lambda>z. f8_fabs (f8_sub z med)) w))"
    by (rule properties_for_sort [symmetric]) (simp_all add: comp_def)
  finally have m: "m = map f8_key ds" by (simp add: ds_def map_sort_key)
  have len: "length ds = length w" "?mid < length w" using assms(1) by (simp_all add: ds_def)
  obtain l r p c where st: "(mad_step ?s med ^^ (?mid + 1)) (lower_bound ?s med, lower_bound ?s med, 0, 0) = (l, r, p, c)"
    by (rule prod_cases4)
  have mg: "merging ?s med (?mid + 1) (l, r, p, c)"
    using mad_steps_merging [of "?mid + 1" ?s med] s assms(3) len(2) st by simp
  have c: "f8_key c = f8_key (ds ! ?mid)"
    using mg m len by (simp add: merging_def Let_def m_def [symmetric])
  have p: "f8_key p = f8_key (ds ! (?mid - 1))" if "length w mod 2 = 0"
  proof -
    have "?mid \<ge> 1" using that assms(1) by (cases w) auto
    then show ?thesis
      using mg m len by (auto simp: merging_def Let_def m_def [symmetric] numeral_2_eq_2)
  qed
  have "median_abs_deviation ?s med =
      (if length w mod 2 = 0 then f8_mul half (f8_add c p) else c)"
    using st by (simp add: median_abs_deviation_def Let_def)
  moreover have "reference_median (map (\<lambda>z. f8_fabs (f8_sub z med)) w) =
      (if length w mod 2 = 0 then f8_mul half (f8_add (ds ! ?mid) (ds ! (?mid - 1))) else ds ! ?mid)"
    using assms(1) len by (simp add: reference_median_def sorted_median_def Let_def ds_def [symmetric])
  ultimately show ?thesis
    using half_times_key_cong [OF f8_add_key_cong [OF c p]] c by simp
qed

lemma sorted_median_not_nan:
  assumes "w \<noteq> []" "\<forall>z \<in> set w. f8_finite z"
  shows "\<not> f8_nan (sorted_median w)"
proof -
  let ?mid = "length w div 2"
  have i: "f8_finite (w ! ?mid)" "f8_finite (w ! (?mid - 1))"
    using assms by (auto simp: less_imp_diff_less)
  have h: "f8_finite half" "f8_abs half \<noteq> 0" "\<not> f8_nan half"
    by (simp_all add: half_def lit_eval f8_finite_def f8_nan_def f8_abs_def)
  have "\<not> f8_nan (f8_neg (w ! (?mid - 1)))"
    using i(2) by (simp add: f8_abs_le_inf f8_abs_neg f8_not_nan_finite) (simp add: f8_finite_def)
  then have s: "\<not> f8_nan (f8_add (w ! ?mid) (w ! (?mid - 1)))"
    unfolding f8_add_def using f8_sub_not_nan(1) [OF i(1)] by simp
  have "\<not> f8_nan (f8_mul half x)" if "\<not> f8_nan x" for x
    using h that f8_of_ratio_le
    by (auto simp: f8_mul_def Let_def f8_of_scaled_def f8_not_nan_make f8_finite_def f8_inf_def
        split: prod.splits)
  then show ?thesis using s i by (simp add: sorted_median_def Let_def f8_not_nan_finite)
qed

text \<open>The bounds of the window around the \<open>k\<close>-th kept sample.\<close>

definition window_from :: "nat \<Rightarrow> nat \<Rightarrow> nat" where
  "window_from radius k = (if k > radius then k - radius else 0)"

definition window_to :: "nat \<Rightarrow> nat \<Rightarrow> nat \<Rightarrow> nat" where
  "window_to n radius k = min n (k + radius + 1)"

lemma verdict_of_window:
  assumes "k < length zs" "\<forall>z \<in> set zs. f8_finite z"
    and w: "w = sort_key f8_key (map ((!) zs) [window_from radius k..<window_to (length zs) radius k])"
  shows "exceeds mad_k (zs ! k) (sorted_median w) (median_abs_deviation w (sorted_median w)) =
    reference_verdict zs mad_k radius k"
proof -
  let ?v = "map ((!) zs) [window_from radius k..<window_to (length zs) radius k]"
  have "Suc (min (length zs - 1) (k + radius)) = window_to (length zs) radius k"
    using assms(1) by (auto simp: window_to_def min_def)
  then have win: "reference_window zs radius k = ?v"
    by (simp only: reference_window_def window_from_def Let_def)
  have ne: "?v \<noteq> []" using assms(1) by (auto simp: window_from_def window_to_def min_def)
  have fin: "\<forall>z \<in> set ?v. f8_finite z" using assms(2) by (auto simp: window_to_def)
  have med: "sorted_median w = reference_median ?v" using ne by (simp add: reference_median_def w)
  have "\<not> f8_nan (sorted_median w)"
    by (rule sorted_median_not_nan) (use ne fin in \<open>simp_all add: w flip: length_greater_0_conv\<close>)
  then have "f8_key (median_abs_deviation w (sorted_median w)) =
      f8_key (reference_median (map (\<lambda>z. f8_fabs (f8_sub z (sorted_median w))) ?v))"
    unfolding w by (rule median_abs_deviation_reference [OF ne fin])
  then show ?thesis
    unfolding reference_verdict_def Let_def win med [symmetric] by (rule exceeds_key_cong)
qed

lemma outlier_loop_reference:
  assumes "\<forall>z \<in> set zs. f8_finite z" "radius \<ge> 1" "k \<le> length zs"
    "a \<le> window_from radius k" "window_from radius k \<le> b" "b \<le> window_to (length zs) radius k"
  shows "outlier_loop zs mad_k radius [k..<length zs] (window_state zs a b) =
    map (reference_verdict zs mad_k radius) [k..<length zs]"
  using assms(3-6)
proof (induction "length zs - k" arbitrary: k a b)
  case (Suc d)
  then have k: "k < length zs" by simp
  let ?lo = "window_from radius k" and ?hi = "window_to (length zs) radius k"
  have sl: "slide zs ?lo ?hi (window_state zs a b) = window_state zs ?lo ?hi"
    using Suc.prems assms(1) f8_not_nan_finite by (intro slide_window) (auto simp: window_to_def)
  have "outlier_loop zs mad_k radius [Suc k..<length zs] (window_state zs ?lo ?hi) =
      map (reference_verdict zs mad_k radius) [Suc k..<length zs]"
    using Suc.hyps k assms(2) by (intro Suc.hyps(1)) (auto simp: window_from_def window_to_def)
  moreover have "exceeds mad_k (zs ! k) (sorted_median (fst (window_state zs ?lo ?hi)))
      (median_abs_deviation (fst (window_state zs ?lo ?hi)) (sorted_median (fst (window_state zs ?lo ?hi)))) =
      reference_verdict zs mad_k radius k"
    by (rule verdict_of_window [OF k assms(1)]) (simp add: window_state_def)
  ultimately show ?case
    unfolding upt_conv_Cons [OF k] outlier_loop.simps Let_def window_from_def [symmetric]
      window_to_def [symmetric] sl list.map by simp
qed simp

text \<open>
  C30. The optimised outlier filter is the straightforward one: sliding a sorted window and merging the
  two sides of the median flags exactly the samples that sorting every window and every list of
  deviations flags, with the same counts, for every line whose kept heights are finite.
\<close>

theorem outlier_rejection_equivalent:
  assumes "\<forall>s \<in> set (fr_samples input). fs_flag s = kKept \<longrightarrow> f8_finite (fs_z_m s)"
  shows "apply_outlier_rejection input mad_k radius = reference_outlier_rejection input mad_k radius"
proof -
  let ?zs = "kept_z (fr_samples input)"
  have "\<forall>z \<in> set ?zs. f8_finite z"
    using assms by (auto simp: kept_z_def kept_indices_def)
  moreover have "length ?zs = length (kept_indices (fr_samples input))" by (simp add: kept_z_def)
  moreover have "window_radius radius \<ge> 1" by (simp add: window_radius_def)
  ultimately have "outlier_loop ?zs mad_k (window_radius radius) [0..<length (kept_indices (fr_samples input))] ([], 0, 0) =
      map (reference_verdict ?zs mad_k (window_radius radius)) [0..<length (kept_indices (fr_samples input))]"
    using outlier_loop_reference [of ?zs "window_radius radius" 0 0 0 mad_k]
    by (simp add: window_state_def window_from_def)
  then show ?thesis
    by (simp add: apply_outlier_rejection_def reference_outlier_rejection_def Let_def)
qed

text \<open>A line with the heights 1, 2, 3, 4 and 100, of which the last is an outlier.\<close>

definition height :: "f8 \<Rightarrow> filtered_sample" where
  "height z = \<lparr>fs_s_m = 0, fs_z_m = z, fs_flag = kKept\<rparr>"

definition spike_line :: filter_result where
  "spike_line =
     \<lparr>fr_angle_rad = 0,
      fr_samples = map height [f8_lit 1 1, f8_lit 2 1, f8_lit 3 1, f8_lit 4 1, f8_lit 100 1],
      fr_removed_count = 0, fr_removed_fraction = 0\<rparr>"

lemma spike_heights:
  "f8_lit 1 1 = 0x3FF0000000000000" "f8_lit 2 1 = 0x4000000000000000" "f8_lit 3 1 = 0x4008000000000000"
  "f8_lit 4 1 = 0x4010000000000000" "f8_lit 100 1 = 0x4059000000000000" "f8_lit 6 1 = 0x4018000000000000"
  "f8_lit 97 1 = 0x4058400000000000"
  by (simp_all add: lit_eval)

lemma spike_keys:
  "f8_key 0x3FF0000000000000 = 0x3FF0000000000000" "f8_key 0x4000000000000000 = 0x4000000000000000"
  "f8_key 0x4008000000000000 = 0x4008000000000000" "f8_key 0x4010000000000000 = 0x4010000000000000"
  "f8_key 0x4059000000000000 = 0x4059000000000000" "f8_key 0x4018000000000000 = 0x4018000000000000"
  "f8_key 0x4058400000000000 = 0x4058400000000000" "f8_key 0 = 0"
  by (simp_all add: f8_key_def f8_sign_def f8_abs_def)

lemma spike_distances:
  "f8_fabs (f8_sub 0x3FF0000000000000 0x4008000000000000) = 0x4000000000000000"
  "f8_fabs (f8_sub 0x4000000000000000 0x4008000000000000) = 0x3FF0000000000000"
  "f8_fabs (f8_sub 0x4008000000000000 0x4008000000000000) = 0"
  "f8_fabs (f8_sub 0x4010000000000000 0x4008000000000000) = 0x3FF0000000000000"
  "f8_fabs (f8_sub 0x4059000000000000 0x4008000000000000) = 0x4058400000000000"
  "f8_mul 0x4018000000000000 0x3FF0000000000000 = 0x4018000000000000"
  by (simp_all add: f8_fabs_def f8_sub_def f8_mul_def f8_nan_def f8_finite_def f8_parts_def f8_sign_def f8_abs_def
      f8_of_scaled_def lit_eval Let_def)

lemma spike_verdicts:
  "map (reference_verdict (map fs_z_m (fr_samples spike_line)) (f8_lit 6 1) 40) [0..<5] =
     [False, False, False, False, True]"
  unfolding spike_line_def spike_heights
  by (simp add: height_def reference_verdict_def reference_window_def reference_median_def sorted_median_def
      upt_rec spike_keys spike_distances exceeds_def f8_less_def f8_nan_def f8_abs_def f8_inf_def Let_def comp_def)

theorem outlier_rejection_equivalent_witness:
  "map fs_flag (fr_samples (apply_outlier_rejection spike_line (f8_lit 6 1) 40)) =
     [kKept, kKept, kKept, kKept, kOutlier]"
proof -
  have "f8_finite z" if "z \<in> {f8_lit 1 1, f8_lit 2 1, f8_lit 3 1, f8_lit 4 1, f8_lit 100 1}" for z
    using that unfolding spike_heights by (auto simp: f8_finite_def f8_abs_def f8_inf_def)
  then have "apply_outlier_rejection spike_line (f8_lit 6 1) 40 =
      reference_outlier_rejection spike_line (f8_lit 6 1) 40"
    by (intro outlier_rejection_equivalent) (auto simp: spike_line_def height_def)
  moreover have k: "kept_indices (fr_samples spike_line) = [0, 1, 2, 3, 4]"
    "kept_z (fr_samples spike_line) = map fs_z_m (fr_samples spike_line)"
    by (simp_all add: kept_z_def kept_indices_def spike_line_def height_def upt_rec)
  have n: "length [0, 1, 2, 3, 4 :: nat] = 5" "\<not> (5 :: nat) < 2" "window_radius 40 = 40"
    by (simp_all add: window_radius_def)
  have "reference_outlier_rejection spike_line (f8_lit 6 1) 40 =
      with_counts (spike_line\<lparr>fr_samples :=
        flag_outliers [0, 1, 2, 3, 4] [False, False, False, False, True] (fr_samples spike_line)\<rparr>)"
    unfolding reference_outlier_rejection_def Let_def k n spike_verdicts using n(2) by simp
  ultimately show ?thesis
    by (simp add: with_counts_def Let_def flag_outliers_def flag_outlier_def)
      (simp add: spike_line_def height_def)
qed

section \<open>Both filters keep the line and only remove\<close>

lemma count_removed_with_counts [simp]:
  "fr_samples (with_counts r) = fr_samples r" "fr_angle_rad (with_counts r) = fr_angle_rad r"
  "fr_removed_count (with_counts r) = count_removed (fr_samples r)"
  by (simp_all add: with_counts_def Let_def)

text \<open>How one sample may change: it stays, or a kept one becomes an outlier.\<close>

definition only_flagged :: "filtered_sample \<Rightarrow> filtered_sample \<Rightarrow> bool" where
  "only_flagged a b \<longleftrightarrow> b = a \<or> fs_flag a = kKept \<and> b = a\<lparr>fs_flag := kOutlier\<rparr>"

lemma flag_outliers_only_flags:
  assumes "set is \<subseteq> {i. i < length ss \<and> fs_flag (ss ! i) = kKept}" "list_all2 only_flagged ss rs"
  shows "list_all2 only_flagged ss (flag_outliers is vs rs)"
  using assms
proof (induction "is" arbitrary: vs rs)
  case Nil
  then show ?case by (simp add: flag_outliers_def)
next
  case (Cons i js)
  show ?case
  proof (cases vs)
    case (Cons v ws)
    let ?r = "if v then flag_outlier i rs else rs"
    have i: "i < length ss" "fs_flag (ss ! i) = kKept" using Cons.prems(1) by auto
    have "only_flagged (ss ! i) (rs ! i)"
      using Cons.prems(2) i by (simp add: list_all2_conv_all_nth)
    then have "only_flagged (ss ! i) ((rs ! i)\<lparr>fs_flag := kOutlier\<rparr>)"
      using i(2) by (auto simp: only_flagged_def)
    then have "list_all2 only_flagged ss ?r"
      using Cons.prems(2) i(1) by (auto simp: flag_outlier_def list_all2_conv_all_nth nth_list_update)
    then have "list_all2 only_flagged ss (flag_outliers js ws ?r)"
      using Cons.prems(1) by (intro Cons.IH) auto
    then show ?thesis by (cases v) (simp_all add: flag_outliers_def Cons)
  qed (use Cons.prems in \<open>simp add: flag_outliers_def\<close>)
qed

lemma outlier_rejection_only_flags:
  "list_all2 only_flagged (fr_samples input) (fr_samples (apply_outlier_rejection input k r))"
proof -
  have "list_all2 only_flagged ss ss" for ss by (simp add: list_all2_same only_flagged_def)
  then show ?thesis
    using flag_outliers_only_flags [of "kept_indices (fr_samples input)" "fr_samples input" "fr_samples input"]
    by (auto simp: apply_outlier_rejection_def Let_def kept_indices_def)
qed

end
