(* ===== verification/Analysis_Fit.thy ===== *)
theory Analysis_Fit
  imports Analysis_Filter Config
begin

text \<open>
  The measurement itself, \<^verbatim>\<open>src/analysis/\<close>: the quadratic fit of one line, the combination of the lines,
  stress and its uncertainty, the quality gates, the wafer map and the pipeline that composes them.
  Every operation on doubles is rounded on its own, in the order the C++ expression has it (no
  contraction to fused operations). \<^verbatim>\<open>hypot\<close> and \<^verbatim>\<open>atan2\<close> are not correctly rounded by any standard,
  so they are parameters of the map.
\<close>

section \<open>Line fit\<close>

record line_fit_result =
  lf_angle_rad :: f8
  lf_a :: f8
  lf_b :: f8
  lf_c :: f8
  lf_curvature_per_m :: f8
  lf_se_curvature_per_m :: f8
  lf_residual_rms_m :: f8
  lf_n_used :: nat
  lf_valid :: bool

definition no_fit :: line_fit_result where
  "no_fit =
     \<lparr>lf_angle_rad = 0, lf_a = 0, lf_b = 0, lf_c = 0, lf_curvature_per_m = 0, lf_se_curvature_per_m = 0,
      lf_residual_rms_m = 0, lf_n_used = 0, lf_valid = False\<rparr>"

type_synonym matrix3 = "nat \<Rightarrow> nat \<Rightarrow> f8"

definition det3 :: "matrix3 \<Rightarrow> f8" where
  "det3 m =
     f8_add
       (f8_sub (f8_mul (m 0 0) (f8_sub (f8_mul (m 1 1) (m 2 2)) (f8_mul (m 1 2) (m 2 1))))
               (f8_mul (m 0 1) (f8_sub (f8_mul (m 1 0) (m 2 2)) (f8_mul (m 1 2) (m 2 0)))))
       (f8_mul (m 0 2) (f8_sub (f8_mul (m 1 0) (m 2 1)) (f8_mul (m 1 1) (m 2 0))))"

definition cramer_solve :: "matrix3 \<Rightarrow> (nat \<Rightarrow> f8) \<Rightarrow> nat \<Rightarrow> f8 \<Rightarrow> f8" where
  "cramer_solve m rhs col det_m = f8_div (det3 (\<lambda>r c. if c = col then rhs r else m r c)) det_m"

text \<open>The power sums of the first loop.\<close>

record fit_sums =
  sum_s0 :: f8
  sum_s1 :: f8
  sum_s2 :: f8
  sum_s3 :: f8
  sum_s4 :: f8
  sum_t0 :: f8
  sum_t1 :: f8
  sum_t2 :: f8
  sum_n :: nat

definition no_sums :: fit_sums where
  "no_sums = \<lparr>sum_s0 = 0, sum_s1 = 0, sum_s2 = 0, sum_s3 = 0, sum_s4 = 0, sum_t0 = 0, sum_t1 = 0,
     sum_t2 = 0, sum_n = 0\<rparr>"

definition add_sample :: "filtered_sample \<Rightarrow> fit_sums \<Rightarrow> fit_sums" where
  "add_sample sample f =
     (if fs_flag sample \<noteq> kKept then f
      else let s = fs_s_m sample; z = fs_z_m sample; s_sq = f8_mul s s
           in \<lparr>sum_s0 = f8_add (sum_s0 f) (f8_lit 1 1), sum_s1 = f8_add (sum_s1 f) s,
               sum_s2 = f8_add (sum_s2 f) s_sq, sum_s3 = f8_add (sum_s3 f) (f8_mul s_sq s),
               sum_s4 = f8_add (sum_s4 f) (f8_mul s_sq s_sq), sum_t0 = f8_add (sum_t0 f) z,
               sum_t1 = f8_add (sum_t1 f) (f8_mul s z), sum_t2 = f8_add (sum_t2 f) (f8_mul s_sq z),
               sum_n = sum_n f + 1\<rparr>)"

definition normal_matrix :: "fit_sums \<Rightarrow> matrix3" where
  "normal_matrix f r c =
     [[sum_s4 f, sum_s3 f, sum_s2 f], [sum_s3 f, sum_s2 f, sum_s1 f], [sum_s2 f, sum_s1 f, sum_s0 f]] ! r ! c"

definition normal_rhs :: "fit_sums \<Rightarrow> nat \<Rightarrow> f8" where
  "normal_rhs f r = [sum_t2 f, sum_t1 f, sum_t0 f] ! r"

definition add_residual :: "f8 \<Rightarrow> f8 \<Rightarrow> f8 \<Rightarrow> filtered_sample \<Rightarrow> f8 \<Rightarrow> f8" where
  "add_residual a b c sample rss =
     (if fs_flag sample \<noteq> kKept then rss
      else let s = fs_s_m sample;
               predicted = f8_add (f8_add (f8_mul (f8_mul a s) s) (f8_mul b s)) c;
               residual = f8_sub (fs_z_m sample) predicted
           in f8_add rss (f8_mul residual residual))"

definition f8_of_nat :: "nat \<Rightarrow> f8" where
  "f8_of_nat n = f8_of_int (int n)"

definition fit_line :: "filter_result \<Rightarrow> line_fit_result" where
  "fit_line filtered =
     (let ss = fr_samples filtered; f = fold add_sample ss no_sums; n = sum_n f;
          r = no_fit\<lparr>lf_angle_rad := fr_angle_rad filtered, lf_n_used := n\<rparr>
      in if n < 3 then r
         else let m = normal_matrix f; rhs = normal_rhs f; det_m = det3 m
              in if f8_eq det_m 0 then r
                 else let a = cramer_solve m rhs 0 det_m; b = cramer_solve m rhs 1 det_m;
                          c = cramer_solve m rhs 2 det_m; rss = fold (add_residual a b c) ss 0;
                          sigma_sq = f8_div rss (f8_of_nat (n - 3));
                          cofactor00 = f8_sub (f8_mul (sum_s2 f) (sum_s0 f)) (f8_mul (sum_s1 f) (sum_s1 f));
                          var_a = f8_div (f8_mul sigma_sq cofactor00) det_m
                      in r\<lparr>lf_a := a, lf_b := b, lf_c := c, lf_curvature_per_m := f8_mul (f8_lit 2 1) a,
                           lf_residual_rms_m := f8_sqrt (f8_div rss (f8_of_nat n)),
                           lf_se_curvature_per_m :=
                             (if n > 3 then f8_mul (f8_lit 2 1) (f8_sqrt (if f8_less 0 var_a then var_a else 0))
                              else 0),
                           lf_valid := True\<rparr>)"

section \<open>Combination, stress and uncertainty\<close>

record combined_result =
  cr_mean_curvature_per_m :: f8
  cr_anisotropy :: f8
  cr_n_lines :: nat

text \<open>The loop of \<^verbatim>\<open>combine_lines\<close>: sum, least, largest, whether it is the first, and the count.\<close>

fun combine_step :: "line_fit_result \<Rightarrow> f8 \<times> f8 \<times> f8 \<times> bool \<times> nat \<Rightarrow> f8 \<times> f8 \<times> f8 \<times> bool \<times> nat" where
  "combine_step fit (sm, lo, hi, first, n) =
     (if \<not> lf_valid fit then (sm, lo, hi, first, n)
      else let k = lf_curvature_per_m fit
           in (f8_add sm k, if first then k else if f8_less k lo then k else lo,
               if first then k else if f8_less hi k then k else hi, False, n + 1))"

definition combine_lines :: "line_fit_result list \<Rightarrow> combined_result" where
  "combine_lines fits =
     (case fold combine_step fits (0, 0, 0, True, 0) of
        (sm, lo, hi, first, n) \<Rightarrow>
          let r = \<lparr>cr_mean_curvature_per_m = 0, cr_anisotropy = 0, cr_n_lines = n\<rparr>
          in if n = 0 then r
             else let mean = f8_div sm (f8_of_nat n); r = r\<lparr>cr_mean_curvature_per_m := mean\<rparr>
                  in if \<not> f8_eq mean 0 then r\<lparr>cr_anisotropy := f8_div (f8_sub hi lo) mean\<rparr> else r)"

definition stoney_stress_pa :: "f8 \<Rightarrow> f8 \<Rightarrow> f8 \<Rightarrow> f8 \<Rightarrow> f8 \<Rightarrow> f8" where
  "stoney_stress_pa k_mean k0 modulus t_s t_f =
     f8_div (f8_mul (f8_mul (f8_mul modulus t_s) t_s) (f8_sub k_mean k0)) (f8_mul (f8_lit 6 1) t_f)"

definition stress_uncertainty_pa :: "line_fit_result list \<Rightarrow> f8 \<Rightarrow> f8 \<Rightarrow> f8 \<Rightarrow> f8" where
  "stress_uncertainty_pa fits modulus t_s t_f =
     (let ses = map lf_se_curvature_per_m (filter lf_valid fits); n = length ses;
          sum_sq = fold (\<lambda>se acc. f8_add acc (f8_mul se se)) ses 0
      in if n = 0 then 0
         else let se_k_mean = f8_div (f8_sqrt sum_sq) (f8_of_nat n)
              in f8_div (f8_mul (f8_mul (f8_mul modulus t_s) t_s) se_k_mean) (f8_mul (f8_lit 6 1) t_f))"

section \<open>Quality gates\<close>

datatype quality_issue = kNone | kPoorFit | kImplausible

record quality_gate_result =
  qg_issue :: quality_issue
  qg_out_of_spec :: bool

definition evaluate_quality :: "f8 \<Rightarrow> f8 \<Rightarrow> f8 \<Rightarrow> f8 \<Rightarrow> f8 \<Rightarrow> f8 \<Rightarrow> f8 \<Rightarrow> quality_gate_result" where
  "evaluate_quality max_fit_rms fit_rms_limit stress plausible_low plausible_high spec_low spec_high =
     (if f8_less fit_rms_limit max_fit_rms then \<lparr>qg_issue = kPoorFit, qg_out_of_spec = False\<rparr>
      else if \<not> f8_finite stress \<or> f8_less stress plausible_low \<or> f8_less plausible_high stress
      then \<lparr>qg_issue = kImplausible, qg_out_of_spec = False\<rparr>
      else \<lparr>qg_issue = kNone, qg_out_of_spec = (f8_less stress spec_low \<or> f8_less spec_high stress)\<rparr>)"

section \<open>Wafer map\<close>

record libm =
  hypot :: "f8 \<Rightarrow> f8 \<Rightarrow> f8"
  atan2 :: "f8 \<Rightarrow> f8 \<Rightarrow> f8"

record wafer_map =
  wm_width :: int
  wm_height :: int
  wm_grid_mm :: f8
  wm_diameter_m :: f8
  wm_heights_m :: "f8 list"

definition no_map :: wafer_map where
  "no_map = \<lparr>wm_width = 0, wm_height = 0, wm_grid_mm = 0, wm_diameter_m = 0, wm_heights_m = []\<rparr>"

record directed_ray =
  dr_angle_rad :: f8
  dr_a :: f8
  dr_b :: f8
  dr_c :: f8

definition kPi :: f8 where
  "kPi = f8_lit 314159265358979323846 (10 ^ 20)"

definition two_pi :: f8 where
  "two_pi = f8_mul (f8_lit 2 1) kPi"

text \<open>The two loops; \<open>None\<close> is the run that never ends (adding a turn may leave a large angle as it is).\<close>

partial_function (option) add_turns :: "f8 \<Rightarrow> f8 option" where
  "add_turns theta = (if f8_less theta 0 then add_turns (f8_add theta two_pi) else Some theta)"

partial_function (option) drop_turns :: "f8 \<Rightarrow> f8 option" where
  "drop_turns theta = (if f8_le two_pi theta then drop_turns (f8_sub theta two_pi) else Some theta)"

definition normalize_angle :: "f8 \<Rightarrow> f8 option" where
  "normalize_angle theta = Option.bind (add_turns theta) drop_turns"

definition eval_ray :: "directed_ray \<Rightarrow> f8 \<Rightarrow> f8" where
  "eval_ray ray r =
     f8_add (f8_add (f8_mul (f8_mul (dr_a ray) r) r) (f8_mul (dr_b ray) r)) (dr_c ray)"

text \<open>\<^verbatim>\<open>static_cast<int>(std::ceil(w))\<close>; \<open>None\<close> where the conversion is undefined.\<close>

definition ceil_int :: "f8 \<Rightarrow> int option" where
  "ceil_int w =
     (if \<not> f8_finite w then None
      else case f8_ratio w of
             (num, den) \<Rightarrow>
               let i = (if f8_sign w then - int (num div den) else int ((num + den - 1) div den))
               in if - (2 ^ 31) \<le> i \<and> i < 2 ^ 31 then Some i else None)"

definition rays_of :: "line_fit_result \<Rightarrow> directed_ray list option" where
  "rays_of fit =
     (case (normalize_angle (lf_angle_rad fit), normalize_angle (f8_add (lf_angle_rad fit) kPi)) of
        (Some t, Some u) \<Rightarrow>
          Some [\<lparr>dr_angle_rad = t, dr_a = lf_a fit, dr_b = lf_b fit, dr_c = lf_c fit\<rparr>,
                \<lparr>dr_angle_rad = u, dr_a = lf_a fit, dr_b = f8_neg (lf_b fit), dr_c = lf_c fit\<rparr>]
      | _ \<Rightarrow> None)"

text \<open>The height at a point inside the wafer, between the two rays that enclose its angle.\<close>

definition map_height :: "directed_ray list \<Rightarrow> f8 \<Rightarrow> f8 \<Rightarrow> f8" where
  "map_height rays theta r_m =
     (let hi_idx = length (takeWhile (\<lambda>ray. f8_less (dr_angle_rad ray) theta) rays);
          lo_idx = (if hi_idx = 0 then length rays - 1 else hi_idx - 1);
          lo = rays ! lo_idx; hi = rays ! (hi_idx mod length rays);
          span0 = f8_sub (dr_angle_rad hi) (dr_angle_rad lo);
          offset0 = f8_sub theta (dr_angle_rad lo);
          span = (if hi_idx = length rays then f8_add span0 two_pi else span0);
          offset = (if f8_less offset0 0 then f8_add offset0 two_pi else offset0);
          frac = (if f8_less 0 span then f8_div offset span else 0);
          z_lo = eval_ray lo r_m; z_hi = eval_ray hi r_m
      in f8_add z_lo (f8_mul frac (f8_sub z_hi z_lo)))"

definition map_cell :: "libm \<Rightarrow> directed_ray list \<Rightarrow> f8 \<Rightarrow> f8 \<Rightarrow> f8 \<Rightarrow> f8 option" where
  "map_cell lm rays radius_mm y_mm x_mm =
     (let r_mm = hypot lm x_mm y_mm
      in if f8_less radius_mm r_mm then Some quiet_nan
         else map_option (\<lambda>theta. map_height rays theta (f8_div r_mm (f8_lit 1000 1)))
                (normalize_angle (atan2 lm y_mm x_mm)))"

text \<open>
  \<^verbatim>\<open>build_wafer_map\<close>. \<^verbatim>\<open>std::sort\<close> leaves rays of equal angle in any order; \<open>sort_key\<close> is one of them.
\<close>

definition build_wafer_map :: "libm \<Rightarrow> line_fit_result list \<Rightarrow> f8 \<Rightarrow> f8 \<Rightarrow> wafer_map option" where
  "build_wafer_map lm fits diameter_m grid_mm =
     (let radius_mm = f8_div (f8_mul diameter_m (f8_lit 1000 1)) (f8_lit 2 1)
      in case (ceil_int (f8_div radius_mm grid_mm), those (map rays_of (filter lf_valid fits))) of
           (Some half_n, Some pairs) \<Rightarrow>
             let width = 2 * half_n + 1; rays = sort_key (\<lambda>ray. f8_key (dr_angle_rad ray)) (concat pairs);
                 axis = map (\<lambda>i. f8_mul (f8_of_int (int i - half_n)) grid_mm) [0..<nat width];
                 m = \<lparr>wm_width = width, wm_height = width, wm_grid_mm = grid_mm, wm_diameter_m = diameter_m,
                      wm_heights_m = replicate (nat width * nat width) quiet_nan\<rparr>
             in if width \<ge> 2 ^ 31 then None
                else if rays = [] then Some m
                else map_option (\<lambda>hs. m\<lparr>wm_heights_m := hs\<rparr>)
                       (those (concat (map (\<lambda>y_mm. map (map_cell lm rays radius_mm y_mm) axis) axis)))
         | _ \<Rightarrow> None)"

section \<open>Pipeline\<close>

record sample_block =
  sb_line_index :: nat
  sb_angle_rad :: f8
  sb_positions_m :: "f8 list"
  sb_heights_m :: "f8 list"
  sb_timestamps :: "int list"

record pipeline_result =
  pr_filtered_lines :: "filter_result list"
  pr_line_fits :: "line_fit_result list"
  pr_combined :: combined_result
  pr_stress_pa :: f8
  pr_stress_unc_pa :: f8
  pr_max_fit_rms_m :: f8
  pr_removed_fraction_overall :: f8
  pr_outlier_removed_fraction :: f8
  pr_any_dropout :: bool
  pr_quality :: quality_gate_result
  pr_map :: wafer_map

definition filter_line :: "config \<Rightarrow> sample_block \<Rightarrow> filter_result" where
  "filter_line cfg block =
     apply_outlier_rejection
       (apply_edge_exclusion
          \<lparr>ls_angle_rad = sb_angle_rad block, ls_s_m = sb_positions_m block, ls_z_m = sb_heights_m block\<rparr>
          (sn_edge_exclusion_mm (cf_scan cfg)))
       (an_outlier_mad_k (cf_analysis cfg)) default_window_radius"

definition count_flag :: "sample_flag \<Rightarrow> filter_result list \<Rightarrow> nat" where
  "count_flag fl lines = (\<Sum>line\<leftarrow>lines. length (filter (\<lambda>s. fs_flag s = fl) (fr_samples line)))"

definition fraction :: "nat \<Rightarrow> nat \<Rightarrow> f8" where
  "fraction n d = (if d > 0 then f8_div (f8_of_nat n) (f8_of_nat d) else 0)"

definition max_rms :: "line_fit_result list \<Rightarrow> f8" where
  "max_rms fits =
     fold (\<lambda>fit acc. if lf_valid fit \<and> f8_less acc (lf_residual_rms_m fit) then lf_residual_rms_m fit else acc) fits 0"

definition kUmToM :: f8 where "kUmToM = f8_lit 1 1000000"
definition kMpaToPa :: f8 where "kMpaToPa = f8_lit 1000000 1"
definition kGpaToPa :: f8 where "kGpaToPa = f8_lit 1000000000 1"

text \<open>The numbers of \<^verbatim>\<open>run_pipeline\<close>, up to the map.\<close>

definition pipeline_numbers :: "config \<Rightarrow> filter_result list \<Rightarrow> line_fit_result list \<Rightarrow> pipeline_result" where
  "pipeline_numbers cfg lines fits =
     (let samples = (\<Sum>line\<leftarrow>lines. length (fr_samples line)); w = cf_wafer cfg; an = cf_analysis cfg;
          m_s = f8_mul (wc_biaxial_modulus_gpa w) kGpaToPa; t_s = f8_mul (wc_thickness_um w) kUmToM;
          t_f = f8_mul (wc_film_thickness_um w) kUmToM; combined = combine_lines fits;
          stress = stoney_stress_pa (cr_mean_curvature_per_m combined)
                     (wt_initial_curvature_1_per_m (wc_truth w)) m_s t_s t_f
      in \<lparr>pr_filtered_lines = lines, pr_line_fits = fits, pr_combined = combined, pr_stress_pa = stress,
          pr_stress_unc_pa = stress_uncertainty_pa fits m_s t_s t_f, pr_max_fit_rms_m = max_rms fits,
          pr_removed_fraction_overall = fraction (\<Sum>line\<leftarrow>lines. fr_removed_count line) samples,
          pr_outlier_removed_fraction = fraction (count_flag kOutlier lines) samples,
          pr_any_dropout = (count_flag kDropped lines > 0),
          pr_quality =
            evaluate_quality (max_rms fits) (f8_mul (an_fit_rms_limit_um an) kUmToM) stress
              (f8_mul (an_stress_plausible_low_mpa an) kMpaToPa) (f8_mul (an_stress_plausible_high_mpa an) kMpaToPa)
              (f8_mul (an_stress_spec_low_mpa an) kMpaToPa) (f8_mul (an_stress_spec_high_mpa an) kMpaToPa),
          pr_map = no_map\<rparr>)"

definition run_pipeline :: "libm \<Rightarrow> sample_block list \<Rightarrow> config \<Rightarrow> pipeline_result option" where
  "run_pipeline lm blocks cfg =
     (let lines = map (filter_line cfg) blocks; fits = map fit_line lines; r = pipeline_numbers cfg lines fits
      in if qg_issue (pr_quality r) = kNone
         then map_option (\<lambda>m. r\<lparr>pr_map := m\<rparr>)
                (build_wafer_map lm fits (f8_mul (wc_diameter_mm (cf_wafer cfg)) (f8_lit 1 1000))
                   (an_map_grid_mm (cf_analysis cfg)))
         else Some r)"

section \<open>What the filters leave of a line\<close>

lemma edge_samples:
  assumes "length ss = length zs"
  shows "map fs_s_m (map2 (edge_sample lo hi) ss zs) = ss" "map fs_z_m (map2 (edge_sample lo hi) ss zs) = zs"
    "map (\<lambda>s. fs_flag s = kDropped) (map2 (edge_sample lo hi) ss zs) = map f8_nan zs"
  using assms by (induction ss zs rule: list_induct2) (auto simp: edge_sample_def)

lemma edge_exclusion_samples:
  assumes "length (ls_s_m line) = length (ls_z_m line)" and r: "r = apply_edge_exclusion line mm"
  shows "map fs_s_m (fr_samples r) = ls_s_m line" "map fs_z_m (fr_samples r) = ls_z_m line"
    "map (\<lambda>s. fs_flag s = kDropped) (fr_samples r) = map f8_nan (ls_z_m line)"
    "fr_removed_count r = count_removed (fr_samples r)"
  using assms(1) edge_samples [OF assms(1)] unfolding r
  by (cases "ls_s_m line"; simp add: apply_edge_exclusion_def Let_def count_removed_def)+

lemma only_flagged_maps:
  assumes "list_all2 only_flagged ss rs"
  shows "map fs_s_m rs = map fs_s_m ss" "map fs_z_m rs = map fs_z_m ss"
    "map (\<lambda>s. fs_flag s = kDropped) rs = map (\<lambda>s. fs_flag s = kDropped) ss"
  using assms by (induction ss rs rule: list_all2_induct) (auto simp: only_flagged_def)

lemma outlier_rejection_count:
  assumes "fr_removed_count input = count_removed (fr_samples input)"
  shows "fr_removed_count (apply_outlier_rejection input k r) =
    count_removed (fr_samples (apply_outlier_rejection input k r))"
  using assms by (simp add: apply_outlier_rejection_def Let_def)

text \<open>
  Filtering accounts for every sample of a scanned line: positions and heights are kept in order,
  a sample counts as dropped exactly where no height was received, and the removed count is the
  number of samples that are not used for the fit.
\<close>

theorem filter_line_accounts:
  assumes "length (sb_positions_m block) = length (sb_heights_m block)"
  shows "map fs_s_m (fr_samples (filter_line cfg block)) = sb_positions_m block \<and>
    map fs_z_m (fr_samples (filter_line cfg block)) = sb_heights_m block \<and>
    map (\<lambda>s. fs_flag s = kDropped) (fr_samples (filter_line cfg block)) = map f8_nan (sb_heights_m block) \<and>
    fr_removed_count (filter_line cfg block) =
      length (filter (\<lambda>s. fs_flag s \<noteq> kKept) (fr_samples (filter_line cfg block)))"
proof -
  let ?line = "\<lparr>ls_angle_rad = sb_angle_rad block, ls_s_m = sb_positions_m block, ls_z_m = sb_heights_m block\<rparr>"
  have len: "length (ls_s_m ?line) = length (ls_z_m ?line)" using assms by simp
  note e = edge_exclusion_samples [OF len refl, of "sn_edge_exclusion_mm (cf_scan cfg)"]
  note o = only_flagged_maps [OF outlier_rejection_only_flags
      [of "apply_edge_exclusion ?line (sn_edge_exclusion_mm (cf_scan cfg))" "an_outlier_mad_k (cf_analysis cfg)"
        default_window_radius]]
  show ?thesis
    using e(1-3) o outlier_rejection_count [OF e(4)]
    by (simp add: filter_line_def count_removed_def)
qed

text \<open>A block of one lost and one received sample, fewer than the outlier filter looks at.\<close>

definition sample_block_2 :: sample_block where
  "sample_block_2 =
     \<lparr>sb_line_index = 0, sb_angle_rad = 0, sb_positions_m = [f8_lit 1 1, f8_lit 2 1],
      sb_heights_m = [quiet_nan, f8_lit 1 1], sb_timestamps = [0, 1]\<rparr>"

theorem filter_line_accounts_witness:
  "map (\<lambda>s. fs_flag s = kDropped) (fr_samples (filter_line default_config sample_block_2)) = [True, False]"
proof -
  have "f8_nan quiet_nan" by (simp add: quiet_nan_def f8_nan_def f8_abs_make f8_inf_def)
  then show ?thesis
    using filter_line_accounts [of sample_block_2 default_config] by (simp add: sample_block_2_def)
qed

section \<open>What the gates let through\<close>

lemma fold_max_rms:
  assumes "\<not> f8_nan acc"
    and m: "m = fold (\<lambda>fit acc. if lf_valid fit \<and> f8_less acc (lf_residual_rms_m fit)
                            then lf_residual_rms_m fit else acc) fits acc"
  shows "\<not> f8_nan m \<and> f8_key acc \<le> f8_key m \<and>
    (\<forall>fit \<in> set fits. lf_valid fit \<longrightarrow> f8_nan (lf_residual_rms_m fit) \<or> f8_key (lf_residual_rms_m fit) \<le> f8_key m) \<and>
    (m = acc \<or> (\<exists>fit \<in> set fits. lf_valid fit \<and> m = lf_residual_rms_m fit))"
  using assms
proof (induction fits arbitrary: acc)
  case (Cons fit fits)
  let ?a = "if lf_valid fit \<and> f8_less acc (lf_residual_rms_m fit) then lf_residual_rms_m fit else acc"
  have a: "\<not> f8_nan ?a" "f8_key acc \<le> f8_key ?a"
    "lf_valid fit \<Longrightarrow> f8_nan (lf_residual_rms_m fit) \<or> f8_key (lf_residual_rms_m fit) \<le> f8_key ?a"
    using Cons.prems(1) by (auto simp: f8_less_def)
  have "\<not> f8_nan m \<and> f8_key ?a \<le> f8_key m \<and>
    (\<forall>fit \<in> set fits. lf_valid fit \<longrightarrow> f8_nan (lf_residual_rms_m fit) \<or> f8_key (lf_residual_rms_m fit) \<le> f8_key m) \<and>
    (m = ?a \<or> (\<exists>fit \<in> set fits. lf_valid fit \<and> m = lf_residual_rms_m fit))"
    using Cons.prems(2) by (intro Cons.IH [OF a(1)]) simp
  then show ?case using a(2,3) by (auto split: if_splits)
qed simp

lemma max_rms_exceeds:
  assumes "\<not> f8_less lim 0"
  shows "f8_less lim (max_rms fits) \<longleftrightarrow> (\<exists>fit \<in> set fits. lf_valid fit \<and> f8_less lim (lf_residual_rms_m fit))"
proof -
  have "\<not> f8_nan 0" by (simp add: f8_nan_def f8_abs_def)
  note m = fold_max_rms [OF this refl, of fits, folded max_rms_def]
  show ?thesis using m assms by (fastforce simp: f8_less_def)
qed

text \<open>
  C31. The verdict of the pipeline is exactly what its gates are meant to be, for every input and a residual limit
  that is not negative. The issue is a poor fit if and only if a valid line has a residual above the limit,
  otherwise an implausible result if and only if the stress is not finite or outside the plausibility window,
  otherwise none; out of specification is said exactly of a stress without an issue outside the
  specification, and only such a result gets a map. The lines judged are the fits of the filtered blocks, one each.
  A run without a valid line has no residual and so no poor fit.
\<close>

theorem pipeline_verdict:
  assumes "run_pipeline lm blocks cfg = Some r"
    and "lim = f8_mul (an_fit_rms_limit_um (cf_analysis cfg)) kUmToM" "\<not> f8_less lim 0"
  shows "pr_line_fits r = map (\<lambda>b. fit_line (filter_line cfg b)) blocks \<and>
    qg_issue (pr_quality r) =
      (if \<exists>fit \<in> set (pr_line_fits r). lf_valid fit \<and> f8_less lim (lf_residual_rms_m fit) then kPoorFit
       else if \<not> f8_finite (pr_stress_pa r) \<or>
         f8_less (pr_stress_pa r) (f8_mul (an_stress_plausible_low_mpa (cf_analysis cfg)) kMpaToPa) \<or>
         f8_less (f8_mul (an_stress_plausible_high_mpa (cf_analysis cfg)) kMpaToPa) (pr_stress_pa r) then kImplausible
       else kNone) \<and>
    (qg_out_of_spec (pr_quality r) \<longleftrightarrow> qg_issue (pr_quality r) = kNone \<and>
      (f8_less (pr_stress_pa r) (f8_mul (an_stress_spec_low_mpa (cf_analysis cfg)) kMpaToPa) \<or>
       f8_less (f8_mul (an_stress_spec_high_mpa (cf_analysis cfg)) kMpaToPa) (pr_stress_pa r))) \<and>
    (qg_issue (pr_quality r) \<noteq> kNone \<longrightarrow> pr_map r = no_map)"
proof -
  define lines fits n where "lines = map (filter_line cfg) blocks" and "fits = map fit_line lines"
    and "n = pipeline_numbers cfg lines fits"
  have r: "pr_quality r = pr_quality n" "pr_stress_pa r = pr_stress_pa n" "pr_line_fits r = fits"
    "qg_issue (pr_quality n) \<noteq> kNone \<Longrightarrow> pr_map r = no_map"
    using assms(1) unfolding run_pipeline_def Let_def lines_def [symmetric] fits_def [symmetric] n_def [symmetric]
    by (auto simp: n_def pipeline_numbers_def Let_def split: if_splits)
  have q: "pr_quality n = evaluate_quality (max_rms fits) lim (pr_stress_pa n)
      (f8_mul (an_stress_plausible_low_mpa (cf_analysis cfg)) kMpaToPa)
      (f8_mul (an_stress_plausible_high_mpa (cf_analysis cfg)) kMpaToPa)
      (f8_mul (an_stress_spec_low_mpa (cf_analysis cfg)) kMpaToPa)
      (f8_mul (an_stress_spec_high_mpa (cf_analysis cfg)) kMpaToPa)"
    by (simp add: n_def pipeline_numbers_def Let_def assms(2))
  have "fits = map (\<lambda>b. fit_line (filter_line cfg b)) blocks" by (simp add: fits_def lines_def)
  then show ?thesis
    unfolding r(1-3) using r(4) q max_rms_exceeds [OF assms(3), of fits] by (auto simp: evaluate_quality_def)
qed

text \<open>
  The pipeline on no line at all, with the default configuration: the mean curvature of no line counts
  as 0, so a stress of -36.1 MPa is computed, and it passes every gate.
\<close>

lemmas f8_eval = f8_mul_def f8_div_def f8_sub_def f8_nan_def f8_finite_def f8_parts_def f8_sign_def f8_abs_def
  f8_of_scaled_def lit_eval

lemma empty_run_literals:
  "kGpaToPa = 0x41CDCD6500000000" "kUmToM = 0x3EB0C6F7A0B5ED8D" "kMpaToPa = 0x412E848000000000"
  "f8_lit 2 1000 = 0x3F60624DD2F1A9FC" "f8_lit 1805 10 = 0x4066900000000000" "f8_lit 775 1 = 0x4088380000000000"
  "f8_lit 1 1 = 0x3FF0000000000000" "f8_lit 2 1 = 0x4000000000000000" "f8_lit 6 1 = 0x4018000000000000"
  "f8_lit 5000 1 = 0x40B3880000000000" "f8_lit (- 5000) 1 = 0xC0B3880000000000"
  "f8_lit 300 1 = 0x4072C00000000000" "f8_lit 1 1000 = 0x3F50624DD2F1A9FC" "f8_lit 1000 1 = 0x408F400000000000"
  "f8_lit 400 1 = 0x4079000000000000" "f8_lit (- 400) 1 = 0xC079000000000000"
  by (simp_all add: kGpaToPa_def kUmToM_def kMpaToPa_def lit_eval)

lemma empty_run_steps_1:
  "f8_mul 0x4066900000000000 0x41CDCD6500000000 = 0x42450351B6800000"
  "f8_mul 0x4088380000000000 0x3EB0C6F7A0B5ED8D = 0x3F49652BD3C36113"
  "f8_mul 0x3FF0000000000000 0x3EB0C6F7A0B5ED8D = 0x3EB0C6F7A0B5ED8D"
  by (simp_all add: f8_eval)

lemma empty_run_steps_2:
  "f8_mul 0x42450351B6800000 0x3F49652BD3C36113 = 0x41A0AD0718000000"
  "f8_mul 0x41A0AD0718000000 0x3F49652BD3C36113 = 0x40FA77CD00000000"
  "f8_mul 0x40FA77CD00000000 0xBF60624DD2F1A9FC = 0xC06B1A6B851EB852"
  by (simp_all add: f8_eval)

lemma empty_run_steps_3:
  "f8_mul 0x4018000000000000 0x3EB0C6F7A0B5ED8D = 0x3ED92A737110E454"
  "f8_div 0xC06B1A6B851EB852 0x3ED92A737110E454 = 0xC1813B5421555555"
  "f8_mul 0x4000000000000000 0x3EB0C6F7A0B5ED8D = 0x3EC0C6F7A0B5ED8D"
  by (simp_all add: f8_eval)

lemma empty_run_steps_4:
  "f8_mul 0x40B3880000000000 0x412E848000000000 = 0x41F2A05F20000000"
  "f8_mul 0xC0B3880000000000 0x412E848000000000 = 0xC1F2A05F20000000"
  "f8_mul 0x4079000000000000 0x412E848000000000 = 0x41B7D78400000000"
  by (simp_all add: f8_eval)

lemma empty_run_steps_5:
  "f8_mul 0xC079000000000000 0x412E848000000000 = 0xC1B7D78400000000"
  "f8_mul 0x4072C00000000000 0x3F50624DD2F1A9FC = 0x3FD3333333333333"
  "f8_mul 0x3FD3333333333333 0x408F400000000000 = 0x4072C00000000000"
  by (simp_all add: f8_eval)

lemma empty_run_steps_6:
  "f8_div 0x4072C00000000000 0x4000000000000000 = 0x4062C00000000000"
  "f8_div 0x4062C00000000000 0x3FF0000000000000 = 0x4062C00000000000"
  by (simp_all add: f8_eval)

lemmas empty_run_steps = empty_run_steps_1 empty_run_steps_2 empty_run_steps_3 empty_run_steps_4 empty_run_steps_5 empty_run_steps_6

lemma empty_run_curvature: "f8_sub 0 0x3F60624DD2F1A9FC = 0xBF60624DD2F1A9FC"
  by (subst f8_sub_zero) (simp_all add: f8_finite_def f8_abs_def f8_inf_def f8_neg_def f8_make_def f8_sign_def)

lemma empty_run_numbers:
  "pr_stress_pa (pipeline_numbers default_config [] []) = 0xC1813B5421555555"
  "pr_quality (pipeline_numbers default_config [] []) = \<lparr>qg_issue = kNone, qg_out_of_spec = False\<rparr>"
proof -
  show s: "pr_stress_pa (pipeline_numbers default_config [] []) = 0xC1813B5421555555"
    unfolding pipeline_numbers_def default_config_def default_wafer_def default_truth_def Let_def
      combine_lines_def stoney_stress_pa_def empty_run_literals
    by (simp add: empty_run_steps empty_run_curvature)
  have "pr_quality (pipeline_numbers default_config [] []) =
      evaluate_quality 0 0x3EC0C6F7A0B5ED8D 0xC1813B5421555555 0xC1F2A05F20000000 0x41F2A05F20000000
        0xC1B7D78400000000 0x41B7D78400000000"
    using s unfolding pipeline_numbers_def default_config_def default_analysis_def Let_def empty_run_literals
    by (simp add: empty_run_steps max_rms_def)
  then show "pr_quality (pipeline_numbers default_config [] []) = \<lparr>qg_issue = kNone, qg_out_of_spec = False\<rparr>"
    by (simp add: evaluate_quality_def f8_less_def f8_nan_def f8_finite_def f8_key_def f8_sign_def f8_abs_def f8_inf_def)
qed

lemma no_line_no_issue:
  "\<exists>r. run_pipeline lm [] default_config = Some r \<and> cr_n_lines (pr_combined r) = 0 \<and>
     pr_stress_pa r = 0xC1813B5421555555 \<and> qg_issue (pr_quality r) = kNone"
proof -
  have c: "ceil_int 0x4062C00000000000 = Some 150"
    by (simp add: ceil_int_def f8_ratio_def ratio_of_def f8_eval)
  have "\<exists>m. build_wafer_map lm [] (f8_mul (wc_diameter_mm (cf_wafer default_config)) (f8_lit 1 1000))
      (an_map_grid_mm (cf_analysis default_config)) = Some m"
    unfolding build_wafer_map_def default_config_def default_wafer_def default_analysis_def Let_def empty_run_literals
    by (simp add: empty_run_literals empty_run_steps c)
  then show ?thesis
    using empty_run_numbers by (auto simp: run_pipeline_def Let_def pipeline_numbers_def combine_lines_def)
qed

theorem pipeline_verdict_witness:
  "\<exists>r. run_pipeline \<lparr>hypot = f8_add, atan2 = f8_sub\<rparr> [] default_config = Some r \<and> pr_line_fits r = [] \<and>
     qg_issue (pr_quality r) = kNone \<and> \<not> qg_out_of_spec (pr_quality r)"
proof -
  let ?lim = "f8_mul (an_fit_rms_limit_um (cf_analysis default_config)) kUmToM"
  have l: "?lim = 0x3EC0C6F7A0B5ED8D"
    unfolding default_config_def default_analysis_def empty_run_literals by (simp add: empty_run_literals empty_run_steps)
  have "\<not> f8_less ?lim 0"
    unfolding l by (simp add: f8_less_def f8_key_def f8_sign_def f8_abs_def)
  obtain r where r: "run_pipeline \<lparr>hypot = f8_add, atan2 = f8_sub\<rparr> [] default_config = Some r"
    "qg_issue (pr_quality r) = kNone" "pr_stress_pa r = 0xC1813B5421555555"
    using no_line_no_issue by blast
  have "f8_mul (an_stress_spec_low_mpa (cf_analysis default_config)) kMpaToPa = 0xC1B7D78400000000"
    "f8_mul (an_stress_spec_high_mpa (cf_analysis default_config)) kMpaToPa = 0x41B7D78400000000"
    unfolding default_config_def default_analysis_def empty_run_literals by (simp_all add: empty_run_literals empty_run_steps)
  then show ?thesis using pipeline_verdict [OF r(1) refl \<open>\<not> f8_less ?lim 0\<close>] r
    by (auto simp: f8_less_def f8_key_def f8_sign_def f8_abs_def)
qed

end
