(* ===== verification/Hardware.thy ===== *)
theory Hardware
  imports Analysis_Fit
begin

text \<open>
  The simulated hardware, \<^verbatim>\<open>src/hw/\<close>: the wafer's shape, stage, laser and fault injectors. Values of the
  standard's random distributions and of \<^verbatim>\<open>cos\<close> and \<^verbatim>\<open>sin\<close> differ between implementations, so both are
  parameters; generators and distributions keep their state explicitly.
\<close>

section \<open>The parameters\<close>

record trig =
  trig_cos :: "f8 \<Rightarrow> f8"
  trig_sin :: "f8 \<Rightarrow> f8"

text \<open>
  \<^verbatim>\<open>std::mt19937_64\<close> with the two distributions the hardware draws from. A \<^verbatim>\<open>bernoulli_distribution\<close> has no
  state; a \<^verbatim>\<open>normal_distribution\<close> may keep a value for the next call.
\<close>

record ('g, 'n) random_lib =
  rng_seeded :: "u64 \<Rightarrow> 'g"
  draw_bernoulli :: "f8 \<Rightarrow> 'g \<Rightarrow> bool \<times> 'g"
  new_normal :: "f8 \<Rightarrow> f8 \<Rightarrow> 'n"
  draw_normal :: "'n \<Rightarrow> 'g \<Rightarrow> f8 \<times> 'n \<times> 'g"

section \<open>Wafer model\<close>

record wafer_truth =
  tr_stress_pa :: f8
  tr_initial_curvature_per_m :: f8
  tr_tilt_x :: f8
  tr_tilt_y :: f8
  tr_anisotropy :: f8
  tr_film_curvature_per_m :: f8
  tr_total_curvature_per_m :: f8
  tr_kx_per_m :: f8
  tr_ky_per_m :: f8
  tr_diameter_m :: f8

record wafer_model =
  wl_truth :: wafer_truth
  wl_seed :: u64

definition kMmToM :: f8 where "kMmToM = f8_lit 1 1000"
definition kTiltUmPerMmToSlope :: f8 where "kTiltUmPerMmToSlope = f8_lit 1 1000"

definition new_wafer_model :: "wafer_config \<Rightarrow> wafer_model" where
  "new_wafer_model c =
     (let t = wc_truth c; sigma_pa = f8_mul (wt_stress_mpa t) kMpaToPa;
          t_f_m = f8_mul (wc_film_thickness_um c) kUmToM; t_s_m = f8_mul (wc_thickness_um c) kUmToM;
          m_s_pa = f8_mul (wc_biaxial_modulus_gpa c) kGpaToPa; k0 = wt_initial_curvature_1_per_m t;
          film = f8_div (f8_mul (f8_mul (f8_lit 6 1) sigma_pa) t_f_m) (f8_mul (f8_mul m_s_pa t_s_m) t_s_m);
          total = f8_add k0 film; half_alpha = f8_div (wt_anisotropy t) (f8_lit 2 1)
      in \<lparr>wl_truth =
            \<lparr>tr_stress_pa = sigma_pa, tr_initial_curvature_per_m = k0,
             tr_tilt_x = f8_mul (wt_tilt_x_um_per_mm t) kTiltUmPerMmToSlope,
             tr_tilt_y = f8_mul (wt_tilt_y_um_per_mm t) kTiltUmPerMmToSlope,
             tr_anisotropy = wt_anisotropy t, tr_film_curvature_per_m = film,
             tr_total_curvature_per_m = total,
             tr_kx_per_m = f8_mul total (f8_sub (f8_lit 1 1) half_alpha),
             tr_ky_per_m = f8_mul total (f8_add (f8_lit 1 1) half_alpha),
             tr_diameter_m = f8_mul (wc_diameter_mm c) kMmToM\<rparr>,
          wl_seed = wc_seed c\<rparr>)"

definition curvature_at_m :: "trig \<Rightarrow> wafer_model \<Rightarrow> f8 \<Rightarrow> f8" where
  "curvature_at_m tg w theta =
     (let c = trig_cos tg theta; s = trig_sin tg theta
      in f8_add (f8_mul (f8_mul (tr_kx_per_m (wl_truth w)) c) c)
                (f8_mul (f8_mul (tr_ky_per_m (wl_truth w)) s) s))"

definition height_m :: "trig \<Rightarrow> wafer_model \<Rightarrow> f8 \<Rightarrow> f8 \<Rightarrow> f8" where
  "height_m tg w theta s_m =
     (let tilt_along_line =
            f8_add (f8_mul (tr_tilt_x (wl_truth w)) (trig_cos tg theta))
                   (f8_mul (tr_tilt_y (wl_truth w)) (trig_sin tg theta));
          k = curvature_at_m tg w theta
      in f8_add (f8_mul tilt_along_line s_m) (f8_mul (f8_mul (f8_mul half k) s_m) s_m))"

section \<open>Stage and laser\<close>

record stage_sim =
  sg_speed_mm_per_s :: f8
  sg_realtime_factor :: f8
  sg_angle_rad :: f8
  sg_position_m :: f8

definition new_stage :: "f8 \<Rightarrow> f8 \<Rightarrow> stage_sim" where
  "new_stage speed rtf =
     \<lparr>sg_speed_mm_per_s = speed, sg_realtime_factor = rtf, sg_angle_rad = 0, sg_position_m = 0\<rparr>"

definition set_line :: "f8 \<Rightarrow> stage_sim \<Rightarrow> stage_sim" where
  "set_line angle st = st\<lparr>sg_angle_rad := angle, sg_position_m := 0\<rparr>"

text \<open>A move, and how long the thread sleeps for it.\<close>

definition move_to :: "f8 \<Rightarrow> stage_sim \<Rightarrow> stage_sim \<times> f8 option" where
  "move_to position st =
     (let distance_mm = f8_mul (f8_fabs (f8_sub position (sg_position_m st))) (f8_lit 1000 1)
      in (st\<lparr>sg_position_m := position\<rparr>,
          if f8_less 0 (sg_realtime_factor st) \<and> f8_less 0 (sg_speed_mm_per_s st)
          then Some (f8_div (f8_div distance_mm (sg_speed_mm_per_s st)) (sg_realtime_factor st)) else None))"

record ('g, 'n) laser_sensor =
  la_rng :: 'g
  la_noisy :: bool
  la_noise :: 'n

definition new_laser :: "('g, 'n) random_lib \<Rightarrow> f8 \<Rightarrow> u64 \<Rightarrow> ('g, 'n) laser_sensor" where
  "new_laser rl sigma_m seed =
     \<lparr>la_rng = rng_seeded rl seed, la_noisy = f8_less 0 sigma_m,
      la_noise = new_normal rl 0 (if f8_less 0 sigma_m then sigma_m else f8_lit 1 1)\<rparr>"

definition read_height_m ::
    "('g, 'n) random_lib \<Rightarrow> trig \<Rightarrow> wafer_model \<Rightarrow> stage_sim \<Rightarrow> ('g, 'n) laser_sensor
       \<Rightarrow> f8 \<times> ('g, 'n) laser_sensor" where
  "read_height_m rl tg w st la =
     (let ideal = height_m tg w (sg_angle_rad st) (sg_position_m st)
      in if la_noisy la
         then (case draw_normal rl (la_noise la) (la_rng la) of
                 (x, n, g) \<Rightarrow> (f8_add ideal x, la\<lparr>la_noise := n, la_rng := g\<rparr>))
         else (ideal, la))"

record ('g, 'n) simulated_hardware =
  hw_stage :: stage_sim
  hw_laser :: "('g, 'n) laser_sensor"

definition make_simulated_hardware ::
    "('g, 'n) random_lib \<Rightarrow> scan_config \<Rightarrow> noise_config \<Rightarrow> wafer_model \<Rightarrow> ('g, 'n) simulated_hardware" where
  "make_simulated_hardware rl sn nc w =
     \<lparr>hw_stage = new_stage (sn_speed_mm_per_s sn) (sn_realtime_factor sn),
      hw_laser = new_laser rl (f8_mul (nc_sigma_um nc) kUmToM) (wl_seed w)\<rparr>"

section \<open>Fault injection\<close>

datatype fault_type = kSpike | kBurst | kDropout | kStuck | kDrift | kSaturation | kStageStall

record fault_spec =
  sp_type :: fault_type
  sp_rate :: f8
  sp_amplitude_um :: f8
  sp_length_samples :: i32
  sp_drift_um_per_s :: f8
  sp_saturation_limit_um :: f8
  sp_stall_duration_s :: f8

record fault_sample =
  fa_height_m :: "f8 option"
  fa_stage_stall :: bool

record 'g fault_injector =
  fi_spec :: fault_spec
  fi_rng :: 'g
  fi_run_remaining :: nat
  fi_stuck_value_m :: f8

definition new_fault_injector :: "('g, 'n) random_lib \<Rightarrow> fault_spec \<Rightarrow> u64 \<Rightarrow> 'g fault_injector" where
  "new_fault_injector rl sp seed =
     \<lparr>fi_spec = sp, fi_rng = rng_seeded rl seed, fi_run_remaining = 0, fi_stuck_value_m = 0\<rparr>"

text \<open>One draw of \<^verbatim>\<open>trigger_\<close>, whose probability is the rate.\<close>

definition trigger :: "('g, 'n) random_lib \<Rightarrow> 'g fault_injector \<Rightarrow> bool \<times> 'g fault_injector" where
  "trigger rl fi =
     (case draw_bernoulli rl (sp_rate (fi_spec fi)) (fi_rng fi) of (b, g) \<Rightarrow> (b, fi\<lparr>fi_rng := g\<rparr>))"

text \<open>The offset of a spike: either sign with equal probability.\<close>

definition spike_sample ::
    "('g, 'n) random_lib \<Rightarrow> f8 \<Rightarrow> 'g fault_injector \<Rightarrow> fault_sample \<times> 'g fault_injector" where
  "spike_sample rl clean fi =
     (case draw_bernoulli rl half (fi_rng fi) of
        (b, g) \<Rightarrow>
          (\<lparr>fa_height_m =
              Some (f8_add clean
                     (f8_mul (f8_mul (if b then f8_lit 1 1 else f8_lit (- 1) 1)
                               (sp_amplitude_um (fi_spec fi))) kUmToM)),
            fa_stage_stall = False\<rparr>, fi\<lparr>fi_rng := g\<rparr>))"

text \<open>The start of a run, for bursts, dropouts and stuck values: no draw while one is going on.\<close>

definition begin_run :: "('g, 'n) random_lib \<Rightarrow> f8 \<Rightarrow> 'g fault_injector \<Rightarrow> 'g fault_injector" where
  "begin_run rl stuck fi =
     (if fi_run_remaining fi \<noteq> 0 then fi
      else case trigger rl fi of
             (b, fi) \<Rightarrow>
               if b
               then fi\<lparr>fi_run_remaining := nat (max 1 (sint (sp_length_samples (fi_spec fi)))),
                       fi_stuck_value_m := stuck\<rparr>
               else fi)"

definition fault_apply ::
    "('g, 'n) random_lib \<Rightarrow> f8 \<Rightarrow> f8 \<Rightarrow> 'g fault_injector \<Rightarrow> fault_sample \<times> 'g fault_injector" where
  "fault_apply rl elapsed_s clean fi =
     (let sp = fi_spec fi; pass = \<lparr>fa_height_m = Some clean, fa_stage_stall = False\<rparr>
      in case sp_type sp of
           kSpike \<Rightarrow> (case trigger rl fi of (b, fi) \<Rightarrow> if b then spike_sample rl clean fi else (pass, fi))
         | kBurst \<Rightarrow>
             (let fi = begin_run rl (fi_stuck_value_m fi) fi
              in if fi_run_remaining fi > 0
                 then spike_sample rl clean (fi\<lparr>fi_run_remaining := fi_run_remaining fi - 1\<rparr>)
                 else (pass, fi))
         | kDropout \<Rightarrow>
             (let fi = begin_run rl (fi_stuck_value_m fi) fi
              in if fi_run_remaining fi > 0
                 then (\<lparr>fa_height_m = None, fa_stage_stall = False\<rparr>,
                       fi\<lparr>fi_run_remaining := fi_run_remaining fi - 1\<rparr>)
                 else (pass, fi))
         | kStuck \<Rightarrow>
             (let fi = begin_run rl clean fi
              in if fi_run_remaining fi > 0
                 then (\<lparr>fa_height_m = Some (fi_stuck_value_m fi), fa_stage_stall = False\<rparr>,
                       fi\<lparr>fi_run_remaining := fi_run_remaining fi - 1\<rparr>)
                 else (pass, fi))
         | kDrift \<Rightarrow>
             (pass\<lparr>fa_height_m :=
                Some (f8_add clean (f8_mul (f8_mul (sp_drift_um_per_s sp) kUmToM) elapsed_s))\<rparr>, fi)
         | kSaturation \<Rightarrow>
             (let limit_m = f8_mul (sp_saturation_limit_um sp) kUmToM
              in (pass\<lparr>fa_height_m :=
                    Some (if f8_less clean (f8_neg limit_m) then f8_neg limit_m
                          else if f8_less limit_m clean then limit_m else clean)\<rparr>, fi))
         | kStageStall \<Rightarrow>
             (case trigger rl fi of (b, fi) \<Rightarrow> (pass\<lparr>fa_stage_stall := b\<rparr>, fi)))"

end
