(* ===== verification/Std_Ratio.thy ===== *)
theory Std_Ratio
  imports Std_Rounding Complex_Main
begin

text \<open>
  Quotients and products of doubles as real numbers: the rounding of a ratio is monotone, keeps what is
  a double already, and so bounds on exact values carry over to computed ones.
\<close>

section \<open>Rounding a ratio is monotone\<close>

lemma two_powi_add: "(2 :: real) powi (i + j) = 2 powi i * 2 powi j"
  by (rule power_int_add) simp

lemma scale_down_real:
  assumes "scale_down n d x = (a, b)" "d > 0"
  shows "b > 0" "real a / real b = real n / real d * 2 powi (- x)"
proof -
  show "b > 0" using assms by (auto simp: scale_down_def split: if_splits)
  have "(2 :: real) powi (- x) = 1 / 2 ^ nat x" if "x \<ge> 0"
    using that by (simp add: power_int_def field_simps)
  moreover have "(2 :: real) powi (- x) = 2 ^ nat (- x)" if "x < 0"
    using that by (simp add: power_int_def)
  ultimately show "real a / real b = real n / real d * 2 powi (- x)"
    using assms(1) by (auto simp: scale_down_def split: if_splits)
qed

lemma bit_length_real:
  assumes "n > 0"
  shows "2 powi (int (bit_length n) - 1) \<le> real n" "real n < 2 powi int (bit_length n)"
proof -
  have b: "2 ^ (bit_length n - 1) \<le> n" "n < 2 ^ bit_length n" "bit_length n > 0"
    using bit_length_bounds [OF assms] by auto
  have "(2 :: real) powi (int (bit_length n) - 1) = 2 ^ (bit_length n - 1)"
    using b(3) by (simp add: power_int_def nat_diff_distrib)
  also have "\<dots> \<le> real n" using b(1) by (metis of_nat_le_iff of_nat_numeral of_nat_power)
  finally show "2 powi (int (bit_length n) - 1) \<le> real n" .
  have "real n < 2 ^ bit_length n" using b(2) by (metis of_nat_less_iff of_nat_numeral of_nat_power)
  then show "real n < 2 powi int (bit_length n)" by simp
qed

lemma ratio_bit_length:
  assumes "n > 0" "d > 0"
  defines "x \<equiv> int (bit_length n) - int (bit_length d) - 53"
  shows "2 powi (x + 52) < real n / real d" "real n / real d < 2 powi (x + 54)"
proof -
  note n = bit_length_real [OF assms(1)] and d = bit_length_real [OF assms(2)]
  have d0: "real d > 0" using assms(2) by simp
  have "2 powi (x + 52) * real d < 2 powi (x + 52) * 2 powi int (bit_length d)"
    using d(2) by (intro mult_strict_left_mono) simp_all
  also have "\<dots> = 2 powi (x + 52 + int (bit_length d))" by (simp only: two_powi_add)
  also have "\<dots> = 2 powi (int (bit_length n) - 1)" by (simp add: x_def)
  also have "\<dots> \<le> real n" by (rule n(1))
  finally show "2 powi (x + 52) < real n / real d" using d0 by (simp add: pos_less_divide_eq)
  have "real n < 2 powi int (bit_length n)" by (rule n(2))
  also have "\<dots> = 2 powi (x + 54 + (int (bit_length d) - 1))" by (simp add: x_def)
  also have "\<dots> = 2 powi (x + 54) * 2 powi (int (bit_length d) - 1)" by (simp only: two_powi_add)
  also have "\<dots> \<le> 2 powi (x + 54) * real d" using d(1) by (intro mult_left_mono) simp_all
  finally show "real n / real d < 2 powi (x + 54)" using d0 by (simp add: pos_divide_less_eq)
qed

lemma f8_exponent_real:
  assumes "n > 0" "d > 0"
  defines "e \<equiv> f8_exponent n d"
  shows "- 1074 \<le> e" "real n / real d < 2 powi (e + 53)" "e > - 1074 \<Longrightarrow> 2 powi (e + 52) \<le> real n / real d"
proof -
  define x where "x = int (bit_length n) - int (bit_length d) - 53"
  obtain a b where ab: "scale_down n d x = (a, b)" by force
  note sd = scale_down_real [OF ab assms(2)]
  note r = ratio_bit_length [OF assms(1,2), folded x_def]
  define y where "y = (if a div b \<ge> 2 ^ 53 then x + 1 else x)"
  have e: "e = max (- 1074) y" by (simp add: e_def f8_exponent_def x_def [symmetric] ab y_def Let_def)
  have p: "(2 :: real) powi (k + x) = 2 powi k * 2 powi x" for k by (rule two_powi_add)
  have q: "real n / real d = real a / real b * 2 powi x"
    using sd(2) by (simp add: power_int_minus field_simps)
  have big: "a div b \<ge> 2 ^ 53 \<longleftrightarrow> 2 powi (x + 53) \<le> real n / real d"
  proof -
    have "a div b \<ge> 2 ^ 53 \<longleftrightarrow> 2 ^ 53 * b \<le> a" using sd(1) by (simp add: less_eq_div_iff_mult_less_eq)
    also have "\<dots> \<longleftrightarrow> 2 ^ 53 * real b \<le> real a" by (metis of_nat_le_iff of_nat_mult of_nat_numeral of_nat_power)
    also have "\<dots> \<longleftrightarrow> 2 ^ 53 \<le> real a / real b" using sd(1) by (simp add: pos_le_divide_eq)
    also have "\<dots> \<longleftrightarrow> 2 ^ 53 * 2 powi x \<le> real a / real b * 2 powi x"
      by (rule mult_le_cancel_right_pos [symmetric]) simp
    also have "\<dots> \<longleftrightarrow> 2 powi (x + 53) \<le> real n / real d" unfolding q using p [of 53] by (simp add: add.commute)
    finally show ?thesis .
  qed
  have y: "real n / real d < 2 powi (y + 53)" "2 powi (y + 52) \<le> real n / real d"
    using big r by (auto simp: y_def add.assoc)
  show "- 1074 \<le> e" by (simp add: e)
  have "(2 :: real) powi (y + 53) \<le> 2 powi (e + 53)" by (intro power_int_increasing) (simp_all add: e)
  with y(1) show "real n / real d < 2 powi (e + 53)" by simp
  show "2 powi (e + 52) \<le> real n / real d" if "e > - 1074" using y(2) that by (simp add: e max_def split: if_splits)
qed

lemma f8_exponent_mono:
  assumes "n > 0" "d > 0" "n' > 0" "d' > 0" "real n / real d \<le> real n' / real d'"
  shows "f8_exponent n d \<le> f8_exponent n' d'"
proof (rule ccontr)
  assume "\<not> ?thesis"
  then have l: "f8_exponent n' d' + 53 \<le> f8_exponent n d + 52" by simp
  have "(2 :: real) powi (f8_exponent n' d' + 53) \<le> 2 powi (f8_exponent n d + 52)"
    by (rule power_int_increasing [OF l]) simp
  moreover have "f8_exponent n d > - 1074" using l f8_exponent_real(1) [OF assms(3,4)] by simp
  ultimately show False
    using f8_exponent_real(3) [OF assms(1,2)] f8_exponent_real(2) [OF assms(3,4)] assms(5) by linarith
qed

lemma round_quotient_real_mono:
  assumes "b > 0" "d > 0" "real a / real b \<le> real c / real d"
  shows "round_quotient (a, b) \<le> round_quotient (c, d)"
proof -
  have "real (a * d) \<le> real (c * b)" using assms by (simp add: field_simps)
  then have "a * d \<le> c * b" by (simp only: of_nat_le_iff)
  then have "round_quotient (a * d, b * d) \<le> round_quotient (c * b, b * d)"
    using assms by (intro round_quotient_mono) simp_all
  then show ?thesis
    using round_quotient_scale [OF assms(2), of a b] round_quotient_scale [OF assms(1), of c d] by (simp add: mult.commute)
qed

lemma round_quotient_real_le:
  assumes "b > 0" "real a / real b \<le> real q" shows "round_quotient (a, b) \<le> q"
  using round_quotient_real_mono [of b b a "q * b"] assms round_quotient_exact [OF assms(1)] by simp

lemma round_quotient_real_ge:
  assumes "b > 0" "real q \<le> real a / real b" shows "q \<le> round_quotient (a, b)"
  using round_quotient_real_mono [of b b "q * b" a] assms round_quotient_exact [OF assms(1)] by simp

text \<open>The magnitude of a rounded ratio depends on the ratio only, and monotonically.\<close>

lemma f8_of_ratio_mono:
  assumes "d > 0" "d' > 0" "real n / real d \<le> real n' / real d'"
  shows "fst (f8_of_ratio n d) \<le> fst (f8_of_ratio n' d')"
proof (cases "n = 0")
  case True
  then show ?thesis by (simp add: f8_of_ratio_def)
next
  case False
  then have n: "n > 0" by simp
  have "real n / real d > 0" using n assms(1) by simp
  with assms(3) have "real n' / real d' \<noteq> 0" by linarith
  then have n': "n' > 0" by (cases n') simp_all
  define e e' where "e = f8_exponent n d" and "e' = f8_exponent n' d'"
  obtain a b a' b' where ab: "scale_down n d e = (a, b)" "scale_down n' d' e' = (a', b')" by fastforce
  note s = scale_down_real [OF ab(1) assms(1)] and s' = scale_down_real [OF ab(2) assms(2)]
  note x = f8_exponent_real [OF n assms(1), folded e_def] and x' = f8_exponent_real [OF n' assms(2), folded e'_def]
  have ee: "e \<le> e'" unfolding e_def e'_def by (rule f8_exponent_mono [OF n assms(1) n' assms(2,3)])
  let ?a = "nat (e + 1074) * 2 ^ 52 + round_quotient (a, b)"
  let ?a' = "nat (e' + 1074) * 2 ^ 52 + round_quotient (a', b')"
  have "?a \<le> ?a'"
  proof (cases "e = e'")
    case True
    have "real a / real b \<le> real a' / real b'"
      unfolding s(2) s'(2) True by (rule mult_right_mono [OF assms(3)]) simp
    then show ?thesis using round_quotient_real_mono [OF s(1) s'(1)] True by simp
  next
    case False
    with ee have l: "e < e'" by simp
    have "real a / real b \<le> 2 powi (e + 53) * 2 powi (- e)"
      unfolding s(2) using x(2) by (intro mult_right_mono) simp_all
    also have "\<dots> = 2 powi (e + 53 + - e)" by (simp only: two_powi_add)
    finally have "real a / real b \<le> real (2 ^ 53)" by simp
    then have u: "round_quotient (a, b) \<le> 2 ^ 53" by (rule round_quotient_real_le [OF s(1)])
    have "(2 :: real) powi (e' + 52 + - e') = 2 powi (e' + 52) * 2 powi (- e')" by (simp only: two_powi_add)
    also have "\<dots> \<le> real a' / real b'"
      unfolding s'(2) using x'(3) l x(1) by (intro mult_right_mono) simp_all
    finally have "real (2 ^ 52) \<le> real a' / real b'" by simp
    then have v: "2 ^ 52 \<le> round_quotient (a', b')" by (rule round_quotient_real_ge [OF s'(1)])
    have "nat (e + 1074) + 1 \<le> nat (e' + 1074)" using l x(1) by simp
    then have "(nat (e + 1074) + 1) * 2 ^ 52 \<le> nat (e' + 1074) * 2 ^ 52" by (rule mult_le_mono1)
    with u v show ?thesis by simp
  qed
  then show ?thesis
    using n n' by (simp add: f8_of_ratio_def Let_def e_def [symmetric] e'_def [symmetric] ab)
qed

lemma f8_of_ratio_cong:
  assumes "d > 0" "d' > 0" "real n / real d = real n' / real d'"
  shows "fst (f8_of_ratio n d) = fst (f8_of_ratio n' d')"
  using f8_of_ratio_mono [OF assms(1,2)] f8_of_ratio_mono [OF assms(2,1)] assms(3) by (simp add: eq_iff)

section \<open>Values\<close>

text \<open>The value of a magnitude, and of a double that is not negative.\<close>

definition mag_val :: "nat \<Rightarrow> real" where
  "mag_val a = real (f8_mag a) * 2 powi (- 1074)"

definition f8_val :: "f8 \<Rightarrow> real" where
  "f8_val w = mag_val (f8_abs w)"

text \<open>Doubles at least zero, the sign of zero included.\<close>

definition f8_pos :: "f8 \<Rightarrow> bool" where
  "f8_pos w \<longleftrightarrow> f8_finite w \<and> \<not> f8_sign w"

lemma mag_val_le_iff [simp]: "mag_val a \<le> mag_val b \<longleftrightarrow> a \<le> b"
  by (simp add: mag_val_def)

lemma mag_val_zero [simp]: "mag_val 0 = 0"
  by (simp add: mag_val_def)

lemma mag_val_0 [simp]: "mag_val a = 0 \<longleftrightarrow> a = 0"
  by (simp add: mag_val_def)

lemma f8_val_nonneg [simp]: "f8_val w \<ge> 0"
  by (simp add: f8_val_def mag_val_def)

lemma f8_val_parts:
  assumes "f8_parts w = (m, x)"
  shows "f8_val w = real m * 2 powi x"
proof -
  note p = f8_parts_mag [OF assms]
  have "(2 :: real) ^ nat (x + 1074) = 2 powi (x + 1074)" using p(1) by (simp add: power_int_def)
  then have "f8_val w = real m * (2 powi (x + 1074) * 2 powi (- 1074))"
    by (simp add: f8_val_def mag_val_def p(2))
  also have "\<dots> = real m * 2 powi x" by (simp only: two_powi_add [symmetric]) simp
  finally show ?thesis .
qed

text \<open>A ratio that is a double already is not changed by rounding.\<close>

lemma f8_of_ratio_exact:
  assumes "d > 0" "real n / real d = mag_val a" "a < f8_inf"
  shows "fst (f8_of_ratio n d) = a"
proof (cases "a = 0")
  case True
  then show ?thesis using assms by (simp add: f8_of_ratio_def)
next
  case False
  then have m: "f8_mag a > 0" by (metis f8_mag_eq_0 gr0I)
  have "mag_val a = real (f8_mag a) / real (2 ^ 1074)" by (simp add: mag_val_def power_int_def field_simps)
  with f8_of_ratio_cong [OF assms(1), of "2 ^ 1074" n "f8_mag a"] assms(2)
  have "fst (f8_of_ratio n d) = fst (f8_of_ratio (f8_mag a) (2 ^ 1074))" by simp
  also have "\<dots> = rounded (f8_mag a)" using f8_of_ratio_pow2 [OF m, of 1074] by simp
  finally show ?thesis using rounded_mag [OF assms(3)] by simp
qed

lemma mag_val_ratio:
  obtains n d where "d > 0" "real n / real d = mag_val a"
proof -
  have "real (f8_mag a) / real (2 ^ 1074) = mag_val a" by (simp add: mag_val_def power_int_def field_simps)
  moreover have "(2 ^ 1074 :: nat) > 0" by (rule zero_less_power) simp
  ultimately show thesis using that by blast
qed

lemma f8_of_ratio_le_mag:
  assumes "d > 0" "real n / real d \<le> mag_val a" "a < f8_inf"
  shows "fst (f8_of_ratio n d) \<le> a"
proof -
  obtain k e where ke: "e > 0" "real k / real e = mag_val a" by (rule mag_val_ratio)
  then show ?thesis
    using f8_of_ratio_exact [OF ke assms(3)] f8_of_ratio_mono [OF assms(1) ke(1), of n k] assms(2) by simp
qed

lemma f8_of_ratio_ge_mag:
  assumes "d > 0" "mag_val a \<le> real n / real d" "a < f8_inf"
  shows "a \<le> fst (f8_of_ratio n d)"
proof -
  obtain k e where ke: "e > 0" "real k / real e = mag_val a" by (rule mag_val_ratio)
  then show ?thesis
    using f8_of_ratio_exact [OF ke assms(3)] f8_of_ratio_mono [OF ke(1) assms(1), of k n] assms(2) by simp
qed

section \<open>Operations on doubles at least zero\<close>

lemma f8_pos_make:
  assumes "a < f8_inf"
  shows "f8_pos (f8_make False a)" "f8_val (f8_make False a) = mag_val a"
  using f8_make_facts(1,2) [of a False] assms by (simp_all add: f8_pos_def f8_val_def f8_finite_def)

lemma f8_pos_ext: "f8_pos a \<Longrightarrow> f8_pos b \<Longrightarrow> f8_val a = f8_val b \<Longrightarrow> a = b"
  using mag_val_le_iff [of "f8_abs a" "f8_abs b"] mag_val_le_iff [of "f8_abs b" "f8_abs a"]
  by (intro f8_ext) (auto simp: f8_pos_def f8_val_def)

lemma f8_pos_val_le: "f8_pos a \<Longrightarrow> f8_pos b \<Longrightarrow> f8_val a \<le> f8_val b \<longleftrightarrow> f8_key a \<le> f8_key b"
  by (simp add: f8_pos_def f8_val_def f8_key_def)

text \<open>The shape all operations share: a ratio with the exact value, rounded.\<close>

definition rounds_to :: "real \<Rightarrow> f8 \<Rightarrow> bool" where
  "rounds_to v w \<longleftrightarrow> (\<exists>n d. d > 0 \<and> real n / real d = v \<and> w = f8_make False (fst (f8_of_ratio n d)))"

lemma rounds_to_le:
  assumes "rounds_to v w" "f8_pos c" "v \<le> f8_val c"
  shows "f8_pos w" "f8_val w \<le> f8_val c"
proof -
  obtain n d where nd: "d > 0" "real n / real d = v" "w = f8_make False (fst (f8_of_ratio n d))"
    using assms(1) by (auto simp: rounds_to_def)
  have c: "f8_abs c < f8_inf" using assms(2) by (simp add: f8_pos_def f8_finite_def)
  have "fst (f8_of_ratio n d) \<le> f8_abs c"
    using f8_of_ratio_le_mag [OF nd(1) _ c, of n] assms(3) nd(2) by (simp add: f8_val_def)
  with c f8_pos_make [of "fst (f8_of_ratio n d)"] show "f8_pos w" "f8_val w \<le> f8_val c"
    by (simp_all add: nd(3) f8_val_def [of c])
qed

lemma rounds_to_ge:
  assumes "rounds_to v w" "f8_pos w" "f8_pos c" "f8_val c \<le> v"
  shows "f8_val c \<le> f8_val w"
proof -
  obtain n d where nd: "d > 0" "real n / real d = v" "w = f8_make False (fst (f8_of_ratio n d))"
    using assms(1) by (auto simp: rounds_to_def)
  have c: "f8_abs c < f8_inf" using assms(3) by (simp add: f8_pos_def f8_finite_def)
  have "f8_abs c \<le> fst (f8_of_ratio n d)"
    using f8_of_ratio_ge_mag [OF nd(1) _ c, of n] assms(4) nd(2) by (simp add: f8_val_def)
  also have "\<dots> = f8_abs w" using f8_make_facts(1) [OF f8_of_ratio_le] by (simp add: nd(3))
  finally show ?thesis by (simp add: f8_val_def)
qed

lemma rounds_to_exact: "rounds_to v w \<Longrightarrow> f8_pos c \<Longrightarrow> v = f8_val c \<Longrightarrow> w = c"
  by (metis eq_iff f8_pos_ext rounds_to_ge rounds_to_le)

lemma rounds_to_ratio: "d > 0 \<Longrightarrow> rounds_to (real n / real d) (f8_make False (fst (f8_of_ratio n d)))"
  by (auto simp: rounds_to_def)

lemma f8_of_int_rounds: "rounds_to (real n) (f8_of_int (int n))"
  using rounds_to_ratio [of 1 n] by (simp add: f8_of_int_def f8_of_scaled_def)

lemma f8_lit_rounds: "d > 0 \<Longrightarrow> rounds_to (real n / real d) (f8_lit (int n) d)"
  using rounds_to_ratio [of d n] by (simp add: f8_lit_def)

lemma f8_scaled_rounds: "rounds_to (real m * 2 powi x) (f8_of_scaled False m x)"
proof (cases "x \<ge> 0")
  case True
  then show ?thesis
    using rounds_to_ratio [of 1 "m * 2 ^ nat x"] by (simp add: f8_of_scaled_def power_int_def)
next
  case False
  then show ?thesis
    using rounds_to_ratio [of "2 ^ nat (- x)" m] by (simp add: f8_of_scaled_def power_int_def field_simps)
qed

lemma f8_mul_rounds:
  assumes "f8_pos a" "f8_pos b"
  shows "rounds_to (f8_val a * f8_val b) (f8_mul a b)"
proof -
  obtain m x n y where p: "f8_parts a = (m, x)" "f8_parts b = (n, y)" by fastforce
  have "f8_val a * f8_val b = real (m * n) * 2 powi (x + y)"
    by (simp only: f8_val_parts [OF p(1)] f8_val_parts [OF p(2)] two_powi_add) simp
  moreover have "f8_mul a b = f8_of_scaled False (m * n) (x + y)"
    using assms by (simp add: f8_mul_def p f8_pos_def f8_not_nan_finite)
  ultimately show ?thesis using f8_scaled_rounds [of "m * n" "x + y"] by (simp only:)
qed

lemma f8_div_rounds:
  assumes "f8_pos a" "f8_pos b" "f8_abs b \<noteq> 0"
  shows "rounds_to (f8_val a / f8_val b) (f8_div a b)"
proof -
  obtain m x n y where p: "f8_parts a = (m, x)" "f8_parts b = (n, y)" by fastforce
  note va = f8_val_parts [OF p(1)] and vb = f8_val_parts [OF p(2)]
  have "f8_val b \<noteq> 0" using assms(3) by (simp add: f8_val_def)
  then have n: "n > 0" using vb by (cases n) simp_all
  have d: "f8_div a b = f8_make False (fst (if x \<ge> y then f8_of_ratio (m * 2 ^ nat (x - y)) n
                                  else f8_of_ratio m (n * 2 ^ nat (y - x))))"
    using assms by (simp add: f8_div_def p f8_pos_def f8_not_nan_finite)
  have v: "f8_val a / f8_val b = real m / real n * 2 powi (x - y)"
    using va vb by (simp add: power_int_diff)
  show ?thesis
  proof (cases "x \<ge> y")
    case True
    then show ?thesis
      using rounds_to_ratio [OF n, of "m * 2 ^ nat (x - y)"] unfolding d v by (simp add: power_int_def)
  next
    case False
    have "(2 :: real) powi (x - y) = 1 / 2 ^ nat (y - x)" using False by (simp add: power_int_def field_simps)
    then show ?thesis
      using rounds_to_ratio [of "n * 2 ^ nat (y - x)" m] n False unfolding d v by simp
  qed
qed

lemma f8_add_rounds:
  assumes "f8_pos a" "f8_pos b"
  shows "f8_abs (f8_add a b) = rounded (f8_mag (f8_abs a) + f8_mag (f8_abs b))"
proof -
  have b: "f8_abs b < f8_inf" using assms(2) by (simp add: f8_pos_def f8_finite_def)
  have nb: "f8_abs (f8_neg b) = f8_abs b" "f8_sign (f8_neg b)"
    using f8_make_facts(1,2) [of "f8_abs b" True] b assms(2) by (simp_all add: f8_neg_def f8_pos_def)
  have "f8_key (f8_add a b) = round_key (f8_int a - f8_int (f8_neg b))"
    unfolding f8_add_def by (rule f8_sub_key) (use assms nb in \<open>simp_all add: f8_pos_def f8_finite_def\<close>)
  also have "f8_int a - f8_int (f8_neg b) = int (f8_mag (f8_abs a) + f8_mag (f8_abs b))"
    using assms nb by (simp add: f8_int_def f8_pos_def)
  finally have "f8_key (f8_add a b) = int (rounded (f8_mag (f8_abs a) + f8_mag (f8_abs b)))"
    by (simp add: round_key_def del: of_nat_add)
  then show ?thesis by (simp add: f8_key_def split: if_splits)
qed

lemma f8_add_sign:
  assumes "f8_pos a" "f8_pos b"
  shows "\<not> f8_sign (f8_add a b)"
proof -
  have b: "f8_abs b < f8_inf" using assms(2) by (simp add: f8_pos_def f8_finite_def)
  have nb: "f8_abs (f8_neg b) = f8_abs b" "f8_sign (f8_neg b)"
    using f8_make_facts(1,2) [of "f8_abs b" True] b assms(2) by (simp_all add: f8_neg_def f8_pos_def)
  then have fin: "f8_finite a" "f8_finite (f8_neg b)" "\<not> f8_sign a"
    using assms by (simp_all add: f8_pos_def f8_finite_def)
  obtain m x n y where p: "f8_parts a = (m, x)" "f8_parts (f8_neg b) = (n, y)" by fastforce
  define z i j where "z = min x y" and "i = int m * 2 ^ nat (x - z)" and "j = - (int n * 2 ^ nat (y - z))"
  have z: "- 1074 \<le> z" using f8_parts_mag(1) [OF p(1)] f8_parts_mag(1) [OF p(2)] by (simp add: z_def)
  have "f8_add a b = (if i = j then f8_make False 0 else f8_of_scaled (i < j) (nat \<bar>i - j\<bar>) z)"
    using fin nb(2) by (simp add: f8_add_def f8_sub_def f8_not_nan_finite p z_def i_def j_def Let_def)
  moreover have "\<not> i < j" by (simp add: i_def j_def not_less)
      (meson mult_nonneg_nonneg neg_le_0_iff_le of_nat_0_le_iff order_trans zero_le_numeral zero_le_power)
  ultimately show ?thesis using f8_of_scaled_facts(1) [OF z] f8_make_facts(2) [of 0 False] by simp
qed

lemma f8_add_le:
  assumes "f8_pos a" "f8_pos b" "f8_pos c" "f8_val a + f8_val b \<le> f8_val c"
  shows "f8_pos (f8_add a b)" "f8_val (f8_add a b) \<le> f8_val c"
proof -
  have c: "f8_abs c < f8_inf" using assms(3) by (simp add: f8_pos_def f8_finite_def)
  have "real (f8_mag (f8_abs a) + f8_mag (f8_abs b)) * 2 powi (- 1074) \<le> real (f8_mag (f8_abs c)) * 2 powi (- 1074)"
    using assms(4) by (simp add: f8_val_def mag_val_def distrib_right)
  then have "real (f8_mag (f8_abs a) + f8_mag (f8_abs b)) \<le> real (f8_mag (f8_abs c))"
    by (rule mult_right_le_imp_le) simp
  then have "f8_mag (f8_abs a) + f8_mag (f8_abs b) \<le> f8_mag (f8_abs c)" by (simp only: of_nat_le_iff)
  then have "f8_abs (f8_add a b) \<le> f8_abs c"
    using rounded_mono [of _ "f8_mag (f8_abs c)"] rounded_mag [OF c] f8_add_rounds [OF assms(1,2)] by simp
  with c f8_add_sign [OF assms(1,2)] show "f8_pos (f8_add a b)" "f8_val (f8_add a b) \<le> f8_val c"
    by (simp_all add: f8_pos_def f8_finite_def f8_val_def)
qed

section \<open>Small whole numbers are doubles\<close>

lemma split_digits: "(r :: nat) < m \<Longrightarrow> (r + k * m) div m = k" "(r :: nat) < m \<Longrightarrow> (r + k * m) mod m = r"
  by simp_all

lemma whole_double:
  assumes "n < 2 ^ 53"
  obtains c where "f8_pos c" "f8_val c = real n"
proof (cases "n = 0")
  case True
  show thesis by (rule that [of "f8_make False 0"]) (use True f8_pos_make [of 0] in \<open>simp_all add: f8_inf_def\<close>)
next
  case False
  define b where "b = bit_length n"
  have b: "2 ^ (b - 1) \<le> n" "n < 2 ^ b" "b > 0" "b \<le> 53"
    using False bit_length_bounds [of n] bit_length_unique [of 52 "2 ^ 52"] bit_length_mono [of n "2 ^ 53 - 1"]
      bit_length_unique [of 52 "2 ^ 53 - 1"] assms by (simp_all add: b_def)
  define q a where "q = n * 2 ^ (53 - b)" and "a = (b + 1021) * 2 ^ 52 + q"
  have "2 ^ (b - 1) * 2 ^ (53 - b) \<le> q" "q < 2 ^ b * 2 ^ (53 - b)" unfolding q_def using b by simp_all
  then have q: "2 ^ 52 \<le> q" "q < 2 ^ 53" using b(3,4) by (simp_all flip: power_add)
  have a: "a div 2 ^ 52 = b + 1022" "a mod 2 ^ 52 = q - 2 ^ 52"
  proof -
    have "a = (q - 2 ^ 52) + (b + 1022) * 2 ^ 52" using q by (simp add: a_def algebra_simps)
    moreover have "q - 2 ^ 52 < 2 ^ 52" using q by simp
    ultimately show "a div 2 ^ 52 = b + 1022" "a mod 2 ^ 52 = q - 2 ^ 52" by (simp_all only: split_digits)
  qed
  have "f8_mag a = q * 2 ^ (b + 1021)" using a q b(3) by (simp add: f8_mag_def)
  then have "mag_val a = real n * (2 ^ (53 - b) * 2 ^ (b + 1021)) * 2 powi (- 1074)"
    by (simp add: mag_val_def q_def)
  also have "(2 :: real) ^ (53 - b) * 2 ^ (b + 1021) = 2 powi 1074"
    using b(4) by (simp flip: power_add)
  also have "real n * 2 powi 1074 * 2 powi (- 1074) = real n * (2 powi (1074 + - 1074))"
    by (simp only: two_powi_add mult.assoc)
  finally have v: "mag_val a = real n" by simp
  have "a < f8_inf" using b(4) q(2) by (simp add: a_def f8_inf_def)
  from that [of "f8_make False a"] f8_pos_make [OF this] v show thesis by simp
qed

lemma f8_whole:
  assumes "n < 2 ^ 53"
  shows "f8_pos (f8_of_int (int n))" "f8_val (f8_of_int (int n)) = real n"
    "f8_pos (f8_lit (int n) 1)" "f8_val (f8_lit (int n) 1) = real n"
proof -
  obtain c where c: "f8_pos c" "f8_val c = real n" by (rule whole_double [OF assms])
  have "f8_of_int (int n) = c" by (rule rounds_to_exact [OF f8_of_int_rounds c(1)]) (simp add: c(2))
  moreover have "f8_lit (int n) 1 = c"
    by (rule rounds_to_exact [OF f8_lit_rounds [of 1 n] c(1)]) (simp_all add: c(2))
  ultimately show "f8_pos (f8_of_int (int n))" "f8_val (f8_of_int (int n)) = real n"
    "f8_pos (f8_lit (int n) 1)" "f8_val (f8_lit (int n) 1) = real n" using c by simp_all
qed

lemma f8_pos_0 [simp]: "f8_pos 0" "f8_val 0 = 0"
  by (simp_all add: f8_pos_def f8_finite_def f8_sign_def f8_abs_def f8_inf_def f8_val_def)

lemma f8_abs_nonzero: "f8_val w > 0 \<Longrightarrow> f8_abs w \<noteq> 0"
  by (metis f8_val_def less_irrefl mag_val_zero)

text \<open>Truncation of a double at least zero, where it fits.\<close>

lemma f8_to_i64_pos:
  assumes "f8_pos w" "f8_val w < 2 ^ 63"
  shows "f8_to_i64 w = Some \<lfloor>f8_val w\<rfloor>"
proof -
  obtain m x where p: "f8_parts w = (m, x)" by force
  note v = f8_val_parts [OF p]
  define a where "a = (if x \<ge> 0 then m * 2 ^ nat x else m div 2 ^ nat (- x))"
  have "int a = \<lfloor>f8_val w\<rfloor>"
  proof (cases "x \<ge> 0")
    case True
    have "f8_val w = real (m * 2 ^ nat x)" using v True by (simp add: power_int_def)
    then show ?thesis using True by (simp only: a_def floor_of_nat if_True)
  next
    case False
    have "f8_val w = real m / real (2 ^ nat (- x))" using v False by (simp add: power_int_def field_simps)
    then show ?thesis using False by (simp only: a_def floor_divide_of_nat_eq if_False)
  qed
  moreover from this have "real_of_int (int a) \<le> f8_val w" by simp
  with assms(2) have "real a < real (2 ^ 63)" by simp
  then have "a < 2 ^ 63" by (simp only: of_nat_less_iff)
  ultimately show ?thesis
    using assms(1) by (simp add: f8_to_i64_def p f8_pos_def Let_def flip: a_def)
qed

end
