(* ===== verification/Scan_Thread.thy ===== *)
theory Scan_Thread
  imports Hardware Std_Ratio Controller
begin

text \<open>
  The scan thread, \<^verbatim>\<open>src/hw/scan_thread.cpp\<close>: one run over a wafer. What the thread learns from outside is
  the environment \<open>scan_env\<close>: the abort flag each time it is polled, the clock, and whether the sample queue
  took a block. What it does to the outside, in order, is its list of effects.
\<close>

section \<open>Data\<close>

datatype scan_effect =
    Bus core_event
  | Alarm_call alarm_call
  | Sleep f8
  | Push sample_block
  | On_lines_complete string
  | On_stopped

record scan_env =
  abort_polled :: "nat \<Rightarrow> bool"  \<comment> \<open>the flag before the sample of this number\<close>
  elapsed_s :: "nat \<Rightarrow> nat \<Rightarrow> f8"  \<comment> \<open>seconds since the start, per sample and injector\<close>
  stamp :: "nat \<Rightarrow> int"  \<comment> \<open>the timestamp of a sample\<close>
  push_taken :: "nat \<Rightarrow> bool"  \<comment> \<open>whether the queue took the block of a line\<close>

definition parse_fault_type :: "string \<Rightarrow> fault_type option" where
  "parse_fault_type t =
     (if t = ''spike'' then Some kSpike
      else if t = ''burst'' then Some kBurst
      else if t = ''dropout'' then Some kDropout
      else if t = ''stuck'' then Some kStuck
      else if t = ''drift'' then Some kDrift
      else if t = ''saturation'' then Some kSaturation
      else if t = ''stage_stall'' then Some kStageStall
      else None)"

definition to_fault_spec :: "fault_config \<Rightarrow> fault_type \<Rightarrow> fault_spec" where
  "to_fault_spec fc t =
     \<lparr>sp_type = t, sp_rate = fc_rate fc, sp_amplitude_um = fc_amplitude_um fc,
      sp_length_samples = fc_length_samples fc, sp_drift_um_per_s = fc_drift_um_per_s fc,
      sp_saturation_limit_um = fc_saturation_limit_um fc, sp_stall_duration_s = fc_stall_duration_s fc\<rparr>"

record 'g active_fault =
  af_injector :: "'g fault_injector"
  af_stall_duration_s :: f8

text \<open>The faults configured for this wafer; unknown types are skipped.\<close>

definition active_faults ::
    "('g, 'n) random_lib \<Rightarrow> u64 \<Rightarrow> string \<Rightarrow> fault_config list \<Rightarrow> 'g active_fault list" where
  "active_faults rl seed wafer fcs =
     concat (map (\<lambda>fc.
       if fc_wafer fc \<noteq> wafer then []
       else case parse_fault_type (fc_type fc) of
              None \<Rightarrow> []
            | Some t \<Rightarrow> [\<lparr>af_injector = new_fault_injector rl (to_fault_spec fc t) seed,
                         af_stall_duration_s = fc_stall_duration_s fc\<rparr>]) fcs)"

section \<open>One sample\<close>

text \<open>What does not change during a run.\<close>

record ('g, 'n) scan_run =
  ru_random :: "('g, 'n) random_lib"
  ru_trig :: trig
  ru_model :: wafer_model
  ru_config :: scan_config
  ru_wafer :: string
  ru_points :: nat
  ru_env :: scan_env

text \<open>What does.\<close>

record ('g, 'n) scan_state =
  ss_hw :: "('g, 'n) simulated_hardware"
  ss_injectors :: "'g active_fault list"
  ss_sample_index :: nat
  ss_last_percent :: int
  ss_effects :: "scan_effect list"

definition stall_effects :: "f8 \<Rightarrow> f8 \<Rightarrow> scan_effect list" where
  "stall_effects rtf stall_duration =
     [Alarm_call (Set_alarm kScanStall ''stage stall fault triggered'')] @
     (if f8_less 0 rtf \<and> f8_less 0 stall_duration then [Sleep (f8_div stall_duration rtf)] else []) @
     [Alarm_call (Clear_alarm kScanStall)]"

text \<open>The loop over the injectors: the height and whether the sample is dropped.\<close>

fun inject ::
    "('g, 'n) random_lib \<Rightarrow> f8 \<Rightarrow> (nat \<Rightarrow> f8) \<Rightarrow> nat \<Rightarrow> 'g active_fault list \<Rightarrow> f8
       \<Rightarrow> (f8 \<times> bool) \<times> 'g active_fault list \<times> scan_effect list" where
  "inject rl rtf elapsed k [] z = ((z, False), [], [])"
| "inject rl rtf elapsed k (a # as) z =
     (case fault_apply rl (elapsed k) z (af_injector a) of
        (sample, fi) \<Rightarrow>
          case fa_height_m sample of
            None \<Rightarrow> ((z, True), a\<lparr>af_injector := fi\<rparr> # as, [])
          | Some h \<Rightarrow>
              (case inject rl rtf elapsed (Suc k) as h of
                 (r, as', es) \<Rightarrow>
                   (r, a\<lparr>af_injector := fi\<rparr> # as',
                    (if fa_stage_stall sample then stall_effects rtf (af_stall_duration_s a) else []) @ es)))"

definition radius_of :: "('g, 'n) scan_run \<Rightarrow> f8" where
  "radius_of ru = f8_div (tr_diameter_m (wl_truth (ru_model ru))) (f8_lit 2 1)"

definition line_position :: "f8 \<Rightarrow> nat \<Rightarrow> nat \<Rightarrow> f8" where
  "line_position radius n_points p =
     f8_add (f8_neg radius)
       (f8_div (f8_mul (f8_mul (f8_lit 2 1) radius) (f8_of_nat p)) (f8_of_int (int n_points - 1)))"

text \<open>\<^verbatim>\<open>static_cast<int>\<close> of a double, \<open>None\<close> where it is undefined.\<close>

definition f8_to_i32 :: "f8 \<Rightarrow> int option" where
  "f8_to_i32 w =
     (case f8_to_i64 w of None \<Rightarrow> None | Some i \<Rightarrow> if - (2 ^ 31) \<le> i \<and> i < 2 ^ 31 then Some i else None)"

definition percent_done :: "nat \<Rightarrow> nat \<Rightarrow> nat \<Rightarrow> nat \<Rightarrow> int option" where
  "percent_done n_lines n_points line p =
     f8_to_i32
       (f8_div (f8_mul (f8_lit 100 1)
                 (f8_add (f8_of_nat line) (f8_div (f8_of_nat (p + 1)) (f8_of_nat n_points))))
               (f8_of_nat n_lines))"

definition n_lines :: "('g, 'n) scan_run \<Rightarrow> nat" where
  "n_lines ru = nat (sint (sn_lines (ru_config ru)))"

definition add_to_block :: "f8 \<Rightarrow> f8 \<Rightarrow> int \<Rightarrow> sample_block \<Rightarrow> sample_block" where
  "add_to_block s z t b =
     b\<lparr>sb_positions_m := sb_positions_m b @ [s], sb_heights_m := sb_heights_m b @ [z],
       sb_timestamps := sb_timestamps b @ [t]\<rparr>"

text \<open>The body of the inner loop after the abort flag; \<open>None\<close> where the percentage does not fit an int.\<close>

definition scan_point ::
    "('g, 'n) scan_run \<Rightarrow> nat \<Rightarrow> nat \<Rightarrow> ('g, 'n) scan_state \<times> sample_block
       \<Rightarrow> (('g, 'n) scan_state \<times> sample_block) option" where
  "scan_point ru line p = (\<lambda>(st, block).
     let s = line_position (radius_of ru) (ru_points ru) p; i = ss_sample_index st
     in case move_to s (hw_stage (ss_hw st)) of
          (stage, sleep) \<Rightarrow>
            case read_height_m (ru_random ru) (ru_trig ru) (ru_model ru) stage (hw_laser (ss_hw st)) of
              (raw, laser) \<Rightarrow>
                case inject (ru_random ru) (sn_realtime_factor (ru_config ru)) (elapsed_s (ru_env ru) i) 0
                       (ss_injectors st) raw of
                  ((z, dropped), injectors, es) \<Rightarrow>
                    map_option (\<lambda>percent.
                      (\<lparr>ss_hw = \<lparr>hw_stage = stage, hw_laser = laser\<rparr>, ss_injectors = injectors,
                        ss_sample_index = i + 1,
                        ss_last_percent = max percent (ss_last_percent st),
                        ss_effects = ss_effects st @ (case sleep of Some d \<Rightarrow> [Sleep d] | None \<Rightarrow> []) @ es @
                          (if percent > ss_last_percent st
                           then [Bus (ScanProgress (ru_wafer ru) (f8_of_int percent))] else [])\<rparr>,
                       add_to_block s (if dropped then quiet_nan else z) (stamp (ru_env ru) i) block))
                      (percent_done (n_lines ru) (ru_points ru) line p))"

section \<open>A run\<close>

text \<open>The inner loop from point \<open>p\<close> on, with \<open>left\<close> points to go; the flag says whether it was aborted.\<close>

fun scan_points ::
    "('g, 'n) scan_run \<Rightarrow> nat \<Rightarrow> nat \<Rightarrow> nat \<Rightarrow> ('g, 'n) scan_state \<times> sample_block
       \<Rightarrow> (bool \<times> ('g, 'n) scan_state \<times> sample_block) option" where
  "scan_points ru line p 0 sb = Some (False, sb)"
| "scan_points ru line p (Suc left) sb =
     (if abort_polled (ru_env ru) (ss_sample_index (fst sb)) then Some (True, sb)
      else Option.bind (scan_point ru line p sb) (scan_points ru line (Suc p) left))"

definition line_angle :: "('g, 'n) scan_run \<Rightarrow> nat \<Rightarrow> f8" where
  "line_angle ru line = f8_div (f8_mul kPi (f8_of_nat line)) (f8_of_nat (n_lines ru))"

definition line_percent :: "('g, 'n) scan_run \<Rightarrow> nat \<Rightarrow> bool \<Rightarrow> f8" where
  "line_percent ru line aborted =
     f8_div (f8_mul (f8_lit 100 1) (f8_of_nat (line + (if aborted then 0 else 1)))) (f8_of_nat (n_lines ru))"

definition empty_block :: "nat \<Rightarrow> f8 \<Rightarrow> sample_block" where
  "empty_block line theta =
     \<lparr>sb_line_index = line, sb_angle_rad = theta, sb_positions_m = [], sb_heights_m = [], sb_timestamps = []\<rparr>"

definition scan_line ::
    "('g, 'n) scan_run \<Rightarrow> nat \<Rightarrow> ('g, 'n) scan_state \<Rightarrow> (bool \<times> ('g, 'n) scan_state) option" where
  "scan_line ru line st =
     (let theta = line_angle ru line;
          st = st\<lparr>ss_hw := (ss_hw st)\<lparr>hw_stage := set_line theta (hw_stage (ss_hw st))\<rparr>\<rparr>
      in map_option (\<lambda>(aborted, st, block).
           (aborted, st\<lparr>ss_effects := ss_effects st @
              [Bus (ScanProgress (ru_wafer ru) (line_percent ru line aborted)), Push block] @
              (if \<not> push_taken (ru_env ru) line \<and> \<not> aborted
               then [Alarm_call (Set_alarm kQueueOverflow ''sample queue full, block dropped'')] else [])\<rparr>))
         (scan_points ru line 0 (ru_points ru) (st, empty_block line theta)))"

text \<open>The outer loop from a line on, with \<open>left\<close> lines to go.\<close>

fun scan_lines ::
    "('g, 'n) scan_run \<Rightarrow> nat \<Rightarrow> nat \<Rightarrow> ('g, 'n) scan_state \<Rightarrow> (bool \<times> ('g, 'n) scan_state) option" where
  "scan_lines ru line 0 st = Some (False, st)"
| "scan_lines ru line (Suc left) st =
     Option.bind (scan_line ru line st)
       (\<lambda>(aborted, st). if aborted then Some (True, st) else scan_lines ru (Suc line) left st)"

text \<open>The number of points of a line; \<open>None\<close> where the conversion to int is undefined.\<close>

definition scan_n_points :: "wafer_model \<Rightarrow> scan_config \<Rightarrow> int option" where
  "scan_n_points w sn =
     (let radius = f8_div (tr_diameter_m (wl_truth w)) (f8_lit 2 1)
      in case f8_to_i32 (f8_mul (f8_mul (f8_mul radius (f8_lit 2 1)) (f8_lit 1000 1))
                  (f8_of_int (sint (sn_points_per_mm sn)))) of
           None \<Rightarrow> None
         | Some i \<Rightarrow> if i + 1 < 2 ^ 31 then Some (i + 1) else None)"

definition scan_thread_run ::
    "('g, 'n) random_lib \<Rightarrow> trig \<Rightarrow> wafer_model \<Rightarrow> scan_config \<Rightarrow> fault_config list \<Rightarrow> scan_env \<Rightarrow> string
       \<Rightarrow> ('g, 'n) simulated_hardware \<Rightarrow> (('g, 'n) simulated_hardware \<times> scan_effect list) option" where
  "scan_thread_run rl tg w sn faults env wafer hw =
     Option.bind (scan_n_points w sn) (\<lambda>n_points.
       let ru = \<lparr>ru_random = rl, ru_trig = tg, ru_model = w, ru_config = sn, ru_wafer = wafer,
                 ru_points = nat n_points, ru_env = env\<rparr>;
           st = \<lparr>ss_hw = hw, ss_injectors = active_faults rl (wl_seed w) wafer faults, ss_sample_index = 0,
                 ss_last_percent = - 1, ss_effects = []\<rparr>
       in map_option (\<lambda>(aborted, st).
            (ss_hw st, ss_effects st @ [if aborted then On_stopped else On_lines_complete wafer]))
          (scan_lines ru 0 (n_lines ru) st))"

section \<open>What a run shows to the outside\<close>

fun blocks_of :: "scan_effect list \<Rightarrow> sample_block list" where
  "blocks_of [] = []"
| "blocks_of (Push b # es) = b # blocks_of es"
| "blocks_of (_ # es) = blocks_of es"

fun progress_of :: "scan_effect list \<Rightarrow> f8 list" where
  "progress_of [] = []"
| "progress_of (Bus (ScanProgress w x) # es) = x # progress_of es"
| "progress_of (_ # es) = progress_of es"

fun alarm_calls_of :: "scan_effect list \<Rightarrow> alarm_call list" where
  "alarm_calls_of [] = []"
| "alarm_calls_of (Alarm_call k # es) = k # alarm_calls_of es"
| "alarm_calls_of (_ # es) = alarm_calls_of es"

fun ends_of :: "scan_effect list \<Rightarrow> scan_effect list" where
  "ends_of [] = []"
| "ends_of (On_stopped # es) = On_stopped # ends_of es"
| "ends_of (On_lines_complete w # es) = On_lines_complete w # ends_of es"
| "ends_of (_ # es) = ends_of es"

definition alarms_after :: "scan_effect list \<Rightarrow> alarm_table \<Rightarrow> alarm_table" where
  "alarms_after es t = fold (\<lambda>k t. fst (alarm_step id k t)) (alarm_calls_of es) t"

lemma of_append [simp]:
  "blocks_of (es @ fs) = blocks_of es @ blocks_of fs" "progress_of (es @ fs) = progress_of es @ progress_of fs"
  "alarm_calls_of (es @ fs) = alarm_calls_of es @ alarm_calls_of fs" "ends_of (es @ fs) = ends_of es @ ends_of fs"
  "alarms_after (es @ fs) t = alarms_after fs (alarms_after es t)"
proof -
  show "blocks_of (es @ fs) = blocks_of es @ blocks_of fs" by (induction es rule: blocks_of.induct) simp_all
  show "progress_of (es @ fs) = progress_of es @ progress_of fs" by (induction es rule: progress_of.induct) simp_all
  show a: "alarm_calls_of (es @ fs) = alarm_calls_of es @ alarm_calls_of fs"
    by (induction es rule: alarm_calls_of.induct) simp_all
  show "ends_of (es @ fs) = ends_of es @ ends_of fs" by (induction es rule: ends_of.induct) simp_all
  show "alarms_after (es @ fs) t = alarms_after fs (alarms_after es t)" by (simp add: alarms_after_def a)
qed

text \<open>A report of progress is a percentage.\<close>

definition percentage :: "f8 \<Rightarrow> bool" where
  "percentage x \<longleftrightarrow> f8_pos x \<and> f8_val x \<le> 100"

text \<open>Effects of points: no block, no end of the run, percentages only, and no trace in the alarm table.\<close>

definition quiet :: "scan_effect list \<Rightarrow> bool" where
  "quiet es \<longleftrightarrow> blocks_of es = [] \<and> ends_of es = [] \<and> list_all percentage (progress_of es) \<and>
     (\<forall>t. \<not> is_active t kScanStall \<longrightarrow> alarms_after es t = t)"

lemma quiet_append: "quiet es \<Longrightarrow> quiet fs \<Longrightarrow> quiet (es @ fs)"
  by (simp add: quiet_def)

lemma quiet_Nil [simp]: "quiet []" "quiet [Sleep d]"
  by (simp_all add: quiet_def alarms_after_def)

lemma quiet_progress: "percentage x \<Longrightarrow> quiet [Bus (ScanProgress w x)]"
  by (simp add: quiet_def alarms_after_def)

lemma set_then_clear:
  assumes "\<not> is_active t a"
  shows "fst (alarm_clear a (fst (alarm_set a why t))) = t"
proof -
  have "filter (\<lambda>e. fst e \<noteq> a) t = t"
    using assms by (auto simp: is_active_def filter_id_conv map_of_eq_None_iff)
  moreover have "map_of (t @ [(a, why)]) a \<noteq> None" by (simp add: map_add_Some_iff split: option.splits)
  ultimately show ?thesis using assms by (simp add: alarm_set_def alarm_clear_def is_active_def)
qed

lemma quiet_stall: "quiet (stall_effects rtf d)"
  using set_then_clear [where a = kScanStall]
  by (simp add: quiet_def stall_effects_def alarms_after_def)

lemma quiet_inject: "inject rl rtf elapsed k as z = (r, as', es) \<Longrightarrow> quiet es"
proof (induction as arbitrary: k z r as' es)
  case (Cons a as)
  then show ?case
    by (cases r) (auto split: prod.splits option.splits if_splits intro!: quiet_append quiet_stall)
qed simp

section \<open>Percentages\<close>

lemma f8_of_nat_val: "n < 2 ^ 53 \<Longrightarrow> f8_pos (f8_of_nat n) \<and> f8_val (f8_of_nat n) = real n"
  using f8_whole by (simp add: f8_of_nat_def)

lemmas f8_100 = f8_whole(3,4) [of 100, simplified]

lemma line_percentage:
  assumes "m \<le> l" "0 < l" "l < 2 ^ 31"
  shows "percentage (f8_div (f8_mul (f8_lit 100 1) (f8_of_nat m)) (f8_of_nat l))"
    and "m = l \<Longrightarrow> f8_div (f8_mul (f8_lit 100 1) (f8_of_nat m)) (f8_of_nat l) = f8_lit 100 1"
proof -
  have m: "f8_pos (f8_of_nat m)" "f8_val (f8_of_nat m) = real m" using f8_of_nat_val [of m] assms by simp_all
  have l: "f8_pos (f8_of_nat l)" "f8_val (f8_of_nat l) = real l" using f8_of_nat_val [of l] assms by simp_all
  have h: "f8_pos (f8_of_nat (100 * m))" "f8_val (f8_of_nat (100 * m)) = 100 * real m"
    using f8_of_nat_val [of "100 * m"] assms by simp_all
  have "f8_mul (f8_lit 100 (Suc 0)) (f8_of_nat m) = f8_of_nat (100 * m)"
    by (rule rounds_to_exact [OF f8_mul_rounds [OF f8_100(1) m(1)] h(1)]) (simp add: f8_100 m h)
  then have r: "rounds_to (100 * real m / real l) (f8_div (f8_mul (f8_lit 100 1) (f8_of_nat m)) (f8_of_nat l))"
    using f8_div_rounds [OF h(1) l(1)] f8_abs_nonzero [of "f8_of_nat l"] assms(2) h(2) l(2) by simp
  have "100 * real m / real l \<le> 100" using assms by (simp add: pos_divide_le_eq)
  with rounds_to_le [OF r f8_100(1)] show "percentage (f8_div (f8_mul (f8_lit 100 1) (f8_of_nat m)) (f8_of_nat l))"
    by (simp add: percentage_def f8_100)
  show "f8_div (f8_mul (f8_lit 100 1) (f8_of_nat m)) (f8_of_nat l) = f8_lit 100 1" if "m = l"
    using rounds_to_exact [OF r f8_100(1)] that assms by (simp add: f8_100)
qed

lemma percent_done_Some:
  assumes "line < l" "p < n" "l < 2 ^ 31" "n < 2 ^ 31"
  shows "\<exists>i. percent_done l n line p = Some i \<and> percentage (f8_of_int i)"
proof -
  note one = f8_of_nat_val [of 1, simplified]
  have n: "f8_pos (f8_of_nat n)" "f8_val (f8_of_nat n) = real n" using f8_of_nat_val [of n] assms by simp_all
  have p: "f8_pos (f8_of_nat (p + 1))" "f8_val (f8_of_nat (p + 1)) = real (p + 1)"
    using f8_of_nat_val [of "p + 1"] assms by simp_all
  have li: "f8_pos (f8_of_nat line)" "f8_val (f8_of_nat line) = real line"
    using f8_of_nat_val [of line] assms by simp_all
  have sl: "f8_pos (f8_of_nat (Suc line))" "f8_val (f8_of_nat (Suc line)) = 1 + real line"
    using f8_of_nat_val [of "Suc line"] assms by simp_all
  have h: "f8_pos (f8_of_nat (100 + 100 * line))" "f8_val (f8_of_nat (100 + 100 * line)) = 100 + 100 * real line"
    using f8_of_nat_val [of "100 + 100 * line"] assms by simp_all
  have l: "f8_pos (f8_of_nat l)" "f8_val (f8_of_nat l) = real l" using f8_of_nat_val [of l] assms by simp_all
  define f where "f = f8_div (f8_of_nat (p + 1)) (f8_of_nat n)"
  have "rounds_to (real (p + 1) / real n) f"
    using f8_div_rounds [OF p(1) n(1)] f8_abs_nonzero [of "f8_of_nat n"] assms(2) p(2) n(2) by (simp add: f_def)
  from rounds_to_le [OF this one [THEN conjunct1]] have f: "f8_pos f" "f8_val f \<le> 1" using assms(2) by (simp_all add: one)
  define g where "g = f8_add (f8_of_nat line) f"
  have g: "f8_pos g" "f8_val g \<le> real (line + 1)"
    using f8_add_le [OF li(1) f(1) sl(1)] f(2) by (simp_all add: g_def li sl)
  define k where "k = f8_mul (f8_lit 100 1) g"
  have "100 * f8_val g \<le> f8_val (f8_of_nat (100 + 100 * line))" using g(2) by (simp add: h)
  then have k: "f8_pos k" "f8_val k \<le> 100 * real (line + 1)"
    using rounds_to_le [OF f8_mul_rounds [OF f8_100(1) g(1)] h(1)] by (simp_all add: k_def f8_100 h)
  define q where "q = f8_div k (f8_of_nat l)"
  have "rounds_to (f8_val k / real l) q"
    using f8_div_rounds [OF k(1) l(1)] f8_abs_nonzero [of "f8_of_nat l"] assms(1) l(2) by (simp add: q_def)
  moreover have "f8_val k / real l \<le> 100"
  proof -
    have "real (line + 1) \<le> real l" using assms(1) by simp
    then have "100 * real (line + 1) \<le> 100 * real l" by (intro mult_left_mono) simp_all
    with k(2) have "f8_val k \<le> 100 * real l" by (rule order_trans)
    then show ?thesis using assms(1) by (simp add: pos_divide_le_eq)
  qed
  ultimately have q: "f8_pos q" "f8_val q \<le> 100" using rounds_to_le [OF _ f8_100(1)] by (simp_all add: f8_100)
  define i where "i = \<lfloor>f8_val q\<rfloor>"
  have i: "0 \<le> i" "i \<le> 100" using q(2) f8_val_nonneg [of q] by (simp_all add: i_def floor_le_iff)
  have "percent_done l n line p = f8_to_i32 q" by (simp add: percent_done_def q_def k_def g_def f_def)
  also have "\<dots> = Some i" using f8_to_i64_pos [OF q(1), folded i_def] q(2) i by (simp add: f8_to_i32_def)
  finally have "percent_done l n line p = Some i" .
  moreover have "percentage (f8_of_int i)"
    using f8_whole(1,2) [of "nat i"] i by (simp add: percentage_def)
  ultimately show ?thesis by blast
qed

section \<open>Lines and runs\<close>

text \<open>How many of the next samples are taken before an abort is seen.\<close>

definition taken :: "scan_env \<Rightarrow> nat \<Rightarrow> nat \<Rightarrow> nat" where
  "taken env i n = length (takeWhile (\<lambda>j. \<not> abort_polled env j) [i..<i + n])"

lemma taken_0 [simp]: "taken env i 0 = 0"
  by (simp add: taken_def)

lemma taken_le: "taken env i n \<le> n"
  using length_takeWhile_le [of "\<lambda>j. \<not> abort_polled env j" "[i..<i + n]"] by (simp add: taken_def)

lemma taken_Suc: "taken env i (Suc n) = (if abort_polled env i then 0 else Suc (taken env (Suc i) n))"
  by (simp add: taken_def upt_rec [of i])

lemma taken_add: "taken env i (m + n) = (if taken env i m < m then taken env i m else m + taken env (i + m) n)"
proof (induction m arbitrary: i)
  case (Suc m)
  then show ?case by (simp add: taken_Suc)
qed simp

definition even_block :: "sample_block \<Rightarrow> bool" where
  "even_block b \<longleftrightarrow> length (sb_heights_m b) = length (sb_positions_m b) \<and>
     length (sb_timestamps b) = length (sb_positions_m b)"

definition shape :: "sample_block \<Rightarrow> nat \<times> nat" where
  "shape b = (sb_line_index b, length (sb_positions_m b))"

lemma scan_point_step:
  assumes "line < n_lines ru" "p < ru_points ru" "n_lines ru < 2 ^ 31" "ru_points ru < 2 ^ 31"
  obtains st' b' es where "scan_point ru line p (st, b) = Some (st', b')"
    "ss_sample_index st' = Suc (ss_sample_index st)" "ss_effects st' = ss_effects st @ es" "quiet es"
    "sb_line_index b' = sb_line_index b" "length (sb_positions_m b') = Suc (length (sb_positions_m b))"
    "even_block b \<Longrightarrow> even_block b'"
proof -
  let ?s = "line_position (radius_of ru) (ru_points ru) p" and ?i = "ss_sample_index st"
  obtain stage sleep where m: "move_to ?s (hw_stage (ss_hw st)) = (stage, sleep)" by force
  obtain raw laser where r: "read_height_m (ru_random ru) (ru_trig ru) (ru_model ru) stage (hw_laser (ss_hw st)) =
      (raw, laser)" by force
  obtain z dropped injectors es where j: "inject (ru_random ru) (sn_realtime_factor (ru_config ru))
      (elapsed_s (ru_env ru) ?i) 0 (ss_injectors st) raw = ((z, dropped), injectors, es)" by (metis surj_pair)
  obtain i where i: "percent_done (n_lines ru) (ru_points ru) line p = Some i" "percentage (f8_of_int i)"
    using percent_done_Some [OF assms] by blast
  let ?es = "(case sleep of Some d \<Rightarrow> [Sleep d] | None \<Rightarrow> []) @ es @
    (if i > ss_last_percent st then [Bus (ScanProgress (ru_wafer ru) (f8_of_int i))] else [])"
  have sp: "scan_point ru line p (st, b) =
      Some (\<lparr>ss_hw = \<lparr>hw_stage = stage, hw_laser = laser\<rparr>, ss_injectors = injectors, ss_sample_index = ?i + 1,
              ss_last_percent = max i (ss_last_percent st), ss_effects = ss_effects st @ ?es\<rparr>,
            add_to_block ?s (if dropped then quiet_nan else z) (stamp (ru_env ru) ?i) b)"
    by (simp add: scan_point_def Let_def m r j i)
  have q: "quiet ?es" using quiet_inject [OF j] quiet_progress [OF i(2)]
    by (intro quiet_append) (simp_all split: option.split)
  show thesis
    by (rule that [OF sp _ _ q]) (simp_all add: add_to_block_def even_block_def)
qed

lemma scan_points_run:
  assumes "line < n_lines ru" "p + left = ru_points ru" "n_lines ru < 2 ^ 31" "ru_points ru < 2 ^ 31"
    and "even_block b"
  shows "\<exists>st' b' es. scan_points ru line p left (st, b) =
      Some (taken (ru_env ru) (ss_sample_index st) left < left, st', b') \<and>
    ss_sample_index st' = ss_sample_index st + taken (ru_env ru) (ss_sample_index st) left \<and>
    ss_effects st' = ss_effects st @ es \<and> quiet es \<and> even_block b' \<and> sb_line_index b' = sb_line_index b \<and>
    length (sb_positions_m b') = length (sb_positions_m b) + taken (ru_env ru) (ss_sample_index st) left"
  using assms(2,5)
proof (induction left arbitrary: p st b)
  case 0
  then show ?case by force
next
  case (Suc left)
  show ?case
  proof (cases "abort_polled (ru_env ru) (ss_sample_index st)")
    case True
    then show ?thesis using Suc.prems by (force simp: taken_Suc)
  next
    case False
    have p: "p < ru_points ru" using Suc.prems(1) by simp
    obtain st1 b1 es where s: "scan_point ru line p (st, b) = Some (st1, b1)"
      "ss_sample_index st1 = Suc (ss_sample_index st)" "ss_effects st1 = ss_effects st @ es" "quiet es"
      "sb_line_index b1 = sb_line_index b" "length (sb_positions_m b1) = Suc (length (sb_positions_m b))"
      "even_block b1"
      using scan_point_step [OF assms(1) p assms(3,4)] Suc.prems(2) by metis
    from Suc.IH [of "Suc p" b1 st1] Suc.prems(1) s(7) obtain st' b' fs where
      "scan_points ru line (Suc p) left (st1, b1) = Some (taken (ru_env ru) (ss_sample_index st1) left < left, st', b')"
      "ss_sample_index st' = ss_sample_index st1 + taken (ru_env ru) (ss_sample_index st1) left"
      "ss_effects st' = ss_effects st1 @ fs" "quiet fs" "even_block b'" "sb_line_index b' = sb_line_index b1"
      "length (sb_positions_m b') = length (sb_positions_m b1) + taken (ru_env ru) (ss_sample_index st1) left"
      by auto
    then show ?thesis using False s quiet_append [OF s(4)] by (auto simp: taken_Suc)
  qed
qed

definition overflowed :: "alarm_table \<Rightarrow> alarm_table" where
  "overflowed t = fst (alarm_set kQueueOverflow ''sample queue full, block dropped'' t)"

lemma overflowed_facts:
  "\<not> is_active t kScanStall \<Longrightarrow> \<not> is_active (overflowed t) kScanStall" "overflowed (overflowed t) = overflowed t"
proof -
  have "is_active (overflowed t) kQueueOverflow"
    by (auto simp: overflowed_def alarm_set_def is_active_def map_add_Some_iff split: option.splits)
  then show "overflowed (overflowed t) = overflowed t"
    by (subst overflowed_def) (auto simp: alarm_set_def is_active_def)
  show "\<not> is_active t kScanStall \<Longrightarrow> \<not> is_active (overflowed t) kScanStall"
    by (simp add: overflowed_def alarm_set_def is_active_def map_add_def)
qed

text \<open>
  The effects of \<open>left\<close> lines from \<open>line\<close> on, \<open>tk\<close> of whose samples were taken before an abort: the blocks, the
  reports of progress and the alarms.
\<close>

definition lines_effects :: "('g, 'n) scan_run \<Rightarrow> nat \<Rightarrow> nat \<Rightarrow> nat \<Rightarrow> scan_effect list \<Rightarrow> bool" where
  "lines_effects ru line left tk es \<longleftrightarrow>
     map shape (blocks_of es) =
       map (\<lambda>l. (line + l, min (ru_points ru) (tk - l * ru_points ru)))
         [0..<if tk < left * ru_points ru then Suc (tk div ru_points ru) else left] \<and>
     list_all even_block (blocks_of es) \<and> ends_of es = [] \<and> list_all percentage (progress_of es) \<and>
     (left = 0 \<longrightarrow> progress_of es = []) \<and>
     (0 < left \<and> tk = left * ru_points ru \<and> line + left = n_lines ru \<longrightarrow>
        progress_of es \<noteq> [] \<and> last (progress_of es) = f8_lit 100 1) \<and>
     (\<forall>t. \<not> is_active t kScanStall \<longrightarrow>
        alarms_after es t =
          (if \<exists>l < tk div ru_points ru. \<not> push_taken (ru_env ru) (line + l) then overflowed t else t))"

lemma scan_line_run:
  assumes "line < n_lines ru" "n_lines ru < 2 ^ 31" "ru_points ru < 2 ^ 31" "0 < ru_points ru"
  defines "tk st \<equiv> taken (ru_env ru) (ss_sample_index st) (ru_points ru)"
  shows "\<exists>st' es. scan_line ru line st = Some (tk st < ru_points ru, st') \<and>
    ss_sample_index st' = ss_sample_index st + tk st \<and> ss_effects st' = ss_effects st @ es \<and>
    lines_effects ru line 1 (tk st) es"
proof -
  let ?st = "st\<lparr>ss_hw := (ss_hw st)\<lparr>hw_stage := set_line (line_angle ru line) (hw_stage (ss_hw st))\<rparr>\<rparr>"
  have even: "even_block (empty_block line (line_angle ru line))" by (simp add: even_block_def empty_block_def)
  from scan_points_run [OF assms(1) _ assms(2,3) even, of 0 "ru_points ru" ?st] obtain st' b es where
    s: "scan_points ru line 0 (ru_points ru) (?st, empty_block line (line_angle ru line)) = Some (tk st < ru_points ru, st', b)"
      "ss_sample_index st' = ss_sample_index st + tk st" "ss_effects st' = ss_effects st @ es" "quiet es"
      "even_block b" "sb_line_index b = line" "length (sb_positions_m b) = tk st"
    by (auto simp: tk_def empty_block_def)
  let ?a = "tk st < ru_points ru"
  let ?fs = "[Bus (ScanProgress (ru_wafer ru) (line_percent ru line ?a)), Push b] @
    (if \<not> push_taken (ru_env ru) line \<and> \<not> ?a
     then [Alarm_call (Set_alarm kQueueOverflow ''sample queue full, block dropped'')] else [])"
  have le: "tk st \<le> ru_points ru" unfolding tk_def by (rule taken_le)
  then have d: "tk st div ru_points ru = (if ?a then 0 else 1)" using assms(4) by auto
  have p: "percentage (line_percent ru line ?a)"
    unfolding line_percent_def using assms(1,2) by (intro line_percentage(1)) auto
  have h: "line_percent ru line False = f8_lit 100 1" if "Suc line = n_lines ru"
    using line_percentage(2) [of "Suc line" "n_lines ru"] that assms(2) by (simp add: line_percent_def)
  have "scan_line ru line st = Some (?a, st'\<lparr>ss_effects := ss_effects st @ es @ ?fs\<rparr>)"
    by (simp add: scan_line_def Let_def s)
  moreover have "lines_effects ru line 1 (tk st) (es @ ?fs)"
    using s(4-7) p h le d
    by (auto simp: lines_effects_def quiet_def shape_def alarms_after_def overflowed_def)
  ultimately show ?thesis using s(2) by fastforce
qed

lemma lines_effects_stop:
  assumes "lines_effects ru line 1 k es" "k < ru_points ru"
  shows "lines_effects ru line (Suc left) k es"
  using assms by (simp add: lines_effects_def)

lemma lines_effects_Suc:
  assumes "lines_effects ru line 1 (ru_points ru) es" "lines_effects ru (Suc line) left tk fs" "0 < ru_points ru"
  shows "lines_effects ru line (Suc left) (ru_points ru + tk) (es @ fs)"
proof -
  let ?n = "ru_points ru"
  let ?m = "if tk < left * ?n then Suc (tk div ?n) else left"
  have d: "(?n + tk) div ?n = Suc (tk div ?n)" using assms(3) by simp
  have m: "(if ?n + tk < Suc left * ?n then Suc ((?n + tk) div ?n) else Suc left) = Suc ?m" by (simp add: d)
  have u: "[0..<Suc ?m] = 0 # map Suc [0..<?m]" by (simp add: map_Suc_upt upt_conv_Cons del: upt_Suc)
  have "map shape (blocks_of (es @ fs)) = map (\<lambda>l. (line + l, min ?n (?n + tk - l * ?n))) [0..<Suc ?m]"
    unfolding u using assms by (simp add: lines_effects_def comp_def)
  moreover have "alarms_after (es @ fs) t =
      (if \<exists>l < (?n + tk) div ?n. \<not> push_taken (ru_env ru) (line + l) then overflowed t else t)"
    if "\<not> is_active t kScanStall" for t
  proof -
    have e: "alarms_after es t = (if push_taken (ru_env ru) line then t else overflowed t)"
      using assms(1,3) that by (simp add: lines_effects_def)
    have f: "alarms_after fs t' = (if \<exists>l < tk div ?n. \<not> push_taken (ru_env ru) (Suc (line + l)) then overflowed t' else t')"
      if "\<not> is_active t' kScanStall" for t'
      using assms(2) that by (simp add: lines_effects_def)
    have "(\<exists>l < Suc k. \<not> push_taken (ru_env ru) (line + l)) \<longleftrightarrow>
        \<not> push_taken (ru_env ru) line \<or> (\<exists>l < k. \<not> push_taken (ru_env ru) (Suc (line + l)))" for k
      by (auto simp: less_Suc_eq_0_disj)
    then show ?thesis using that overflowed_facts [of t] by (simp add: d e f) blast
  qed
  ultimately show ?thesis
    using assms m by (auto simp: lines_effects_def last_append)
qed

lemma scan_lines_run:
  assumes "line + left = n_lines ru" "n_lines ru < 2 ^ 31" "ru_points ru < 2 ^ 31" "0 < ru_points ru"
  defines "tk k st \<equiv> taken (ru_env ru) (ss_sample_index st) (k * ru_points ru)"
  shows "\<exists>st' es. scan_lines ru line left st = Some (tk left st < left * ru_points ru, st') \<and>
    ss_effects st' = ss_effects st @ es \<and> lines_effects ru line left (tk left st) es"
  using assms(1)
proof (induction left arbitrary: line st)
  case 0
  then show ?case by (force simp: tk_def lines_effects_def alarms_after_def)
next
  case (Suc left)
  let ?n = "ru_points ru" and ?k = "taken (ru_env ru) (ss_sample_index st) (ru_points ru)"
  have l: "line < n_lines ru" using Suc.prems by simp
  from scan_line_run [OF l assms(2-4), of st] obtain st1 es where
    s: "scan_line ru line st = Some (?k < ?n, st1)" "ss_sample_index st1 = ss_sample_index st + ?k"
      "ss_effects st1 = ss_effects st @ es" "lines_effects ru line 1 ?k es"
    by auto
  show ?case
  proof (cases "?k < ?n")
    case True
    then have "tk (Suc left) st = ?k" by (simp add: tk_def taken_add)
    with True s lines_effects_stop [OF s(4) True, of left] show ?thesis
      by (force simp: trans_less_add1)
  next
    case False
    then have k: "?k = ?n" using taken_le [of "ru_env ru" "ss_sample_index st" ?n] by simp
    have t: "tk (Suc left) st = ?n + tk left st1" using s(2) by (simp add: tk_def taken_add k)
    from Suc.IH [of "Suc line" st1] Suc.prems obtain st' fs where
      "scan_lines ru (Suc line) left st1 = Some (tk left st1 < left * ?n, st')"
      "ss_effects st' = ss_effects st1 @ fs" "lines_effects ru (Suc line) left (tk left st1) fs"
      by auto
    then show ?thesis
      using s k t lines_effects_Suc [OF _ _ assms(4), of line es left "tk left st1" fs] by auto
  qed
qed

section \<open>What a run promises\<close>

lemma scan_thread_run_effects:
  assumes "scan_n_points w sn = Some n" "0 < n" and L: "L = nat (sint (sn_lines sn))"
    and total_n_def: "total_n = L * nat n"
    and ru_def: "ru = \<lparr>ru_random = rl, ru_trig = tg, ru_model = w, ru_config = sn, ru_wafer = wafer,
      ru_points = nat n, ru_env = env\<rparr>"
  shows "\<exists>hw' es. scan_thread_run rl tg w sn faults env wafer hw =
      Some (hw', es @ [if taken env 0 total_n < total_n then On_stopped else On_lines_complete wafer]) \<and>
    lines_effects ru 0 L (taken env 0 total_n) es"
proof -
  have n: "n < 2 ^ 31" using assms(1) by (auto simp: scan_n_points_def Let_def split: option.splits if_splits)
  have "sint (sn_lines sn) < 2 ^ 31" using sint_less [of "sn_lines sn"] by simp
  then have l: "n_lines ru = L" "L < 2 ^ 31" by (simp_all add: n_lines_def ru_def L)
  let ?st = "\<lparr>ss_hw = hw, ss_injectors = active_faults rl (wl_seed w) wafer faults, ss_sample_index = 0,
    ss_last_percent = - 1, ss_effects = []\<rparr>"
  have rp: "ru_points ru = nat n" "ru_env ru = env" by (simp_all add: ru_def)
  have "nat n < 2 ^ 31" "0 < nat n" using n assms(2) by auto
  from scan_lines_run [of 0 L ru ?st, unfolded rp l(1), OF _ l(2) this] obtain st' es where
    s: "scan_lines ru 0 L ?st = Some (taken env 0 total_n < total_n, st')" "ss_effects st' = es"
    "lines_effects ru 0 L (taken env 0 total_n) es"
    by (auto simp: total_n_def)
  have "scan_thread_run rl tg w sn faults env wafer hw =
      map_option (\<lambda>(aborted, st). (ss_hw st, ss_effects st @ [if aborted then On_stopped else On_lines_complete wafer]))
        (scan_lines ru 0 L ?st)"
    using l(1) by (simp add: scan_thread_run_def Let_def assms(1) ru_def)
  with s show ?thesis by auto
qed

text \<open>The default configuration in an environment without aborts and faults, for the examples below.\<close>

definition calm_env :: "(nat \<Rightarrow> bool) \<Rightarrow> scan_env" where
  "calm_env pushes = \<lparr>abort_polled = (\<lambda>_. False), elapsed_s = (\<lambda>_ _. 0), stamp = int, push_taken = pushes\<rparr>"

definition calm_random :: "(u64, unit) random_lib" where
  "calm_random =
     \<lparr>rng_seeded = id, draw_bernoulli = (\<lambda>_ g. (False, g)), new_normal = (\<lambda>_ _. ()), draw_normal = (\<lambda>n g. (0, n, g))\<rparr>"

definition flat_trig :: trig where
  "flat_trig = \<lparr>trig_cos = (\<lambda>_. f8_lit 1 1), trig_sin = (\<lambda>_. 0)\<rparr>"

definition calm_run :: "(nat \<Rightarrow> bool) \<Rightarrow> ((u64, unit) simulated_hardware \<times> scan_effect list) option" where
  "calm_run pushes =
     scan_thread_run calm_random flat_trig (new_wafer_model default_wafer) default_scan [] (calm_env pushes) ''W001''
       (make_simulated_hardware calm_random default_scan default_noise (new_wafer_model default_wafer))"

lemma default_points_literals:
  "f8_lit 300 (Suc 0) = 0x4072C00000000000" "f8_lit 1 1000 = 0x3F50624DD2F1A9FC" "f8_lit 1000 (Suc 0) = 0x408F400000000000"
  "f8_lit 2 (Suc 0) = 0x4000000000000000" "f8_of_int 40 = 0x4044000000000000"
  by (simp_all add: lit_eval f8_of_int_def f8_of_scaled_def)

lemma default_points_steps:
  "f8_div 0x3FD3333333333333 0x4000000000000000 = 0x3FC3333333333333"
  "f8_mul 0x3FC3333333333333 0x4000000000000000 = 0x3FD3333333333333"
  "f8_mul 0x4072C00000000000 0x4044000000000000 = 0x40C7700000000000"
  "f8_to_i64 0x40C7700000000000 = Some 12000"
  by (simp_all add: f8_eval f8_to_i64_def)

lemma default_n_points: "scan_n_points (new_wafer_model default_wafer) default_scan = Some 12001"
  by (simp add: scan_n_points_def new_wafer_model_def default_wafer_def default_scan_def Let_def kMmToM_def
      default_points_literals default_points_steps empty_run_steps f8_to_i32_def)

lemma taken_calm [simp]: "taken (calm_env pushes) i n = n"
  by (simp add: taken_def calm_env_def takeWhile_eq_all_conv [THEN iffD2])

lemma default_lines [simp]: "sint (sn_lines default_scan) = 6"
  by (simp add: default_scan_def)

lemma calm_run_returns: "\<exists>hw' es. calm_run pushes = Some (hw', es @ [On_lines_complete ''W001''])"
  using scan_thread_run_effects [OF default_n_points _ refl refl refl, of calm_random flat_trig "[]"
      "calm_env pushes" "''W001''" "make_simulated_hardware calm_random default_scan default_noise (new_wafer_model default_wafer)"]
  by (auto simp: calm_run_def)

text \<open>
  C35. A scan always comes to an end and hands over consistent data. Let \<open>k\<close> samples be taken before an abort is
  seen. If that is all of them, the run reports completion once, at its very end, after one block per
  line in order with every point of the line; otherwise it reports that the stage stopped, after the full
  blocks and the cut one. Each block has as many heights and timestamps as positions.
\<close>

theorem scan_hands_over_blocks:
  assumes "scan_n_points w sn = Some n" "0 < n"
    and "total_n = nat (sint (sn_lines sn)) * nat n" and "k = taken env 0 total_n"
  shows "\<exists>hw' es. scan_thread_run rl tg w sn faults env wafer hw = Some (hw', es) \<and>
    ends_of es = [last es] \<and> last es = (if k < total_n then On_stopped else On_lines_complete wafer) \<and>
    map shape (blocks_of es) =
      map (\<lambda>l. (l, min (nat n) (k - l * nat n)))
        [0..<if k < total_n then Suc (k div nat n) else nat (sint (sn_lines sn))] \<and>
    list_all even_block (blocks_of es)"
  using scan_thread_run_effects [OF assms(1,2) refl refl refl, of rl tg faults env wafer hw]
  by (auto simp: assms(3,4) lines_effects_def)

theorem scan_hands_over_blocks_witness:
  "\<exists>hw' es. calm_run (\<lambda>_. True) = Some (hw', es) \<and> last es = On_lines_complete ''W001'' \<and>
     map shape (blocks_of es) = map (\<lambda>l. (l, 12001)) [0..<6]"
  using scan_hands_over_blocks [where env = "calm_env (\<lambda>_. True)" and rl = calm_random and tg = flat_trig
      and faults = "[]" and wafer = "''W001''" and hw = "make_simulated_hardware calm_random default_scan default_noise (new_wafer_model default_wafer)",
      OF default_n_points _ refl refl]
  by (fastforce simp: calm_run_def upt_rec)

text \<open>
  C36. Progress reports are percentages: every one published by a run lies between 0 and 100, and the last one
  of a run that completes is exactly 100.
\<close>

theorem scan_progress_percent:
  assumes "scan_n_points w sn = Some n" "0 < n" "0 < sint (sn_lines sn)"
    and "scan_thread_run rl tg w sn faults env wafer hw = Some (hw', es)"
  shows "list_all percentage (progress_of es) \<and>
    (last es = On_lines_complete wafer \<longrightarrow> last (progress_of es) = f8_lit 100 1)"
proof -
  let ?L = "nat (sint (sn_lines sn))"
  let ?t = "?L * nat n"
  from scan_thread_run_effects [OF assms(1,2) refl refl refl, of rl tg faults env wafer hw] assms(4) obtain fs where
    e: "es = fs @ [if taken env 0 ?t < ?t then On_stopped else On_lines_complete wafer]"
    "lines_effects \<lparr>ru_random = rl, ru_trig = tg, ru_model = w, ru_config = sn, ru_wafer = wafer,
      ru_points = nat n, ru_env = env\<rparr> 0 ?L (taken env 0 ?t) fs"
    by auto
  have "taken env 0 ?t \<le> ?t" by (rule taken_le)
  then show ?thesis
    using e assms(2,3) by (auto simp: lines_effects_def n_lines_def)
qed

theorem scan_progress_percent_witness:
  "\<exists>hw' es. calm_run (\<lambda>_. True) = Some (hw', es) \<and> last (progress_of es) = f8_lit 100 1"
proof -
  obtain hw' es where r: "calm_run (\<lambda>_. True) = Some (hw', es @ [On_lines_complete ''W001''])"
    using calm_run_returns by blast
  from scan_progress_percent [OF default_n_points _ _ r [unfolded calm_run_def]] r show ?thesis by fastforce
qed



end
