(* ===== verification/Fit_Pool.thy ===== *)
theory Fit_Pool
  imports Analysis_Fit Event_Machine
begin

text \<open>
  The thread pool of the analysis, \<^verbatim>\<open>src/analysis/fit_pool.cpp\<close>: one caller hands out indices through a bounded
  job queue and sleeps until the last worker has counted down. A step is one queue operation (the queue of
  \<open>Bounded_Queue\<close>, seen as the abstract queue it refines), one run of the function, or one critical section of
  \<^verbatim>\<open>done_mutex\<close>; which thread goes next is the environment's choice, and so is a spurious wake-up.
\<close>

section \<open>Data\<close>

definition kJobQueueCapacity :: nat where
  "kJobQueueCapacity = 256"

text \<open>\<^verbatim>\<open>hardware_concurrency()\<close> is an argument.\<close>

definition resolve_thread_count :: "nat \<Rightarrow> u32 \<Rightarrow> nat" where
  "resolve_thread_count n_threads hw =
     (if n_threads \<noteq> 0 then n_threads else max 1 (if hw > 0 then unat (hw - 1) else 1))"

text \<open>A worker waits in \<^verbatim>\<open>pop\<close>, holds a job, has run it, or has left its loop.\<close>

datatype worker = Idle | Got nat | Ran nat | Exited

text \<open>
  The owner of the pool: outside a call, pushing the job of an index, asleep on \<^verbatim>\<open>done_cv\<close>, woken, back from
  the call; in the destructor waiting for the workers, or past it.
\<close>

datatype caller = Ready | Pushing nat | Asleep | Woken | Returned | Joining | Destroyed

record 'r pool =
  pl_jobs :: "nat list"
  pl_closed :: bool
  pl_workers :: "worker list"
  pl_caller :: caller
  pl_fn :: "nat \<Rightarrow> 'r"
  pl_count :: nat
  pl_remaining :: nat
  pl_results :: "'r list"

definition new_pool :: "nat \<Rightarrow> u32 \<Rightarrow> 'r pool" where
  "new_pool n_threads hw =
     \<lparr>pl_jobs = [], pl_closed = False, pl_workers = replicate (resolve_thread_count n_threads hw) Idle,
      pl_caller = Ready, pl_fn = (\<lambda>_. undefined), pl_count = 0, pl_remaining = 0, pl_results = []\<rparr>"

section \<open>Steps\<close>

text \<open>\<^verbatim>\<open>Begin\<close> calls \<^verbatim>\<open>for_each_index\<close> on a result vector; \<^verbatim>\<open>Close\<close> runs the destructor.\<close>

datatype 'r pool_event = Begin "nat \<Rightarrow> 'r" "'r list" | Caller_step | Worker_step nat | Spurious | Close

text \<open>The predicate loop of \<^verbatim>\<open>done_cv.wait\<close>.\<close>

definition check_done :: "'r pool \<Rightarrow> 'r pool" where
  "check_done p = p\<lparr>pl_caller := (if pl_remaining p = 0 then Returned else Asleep)\<rparr>"

definition caller_step :: "'r pool \<Rightarrow> 'r pool option" where
  "caller_step p =
     (case pl_caller p of
        Pushing i \<Rightarrow>
          if i < pl_count p
          then (if length (pl_jobs p) < kJobQueueCapacity
                then Some (p\<lparr>pl_jobs := pl_jobs p @ [i], pl_caller := Pushing (i + 1)\<rparr>) else None)
          else Some (check_done p)
      | Woken \<Rightarrow> Some (check_done p)
      | Joining \<Rightarrow>
          if list_all (\<lambda>w. w = Exited) (pl_workers p) then Some (p\<lparr>pl_caller := Destroyed\<rparr>) else None
      | _ \<Rightarrow> None)"

text \<open>The end of a job: count down under the lock, and wake the caller with the last one.\<close>

definition finish_job :: "'r pool \<Rightarrow> 'r pool" where
  "finish_job p =
     (let n = pl_remaining p - 1
      in p\<lparr>pl_remaining := n,
           pl_caller := (if n = 0 \<and> pl_caller p = Asleep then Woken else pl_caller p)\<rparr>)"

definition worker_step :: "nat \<Rightarrow> 'r pool \<Rightarrow> 'r pool option" where
  "worker_step w p =
     (if w \<ge> length (pl_workers p) then None
      else case pl_workers p ! w of
             Idle \<Rightarrow>
               (case pl_jobs p of
                  i # js \<Rightarrow> Some (p\<lparr>pl_jobs := js, pl_workers := (pl_workers p)[w := Got i]\<rparr>)
                | [] \<Rightarrow> if pl_closed p then Some (p\<lparr>pl_workers := (pl_workers p)[w := Exited]\<rparr>) else None)
           | Got i \<Rightarrow>
               Some (p\<lparr>pl_results := (pl_results p)[i := pl_fn p i], pl_workers := (pl_workers p)[w := Ran i]\<rparr>)
           | Ran i \<Rightarrow> Some (finish_job (p\<lparr>pl_workers := (pl_workers p)[w := Idle]\<rparr>))
           | Exited \<Rightarrow> None)"

fun pool_step :: "'r pool_event \<Rightarrow> 'r pool \<Rightarrow> ('r pool \<times> unit) option" where
  "pool_step (Begin fn out) p =
     (if pl_caller p = Ready \<or> pl_caller p = Returned
      then Some (p\<lparr>pl_fn := fn, pl_count := length out, pl_remaining := length out, pl_results := out,
                   pl_caller := Pushing 0\<rparr>, ())
      else None)"
| "pool_step Caller_step p = map_option (\<lambda>p. (p, ())) (caller_step p)"
| "pool_step (Worker_step w) p = map_option (\<lambda>p. (p, ())) (worker_step w p)"
| "pool_step Spurious p = (if pl_caller p = Asleep then Some (p\<lparr>pl_caller := Woken\<rparr>, ()) else None)"
| "pool_step Close p =
     (if pl_caller p = Ready \<or> pl_caller p = Returned
      then Some (p\<lparr>pl_closed := True, pl_caller := Joining\<rparr>, ()) else None)"

text \<open>\<^verbatim>\<open>fit_lines\<close>: the call with the fit of each line, into a vector of that many default results.\<close>

definition fit_lines_call :: "filter_result list \<Rightarrow> line_fit_result pool_event" where
  "fit_lines_call lines = Begin (\<lambda>i. fit_line (lines ! i)) (replicate (length lines) no_fit)"

section \<open>Invariant\<close>

definition pushed :: "'r pool \<Rightarrow> nat" where
  "pushed p = (case pl_caller p of Pushing i \<Rightarrow> i | _ \<Rightarrow> pl_count p)"

fun got_of :: "worker list \<Rightarrow> nat list" where
  "got_of [] = []"
| "got_of (Got i # ws) = i # got_of ws"
| "got_of (_ # ws) = got_of ws"

fun ran_of :: "worker list \<Rightarrow> nat list" where
  "ran_of [] = []"
| "ran_of (Ran i # ws) = i # ran_of ws"
| "ran_of (_ # ws) = ran_of ws"

text \<open>
  Every index handed out is queued, held, run but not counted, or counted; the results of the last two are
  in place, and a sleeping caller has something to wait for.
\<close>

definition phase_ok :: "caller \<Rightarrow> nat \<Rightarrow> bool \<Rightarrow> bool" where
  "phase_ok c remaining closed \<longleftrightarrow>
     (c = Asleep \<longrightarrow> remaining > 0) \<and> (c \<in> {Ready, Returned, Joining, Destroyed} \<longrightarrow> remaining = 0) \<and>
     (closed \<longleftrightarrow> c \<in> {Joining, Destroyed})"

definition pool_inv :: "'r pool \<Rightarrow> bool" where
  "pool_inv p \<longleftrightarrow>
     pl_workers p \<noteq> [] \<and> length (pl_results p) = pl_count p \<and> pushed p \<le> pl_count p \<and>
     length (pl_jobs p) \<le> kJobQueueCapacity \<and>
     distinct (pl_jobs p @ got_of (pl_workers p)) \<and>
     set (pl_jobs p @ got_of (pl_workers p)) \<subseteq> {..<pushed p} \<and>
     pl_remaining p = pl_count p - pushed p + length (pl_jobs p) + length (got_of (pl_workers p)) +
       length (ran_of (pl_workers p)) \<and>
     (\<forall>i < pushed p. i \<notin> set (pl_jobs p @ got_of (pl_workers p)) \<longrightarrow> pl_results p ! i = pl_fn p i) \<and>
     phase_ok (pl_caller p) (pl_remaining p) (pl_closed p) \<and>
     (Exited \<in> set (pl_workers p) \<longrightarrow> pl_closed p)"

lemma resolve_thread_count_pos: "resolve_thread_count n hw > 0"
  by (simp add: resolve_thread_count_def less_max_iff_disj)

lemma got_of_append [simp]: "got_of (us @ vs) = got_of us @ got_of vs"
  by (induction us rule: got_of.induct) simp_all

lemma ran_of_append [simp]: "ran_of (us @ vs) = ran_of us @ ran_of vs"
  by (induction us rule: ran_of.induct) simp_all

lemma inv_phase: "pool_inv p \<Longrightarrow> phase_ok (pl_caller p) (pl_remaining p) (pl_closed p)"
  unfolding pool_inv_def by blast

lemma inv_remaining:
  "pool_inv p \<Longrightarrow> pl_remaining p = pl_count p - pushed p + length (pl_jobs p) + length (got_of (pl_workers p)) +
     length (ran_of (pl_workers p))"
  unfolding pool_inv_def by blast

lemma pushed_frame [simp]:
  "pushed (p\<lparr>pl_jobs := js\<rparr>) = pushed p" "pushed (p\<lparr>pl_workers := ws\<rparr>) = pushed p"
  "pushed (p\<lparr>pl_results := rs\<rparr>) = pushed p" "pushed (p\<lparr>pl_closed := c\<rparr>) = pushed p"
  "pushed (p\<lparr>pl_remaining := r\<rparr>) = pushed p"
  by (simp_all add: pushed_def split: caller.split)

lemma pushed_not_Pushing: "(\<And>i. pl_caller p \<noteq> Pushing i) \<Longrightarrow> pushed p = pl_count p"
  by (cases "pl_caller p") (auto simp: pushed_def)

lemma workers_split:
  assumes "w < length ws"
  obtains us vs where "ws = us @ ws ! w # vs" "\<And>x. ws[w := x] = us @ x # vs"
  using assms by (metis id_take_nth_drop upd_conv_take_nth_drop)

lemma new_pool_inv: "pool_inv (new_pool n hw)"
proof -
  have "got_of (replicate k Idle) = []" "ran_of (replicate k Idle) = []" for k by (induction k) simp_all
  then show ?thesis
    using resolve_thread_count_pos [of n hw] by (auto simp: pool_inv_def new_pool_def pushed_def phase_ok_def)
qed

lemma check_done_inv:
  assumes "pool_inv p" "pushed p = pl_count p" "pl_caller p \<notin> {Joining, Destroyed}"
  shows "pool_inv (check_done p)"
  using assms by (auto simp: pool_inv_def check_done_def pushed_def phase_ok_def)

lemma caller_step_inv:
  assumes "pool_inv p" "caller_step p = Some p'"
  shows "pool_inv p'"
proof (cases "pl_caller p")
  case (Pushing i)
  show ?thesis
  proof (cases "i < pl_count p")
    case True
    then show ?thesis
      using assms Pushing
      by (auto simp: caller_step_def pool_inv_def pushed_def phase_ok_def less_Suc_eq split: if_splits)
  next
    case False
    then have "pushed p = pl_count p" using assms(1) Pushing by (simp add: pool_inv_def pushed_def)
    then show ?thesis
      using assms Pushing False check_done_inv [of p] by (simp add: caller_step_def)
  qed
next
  case Woken
  then show ?thesis
    using assms check_done_inv [of p] by (simp add: caller_step_def pushed_def)
next
  case Joining
  then show ?thesis
    using assms by (auto simp: caller_step_def pool_inv_def pushed_def phase_ok_def split: if_splits)
qed (use assms in \<open>simp_all add: caller_step_def\<close>)

lemma worker_step_at:
  assumes "worker_step w p = Some p'"
  obtains us vs where "pl_workers p = us @ Idle # vs" "pl_jobs p = []" "pl_closed p"
      "p' = p\<lparr>pl_workers := us @ Exited # vs\<rparr>"
  | us i js vs where "pl_workers p = us @ Idle # vs" "pl_jobs p = i # js"
      "p' = p\<lparr>pl_jobs := js, pl_workers := us @ Got i # vs\<rparr>"
  | us i vs where "pl_workers p = us @ Got i # vs"
      "p' = p\<lparr>pl_results := (pl_results p)[i := pl_fn p i], pl_workers := us @ Ran i # vs\<rparr>"
  | us i vs where "pl_workers p = us @ Ran i # vs" "p' = finish_job (p\<lparr>pl_workers := us @ Idle # vs\<rparr>)"
proof -
  have w: "w < length (pl_workers p)" using assms by (simp add: worker_step_def split: if_splits)
  define x where "x = pl_workers p ! w"
  obtain us vs where ws: "pl_workers p = us @ x # vs" "\<And>x. (pl_workers p)[w := x] = us @ x # vs"
    by (rule workers_split [OF w]) (auto simp: x_def)
  show thesis
    using assms w ws(1) that unfolding worker_step_def x_def [symmetric] ws(2)
    by (cases x; cases "pl_jobs p"; simp split: if_splits)
qed

lemma finish_job_frame [simp]:
  "pushed (finish_job p) = pushed p" "pl_jobs (finish_job p) = pl_jobs p" "pl_workers (finish_job p) = pl_workers p"
  "pl_count (finish_job p) = pl_count p" "pl_results (finish_job p) = pl_results p" "pl_fn (finish_job p) = pl_fn p"
  "pl_closed (finish_job p) = pl_closed p" "pl_remaining (finish_job p) = pl_remaining p - 1"
  by (auto simp: pushed_def finish_job_def Let_def split: caller.split)

lemma worker_step_inv:
  assumes "pool_inv p" "worker_step w p = Some p'"
  shows "pool_inv p'"
  using assms(2)
proof (cases rule: worker_step_at)
  case (1 us vs)
  then show ?thesis using assms(1) by (auto simp: pool_inv_def)
next
  case (2 us i js vs)
  then show ?thesis using assms(1) by (auto simp: pool_inv_def)
next
  case (3 us i vs)
  then show ?thesis using assms(1) by (auto simp: pool_inv_def nth_list_update)
next
  case (4 us i vs)
  have "pl_remaining p > 0" using inv_remaining [OF assms(1)] 4 by simp
  then have "phase_ok (pl_caller p') (pl_remaining p') (pl_closed p')"
    using inv_phase [OF assms(1)] unfolding 4(2)
    by (cases "pl_caller p") (auto simp: finish_job_def phase_ok_def Let_def)
  then show ?thesis using assms(1) 4 by (simp add: pool_inv_def)
qed

lemma pool_step_inv: "pool_inv p \<Longrightarrow> pool_step e p = Some (p', u) \<Longrightarrow> pool_inv p'"
proof (cases e)
  case (Begin fn out)
  assume p: "pool_inv p" "pool_step e p = Some (p', u)"
  then have "pl_remaining p = 0" "pl_caller p = Ready \<or> pl_caller p = Returned"
    using Begin by (auto simp: pool_inv_def phase_ok_def split: if_splits)
  then show ?thesis
    using p Begin by (auto simp: pool_inv_def pushed_def phase_ok_def)
next
  case Caller_step
  assume "pool_inv p" "pool_step e p = Some (p', u)"
  then show ?thesis using Caller_step caller_step_inv by auto
next
  case (Worker_step w)
  assume "pool_inv p" "pool_step e p = Some (p', u)"
  then show ?thesis using Worker_step worker_step_inv by auto
next
  case Spurious
  assume p: "pool_inv p" "pool_step e p = Some (p', u)"
  then have c: "pl_caller p = Asleep" "p' = p\<lparr>pl_caller := Woken\<rparr>" using Spurious by (simp_all split: if_splits)
  then have "pushed p' = pushed p" by (simp add: pushed_def)
  then show ?thesis using p(1) c by (auto simp: pool_inv_def phase_ok_def)
next
  case Close
  assume p: "pool_inv p" "pool_step e p = Some (p', u)"
  then have c: "pl_caller p = Ready \<or> pl_caller p = Returned" "p' = p\<lparr>pl_closed := True, pl_caller := Joining\<rparr>"
    using Close by (simp_all split: if_splits)
  then have "pushed p' = pushed p" by (auto simp: pushed_def)
  then show ?thesis using p(1) c by (auto simp: pool_inv_def phase_ok_def)
qed

interpretation fitpool: event_machine "\<lambda>p. \<exists>n hw. p = new_pool n hw" pool_step pool_inv
  by unfold_locales (auto simp: new_pool_inv intro: pool_step_inv)

section \<open>The results are those of a serial loop\<close>

definition is_begin :: "'r pool_event \<Rightarrow> bool" where
  "is_begin e \<longleftrightarrow> (case e of Begin _ _ \<Rightarrow> True | _ \<Rightarrow> False)"

lemma step_keeps_call:
  assumes "pool_step e p = Some (p', u)" "\<not> is_begin e"
  shows "pl_fn p' = pl_fn p" "pl_count p' = pl_count p"
  using assms
  by (cases e; force simp: is_begin_def caller_step_def worker_step_def check_done_def finish_job_def Let_def
      split: caller.splits worker.splits list.splits if_splits)+

lemma run_keeps_call:
  "run pool_step es p = Some (p', outs) \<Longrightarrow> list_all (\<lambda>e. \<not> is_begin e) es \<Longrightarrow>
     pl_fn p' = pl_fn p \<and> pl_count p' = pl_count p"
proof (induction es arbitrary: p outs)
  case (Cons e es)
  then obtain p1 os where "pool_step e p = Some (p1, ())" "run pool_step es p1 = Some (p', os)"
    by (auto split: option.splits)
  with Cons.IH [of p1] Cons.prems(2) step_keeps_call [of e p p1] show ?case by simp
qed simp

lemma returned_results:
  assumes "pool_inv p" "pl_caller p = Returned"
  shows "pl_results p = map (pl_fn p) [0..<pl_count p]"
proof -
  have "pushed p = pl_count p" using assms(2) by (simp add: pushed_def)
  moreover have "pl_remaining p = 0" using assms by (auto simp: pool_inv_def phase_ok_def)
  ultimately have "pl_jobs p = []" "got_of (pl_workers p) = []" using assms(1) by (simp_all add: pool_inv_def)
  then show ?thesis using assms \<open>pushed p = pl_count p\<close> by (intro nth_equalityI) (simp_all add: pool_inv_def)
qed

lemma for_each_index_serial:
  assumes "reach (\<lambda>p. \<exists>n hw. p = new_pool n hw) pool_step p"
    and r: "run pool_step (Begin fn out # es) p = Some (p', outs)"
    and "list_all (\<lambda>e. \<not> is_begin e) es" "pl_caller p' = Returned"
  shows "pl_results p' = map fn [0..<length out]"
proof -
  obtain p1 os where b: "pool_step (Begin fn out) p = Some (p1, ())" "run pool_step es p1 = Some (p', os)"
    using r by (auto split: option.splits)
  have "pl_fn p1 = fn" "pl_count p1 = length out" using b(1) by (auto split: if_splits)
  moreover have "pool_inv p'" by (rule fitpool.reach_inv [OF run_reach [OF assms(1) r]])
  ultimately show ?thesis
    using run_keeps_call [OF b(2) assms(3)] returned_results [OF _ assms(4)] by simp
qed

text \<open>
  C38. Fitting the lines on the pool is fitting them one after the other: however the caller and the workers of a
  pool interleave, and whatever calls it has served before, when \<^verbatim>\<open>fit_lines\<close> returns its result is the
  list of the fits of the lines, in order.
\<close>

theorem fit_lines_serial:
  assumes "reach (\<lambda>p. \<exists>n hw. p = new_pool n hw) pool_step p"
    and "run pool_step (fit_lines_call lines # es) p = Some (p', outs)"
    and "list_all (\<lambda>e. \<not> is_begin e) es" "pl_caller p' = Returned"
  shows "pl_results p' = map fit_line lines"
proof -
  have "pl_results p' = map (\<lambda>i. fit_line (lines ! i)) [0..<length lines]"
    using for_each_index_serial [OF assms(1) assms(2) [unfolded fit_lines_call_def] assms(3,4)] by simp
  then show ?thesis by (simp add: map_equality_iff)
qed

text \<open>Two lines too short to fit, on one worker that overtakes the caller.\<close>

definition short_line :: filter_result where
  "short_line = \<lparr>fr_angle_rad = 0, fr_samples = [], fr_removed_count = 0, fr_removed_fraction = 0\<rparr>"

definition short_run :: "line_fit_result pool_event list" where
  "short_run =
     [Caller_step, Worker_step 0, Worker_step 0, Caller_step, Worker_step 0, Caller_step,
      Worker_step 0, Worker_step 0, Worker_step 0, Caller_step]"

theorem fit_lines_serial_witness:
  "\<exists>p' outs. run pool_step (fit_lines_call [short_line, short_line] # short_run) (new_pool 1 0) = Some (p', outs) \<and>
     pl_caller p' = Returned \<and> pl_results p' = [fit_line short_line, fit_line short_line]"
proof -
  have "\<exists>p' outs. run pool_step (fit_lines_call [short_line, short_line] # short_run) (new_pool 1 0) = Some (p', outs) \<and>
     pl_caller p' = Returned"
    by (simp add: short_run_def fit_lines_call_def new_pool_def resolve_thread_count_def caller_step_def
        worker_step_def check_done_def finish_job_def kJobQueueCapacity_def)
  moreover have "reach (\<lambda>p. \<exists>n hw. p = new_pool n hw) pool_step (new_pool 1 0)" by (rule reach_init) blast
  moreover have "list_all (\<lambda>e. \<not> is_begin e) short_run" by (simp add: short_run_def is_begin_def)
  ultimately show ?thesis using fit_lines_serial [of "new_pool 1 0" "[short_line, short_line]" short_run] by fastforce
qed

section \<open>A call comes to its end\<close>

definition thread_step :: "'r pool_event \<Rightarrow> bool" where
  "thread_step e \<longleftrightarrow> (case e of Caller_step \<Rightarrow> True | Worker_step _ \<Rightarrow> True | _ \<Rightarrow> False)"

fun caller_work :: "caller \<Rightarrow> nat \<Rightarrow> nat" where
  "caller_work (Pushing i) r = 3"
| "caller_work Asleep r = 2"
| "caller_work Woken r = (if r = 0 then 1 else 3)"
| "caller_work Joining r = 1"
| "caller_work _ r = 0"

text \<open>The steps the threads have left to do.\<close>

definition work :: "'r pool \<Rightarrow> nat" where
  "work p = 4 * (pl_count p - pushed p) + 3 * length (pl_jobs p) + 2 * length (got_of (pl_workers p)) +
     length (ran_of (pl_workers p)) + length (filter (\<lambda>w. w \<noteq> Exited) (pl_workers p)) +
     caller_work (pl_caller p) (pl_remaining p)"

lemma caller_step_work:
  assumes "caller_step p = Some p'"
  shows "work p' < work p"
proof (cases "pl_caller p")
  case (Pushing i)
  then show ?thesis using assms by (auto simp: caller_step_def work_def check_done_def pushed_def split: if_splits)
qed (use assms in \<open>auto simp: caller_step_def work_def check_done_def pushed_def split: if_splits\<close>)

lemma worker_step_work:
  assumes "pool_inv p" "worker_step w p = Some p'"
  shows "work p' < work p"
  using assms(2)
proof (cases rule: worker_step_at)
  case (4 us i vs)
  have "caller_work (pl_caller (finish_job q)) (pl_remaining q - 1) \<le> caller_work (pl_caller q) (pl_remaining q)"
    for q :: "'a pool" by (cases "pl_caller q") (auto simp: finish_job_def Let_def)
  from this [of "p\<lparr>pl_workers := us @ Idle # vs\<rparr>"] 4 show ?thesis by (simp add: work_def)
qed (simp_all add: work_def)

lemma thread_steps_bounded:
  assumes "pool_inv p" "run pool_step es p = Some (p', outs)" "list_all thread_step es"
  shows "length es + work p' \<le> work p"
  using assms
proof (induction es arbitrary: p outs)
  case (Cons e es)
  then obtain p1 os where s: "pool_step e p = Some (p1, ())" "run pool_step es p1 = Some (p', os)"
    by (auto split: option.splits)
  have "work p1 < work p"
    using s(1) Cons.prems(1,3) caller_step_work worker_step_work
    by (cases e) (auto simp: thread_step_def)
  moreover have "length es + work p' \<le> work p1"
    using Cons.IH [OF pool_step_inv [OF Cons.prems(1) s(1)] s(2)] Cons.prems(3) by simp
  ultimately show ?case by simp
qed simp

lemma worker_enabled:
  assumes "w < length (pl_workers p)" "pl_workers p ! w \<noteq> Exited"
    and "pl_workers p ! w = Idle \<Longrightarrow> pl_jobs p \<noteq> [] \<or> pl_closed p"
  shows "worker_step w p \<noteq> None"
  using assms by (cases "pl_workers p ! w") (auto simp: worker_step_def split: list.split)

lemma busy_worker:
  assumes "got_of ws \<noteq> [] \<or> ran_of ws \<noteq> []"
  obtains w where "w < length ws" "ws ! w \<noteq> Exited" "ws ! w \<noteq> Idle"
proof -
  have "\<exists>x \<in> set ws. x \<noteq> Exited \<and> x \<noteq> Idle"
    using assms
  proof (induction ws)
    case (Cons x ws)
    then show ?case by (cases x) auto
  qed simp
  then show thesis using that by (metis in_set_conv_nth)
qed

lemma stuck_at_rest:
  assumes inv: "pool_inv p" and none: "\<And>e. thread_step e \<Longrightarrow> pool_step e p = None"
  shows "pl_caller p \<in> {Ready, Returned, Destroyed}"
proof (rule ccontr)
  assume busy: "\<not> ?thesis"
  have c: "caller_step p = None" using none [of Caller_step] by (simp add: thread_step_def)
  have w: "worker_step w p = None" for w using none [of "Worker_step w"] by (simp add: thread_step_def)
  note ph = inv_phase [OF inv, unfolded phase_ok_def] and rem = inv_remaining [OF inv]
  have ws: "pl_workers p \<noteq> []" using inv unfolding pool_inv_def by blast
  have ex: "Exited \<in> set (pl_workers p) \<Longrightarrow> pl_closed p" using inv unfolding pool_inv_def by blast
  have nobody: "got_of (pl_workers p) = []" "ran_of (pl_workers p) = []"
    using busy_worker [of "pl_workers p"] worker_enabled [of _ p] w by metis+
  have nojobs: "pl_jobs p = []" if "\<not> pl_closed p"
    using that ex ws w [of 0] worker_enabled [of 0 p] by (metis length_greater_0_conv nth_mem)
  show False
  proof (cases "pl_caller p")
    case (Pushing i)
    then show ?thesis using c nojobs ph by (auto simp: caller_step_def kJobQueueCapacity_def split: if_splits)
  next
    case Asleep
    then show ?thesis using nojobs nobody ph rem by (simp add: pushed_def)
  next
    case Woken
    then show ?thesis using c by (simp add: caller_step_def)
  next
    case Joining
    then have "pl_closed p" using ph by simp
    then have "pl_workers p ! v = Exited" if "v < length (pl_workers p)" for v
      using that w [of v] worker_enabled [of v p] by blast
    then show ?thesis using c Joining by (auto simp: caller_step_def list_all_length split: if_splits)
  qed (use busy in auto)
qed

text \<open>
  C39. A call of the pool comes to its end: the threads of a pool can only do a bounded number of steps, whatever
  their order, and when none can go on the caller is back from the call or past the destructor.
\<close>

theorem fit_pool_settles:
  assumes "reach (\<lambda>p. \<exists>n hw. p = new_pool n hw) pool_step p"
    and "run pool_step es p = Some (p', outs)" "list_all thread_step es"
  shows "length es \<le> work p \<and>
    ((\<forall>e. thread_step e \<longrightarrow> pool_step e p' = None) \<longrightarrow> pl_caller p' \<in> {Ready, Returned, Destroyed})"
proof -
  have "pool_inv p" "pool_inv p'"
    using fitpool.reach_inv [OF assms(1)] fitpool.reach_inv [OF run_reach [OF assms(1,2)]] by simp_all
  then show ?thesis using thread_steps_bounded [OF _ assms(2,3)] stuck_at_rest [of p'] by fastforce
qed

theorem fit_pool_settles_witness:
  "\<exists>p p' outs. pool_step (fit_lines_call [short_line]) (new_pool 1 0) = Some (p, ()) \<and>
     run pool_step [Caller_step, Worker_step 0] p = Some (p', outs) \<and> 2 \<le> work p"
proof -
  define p :: "line_fit_result pool" where "p = fst (the (pool_step (fit_lines_call [short_line]) (new_pool 1 0)))"
  have s: "pool_step (fit_lines_call [short_line]) (new_pool 1 0) = Some (p, ())"
    by (simp add: p_def fit_lines_call_def new_pool_def)
  have "reach (\<lambda>p. \<exists>n hw. p = new_pool n hw) pool_step (new_pool 1 0 :: line_fit_result pool)" by (rule reach_init) blast
  then have r: "reach (\<lambda>p. \<exists>n hw. p = new_pool n hw) pool_step p" using s by (rule reach_step)
  have "\<exists>p' outs. run pool_step [Caller_step, Worker_step 0] p = Some (p', outs)"
    by (simp add: p_def fit_lines_call_def new_pool_def resolve_thread_count_def caller_step_def
        worker_step_def kJobQueueCapacity_def)
  then obtain p' outs where p': "run pool_step [Caller_step, Worker_step 0] p = Some (p', outs)" by blast
  from fit_pool_settles [OF r p'] s p' show ?thesis by (auto simp: thread_step_def)
qed

end
