(* ===== verification/Writers.thy ===== *)
theory Writers
  imports Analysis_Fit Std_Ratio Std_Text
begin

text \<open>
  The result files of a wafer, \<^verbatim>\<open>src/analysis/writers/\<close>: per-line and per-sample CSV, the JSON summary and the
  picture of the wafer map. The disk is the files it holds, which paths cannot be opened, and how much fits
  into a file. Turning a JSON value into text and pixels into a PNG is done by libraries and a parameter.
\<close>

section \<open>Files\<close>

record disk =
  dk_files :: "string \<rightharpoonup> string"
  dk_no_open :: "string \<Rightarrow> bool"
  dk_room :: "string \<Rightarrow> nat"

definition kWriteErrorExitCode :: int where
  "kWriteErrorExitCode = 3"

text \<open>\<^verbatim>\<open>operator/\<close> of a directory and a file name.\<close>

definition path_join :: "string \<Rightarrow> string \<Rightarrow> string" where
  "path_join dir name = (if dir = [] \<or> last dir = CHR ''/'' then dir @ name else dir @ ''/'' @ name)"

text \<open>
  What the text writers share: refuse to overwrite, open, write. Nothing looks at the stream after the output,
  so what does not fit is lost without an error.
\<close>

definition write_text :: "string \<Rightarrow> string \<Rightarrow> string \<Rightarrow> disk \<Rightarrow> string result \<times> disk" where
  "write_text dir name content d =
     (let path = path_join dir name
      in if dk_files d path \<noteq> None then (Err kWriteErrorExitCode (name @ '' already exists: '' @ path), d)
         else if dk_no_open d path then (Err kWriteErrorExitCode (''cannot open for writing: '' @ path), d)
         else (Ok path, d\<lparr>dk_files := (dk_files d)(path \<mapsto> take (dk_room d path) content)\<rparr>))"

section \<open>CSV\<close>

definition kRadToDeg :: f8 where "kRadToDeg = f8_div (f8_lit 180 1) kPi"
definition kMToMm :: f8 where "kMToMm = f8_lit 1000 1"
definition kMToUm :: f8 where "kMToUm = f8_lit 1000000 1"
definition kSlopeToUmPerMm :: f8 where "kSlopeToUmPerMm = f8_lit 1000 1"

definition format_or_blank :: "f8 \<Rightarrow> string" where
  "format_or_blank x = (if f8_finite x then show_f x else [])"

text \<open>\<^verbatim>\<open>out << x\<close> for a double: six significant digits.\<close>

definition put_double :: "f8 \<Rightarrow> string" where
  "put_double x = show_g 6 x"

fun comma_join :: "string list \<Rightarrow> string" where
  "comma_join [] = []"
| "comma_join [s] = s"
| "comma_join (s # ss) = s @ '','' @ comma_join ss"

definition csv_eol :: string where
  "csv_eol = [char_of (10 :: nat)]"

definition line_row :: "string \<Rightarrow> nat \<Rightarrow> line_fit_result \<Rightarrow> filter_result \<Rightarrow> string" where
  "line_row wafer i fit filtered =
     (let radius_m = (if \<not> f8_eq (lf_curvature_per_m fit) 0 then f8_div (f8_lit 1 1) (lf_curvature_per_m fit)
                      else f8_make False f8_inf)
      in comma_join
           [wafer, show_nat i, put_double (f8_mul (lf_angle_rad fit) kRadToDeg),
            show_nat (length (fr_samples filtered)), show_nat (fr_removed_count filtered),
            put_double (lf_curvature_per_m fit), format_or_blank radius_m,
            put_double (lf_se_curvature_per_m fit), put_double (f8_mul (lf_residual_rms_m fit) kMToUm),
            put_double (f8_mul (lf_b fit) kSlopeToUmPerMm), put_double (f8_mul (lf_c fit) kMToUm)] @ csv_eol)"

definition line_csv :: "string \<Rightarrow> pipeline_result \<Rightarrow> string" where
  "line_csv wafer r =
     ''wafer_id,line_index,angle_deg,n_samples,n_removed,curvature_1_per_m,radius_m,'' @
     ''se_curvature,rms_um,tilt_um_per_mm,offset_um'' @ csv_eol @
     concat (map (\<lambda>i. line_row wafer i (pr_line_fits r ! i) (pr_filtered_lines r ! i))
               [0..<length (pr_line_fits r)])"

definition write_line_csv :: "string \<Rightarrow> string \<Rightarrow> pipeline_result \<Rightarrow> disk \<Rightarrow> string result \<times> disk" where
  "write_line_csv dir wafer r d = write_text dir ''lines.csv'' (line_csv wafer r) d"

fun flag_number :: "sample_flag \<Rightarrow> nat" where
  "flag_number kKept = 0"
| "flag_number kEdgeExcluded = 1"
| "flag_number kOutlier = 2"
| "flag_number kDropped = 3"

definition sample_row :: "string \<Rightarrow> nat \<Rightarrow> filtered_sample \<Rightarrow> string" where
  "sample_row wafer i s =
     (let z_raw_um = (if fs_flag s = kDropped then quiet_nan else f8_mul (fs_z_m s) kMToUm);
          z_clean_um = (if fs_flag s = kKept then f8_mul (fs_z_m s) kMToUm else quiet_nan)
      in comma_join
           [wafer, show_nat i, put_double (f8_mul (fs_s_m s) kMToMm), format_or_blank z_raw_um,
            format_or_blank z_clean_um, show_nat (flag_number (fs_flag s))] @ csv_eol)"

text \<open>The loop over the samples of a line: of the kept ones, every \<open>step\<close>-th is written.\<close>

fun decimate :: "nat \<Rightarrow> nat \<Rightarrow> filtered_sample list \<Rightarrow> filtered_sample list" where
  "decimate step kept_seen [] = []"
| "decimate step kept_seen (s # ss) =
     (if fs_flag s = kKept
      then (if kept_seen mod step \<noteq> 0 then decimate step (kept_seen + 1) ss
            else s # decimate step (kept_seen + 1) ss)
      else s # decimate step kept_seen ss)"

definition decimation_step :: "i32 \<Rightarrow> nat" where
  "decimation_step decimation = (if sint decimation > 0 then nat (sint decimation) else 1)"

definition sample_csv :: "string \<Rightarrow> pipeline_result \<Rightarrow> i32 \<Rightarrow> string" where
  "sample_csv wafer r decimation =
     ''wafer_id,line_index,s_mm,z_um_raw,z_um_clean,flag'' @ csv_eol @
     concat (map (\<lambda>i. concat (map (sample_row wafer i)
               (decimate (decimation_step decimation) 0 (fr_samples (pr_filtered_lines r ! i)))))
       [0..<length (pr_filtered_lines r)])"

definition write_sample_csv :: "string \<Rightarrow> string \<Rightarrow> pipeline_result \<Rightarrow> i32 \<Rightarrow> disk \<Rightarrow> string result \<times> disk" where
  "write_sample_csv dir wafer r decimation d = write_text dir ''samples.csv'' (sample_csv wafer r decimation) d"

section \<open>JSON summary\<close>

record wafer_run_meta =
  me_run_id :: string
  me_wafer_id :: string
  me_slot :: int
  me_cassette_id :: string
  me_seed :: u64
  me_truth_stress_mpa :: f8
  me_scan_ms :: int
  me_analysis_ms :: int

text \<open>The value that is built; its text is the library's.\<close>

datatype jvalue = Jnull | Jbool bool | Jint int | Jdouble f8 | Jstring string
  | Jarray "jvalue list" | Jobject "(string \<times> jvalue) list"

definition kPaToMpa :: f8 where "kPaToMpa = f8_lit 1 1000000"

definition json_summary :: "pipeline_result \<Rightarrow> wafer_run_meta \<Rightarrow> jvalue" where
  "json_summary r meta =
     (let number = (\<lambda>pa. if qg_issue (pr_quality r) = kNone then Jdouble (f8_mul pa kPaToMpa) else Jnull)
      in Jobject
           [(''run_id'', Jstring (me_run_id meta)), (''wafer_id'', Jstring (me_wafer_id meta)),
            (''slot'', Jint (me_slot meta)), (''cassette_id'', Jstring (me_cassette_id meta)),
            (''result'', Jobject
               [(''stress_mpa'', number (pr_stress_pa r)), (''stress_unc_mpa'', number (pr_stress_unc_pa r)),
                (''mean_curvature_1_per_m'', Jdouble (cr_mean_curvature_per_m (pr_combined r))),
                (''anisotropy'', Jdouble (cr_anisotropy (pr_combined r))),
                (''fit_rms_um_max'', Jdouble (f8_mul (pr_max_fit_rms_m r) (f8_lit 1000000 1))),
                (''removed_fraction'', Jdouble (pr_removed_fraction_overall r)),
                (''out_of_spec'', Jbool (qg_out_of_spec (pr_quality r)))]),
            (''simulation_truth'', Jobject
               [(''stress_mpa'', Jdouble (me_truth_stress_mpa meta)), (''seed'', Jint (uint (me_seed meta)))]),
            (''timing_ms'', Jobject
               [(''scan'', Jint (me_scan_ms meta)), (''analysis'', Jint (me_analysis_ms meta))]),
            (''alarms'', Jarray [])])"

definition write_json_summary ::
    "(jvalue \<Rightarrow> string) \<Rightarrow> string \<Rightarrow> pipeline_result \<Rightarrow> wafer_run_meta \<Rightarrow> disk \<Rightarrow> string result \<times> disk" where
  "write_json_summary dump dir r meta d = write_text dir ''summary.json'' (dump (json_summary r meta)) d"

section \<open>The picture\<close>

definition kColorBarWidth :: int where "kColorBarWidth = 20"
definition kMargin :: int where "kMargin = 10"

text \<open>\<^verbatim>\<open>std::lround\<close>, halves away from zero; \<open>None\<close> where the result is unspecified.\<close>

definition lround :: "f8 \<Rightarrow> int option" where
  "lround w =
     (if \<not> f8_finite w then None
      else case f8_ratio w of
             (num, den) \<Rightarrow>
               let a = (2 * num + den) div (2 * den); i = (if f8_sign w then - int a else int a)
               in if - (2 ^ 63) \<le> i \<and> i < 2 ^ 63 then Some i else None)"

type_synonym rgb = "byte \<times> byte \<times> byte"

definition colour_byte :: "f8 \<Rightarrow> byte option" where
  "colour_byte x = map_option of_int (lround (f8_mul x (f8_lit 255 1)))"

definition clamp01 :: "f8 \<Rightarrow> f8" where
  "clamp01 t = (if f8_less t 0 then 0 else if f8_less (f8_lit 1 1) t then f8_lit 1 1 else t)"

definition diverging_color :: "f8 \<Rightarrow> rgb option" where
  "diverging_color t0 =
     (let t = clamp01 t0;
          (r, g, b) =
            (if f8_less t half then (let u = f8_mul t (f8_lit 2 1) in (u, u, f8_lit 1 1))
             else (let u = f8_mul (f8_sub t half) (f8_lit 2 1)
                   in (f8_lit 1 1, f8_sub (f8_lit 1 1) u, f8_sub (f8_lit 1 1) u)))
      in case (colour_byte r, colour_byte g, colour_byte b) of
           (Some r, Some g, Some b) \<Rightarrow> Some (r, g, b)
         | _ \<Rightarrow> None)"

text \<open>Three bytes of the buffer; \<open>None\<close> outside it.\<close>

definition put_pixel :: "int \<Rightarrow> int \<Rightarrow> int \<Rightarrow> rgb \<Rightarrow> byte list \<Rightarrow> byte list option" where
  "put_pixel stride x y c pixels =
     (let idx = nat y * nat stride + nat x * 3
      in if x < 0 \<or> y < 0 \<or> stride < 0 \<or> idx + 2 \<ge> length pixels then None
         else case c of (r, g, b) \<Rightarrow> Some (pixels[idx := r, idx + 1 := g, idx + 2 := b]))"

text \<open>The range of the finite heights, infinite bounds where there is none.\<close>

definition height_range :: "f8 list \<Rightarrow> f8 \<times> f8" where
  "height_range hs =
     fold (\<lambda>v (lo, hi). if f8_finite v then (if f8_less v lo then v else lo, if f8_less hi v then v else hi)
                        else (lo, hi)) hs (f8_make False f8_inf, f8_make True f8_inf)"

record picture =
  pi_width :: int
  pi_height :: int
  pi_stride :: int
  pi_pixels :: "byte list"

text \<open>The colour of a cell of the map: its height, or black on the edge-exclusion ring.\<close>

definition cell_colour :: "libm \<Rightarrow> wafer_map \<Rightarrow> f8 \<Rightarrow> f8 \<Rightarrow> f8 \<Rightarrow> int \<Rightarrow> int \<Rightarrow> f8 \<Rightarrow> rgb option" where
  "cell_colour lm m edge lo spread j i v =
     map_option (\<lambda>c.
       let radius_mm = f8_div (f8_mul (wm_diameter_m m) (f8_lit 1000 1)) (f8_lit 2 1);
           half_n = f8_div (f8_of_int (wm_width m - 1)) (f8_lit 2 1);
           x_mm = f8_mul (f8_sub (f8_of_int i) half_n) (wm_grid_mm m);
           y_mm = f8_mul (f8_sub (f8_of_int j) half_n) (wm_grid_mm m);
           ring_r = f8_sub radius_mm edge
       in if f8_less (f8_fabs (f8_sub (hypot lm x_mm y_mm) ring_r)) (f8_mul (wm_grid_mm m) half)
          then (0, 0, 0) else c)
     (diverging_color (f8_div (f8_sub v lo) spread))"

definition draw_cell ::
    "libm \<Rightarrow> wafer_map \<Rightarrow> f8 \<Rightarrow> f8 \<Rightarrow> f8 \<Rightarrow> int \<Rightarrow> int \<times> int \<Rightarrow> byte list \<Rightarrow> byte list option" where
  "draw_cell lm m edge lo spread stride = (\<lambda>(j, i) pixels.
     let idx = nat j * nat (wm_width m) + nat i
     in if idx \<ge> length (wm_heights_m m) then None
        else let v = wm_heights_m m ! idx
             in if \<not> f8_finite v then Some pixels
                else Option.bind (cell_colour lm m edge lo spread j i v) (\<lambda>c. put_pixel stride i j c pixels))"

definition draw_bar :: "wafer_map \<Rightarrow> int \<Rightarrow> int \<Rightarrow> int \<times> int \<Rightarrow> byte list \<Rightarrow> byte list option" where
  "draw_bar m rows stride = (\<lambda>(j, i) pixels.
     Option.bind
       (diverging_color (f8_sub (f8_lit 1 1) (f8_div (f8_of_int j) (f8_of_int (max (rows - 1) 1)))))
       (\<lambda>c. put_pixel stride (wm_width m + kMargin + i) j c pixels))"

text \<open>A loop over rows and columns.\<close>

definition over_grid ::
    "int \<Rightarrow> int \<Rightarrow> (int \<times> int \<Rightarrow> byte list \<Rightarrow> byte list option) \<Rightarrow> byte list \<Rightarrow> byte list option" where
  "over_grid rows cols f pixels =
     fold (\<lambda>ji acc. Option.bind acc (f ji))
       (concat (map (\<lambda>j. map (\<lambda>i. (int j, int i)) [0..<nat cols]) [0..<nat rows])) (Some pixels)"

definition paint_wafer_map :: "libm \<Rightarrow> wafer_map \<Rightarrow> f8 \<Rightarrow> picture option" where
  "paint_wafer_map lm m edge =
     (let (lo0, hi0) = height_range (wm_heights_m m);
          (lo, hi) = (if f8_le lo0 hi0 then (lo0, hi0) else (0, f8_lit 1 1));
          spread = (if f8_less lo hi then f8_sub hi lo else f8_lit 1 1);
          width = wm_width m + kMargin + kColorBarWidth; rows = max (wm_height m) 1; stride = width * 3
      in if stride \<ge> 2 ^ 31 then None
         else map_option (\<lambda>px. \<lparr>pi_width = width, pi_height = rows, pi_stride = stride, pi_pixels = px\<rparr>)
                (Option.bind
                   (over_grid (wm_height m) (wm_width m) (draw_cell lm m edge lo spread stride)
                      (replicate (nat stride * nat rows) 200))
                   (over_grid rows kColorBarWidth (draw_bar m rows stride))))"

text \<open>\<open>png\<close> is \<^verbatim>\<open>stbi_write_png\<close>: whether it succeeded, and the disk after it.\<close>

definition write_wafer_map_png ::
    "libm \<Rightarrow> (string \<Rightarrow> picture \<Rightarrow> disk \<Rightarrow> bool \<times> disk) \<Rightarrow> string \<Rightarrow> wafer_map \<Rightarrow> f8 \<Rightarrow> disk
       \<Rightarrow> (string result \<times> disk) option" where
  "write_wafer_map_png lm png dir m edge d =
     (let path = path_join dir ''wafer_map.png''
      in if dk_files d path \<noteq> None
         then Some (Err kWriteErrorExitCode (''wafer_map.png already exists: '' @ path), d)
         else map_option (\<lambda>p.
                case png path p d of
                  (ok, d) \<Rightarrow>
                    (if ok then Ok path else Err kWriteErrorExitCode (''stbi_write_png failed: '' @ path), d))
              (paint_wafer_map lm m edge))"

section \<open>Decimation\<close>

definition is_kept :: "filtered_sample \<Rightarrow> bool" where
  "is_kept s \<longleftrightarrow> fs_flag s = kKept"

text \<open>Every \<open>step\<close>-th element of a list, the first \<open>skip\<close> left out.\<close>

fun every :: "nat \<Rightarrow> nat \<Rightarrow> 'a list \<Rightarrow> 'a list" where
  "every step seen [] = []"
| "every step seen (x # xs) = (if seen mod step = 0 then [x] else []) @ every step (seen + 1) xs"

lemma decimate_kept: "filter is_kept (decimate step seen ss) = every step seen (filter is_kept ss)"
  by (induction step seen ss rule: decimate.induct) (simp_all add: is_kept_def)

lemma decimate_rest: "filter (\<lambda>s. \<not> is_kept s) (decimate step seen ss) = filter (\<lambda>s. \<not> is_kept s) ss"
  by (induction step seen ss rule: decimate.induct) (simp_all add: is_kept_def)

lemma every_nth:
  assumes "0 < step"
  shows "every step seen xs = map (\<lambda>i. xs ! i) (filter (\<lambda>i. (seen + i) mod step = 0) [0..<length xs])"
proof (induction xs arbitrary: seen)
  case (Cons x xs)
  have "[0..<length (x # xs)] = 0 # map Suc [0..<length xs]" by (simp add: map_Suc_upt upt_conv_Cons del: upt_Suc)
  then show ?case using Cons [of "seen + 1"] by (simp add: filter_map comp_def)
qed simp

text \<open>
  The sample file drops only kept samples, and those evenly: every edge, outlier and dropped sample of a line
  is written, and of the kept ones exactly those whose number is a multiple of the decimation.
\<close>

theorem sample_csv_decimation:
  "filter (\<lambda>s. \<not> is_kept s) (decimate (decimation_step d) 0 ss) = filter (\<lambda>s. \<not> is_kept s) ss \<and>
   filter is_kept (decimate (decimation_step d) 0 ss) =
     map (\<lambda>i. filter is_kept ss ! i) (filter (\<lambda>i. i mod decimation_step d = 0) [0..<length (filter is_kept ss)])"
  using every_nth [of "decimation_step d" 0 "filter is_kept ss"]
  by (simp add: decimate_rest decimate_kept decimation_step_def)

lemma full_disk_unnoticed:
  "fst (write_text ''out'' ''lines.csv'' ''text'' \<lparr>dk_files = Map.empty, dk_no_open = (\<lambda>_. False), dk_room = (\<lambda>_. 0)\<rparr>)
     = Ok ''out/lines.csv'' \<and>
   dk_files (snd (write_text ''out'' ''lines.csv'' ''text''
     \<lparr>dk_files = Map.empty, dk_no_open = (\<lambda>_. False), dk_room = (\<lambda>_. 0)\<rparr>)) ''out/lines.csv'' = Some []"
  by (simp add: write_text_def path_join_def Let_def)

text \<open>A text writer changes no file that was there.\<close>

lemma write_text_keeps:
  "dk_files d p \<noteq> None \<Longrightarrow> dk_files (snd (write_text dir name content d)) p = dk_files d p"
  by (auto simp: write_text_def Let_def)

section \<open>Colours\<close>

lemma f8_fabs_pos: "f8_finite x \<Longrightarrow> f8_pos (f8_fabs x)" "f8_finite x \<Longrightarrow> f8_val (f8_fabs x) = f8_val x"
  using f8_pos_make [of "f8_abs x"] by (simp_all add: f8_fabs_def f8_finite_def f8_val_def)

lemma f8_mul_fabs:
  assumes "f8_finite a" "f8_finite b"
  shows "f8_abs (f8_mul a b) = f8_abs (f8_mul (f8_fabs a) (f8_fabs b))"
proof -
  have p: "f8_parts (f8_fabs w) = f8_parts w" if "f8_finite w" for w
    using that f8_make_facts(1) [of "f8_abs w" False] by (simp add: f8_parts_def f8_fabs_def f8_finite_def)
  have f: "f8_finite (f8_fabs w)" if "f8_finite w" for w using f8_fabs_pos(1) [OF that] by (simp add: f8_pos_def)
  have "f8_abs (f8_of_scaled s m x) = f8_abs (f8_of_scaled t m x)" for s t m x
    using f8_make_facts(1) [OF f8_of_ratio_le] by (simp add: f8_of_scaled_def)
  then show ?thesis
    using assms by (auto simp: f8_mul_def f8_not_nan_finite f p split: prod.split)
qed

lemma f8_mul_size:
  assumes "f8_finite a" "f8_finite b" "f8_pos c" "f8_val a * f8_val b \<le> f8_val c"
  shows "f8_finite (f8_mul a b)" "f8_val (f8_mul a b) \<le> f8_val c"
proof -
  have "rounds_to (f8_val a * f8_val b) (f8_mul (f8_fabs a) (f8_fabs b))"
    using f8_mul_rounds [OF f8_fabs_pos(1) [OF assms(1)] f8_fabs_pos(1) [OF assms(2)]] assms(1,2)
    by (simp add: f8_fabs_pos(2))
  note r = rounds_to_le [OF this assms(3,4)]
  have "f8_abs (f8_mul a b) = f8_abs (f8_mul (f8_fabs a) (f8_fabs b))" by (rule f8_mul_fabs [OF assms(1,2)])
  with r show "f8_finite (f8_mul a b)" "f8_val (f8_mul a b) \<le> f8_val c"
    by (simp_all add: f8_pos_def f8_finite_def f8_val_def)
qed

lemma ratio_pos: "f8_ratio w = (num, den) \<Longrightarrow> den > 0 \<and> f8_val w = real num / real den"
proof -
  assume r: "f8_ratio w = (num, den)"
  obtain m x where p: "f8_parts w = (m, x)" by force
  show ?thesis
    using r f8_val_parts [OF p] by (cases "x \<ge> 0") (auto simp: f8_ratio_def p ratio_of_def power_int_def field_simps)
qed

lemma lround_small:
  assumes "f8_finite w" "f8_val w \<le> 1020"
  shows "\<exists>i. lround w = Some i"
proof -
  obtain num den where r: "f8_ratio w = (num, den)" by force
  note d = ratio_pos [OF r]
  have "real num \<le> 1020 * real den" using assms(2) d by (simp add: pos_divide_le_eq)
  then have "real num \<le> real (1020 * den)" by simp
  then have "num \<le> 1020 * den" by (simp only: of_nat_le_iff)
  then have "2 * num + den \<le> 1021 * (2 * den)" by simp
  then have "(2 * num + den) div (2 * den) \<le> 1021" using d by (metis div_le_mono nonzero_mult_div_cancel_right mult_pos_pos not_gr0 zero_less_numeral less_irrefl)
  then show ?thesis using assms(1) by (simp add: lround_def r Let_def)
qed

lemmas f8_one = f8_whole(3,4) [of 1, simplified]
lemmas f8_two = f8_whole(3,4) [of 2, simplified]
lemmas f8_three = f8_whole(3,4) [of 3, simplified]
lemmas f8_255 = f8_whole(3,4) [of 255, simplified]
lemmas f8_1020 = f8_whole(1,2) [of 1020, simplified]

lemma half_val: "f8_pos half" "f8_val half = 1 / 2"
proof -
  have h: "half = 0x3FE0000000000000" by (simp add: half_def lit_eval)
  have "f8_parts half = (4503599627370496, - 53)" by (simp add: h f8_parts_def f8_abs_def)
  from f8_val_parts [OF this] show "f8_val half = 1 / 2" by (simp add: power_int_def power_one_over)
  show "f8_pos half" by (simp add: h f8_pos_def f8_finite_def f8_sign_def f8_abs_def f8_inf_def)
qed

lemma f8_val_int: "f8_val w = real_of_int \<bar>f8_int w\<bar> * 2 powi (- 1074)"
  by (simp add: f8_val_def mag_val_def f8_int_def)

lemma f8_val_int_le: "f8_val a \<le> f8_val b \<longleftrightarrow> \<bar>f8_int a\<bar> \<le> \<bar>f8_int b\<bar>"
  by (simp add: f8_val_int del: of_int_abs)

lemma f8_abs_key: "f8_abs w = nat \<bar>f8_key w\<bar>"
  by (simp add: f8_key_def)

lemma f8_sub_size:
  assumes "f8_finite a" "f8_finite b" "f8_pos c" "\<bar>f8_int a - f8_int b\<bar> \<le> f8_int c"
  shows "f8_finite (f8_sub a b)" "f8_val (f8_sub a b) \<le> f8_val c"
proof -
  have c: "f8_abs c < f8_inf" "f8_int c = int (f8_mag (f8_abs c))"
    using assms(3) by (simp_all add: f8_pos_def f8_finite_def f8_int_def)
  have "f8_abs (f8_sub a b) = rounded (nat \<bar>f8_int a - f8_int b\<bar>)"
    using f8_sub_key [OF assms(1,2)] by (simp add: f8_abs_key [of "f8_sub a b"] round_key_def)
  also have "\<dots> \<le> rounded (f8_mag (f8_abs c))" using assms(4) c(2) by (intro rounded_mono) simp
  finally have "f8_abs (f8_sub a b) \<le> f8_abs c" by (simp add: rounded_mag [OF c(1)])
  with c(1) show "f8_finite (f8_sub a b)" "f8_val (f8_sub a b) \<le> f8_val c"
    by (simp_all add: f8_finite_def f8_val_def)
qed

lemma f8_sub_size_val:
  assumes "f8_finite a" "f8_finite b" "f8_pos c" "f8_val a + f8_val b \<le> f8_val c"
  shows "f8_finite (f8_sub a b)" "f8_val (f8_sub a b) \<le> f8_val c"
proof -
  have "real_of_int (\<bar>f8_int a\<bar> + \<bar>f8_int b\<bar>) * 2 powi (- 1074) \<le> real_of_int \<bar>f8_int c\<bar> * 2 powi (- 1074)"
    using assms(4) by (simp add: f8_val_int distrib_right)
  then have "real_of_int (\<bar>f8_int a\<bar> + \<bar>f8_int b\<bar>) \<le> real_of_int \<bar>f8_int c\<bar>"
    by (rule mult_right_le_imp_le) simp
  then have "\<bar>f8_int a\<bar> + \<bar>f8_int b\<bar> \<le> \<bar>f8_int c\<bar>" by (simp only: of_int_le_iff)
  moreover have "f8_int c \<ge> 0" using assms(3) by (simp add: f8_pos_def f8_int_def)
  ultimately have "\<bar>f8_int a - f8_int b\<bar> \<le> f8_int c" by linarith
  from f8_sub_size [OF assms(1-3) this] show "f8_finite (f8_sub a b)" "f8_val (f8_sub a b) \<le> f8_val c" .
qed

lemma clamp01_range:
  assumes "\<not> f8_nan t"
  shows "f8_finite (clamp01 t)" "0 \<le> f8_int (clamp01 t)" "f8_int (clamp01 t) \<le> f8_int (f8_lit 1 1)"
proof -
  have z: "f8_int 0 = 0" "f8_key 0 = 0" "f8_finite 0" "\<not> f8_nan 0"
    by (simp_all add: f8_int_def f8_key_def f8_abs_def f8_finite_def f8_inf_def f8_nan_def)
  have one: "f8_finite (f8_lit 1 1)" "\<not> f8_sign (f8_lit 1 1)" "\<not> f8_nan (f8_lit 1 1)"
    using f8_one by (simp_all add: f8_pos_def)
  have "0 \<le> f8_int t \<and> f8_int t \<le> f8_int (f8_lit 1 1) \<and> f8_finite t" if "\<not> f8_less t 0" "\<not> f8_less (f8_lit 1 1) t"
  proof -
    have k: "0 \<le> f8_key t" "f8_key t \<le> f8_key (f8_lit 1 1)" using that assms z one by (simp_all add: f8_less_def)
    have "f8_abs t \<le> f8_abs (f8_lit 1 1)" using k by (simp add: f8_abs_key)
    then have "f8_finite t" using one(1) by (simp add: f8_finite_def)
    then show ?thesis using k f8_int_le_iff [of 0 t] f8_int_le_iff [of t "f8_lit 1 1"] z by simp
  qed
  moreover have "0 \<le> f8_int (f8_lit 1 1)" using one(2) by (simp add: f8_int_def)
  ultimately show "f8_finite (clamp01 t)" "0 \<le> f8_int (clamp01 t)" "f8_int (clamp01 t) \<le> f8_int (f8_lit 1 1)"
    using z one by (auto simp: clamp01_def)
qed

lemma colour_byte_Some:
  assumes "f8_finite x" "f8_val x \<le> 4"
  shows "\<exists>b. colour_byte x = Some b"
proof -
  have "f8_val x * 255 \<le> f8_val (f8_of_int 1020)" using assms(2) by (simp add: f8_1020)
  then have "f8_finite (f8_mul x (f8_lit 255 1))" "f8_val (f8_mul x (f8_lit 255 1)) \<le> 1020"
    using f8_mul_size [OF assms(1) _ f8_1020(1), of "f8_lit 255 1"] f8_255 by (simp_all add: f8_1020 f8_pos_def)
  then show ?thesis using lround_small by (auto simp: colour_byte_def)
qed

lemma diverging_color_Some:
  assumes "\<not> f8_nan t"
  shows "\<exists>c. diverging_color t = Some c"
proof -
  define c where "c = clamp01 t"
  note cr = clamp01_range [OF assms, folded c_def]
  have one: "f8_finite (f8_lit 1 1)" "f8_val (f8_lit 1 1) = 1" using f8_one by (simp_all add: f8_pos_def)
  have v1: "f8_val c \<le> 1" using cr f8_val_int_le [of c "f8_lit 1 1"] one by simp
  have m: "f8_finite (f8_mul x (f8_lit 2 1))" "f8_val (f8_mul x (f8_lit 2 1)) \<le> 2"
    if "f8_finite x" "f8_val x \<le> 1" for x
    using f8_mul_size [OF that(1) _ f8_two(1), of "f8_lit 2 1"] that(2) f8_two by (simp_all add: f8_pos_def)
  note b1 = colour_byte_Some [OF one(1)]
  show ?thesis
  proof (cases "f8_less c half")
    case True
    then show ?thesis
      using colour_byte_Some [OF m(1) [OF cr(1) v1]] m(2) [OF cr(1) v1] b1 one(2)
      by (auto simp: diverging_color_def c_def [symmetric] Let_def)
  next
    case False
    define u where "u = f8_mul (f8_sub c half) (f8_lit 2 1)"
    have hf: "f8_finite half" "0 \<le> f8_int half" "f8_int half \<le> f8_int (f8_lit 1 1)"
      using half_val f8_val_int_le [of half "f8_lit 1 1"] f8_one by (simp_all add: f8_pos_def f8_int_def)
    have "\<bar>f8_int c - f8_int half\<bar> \<le> f8_int (f8_lit 1 1)" using cr(2,3) hf by linarith
    note s = f8_sub_size [OF cr(1) hf(1) f8_one(1) [folded One_nat_def] this]
    have u: "f8_finite u" "f8_val u \<le> 2" unfolding u_def using m [OF s(1)] s(2) one(2) by simp_all
    have "f8_finite (f8_sub (f8_lit 1 1) u)" "f8_val (f8_sub (f8_lit 1 1) u) \<le> 3"
      using f8_sub_size_val [OF one(1) u(1) f8_three(1)] u(2) one(2) f8_three by simp_all
    then show ?thesis
      using colour_byte_Some [of "f8_sub (f8_lit 1 1) u"] b1 one(2) False unfolding u_def
      by (auto simp: diverging_color_def c_def [symmetric] Let_def)
  qed
qed

section \<open>The picture stays inside its buffer\<close>

lemma put_pixel_Some:
  assumes "0 \<le> x" "x < width" "0 \<le> y" "y < rows" "length px = nat (3 * width) * nat rows"
  shows "\<exists>px'. put_pixel (width * 3) x y c px = Some px' \<and> length px' = length px"
proof -
  obtain a b w h where n: "x = int a" "y = int b" "width = int w" "rows = int h"
    using assms(1-4) by (metis nonneg_int_cases order_less_imp_le order_trans)
  have ab: "a + 1 \<le> w" "b + 1 \<le> h" using assms n by simp_all
  have "(a + 1) * 3 \<le> w * 3" "(b + 1) * (w * 3) \<le> h * (w * 3)"
    by (rule mult_le_mono1 [OF ab(1)], rule mult_le_mono1 [OF ab(2)])
  then have "b * (w * 3) + a * 3 + 2 < length px" using assms(5) n by (simp add: nat_mult_distrib algebra_simps)
  moreover have "nat (width * 3) = w * 3" "nat y = b" "nat x = a" using n by (simp_all add: nat_mult_distrib)
  ultimately show ?thesis using assms n by (cases c) (simp add: put_pixel_def Let_def not_le)
qed

lemma over_grid_Some:
  assumes "\<And>j i px. 0 \<le> j \<Longrightarrow> j < rows \<Longrightarrow> 0 \<le> i \<Longrightarrow> i < cols \<Longrightarrow> length px = k \<Longrightarrow>
      \<exists>px'. f (j, i) px = Some px' \<and> length px' = k"
    and "length px = k"
  shows "\<exists>px'. over_grid rows cols f px = Some px' \<and> length px' = k"
proof -
  have all: "\<exists>px'. fold (\<lambda>ji acc. Option.bind acc (f ji)) xs (Some px) = Some px' \<and> length px' = k"
    if "\<forall>(j, i) \<in> set xs. 0 \<le> j \<and> j < rows \<and> 0 \<le> i \<and> i < cols" "length px = k" for xs px
    using that
  proof (induction xs arbitrary: px)
    case (Cons ji xs)
    obtain j i where ji: "ji = (j, i)" by force
    with Cons.prems have "0 \<le> j" "j < rows" "0 \<le> i" "i < cols" by simp_all
    from assms(1) [OF this Cons.prems(2)] obtain px1 where "f ji px = Some px1" "length px1 = k" by (auto simp: ji)
    then show ?case using Cons by simp
  qed simp
  show ?thesis
    unfolding over_grid_def by (rule all) (use assms(2) in \<open>auto simp: zless_nat_eq_int_zless\<close>)
qed

lemma height_range_facts:
  fixes hs defines "lo \<equiv> fst (height_range hs)" and "hi \<equiv> snd (height_range hs)"
  assumes "v \<in> set hs" "f8_finite v"
  shows "lo \<in> set hs" "hi \<in> set hs" "f8_finite lo" "f8_finite hi" "f8_le lo hi"
proof -
  let ?f = "\<lambda>v (lo, hi). if f8_finite v then (if f8_less v lo then v else lo, if f8_less hi v then v else hi) else (lo, hi)"
  let ?i = "(f8_make False f8_inf, f8_make True f8_inf)"
  let ?good = "\<lambda>xs p. if filter f8_finite xs = [] then p = ?i
    else fst p \<in> set xs \<and> snd p \<in> set xs \<and> f8_finite (fst p) \<and> f8_finite (snd p) \<and>
      (\<forall>v \<in> set xs. f8_finite v \<longrightarrow> f8_key (fst p) \<le> f8_key v)"
  have k: "f8_key (f8_make False f8_inf) = int f8_inf" "f8_key (f8_make True f8_inf) = - int f8_inf"
    using f8_make_facts(3) [of f8_inf] by simp_all
  have nn: "\<not> f8_nan (f8_make s f8_inf)" for s by (rule f8_not_nan_make) simp
  have b: "\<bar>f8_key v\<bar> < int f8_inf" if "f8_finite v" for v using that by (simp add: f8_finite_def f8_abs_key nat_less_iff)
  have "?good hs (fold ?f hs ?i)"
  proof (induction hs rule: rev_induct)
    case (snoc v hs)
    obtain lo hi where p: "fold ?f hs ?i = (lo, hi)" by force
    show ?case
    proof (cases "filter f8_finite hs = []")
      case True
      then show ?thesis using snoc p b [of v] k nn
        by (auto simp: f8_less_def f8_not_nan_finite filter_empty_conv)
    next
      case False
      then show ?thesis using snoc p by (auto simp: f8_less_def f8_not_nan_finite)
    qed
  qed simp
  then have g: "?good hs (lo, hi)" by (simp add: lo_def hi_def height_range_def)
  moreover have "filter f8_finite hs \<noteq> []" using assms(3,4) by (auto simp: filter_empty_conv)
  ultimately show l: "lo \<in> set hs" "hi \<in> set hs" "f8_finite lo" "f8_finite hi"
    by (simp_all only: if_False fst_conv snd_conv)
  show "f8_le lo hi"
    using g \<open>filter f8_finite hs \<noteq> []\<close> l(2-4) by (simp add: f8_le_def f8_not_nan_finite)
qed

lemma f8_div_not_nan:
  assumes "f8_finite a" "f8_finite b" "f8_abs b \<noteq> 0"
  shows "\<not> f8_nan (f8_div a b)"
  using assms f8_not_nan_make [OF f8_of_ratio_le]
  by (simp add: f8_div_def f8_not_nan_finite split: prod.split)

lemma f8_sub_nonzero:
  assumes "f8_finite a" "f8_finite b" "f8_less b a"
  shows "f8_abs (f8_sub a b) \<noteq> 0"
proof -
  have "f8_int b < f8_int a" using assms by (simp add: f8_int_less_iff f8_less_def)
  then have "f8_key (f8_sub a b) = int (rounded (nat (f8_int a - f8_int b)))"
    using f8_sub_key [OF assms(1,2)] by (simp add: round_key_def)
  moreover have "rounded 1 = 1" by (simp add: rounded_def bit_length.simps round_quotient_def f8_inf_def)
  then have "1 \<le> rounded (nat (f8_int a - f8_int b))"
    using rounded_mono [of 1 "nat (f8_int a - f8_int b)"] \<open>f8_int b < f8_int a\<close> by simp
  ultimately show ?thesis by (auto simp: f8_abs_key)
qed

text \<open>
  The maps for which painting is defined: as many heights as cells, a row of the picture whose bytes an int can
  count, and no two finite heights infinitely far apart. The first is shown of \<^verbatim>\<open>build_wafer_map\<close> below; the other two
  are limits of \<^verbatim>\<open>png_writer.cpp\<close> itself, which the map grid and the heights of a real wafer keep by far.
\<close>

definition drawable :: "wafer_map \<Rightarrow> bool" where
  "drawable m \<longleftrightarrow> 0 \<le> wm_width m \<and> 0 \<le> wm_height m \<and> wm_height m < 2 ^ 31 \<and>
     length (wm_heights_m m) = nat (wm_width m) * nat (wm_height m) \<and> (wm_width m + 30) * 3 < 2 ^ 31 \<and>
     (\<forall>v \<in> set (wm_heights_m m). \<forall>u \<in> set (wm_heights_m m). f8_finite v \<and> f8_finite u \<longrightarrow> f8_finite (f8_sub v u))"

lemma those_length: "those xs = Some ys \<Longrightarrow> length ys = length xs"
  by (induction xs arbitrary: ys) (auto split: option.splits)

lemma build_wafer_map_shape:
  assumes "build_wafer_map lm fits d g = Some m"
  shows "wm_height m = wm_width m \<and> wm_width m < 2 ^ 31 \<and>
    length (wm_heights_m m) = nat (wm_width m) * nat (wm_height m)"
  using assms
  by (auto simp: build_wafer_map_def Let_def length_concat comp_def sum_list_triv dest!: those_length
      split: option.splits if_splits)

lemma cell_in_map:
  assumes "0 \<le> j" "j < h" "0 \<le> i" "i < w" "length hs = nat w * nat h"
  shows "nat j * nat w + nat i < length hs"
proof -
  obtain a b c d where n: "j = int a" "i = int b" "w = int c" "h = int d"
    using assms(1-4) by (metis nonneg_int_cases order_less_imp_le order_trans)
  have "a + 1 \<le> d" "b < c" using assms n by simp_all
  then have "(a + 1) * c \<le> d * c" by (intro mult_le_mono1)
  then show ?thesis using assms(5) n \<open>b < c\<close> by (simp add: mult.commute)
qed

text \<open>Neither loop body fails on a buffer of the right length, nor changes that length.\<close>

lemma draw_cell_Some:
  assumes d: "drawable m" and lo: "lo = (if f8_le lo0 hi0 then lo0 else 0)"
    and sp: "sp = (if f8_less lo hi then f8_sub hi lo else f8_lit 1 1)" and hi: "hi = (if f8_le lo0 hi0 then hi0 else f8_lit 1 1)"
    and r: "height_range (wm_heights_m m) = (lo0, hi0)"
    and i: "0 \<le> j" "j < wm_height m" "0 \<le> i" "i < wm_width m"
    and px: "length px = nat (3 * (wm_width m + 30)) * nat (max (wm_height m) 1)"
  shows "\<exists>px'. draw_cell lm m edge lo sp ((wm_width m + 30) * 3) (j, i) px = Some px' \<and> length px' = length px"
proof -
  let ?v = "wm_heights_m m ! (nat j * nat (wm_width m) + nat i)"
  note dd = d [unfolded drawable_def]
  have l: "nat j * nat (wm_width m) + nat i < length (wm_heights_m m)"
    by (rule cell_in_map [OF i conjunct1 [OF conjunct2 [OF conjunct2 [OF conjunct2 [OF dd]]]]])
  show ?thesis
  proof (cases "f8_finite ?v")
    case True
    note h = height_range_facts [OF nth_mem [OF l] True, unfolded r fst_conv snd_conv]
    have lh: "lo = lo0" "hi = hi0" using h(5) by (simp_all add: lo hi)
    have s: "f8_finite sp" "f8_abs sp \<noteq> 0"
      using h dd f8_sub_nonzero [OF h(4,3)] f8_one f8_abs_nonzero [of "f8_lit 1 1"]
      by (auto simp: sp lh f8_pos_def)
    have "f8_finite (f8_sub ?v lo)" using dd True h(1,3) l by (simp add: lh)
    then have "\<not> f8_nan (f8_div (f8_sub ?v lo) sp)" by (rule f8_div_not_nan [OF _ s])
    then obtain c where "cell_colour lm m edge lo sp j i ?v = Some c"
      using diverging_color_Some by (fastforce simp: cell_colour_def)
    then show ?thesis
      using put_pixel_Some [OF i(3) _ i(1), of "wm_width m + 30" "max (wm_height m) 1" px c] i px l True
      by (simp add: draw_cell_def Let_def not_le)
  qed (use l px in \<open>simp add: draw_cell_def Let_def not_le\<close>)
qed

lemma draw_bar_Some:
  assumes "drawable m" "h = max (wm_height m) 1" "0 \<le> j" "j < h" "0 \<le> i" "i < kColorBarWidth"
    and "length px = nat (3 * (wm_width m + 30)) * nat h"
  shows "\<exists>px'. draw_bar m h ((wm_width m + 30) * 3) (j, i) px = Some px' \<and> length px' = length px"
proof -
  note d = assms(1) [unfolded drawable_def]
  let ?q = "f8_div (f8_of_int j) (f8_of_int (max (h - 1) 1))"
  have fin: "f8_finite (f8_of_int x)" "f8_val (f8_of_int x) = real_of_int x" if "0 \<le> x" "x < 2 ^ 31" for x
    using f8_whole(1,2) [of "nat x"] that by (simp_all add: f8_pos_def)
  have "\<not> f8_nan ?q"
  proof (rule f8_div_not_nan)
    have b: "0 \<le> max (h - 1) 1" "max (h - 1) 1 < 2 ^ 31" "j < 2 ^ 31" using assms(2,4) d by auto
    show "f8_finite (f8_of_int j)" "f8_finite (f8_of_int (max (h - 1) 1))" using fin(1) b assms(3) by blast+
    show "f8_abs (f8_of_int (max (h - 1) 1)) \<noteq> 0" by (rule f8_abs_nonzero) (simp add: fin(2) [OF b(1,2)])
  qed
  then have "\<not> f8_nan (f8_sub (f8_lit 1 1) ?q)"
    by (rule f8_sub_not_nan(1) [rotated]) (use f8_one in \<open>simp add: f8_pos_def\<close>)
  then obtain c where "diverging_color (f8_sub (f8_lit 1 1) ?q) = Some c" using diverging_color_Some by blast
  then show ?thesis
    using put_pixel_Some [of "wm_width m + kMargin + i" "wm_width m + 30" j h px c] assms d
    by (simp add: draw_bar_def kMargin_def kColorBarWidth_def)
qed

text \<open>
  C40. Painting the wafer map never leaves its pixel buffer and never converts a value that has no colour: for every
  map of the right shape the picture comes out, three bytes per pixel of a width that leaves room for the colour bar.
\<close>

theorem picture_in_bounds:
  assumes "drawable m"
  shows "\<exists>p. paint_wafer_map lm m edge = Some p \<and> pi_width p = wm_width m + 30 \<and>
    pi_height p = max (wm_height m) 1 \<and> int (length (pi_pixels p)) = 3 * pi_width p * pi_height p"
proof -
  obtain lo0 hi0 where r: "height_range (wm_heights_m m) = (lo0, hi0)" by force
  define lo hi where "lo = (if f8_le lo0 hi0 then lo0 else 0)" and "hi = (if f8_le lo0 hi0 then hi0 else f8_lit 1 1)"
  define sp where "sp = (if f8_less lo hi then f8_sub hi lo else f8_lit 1 1)"
  let ?w = "wm_width m + 30" and ?h = "max (wm_height m) 1"
  let ?k = "nat (3 * ?w) * nat ?h"
  obtain p1 where p1: "over_grid (wm_height m) (wm_width m) (draw_cell lm m edge lo sp (?w * 3))
      (replicate (nat (?w * 3) * nat ?h) 200) = Some p1" "length p1 = ?k"
    using over_grid_Some [of "wm_height m" "wm_width m" ?k "draw_cell lm m edge lo sp (?w * 3)"
      "replicate (nat (?w * 3) * nat ?h) 200"] draw_cell_Some [OF assms lo_def sp_def hi_def r]
    by (auto simp: mult.commute)
  obtain p2 where p2: "over_grid ?h kColorBarWidth (draw_bar m ?h (?w * 3)) p1 = Some p2" "length p2 = ?k"
    using over_grid_Some [of ?h kColorBarWidth ?k "draw_bar m ?h (?w * 3)" p1]
      draw_bar_Some [OF assms refl] p1(2) by auto
  have lh: "(if f8_le lo0 hi0 then (lo0, hi0) else (0, f8_lit 1 1)) = (lo, hi)" by (simp add: lo_def hi_def)
  have w: "wm_width m + kMargin + kColorBarWidth = ?w" by (simp add: kMargin_def kColorBarWidth_def)
  have "paint_wafer_map lm m edge = Some \<lparr>pi_width = ?w, pi_height = ?h, pi_stride = ?w * 3, pi_pixels = p2\<rparr>"
    using assms unfolding paint_wafer_map_def r Let_def w prod.case lh
    by (simp add: p1(1) p2(1) drawable_def not_le del: distrib_right_numeral flip: sp_def)
  then show ?thesis using p2(2) assms by (simp add: int_ops drawable_def le_max_iff_disj)
qed

definition map_2x1 :: wafer_map where
  "map_2x1 = no_map\<lparr>wm_width := 2, wm_height := 1, wm_heights_m := [0, quiet_nan]\<rparr>"

theorem picture_in_bounds_witness:
  "\<exists>p. paint_wafer_map \<lparr>hypot = f8_add, atan2 = f8_sub\<rparr> map_2x1 0 = Some p \<and> int (length (pi_pixels p)) = 96"
proof -
  have "f8_nan quiet_nan" by (simp add: quiet_nan_def f8_nan_def f8_abs_make f8_inf_def)
  then have "\<not> f8_finite quiet_nan" by (simp add: f8_finite_def f8_nan_def)
  moreover have "f8_finite (f8_sub 0 0)"
    by (simp add: f8_sub_def f8_add_def f8_neg_def f8_finite_def f8_nan_def f8_abs_def f8_inf_def f8_parts_def f8_make_def f8_sign_def)
  ultimately have "drawable map_2x1" by (simp add: drawable_def map_2x1_def no_map_def)
  from picture_in_bounds [OF this, of "\<lparr>hypot = f8_add, atan2 = f8_sub\<rparr>" 0] show ?thesis
    by (auto simp: map_2x1_def)
qed

end
