(* ===== verification/Run_Directory.thy ===== *)
theory Run_Directory
  imports Writers
begin

text \<open>
  Where results go, \<^verbatim>\<open>src/machine/machine_runtime.cpp\<close>: the name of a run from the clock, its fresh directory, and
  the wafer ids inside it. The file system is the set of directories it holds and the answer it gives where it
  refuses to create one.
\<close>

section \<open>Names\<close>

text \<open>The calendar of \<^verbatim>\<open>gmtime_r\<close>: years and months are counted off from the first of January 1970.\<close>

definition leap_year :: "nat \<Rightarrow> bool" where
  "leap_year y \<longleftrightarrow> (y mod 4 = 0 \<and> y mod 100 \<noteq> 0) \<or> y mod 400 = 0"

definition year_days :: "nat \<Rightarrow> nat" where
  "year_days y = (if leap_year y then 366 else 365)"

definition month_lengths :: "nat \<Rightarrow> nat list" where
  "month_lengths y = [31, if leap_year y then 29 else 28, 31, 30, 31, 30, 31, 31, 30, 31, 30, 31]"

function year_and_day :: "nat \<Rightarrow> nat \<Rightarrow> nat \<times> nat" where
  "year_and_day y d = (if d < year_days y then (y, d) else year_and_day (y + 1) (d - year_days y))"
  by auto
termination by (relation "measure snd") (auto simp: year_days_def)

declare year_and_day.simps [simp del]

fun month_and_day :: "nat \<Rightarrow> nat list \<Rightarrow> nat \<Rightarrow> nat \<times> nat" where
  "month_and_day m [] d = (m, d)"
| "month_and_day m (l # ls) d = (if d < l then (m, d) else month_and_day (m + 1) ls (d - l))"

text \<open>\<^verbatim>\<open>strftime\<close> with \<^verbatim>\<open>%Y%m%d-%H%M%S\<close>, for a number of seconds since 1970.\<close>

definition make_run_id :: "nat \<Rightarrow> string" where
  "make_run_id t =
     (let (y, yd) = year_and_day 1970 (t div 86400); (m, d) = month_and_day 1 (month_lengths y) yd;
          s = t mod 86400
      in show_nat y @ pad 2 (show_nat m) @ pad 2 (show_nat (d + 1)) @ ''-'' @
         pad 2 (show_nat (s div 3600)) @ pad 2 (show_nat (s div 60 mod 60)) @ pad 2 (show_nat (s mod 60)))"

text \<open>\<^verbatim>\<open>snprintf\<close> with \<^verbatim>\<open>W%03d\<close>; the sixteen bytes of the buffer hold every int.\<close>

definition format_wafer_id :: "int \<Rightarrow> string" where
  "format_wafer_id n =
     ''W'' @ (if n < 0 then ''-'' @ pad 2 (show_nat (nat (- n))) else pad 3 (show_nat (nat n)))"

section \<open>Directories\<close>

record file_system =
  fs_dirs :: "string list"
  fs_refuses :: "string \<Rightarrow> string option"  \<comment> \<open>the message with which creating it fails\<close>

text \<open>\<^verbatim>\<open>create_directory\<close>: whether it was created, and the message of the error code.\<close>

definition create_directory :: "string \<Rightarrow> file_system \<Rightarrow> (bool \<times> string option) \<times> file_system" where
  "create_directory p fs =
     (if p \<in> set (fs_dirs fs) then ((False, None), fs)
      else case fs_refuses fs p of
             Some e \<Rightarrow> ((False, Some e), fs)
           | None \<Rightarrow> ((True, None), fs\<lparr>fs_dirs := p # fs_dirs fs\<rparr>))"

text \<open>The missing directories along a path, outermost first, up to the first that cannot be created.\<close>

fun create_along :: "string list \<Rightarrow> file_system \<Rightarrow> string option \<times> file_system" where
  "create_along [] fs = (None, fs)"
| "create_along (p # ps) fs =
     (case create_directory p fs of
        ((_, Some e), fs) \<Rightarrow> (Some e, fs)
      | ((_, None), fs) \<Rightarrow> create_along ps fs)"

text \<open>The directories along a path: its prefixes that end before a separator, and the path itself.\<close>

definition path_prefixes :: "string \<Rightarrow> string list" where
  "path_prefixes p =
     (if p = [] then []
      else map (\<lambda>i. take i p) (filter (\<lambda>i. 0 < i \<and> p ! i = CHR ''/'' \<and> p ! (i - 1) \<noteq> CHR ''/'') [0..<length p]) @
           (if last p = CHR ''/'' then [] else [p]))"

text \<open>\<^verbatim>\<open>std::filesystem::create_directories\<close>; for the empty path libstdc++ reports \<^verbatim>\<open>errc::invalid_argument\<close>.\<close>

definition create_directories :: "string \<Rightarrow> file_system \<Rightarrow> string option \<times> file_system" where
  "create_directories p fs =
     (if p = [] then (Some ''Invalid argument'', fs) else create_along (path_prefixes p) fs)"

definition attempt_name :: "string \<Rightarrow> nat \<Rightarrow> string" where
  "attempt_name base attempt = (if attempt = 1 then base else base @ ''-'' @ show_nat attempt)"

text \<open>The loop, with \<open>left\<close> attempts to go.\<close>

fun try_names :: "string \<Rightarrow> string \<Rightarrow> nat \<Rightarrow> nat \<Rightarrow> file_system \<Rightarrow> string result \<times> file_system" where
  "try_names out base attempt 0 fs = (Err kWriteErrorExitCode ''no free run directory name'', fs)"
| "try_names out base attempt (Suc left) fs =
     (let candidate = path_join out (attempt_name base attempt)
      in case create_directory candidate fs of
           ((True, None), fs) \<Rightarrow> (Ok candidate, fs)
         | ((_, Some e), fs) \<Rightarrow> (Err kWriteErrorExitCode (''cannot create run directory: '' @ e), fs)
         | ((False, None), fs) \<Rightarrow> try_names out base (attempt + 1) left fs)"

definition create_run_dir :: "nat \<Rightarrow> string \<Rightarrow> file_system \<Rightarrow> string result \<times> file_system" where
  "create_run_dir now out fs =
     (case create_directories out fs of
        (Some e, fs) \<Rightarrow> (Err kWriteErrorExitCode (''cannot create output directory: '' @ e), fs)
      | (None, fs) \<Rightarrow> try_names out (make_run_id now) 1 999 fs)"

lemmas try_names_numeral = try_names.simps(2) [of _ _ _ "pred_numeral k" for k, folded numeral_eq_Suc]

lemma make_run_id_example: "make_run_id 1789745412 = ''20260918-153012''"
  by (simp add: make_run_id_def year_and_day.simps year_days_def leap_year_def month_lengths_def Let_def
      show_nat.simps pad_def zeros_def digit_char_def char_of_def bit_0)

section \<open>Never an old directory\<close>

lemma create_directory_dirs:
  "create_directory p fs = ((b, e), fs') \<Longrightarrow>
     fs_refuses fs' = fs_refuses fs \<and> (b \<longleftrightarrow> p \<notin> set (fs_dirs fs) \<and> fs_refuses fs p = None) \<and>
     (b \<longrightarrow> e = None) \<and> (e = None \<longleftrightarrow> b \<or> p \<in> set (fs_dirs fs)) \<and>
     set (fs_dirs fs') = (if b then {p} else {}) \<union> set (fs_dirs fs)"
  by (cases "fs_refuses fs p"; cases "p \<in> set (fs_dirs fs)"; cases e) (simp_all add: create_directory_def, auto)

lemma create_along_dirs:
  "create_along ps fs = (e, fs') \<Longrightarrow>
     set (fs_dirs fs) \<subseteq> set (fs_dirs fs') \<and> set (fs_dirs fs') \<subseteq> set ps \<union> set (fs_dirs fs) \<and>
     (e = None \<longrightarrow> set (fs_dirs fs') = set ps \<union> set (fs_dirs fs))"
proof (induction ps fs arbitrary: e fs' rule: create_along.induct)
  case (2 p ps fs)
  obtain b e1 fs1 where c: "create_directory p fs = ((b, e1), fs1)" by (metis surj_pair)
  note d = create_directory_dirs [OF c]
  show ?case
  proof (cases e1)
    case None
    then have "create_along ps fs1 = (e, fs')" using "2.prems" c by simp
    from "2.IH"(1) [OF c [symmetric] refl None this] d None show ?thesis by (auto split: if_splits)
  next
    case (Some x)
    then have "fs' = fs1" "e = Some x" "\<not> b" using "2.prems" c d by auto
    then show ?thesis using d by auto
  qed
qed simp

lemma create_directories_dirs:
  assumes "create_directories p fs = (e, fs')"
  shows "set (fs_dirs fs) \<subseteq> set (fs_dirs fs') \<and>
    (e = None \<longrightarrow> set (fs_dirs fs') = set (path_prefixes p) \<union> set (fs_dirs fs))"
  using assms create_along_dirs [of "path_prefixes p" fs] by (auto simp: create_directories_def split: if_splits)

lemma path_prefixes_length: "q \<in> set (path_prefixes p) \<Longrightarrow> length q \<le> length p"
  by (auto simp: path_prefixes_def split: if_splits)

lemma length_path_join: "length dir + length name \<le> length (path_join dir name)"
  by (simp add: path_join_def)

lemma show_nat_not_Nil: "show_nat n \<noteq> []"
  by (subst show_nat.simps) simp

lemma attempt_name_not_Nil: "attempt_name (make_run_id now) k \<noteq> []"
  by (simp add: attempt_name_def make_run_id_def Let_def show_nat_not_Nil split: prod.split)

text \<open>What a search for a free name may end in.\<close>

definition first_free :: "string \<Rightarrow> string \<Rightarrow> nat \<Rightarrow> nat \<Rightarrow> file_system \<Rightarrow> file_system \<Rightarrow> string \<Rightarrow> bool" where
  "first_free out base lo hi fs fs' p \<longleftrightarrow>
     (\<exists>k. lo \<le> k \<and> k < hi \<and> p = path_join out (attempt_name base k) \<and> p \<notin> set (fs_dirs fs) \<and>
        set (fs_dirs fs') = insert p (set (fs_dirs fs)) \<and>
        (\<forall>j. lo \<le> j \<and> j < k \<longrightarrow> path_join out (attempt_name base j) \<in> set (fs_dirs fs)))"

lemma try_names_result:
  "try_names out base attempt left fs = (r, fs') \<Longrightarrow>
     (case r of Inr p \<Rightarrow> first_free out base attempt (attempt + left) fs fs' p
      | Inl e \<Rightarrow> reason r = Some kWriteErrorExitCode \<and> fs_dirs fs' = fs_dirs fs)"
proof (induction out base attempt left fs arbitrary: r fs' rule: try_names.induct)
  case (2 out base attempt left fs)
  let ?p = "path_join out (attempt_name base attempt)"
  obtain b e1 fs1 where c: "create_directory ?p fs = ((b, e1), fs1)" by (metis surj_pair)
  note d = create_directory_dirs [OF c]
  consider "b" "e1 = None" | e where "\<not> b" "e1 = Some e" | "\<not> b" "e1 = None" using d by (cases e1) auto
  then show ?case
  proof cases
    case 1
    then have "r = Ok ?p" "fs' = fs1" using "2.prems" c by simp_all
    then show ?thesis using 1 d by (auto simp: first_free_def intro!: exI [of _ attempt])
  next
    case 3
    then have t: "try_names out base (attempt + 1) left fs1 = (r, fs')" using "2.prems" c by simp
    have eq: "fs1 = fs" "?p \<in> set (fs_dirs fs)"
      using c 3 by (auto simp: create_directory_def split: if_splits option.splits)
    have "first_free out base attempt n fs fs' p" if "first_free out base (attempt + 1) n fs fs' p" for n p
      using that eq(2) unfolding first_free_def by (metis Suc_eq_plus1 Suc_leD Suc_leI le_neq_implies_less)
    with "2.IH" [OF refl c [symmetric] refl _ 3(2) t] 3 eq show ?thesis by (auto split: sum.splits)
  qed (use "2.prems" c in \<open>auto simp: create_directory_def Let_def split: if_splits option.splits\<close>)
qed simp

text \<open>
  C34. A run never reuses a directory. If a directory comes back, it did not exist before, it is the first free one
  of the names made from the time (without a suffix, then with 2, 3, up to 999), and besides it only the output
  directory itself was created; otherwise the error has the write exit code and nothing was removed.
\<close>

theorem run_dir_fresh:
  assumes "create_run_dir now out fs = (r, fs')"
  shows "case r of
      Inr p \<Rightarrow> \<exists>k. 1 \<le> k \<and> k \<le> 999 \<and> p = path_join out (attempt_name (make_run_id now) k) \<and>
        p \<notin> set (fs_dirs fs) \<and> set (fs_dirs fs') = insert p (set (path_prefixes out) \<union> set (fs_dirs fs)) \<and>
        (\<forall>j. 1 \<le> j \<and> j < k \<longrightarrow> path_join out (attempt_name (make_run_id now) j) \<in> set (fs_dirs fs))
    | Inl e \<Rightarrow> reason r = Some kWriteErrorExitCode \<and> set (fs_dirs fs) \<subseteq> set (fs_dirs fs')"
proof -
  obtain e fs1 where c: "create_directories out fs = (e, fs1)" by force
  note d = create_directories_dirs [OF c]
  have new: "path_join out (attempt_name (make_run_id now) j) \<notin> set (path_prefixes out)" for j
    using path_prefixes_length [of "path_join out (attempt_name (make_run_id now) j)" out]
      length_path_join [of out "attempt_name (make_run_id now) j"] attempt_name_not_Nil [of now j]
    by (metis add_le_same_cancel1 le_zero_eq length_0_conv order_trans)
  show ?thesis
  proof (cases e)
    case None
    then have t: "try_names out (make_run_id now) 1 999 fs1 = (r, fs')" using assms c by (simp add: create_run_dir_def)
    show ?thesis
    proof (cases r)
      case (Inl x)
      then show ?thesis using try_names_result [OF t] d by simp
    next
      case (Inr p)
      then obtain k where k: "1 \<le> k" "k < 1000" "p = path_join out (attempt_name (make_run_id now) k)"
        "p \<notin> set (fs_dirs fs1)" "set (fs_dirs fs') = insert p (set (fs_dirs fs1))"
        "\<forall>j. 1 \<le> j \<and> j < k \<longrightarrow> path_join out (attempt_name (make_run_id now) j) \<in> set (fs_dirs fs1)"
        using try_names_result [OF t] by (auto simp: first_free_def)
      then show ?thesis using d None new Inr by (auto intro!: exI [of _ k])
    qed
  next
    case (Some x)
    then show ?thesis using assms c d by (auto simp: create_run_dir_def Err_def)
  qed
qed

theorem run_dir_fresh_witness:
  "\<exists>p fs'. create_run_dir 1789745412 ''out'' \<lparr>fs_dirs = [''out/20260918-153012''], fs_refuses = \<lambda>_. None\<rparr> = (Ok p, fs') \<and>
     p = ''out/20260918-153012-2'' \<and> p \<notin> {''out/20260918-153012''}"
proof -
  let ?fs = "\<lparr>fs_dirs = [''out/20260918-153012''], fs_refuses = \<lambda>_. None\<rparr>"
  have e: "path_prefixes ''out'' = [''out'']" by (simp add: path_prefixes_def upt_rec)
  obtain p fs' where r: "create_run_dir 1789745412 ''out'' ?fs = (Ok p, fs')" "p = ''out/20260918-153012-2''"
    unfolding create_run_dir_def make_run_id_example
    by (simp add: create_directories_def e try_names_numeral create_directory_def Let_def path_join_def attempt_name_def
      show_nat.simps digit_char_def char_of_def bit_0)
  from run_dir_fresh [OF r(1)] have "p \<notin> {''out/20260918-153012''}" by (auto)
  with r show ?thesis by blast
qed

end
