(* ===== verification/Machine_Runtime.thy ===== *)
theory Machine_Runtime
  imports Run_Directory Controller
begin

text \<open>
  The composition root, \<^verbatim>\<open>src/machine/machine_runtime.cpp\<close>: controller, scan thread and processing thread with the
  two queues between them, one step of one thread at a time. A call of the controller is one step, because
  the caller waits until the controller's thread has run it; what the scan thread does between two reads of
  the abort flag is one step as well.
\<close>

section \<open>State\<close>

datatype work_item = Process_wafer string | Discard_samples

text \<open>Where the scan thread is: off, within a line, at the push of a block, at its calls at the end.\<close>

datatype scan_phase =
    Scan_off
  | Scan_line string nat
  | Scan_push string nat sample_block bool
  | Scan_notify string
  | Scan_queue string
  | Scan_stopped

text \<open>Where the processing thread is.\<close>

datatype work_phase =
    W_pop
  | W_discard
  | W_collect string "sample_block list"
  | W_notify string pipeline_result
  | W_recheck string pipeline_result
  | W_report
  | W_output string pipeline_result

datatype machine_event =
    Core effect
  | WaferMapReady string wafer_map f8
  | WaferOutputsWritten string string bool
  | Log_output_failed string string

record runtime =
  rt_ctl :: controller
  rt_joining :: "string option"  \<comment> \<open>the controller waits for the last scan thread before it starts this wafer\<close>
  rt_scan :: scan_phase
  rt_abort :: bool
  rt_samples :: "sample_block list"
  rt_jobs :: "work_item list"
  rt_work :: work_phase
  rt_started :: nat
  rt_last_dir :: string
  rt_disk :: disk
  rt_run :: "sample_block list"  \<comment> \<open>history: what the latest scan thread has pushed\<close>

record rt_env =
  re_lib :: libm
  re_config :: config
  re_run_dir :: string
  re_order :: "alarm_id list \<Rightarrow> alarm_id list"
  re_dump :: "jvalue \<Rightarrow> string"
  re_png :: "string \<Rightarrow> picture \<Rightarrow> disk \<Rightarrow> bool \<times> disk"

definition new_runtime :: "disk \<Rightarrow> runtime" where
  "new_runtime d =
     \<lparr>rt_ctl = new_controller, rt_joining = None, rt_scan = Scan_off, rt_abort = False, rt_samples = [],
      rt_jobs = [], rt_work = W_pop, rt_started = 0, rt_last_dir = [], rt_disk = d, rt_run = []\<rparr>"

definition line_count :: "rt_env \<Rightarrow> nat" where
  "line_count env = nat (sint (sn_lines (cf_scan (re_config env))))"

definition kJobsCapacity :: nat where
  "kJobsCapacity = 8"

definition next_wafer_id :: "runtime \<Rightarrow> string" where
  "next_wafer_id s = format_wafer_id (int (rt_started s) + 1)"

section \<open>The controller, called\<close>

text \<open>What the controller's effects do to the rest: the driver is told, and the counter of scans listens.\<close>

fun apply_effect :: "effect \<Rightarrow> runtime \<Rightarrow> runtime" where
  "apply_effect (Driver_start w) s = s\<lparr>rt_joining := Some w\<rparr>"
| "apply_effect Driver_request_abort s = s\<lparr>rt_abort := True\<rparr>"
| "apply_effect (Publish (ScanStarted w slot)) s = s\<lparr>rt_started := rt_started s + 1\<rparr>"
| "apply_effect (Publish _) s = s"

definition call_controller ::
    "rt_env \<Rightarrow> ctl_call \<Rightarrow> runtime \<Rightarrow> (runtime \<times> machine_event list) option" where
  "call_controller env k s =
     (if rt_joining s \<noteq> None then None
      else case controller_call (re_order env) k (rt_ctl s) of
             (r, c, es) \<Rightarrow> Some (fold apply_effect es (s\<lparr>rt_ctl := c\<rparr>), map Core es))"

text \<open>\<^verbatim>\<open>RestartableScanDriver::start\<close>: join the last thread, then start one for the wafer.\<close>

definition from_line :: "rt_env \<Rightarrow> string \<Rightarrow> nat \<Rightarrow> scan_phase" where
  "from_line env w k = (if k < line_count env then Scan_line w k else Scan_notify w)"

definition join_step :: "rt_env \<Rightarrow> runtime \<Rightarrow> (runtime \<times> machine_event list) option" where
  "join_step env s =
     (case rt_joining s of
        Some w \<Rightarrow>
          if rt_scan s = Scan_off
          then Some (s\<lparr>rt_joining := None, rt_abort := False, rt_scan := from_line env w 0, rt_run := []\<rparr>, [])
          else None
      | None \<Rightarrow> None)"

section \<open>The scan thread\<close>

text \<open>
  The end of a line: every point was taken and the flag was clear at the last of them, or the flag was seen.
  Both end at the push of the block.
\<close>

definition end_line :: "sample_block \<Rightarrow> runtime \<Rightarrow> (runtime \<times> machine_event list) option" where
  "end_line b s =
     (case rt_scan s of
        Scan_line w k \<Rightarrow> Some (s\<lparr>rt_scan := Scan_push w k b (rt_abort s)\<rparr>, [])
      | _ \<Rightarrow> None)"

definition scan_step :: "rt_env \<Rightarrow> runtime \<Rightarrow> (runtime \<times> machine_event list) option" where
  "scan_step env s =
     (case rt_scan s of
        Scan_push w k b aborted \<Rightarrow>
          if length (rt_samples s) < line_count env + 1
          then Some (s\<lparr>rt_samples := rt_samples s @ [b], rt_run := rt_run s @ [b],
                      rt_scan := (if aborted then Scan_stopped else from_line env w (k + 1))\<rparr>, [])
          else None
      | Scan_notify w \<Rightarrow>
          map_option (\<lambda>(s, es). (s\<lparr>rt_scan := Scan_queue w\<rparr>, es)) (call_controller env (Scan_complete w) s)
      | Scan_queue w \<Rightarrow>
          if length (rt_jobs s) < kJobsCapacity
          then Some (s\<lparr>rt_jobs := rt_jobs s @ [Process_wafer w], rt_scan := Scan_off\<rparr>, []) else None
      | Scan_stopped \<Rightarrow>
          if length (rt_jobs s) < kJobsCapacity
          then Some (s\<lparr>rt_jobs := rt_jobs s @ [Discard_samples], rt_scan := Scan_off\<rparr>, []) else None
      | _ \<Rightarrow> None)"

definition scan_alarm :: "rt_env \<Rightarrow> alarm_call \<Rightarrow> runtime \<Rightarrow> (runtime \<times> machine_event list) option" where
  "scan_alarm env k s =
     (case rt_scan s of
        Scan_line w l \<Rightarrow>
          (case alarm_step (re_order env) k (alarms (rt_ctl s)) of
             (t, as) \<Rightarrow> Some (s\<lparr>rt_ctl := (rt_ctl s)\<lparr>alarms := t\<rparr>\<rparr>, map (Core \<circ> Publish) as))
      | _ \<Rightarrow> None)"

section \<open>The processing thread\<close>

text \<open>Quality failures first, then the health of the sensor.\<close>

definition alarm_verdict :: "config \<Rightarrow> pipeline_result \<Rightarrow> (alarm_id \<times> string) option" where
  "alarm_verdict cfg r =
     (if qg_issue (pr_quality r) = kPoorFit
      then Some (kFitQualityPoor, ''fit residual RMS exceeds fit_rms_limit_um'')
      else if qg_issue (pr_quality r) = kImplausible
      then Some (kStressImplausible, ''stress non-finite or outside the plausibility window'')
      else if f8_less (an_outlier_fraction_alarm (cf_analysis cfg)) (pr_outlier_removed_fraction r)
      then Some (kSensorSpikeRateHigh, ''removed fraction exceeds outlier_fraction_alarm'')
      else if pr_any_dropout r then Some (kSensorDropout, ''dropout gap present'')
      else None)"

definition result_stress_mpa :: "pipeline_result \<Rightarrow> f8" where
  "result_stress_mpa r = f8_mul (pr_stress_pa r) (f8_lit 1 1000000)"

definition result_call :: "config \<Rightarrow> pipeline_result \<Rightarrow> ctl_call" where
  "result_call cfg r =
     (let v = alarm_verdict cfg r
      in Processing_result (qg_out_of_spec (pr_quality r)) (result_stress_mpa r) (map_option fst v)
           (case v of None \<Rightarrow> [] | Some (_, why) \<Rightarrow> why) False)"

definition wafer_result_ready :: "string \<Rightarrow> pipeline_result \<Rightarrow> wafer_result" where
  "wafer_result_ready w r =
     \<lparr>wr_wafer_id = w, wr_slot = 1, stress_mpa = result_stress_mpa r,
      stress_unc_mpa = f8_mul (pr_stress_unc_pa r) (f8_lit 1 1000000),
      curvature_per_m = cr_mean_curvature_per_m (pr_combined r),
      fit_rms_um = f8_mul (pr_max_fit_rms_m r) (f8_lit 1000000 1),
      wr_out_of_spec = qg_out_of_spec (pr_quality r)\<rparr>"

definition result_events :: "config \<Rightarrow> string \<Rightarrow> pipeline_result \<Rightarrow> machine_event list" where
  "result_events cfg w r =
     (if alarm_verdict cfg r = None
      then [Core (Publish (WaferResultReady (wafer_result_ready w r))),
            WaferMapReady w (pr_map r) (sn_edge_exclusion_mm (cf_scan cfg))]
      else [])"

definition run_meta :: "config \<Rightarrow> string \<Rightarrow> string \<Rightarrow> int \<Rightarrow> wafer_run_meta" where
  "run_meta cfg run_dir w ms =
     \<lparr>me_run_id = rev (takeWhile (\<lambda>c. c \<noteq> CHR ''/'') (rev run_dir)), me_wafer_id = w, me_slot = 1,
      me_cassette_id = ca_id (cf_cassette cfg), me_seed = wc_seed (cf_wafer cfg),
      me_truth_stress_mpa = wt_stress_mpa (wc_truth (cf_wafer cfg)), me_scan_ms = 0, me_analysis_ms = ms\<rparr>"

text \<open>All files of a usable result are tried; a wafer with a quality issue leaves its summary only.\<close>

definition write_files ::
    "rt_env \<Rightarrow> string \<Rightarrow> string \<Rightarrow> pipeline_result \<Rightarrow> int \<Rightarrow> disk \<Rightarrow> (bool \<times> disk) option" where
  "write_files env dir w r ms d =
     (case write_json_summary (re_dump env) dir r (run_meta (re_config env) (re_run_dir env) w ms) d of
        (j, d) \<Rightarrow>
          if qg_issue (pr_quality r) \<noteq> kNone then Some (has_value j, d)
          else case write_line_csv dir w r d of
                 (l, d) \<Rightarrow>
                   (case write_sample_csv dir w r (ou_sample_decimation (cf_output (re_config env))) d of
                      (c, d) \<Rightarrow>
                        map_option (\<lambda>(p, d). (has_value j \<and> has_value l \<and> has_value c \<and> has_value p, d))
                          (write_wafer_map_png (re_lib env) (re_png env) dir (pr_map r)
                             (sn_edge_exclusion_mm (cf_scan (re_config env))) d)))"

text \<open>\<^verbatim>\<open>operator/\<close> of a directory and a path that may be absolute.\<close>

definition path_append :: "string \<Rightarrow> string \<Rightarrow> string" where
  "path_append dir p = (if p \<noteq> [] \<and> hd p = CHR ''/'' then p else path_join dir p)"

definition output_step ::
    "rt_env \<Rightarrow> string option \<Rightarrow> int \<Rightarrow> string \<Rightarrow> pipeline_result \<Rightarrow> runtime
       \<Rightarrow> (runtime \<times> machine_event list) option" where
  "output_step env mkdir ms w r s =
     (let dir = path_append (re_run_dir env) w; events = result_events (re_config env) w r;
          s = s\<lparr>rt_last_dir := dir, rt_work := W_pop\<rparr>
      in case mkdir of
           Some e \<Rightarrow> Some (s, events @ [Log_output_failed w e, WaferOutputsWritten w dir False])
         | None \<Rightarrow>
             map_option (\<lambda>(ok, d).
               (s\<lparr>rt_disk := d\<rparr>,
                events @ (if ok then [] else [Log_output_failed w ''one or more files failed to write'']) @
                [WaferOutputsWritten w dir ok]))
             (write_files env dir w r ms (rt_disk s)))"

definition stop_seen :: "runtime \<Rightarrow> bool" where
  "stop_seen s \<longleftrightarrow> cstate (rt_ctl s) = kStopping"

text \<open>\<^verbatim>\<open>worker_loop\<close> and \<^verbatim>\<open>process_wafer\<close>; \<open>mkdir\<close> and \<open>ms\<close> only matter for the output.\<close>

definition work_step :: "rt_env \<Rightarrow> string option \<Rightarrow> int \<Rightarrow> runtime \<Rightarrow> (runtime \<times> machine_event list) option" where
  "work_step env mkdir ms s =
     (case rt_work s of
        W_pop \<Rightarrow>
          (case rt_jobs s of
             [] \<Rightarrow> None
           | Discard_samples # js \<Rightarrow> Some (s\<lparr>rt_jobs := js, rt_work := W_discard\<rparr>, [])
           | Process_wafer w # js \<Rightarrow> Some (s\<lparr>rt_jobs := js, rt_work := W_collect w []\<rparr>, []))
      | W_discard \<Rightarrow>
          (case rt_samples s of
             [] \<Rightarrow> Some (s\<lparr>rt_work := W_report\<rparr>, [])
           | _ # bs \<Rightarrow> Some (s\<lparr>rt_samples := bs\<rparr>, []))
      | W_collect w got \<Rightarrow>
          if length got < line_count env
          then (case rt_samples s of
                  [] \<Rightarrow> None
                | b # bs \<Rightarrow> Some (s\<lparr>rt_samples := bs, rt_work := W_collect w (got @ [b])\<rparr>, []))
          else if stop_seen s then Some (s\<lparr>rt_work := W_report\<rparr>, [])
          else map_option (\<lambda>r. (s\<lparr>rt_work := W_notify w r\<rparr>, []))
                 (run_pipeline (re_lib env) got (re_config env))
      | W_notify w r \<Rightarrow>
          map_option (\<lambda>(s, es). (s\<lparr>rt_work := W_recheck w r\<rparr>, es))
            (call_controller env (result_call (re_config env) r) s)
      | W_recheck w r \<Rightarrow> Some (s\<lparr>rt_work := (if stop_seen s then W_report else W_output w r)\<rparr>, [])
      | W_report \<Rightarrow>
          map_option (\<lambda>(s, es). (s\<lparr>rt_work := W_pop\<rparr>, es)) (call_controller env Stage_stopped s)
      | W_output w r \<Rightarrow> output_step env mkdir ms w r s)"

section \<open>Steps\<close>

datatype rt_event =
    Command command
  | Joined
  | Line_ends sample_block
  | Scan_goes_on
  | Scan_alarm alarm_call
  | Work "string option" int

fun rt_step :: "rt_env \<Rightarrow> rt_event \<Rightarrow> runtime \<Rightarrow> (runtime \<times> machine_event list) option" where
  "rt_step env (Command c) s = call_controller env (Submit c) s"
| "rt_step env Joined s = join_step env s"
| "rt_step env (Line_ends b) s = end_line b s"
| "rt_step env Scan_goes_on s = scan_step env s"
| "rt_step env (Scan_alarm k) s = scan_alarm env k s"
| "rt_step env (Work mkdir ms) s = work_step env mkdir ms s"

section \<open>What the controller answers\<close>

text \<open>
  The four ways a call of the program changes the machine state, and that nothing else about the controller
  matters to the threads.
\<close>

definition plain_effects :: "effect list \<Rightarrow> bool" where
  "plain_effects es \<longleftrightarrow> (\<forall>e \<in> set es. \<exists>v. e = Publish v \<and> \<not> is_run_start e)"

lemma plain_apply: "plain_effects es \<Longrightarrow> fold apply_effect es s = s"
proof (induction es arbitrary: s)
  case (Cons e es)
  then obtain v where "e = Publish v" "\<not> is_run_start e" "plain_effects es" by (auto simp: plain_effects_def)
  then show ?case using Cons.IH by (cases v) simp_all
qed simp

lemma plain_simps [simp]:
  "plain_effects []" "plain_effects (es @ es') \<longleftrightarrow> plain_effects es \<and> plain_effects es'"
  "plain_effects (e # es) \<longleftrightarrow> (\<exists>v. e = Publish v \<and> \<not> is_run_start e) \<and> plain_effects es"
  by (auto simp: plain_effects_def)

lemma plain_alarms: "\<forall>e \<in> set as. is_alarm_event e \<Longrightarrow> plain_effects (map Publish as)"
  by (induction as) (auto simp: is_alarm_event_def split: core_event.splits)

lemma raise_fault_plain:
  assumes "raise_fault a why c = (r, c', es)" "controller_inv c"
  shows "plain_effects es \<and> current_wafer_id c' = current_wafer_id c \<and>
    cstate c' = (if cstate c \<in> {kScanning, kProcessing} then kAlarm else cstate c)"
  using assms plain_alarms [OF alarm_set_events [of a why "alarms c"]]
  by (cases "pm_state (pfsm c)"; cases "alarm_set a why (alarms c)")
    (auto simp: raise_fault_def transition_def process_apply_simps Let_def controller_inv_def)

lemma result_call_plain:
  assumes "controller_call ord (result_call cfg r) c = (x, c', es)" "controller_inv c"
  shows "plain_effects es \<and> current_wafer_id c' = current_wafer_id c \<and>
    (if cstate c = kProcessing then cstate c' \<in> {kIdle, kAlarm}
     else cstate c \<noteq> kScanning \<longrightarrow> cstate c' = cstate c)"
proof (cases "alarm_verdict cfg r")
  case None
  then show ?thesis using assms
    by (cases "pm_state (pfsm c)") (auto simp: result_call_def notify_processing_result_def transition_def
        process_apply_simps Let_def controller_inv_def default_guards_def split: if_splits)
next
  case (Some v)
  then show ?thesis using assms raise_fault_plain [of "fst v" "snd v" c x c' es]
    by (cases v) (auto simp: result_call_def notify_processing_result_def Let_def)
qed

lemma scan_complete_plain:
  assumes "controller_call ord (Scan_complete w) c = (r, c', es)" "controller_inv c"
  shows "plain_effects es \<and> current_wafer_id c' = current_wafer_id c \<and>
    cstate c' = (if cstate c = kScanning then kProcessing else cstate c)"
  using assms
  by (cases "pm_state (pfsm c)")
    (auto simp: notify_scan_complete_def transition_def process_apply_simps Let_def controller_inv_def)

lemma stage_stopped_plain:
  assumes "controller_call ord Stage_stopped c = (r, c', es)" "controller_inv c"
  shows "plain_effects es \<and> current_wafer_id c' = current_wafer_id c \<and>
    cstate c' = (if cstate c = kStopping then kIdle else cstate c)"
  using assms
  by (cases "pm_state (pfsm c)")
    (auto simp: notify_stage_stopped_def transition_def process_apply_simps Let_def controller_inv_def)

definition is_start :: "command \<Rightarrow> bool" where
  "is_start cmd \<longleftrightarrow> (\<exists>w slot. payload cmd = StartCommand w slot)"

lemma command_cases:
  assumes "controller_call ord (Submit cmd) c = (r, c', es)" "controller_inv c"
  obtains (plain) "plain_effects es" "current_wafer_id c' = current_wafer_id c"
      "cstate c' = cstate c \<or> cstate c = kAlarm \<and> cstate c' = kIdle"
  | (start) w slot where "is_start cmd" "cstate c = kIdle" "cstate c' = kScanning" "current_wafer_id c' = w"
      "es = [Publish (StateChanged kIdle kScanning), Publish (ScanStarted w slot), Driver_start w]"
  | (abort) "cstate c \<in> {kScanning, kProcessing}" "cstate c' = kStopping" "current_wafer_id c' = current_wafer_id c"
      "es = [Publish (StateChanged (cstate c) kStopping), Driver_request_abort]"
  using assms plain_alarms [OF alarm_clear_all_events [of ord "alarms c"]]
  by (cases "payload cmd"; cases "pm_state (pfsm c)"; cases "alarm_clear_all ord (alarms c)")
    (auto simp: handle_command_def transition_def process_apply_simps Let_def controller_inv_def host_denied_def
      is_start_def split: if_splits)

section \<open>One run at a time\<close>

text \<open>
  A Start is hasty if the controller handles it after it took a result and before the processing thread has
  looked at the state again. The code does not prevent it; \<open>calm_step\<close> is every other step.
\<close>

fun hasty :: "rt_event \<Rightarrow> runtime \<Rightarrow> bool" where
  "hasty (Command cmd) s = (is_start cmd \<and> (case rt_work s of W_recheck w r \<Rightarrow> True | _ \<Rightarrow> False))"
| "hasty _ s = False"

definition calm_step :: "rt_env \<Rightarrow> rt_event \<Rightarrow> runtime \<Rightarrow> (runtime \<times> machine_event list) option" where
  "calm_step env e s = (if hasty e s then None else rt_step env e s)"

fun free :: "work_phase \<Rightarrow> bool" where
  "free W_pop = True"
| "free (W_output w r) = True"
| "free _ = False"

definition own_wafer :: "runtime \<Rightarrow> string" where
  "own_wafer s = current_wafer_id (rt_ctl s)"

definition resting :: "runtime \<Rightarrow> bool" where
  "resting s \<longleftrightarrow> rt_scan s = Scan_off \<and> rt_jobs s = [] \<and> rt_samples s = []"

text \<open>The scan thread is at work and the processing thread has nothing of this run yet.\<close>

definition producing :: "rt_env \<Rightarrow> runtime \<Rightarrow> bool" where
  "producing env s \<longleftrightarrow> rt_jobs s = [] \<and> free (rt_work s) \<and> rt_samples s = rt_run s \<and>
     (case rt_scan s of
        Scan_line w k \<Rightarrow> w = own_wafer s \<and> k = length (rt_run s) \<and> k < line_count env
      | Scan_push w k b a \<Rightarrow> w = own_wafer s \<and> k = length (rt_run s) \<and> k < line_count env \<and> (a \<longrightarrow> rt_abort s)
      | Scan_notify w \<Rightarrow> w = own_wafer s \<and> length (rt_run s) = line_count env
      | _ \<Rightarrow> False)"

text \<open>All lines were pushed, and the run is on its way to the analysis.\<close>

definition handed_over :: "rt_env \<Rightarrow> runtime \<Rightarrow> bool" where
  "handed_over env s \<longleftrightarrow> length (rt_run s) = line_count env \<and>
     (if rt_scan s = Scan_queue (own_wafer s) then rt_jobs s = [] \<and> free (rt_work s) \<and> rt_samples s = rt_run s
      else rt_scan s = Scan_off \<and>
        (if free (rt_work s) then rt_jobs s = [Process_wafer (own_wafer s)] \<and> rt_samples s = rt_run s
         else rt_jobs s = [] \<and>
           (case rt_work s of
              W_collect w got \<Rightarrow> w = own_wafer s \<and> got @ rt_samples s = rt_run s
            | W_notify w r \<Rightarrow> w = own_wafer s \<and> rt_samples s = [] \<and>
                run_pipeline (re_lib env) (rt_run s) (re_config env) = Some r
            | _ \<Rightarrow> False)))"

text \<open>The run was aborted and its blocks are being thrown away, or the stop is about to be reported.\<close>

definition discarding :: "runtime \<Rightarrow> bool" where
  "discarding s \<longleftrightarrow>
     (if rt_scan s = Scan_stopped then rt_jobs s = [] \<and> free (rt_work s)
      else rt_scan s = Scan_off \<and>
        (if free (rt_work s) then rt_jobs s = [Discard_samples]
         else rt_jobs s = [] \<and>
           (case rt_work s of
              W_discard \<Rightarrow> True
            | W_report \<Rightarrow> rt_samples s = []
            | W_recheck w r \<Rightarrow> rt_samples s = []
            | _ \<Rightarrow> False)))"

definition rt_inv :: "rt_env \<Rightarrow> runtime \<Rightarrow> bool" where
  "rt_inv env s \<longleftrightarrow> controller_inv (rt_ctl s) \<and>
     (case rt_joining s of
        Some w \<Rightarrow> cstate (rt_ctl s) = kScanning \<and> w = own_wafer s \<and> resting s \<and> free (rt_work s)
      | None \<Rightarrow>
          (case cstate (rt_ctl s) of
             kScanning \<Rightarrow> producing env s \<and> \<not> rt_abort s
           | kProcessing \<Rightarrow> handed_over env s
           | kStopping \<Rightarrow> producing env s \<or> handed_over env s \<or> discarding s
           | _ \<Rightarrow> resting s \<and> (free (rt_work s) \<or> (\<exists>w r. rt_work s = W_recheck w r))))"

lemma new_runtime_inv: "rt_inv env (new_runtime d)"
  using new_controller_inv by (simp add: rt_inv_def new_runtime_def resting_def new_controller_def)

lemma call_controller_inv:
  assumes "call_controller env k s = Some (s', out)" "controller_inv (rt_ctl s)"
  obtains r c es where "rt_joining s = None" "controller_call (re_order env) k (rt_ctl s) = (r, c, es)"
    "controller_inv c" "s' = fold apply_effect es (s\<lparr>rt_ctl := c\<rparr>)" "out = map Core es"
  using assms controller_call_ok [OF assms(2), of "re_order env" k]
  by (auto simp: call_controller_def call_ok_def split: if_splits prod.splits)

lemmas rt_phases = producing_def handed_over_def discarding_def resting_def own_wafer_def

lemma phases_update:
  assumes "current_wafer_id c = own_wafer s"
  shows "producing env (s\<lparr>rt_ctl := c\<rparr>) = producing env s" "handed_over env (s\<lparr>rt_ctl := c\<rparr>) = handed_over env s"
    "discarding (s\<lparr>rt_ctl := c\<rparr>) = discarding s"
    "resting (s\<lparr>rt_ctl := c\<rparr>) = resting s"
  using assms by (simp_all add: rt_phases cong: scan_phase.case_cong work_phase.case_cong)

lemma phases_abort:
  "producing env s \<Longrightarrow> producing env (s\<lparr>rt_abort := True\<rparr>)"
  "handed_over env s \<Longrightarrow> handed_over env (s\<lparr>rt_abort := True\<rparr>)"
  by (auto simp: rt_phases split: scan_phase.splits cong: work_phase.case_cong)

lemma command_inv:
  assumes "rt_inv env s" "rt_step env (Command cmd) s = Some (s', out)" "\<not> hasty (Command cmd) s"
  shows "rt_inv env s'"
proof -
  have "controller_inv (rt_ctl s)" using assms(1) by (simp add: rt_inv_def)
  from assms(2) this obtain r c es where c: "rt_joining s = None" "controller_inv c"
    "controller_call (re_order env) (Submit cmd) (rt_ctl s) = (r, c, es)"
    "s' = fold apply_effect es (s\<lparr>rt_ctl := c\<rparr>)"
    by (auto elim: call_controller_inv)
  from c(3) \<open>controller_inv (rt_ctl s)\<close> show ?thesis
  proof (cases rule: command_cases)
    case plain
    then show ?thesis using assms(1) c plain_apply [OF plain(1)]
      by (auto simp: rt_inv_def phases_update own_wafer_def split: process_state.splits)
  next
    case (start w slot)
    then show ?thesis using assms(1,3) c by (auto simp: rt_inv_def rt_phases)
  next
    case abort
    then have "s' = s\<lparr>rt_ctl := c, rt_abort := True\<rparr>" using c by simp
    moreover have "own_wafer (s\<lparr>rt_ctl := c\<rparr>) = current_wafer_id c" by (simp add: own_wafer_def)
    ultimately show ?thesis
      using abort assms(1) c(1,2) phases_abort [of env "s\<lparr>rt_ctl := c\<rparr>"]
      by (auto simp: rt_inv_def phases_update own_wafer_def)
  qed
qed

lemma join_inv:
  assumes "rt_inv env s" "rt_step env Joined s = Some (s', out)"
  shows "rt_inv env s'"
  using assms by (auto simp: rt_inv_def rt_phases join_step_def from_line_def split: option.splits if_splits)

text \<open>Where a thread is tells in which phase the whole run is.\<close>

lemma scan_phase_inv:
  assumes "rt_inv env s" "rt_scan s = p" "p \<noteq> Scan_off"
  shows "rt_joining s = None"
    "p \<noteq> Scan_stopped \<Longrightarrow> \<forall>v. p \<noteq> Scan_queue v \<Longrightarrow> producing env s \<and>
       (cstate (rt_ctl s) = kScanning \<and> \<not> rt_abort s \<or> cstate (rt_ctl s) = kStopping)"
    "p = Scan_queue w \<Longrightarrow> handed_over env s \<and> cstate (rt_ctl s) \<in> {kProcessing, kStopping}"
    "p = Scan_stopped \<Longrightarrow> discarding s \<and> cstate (rt_ctl s) = kStopping"
  using assms
  by (auto simp: rt_inv_def producing_def handed_over_def discarding_def resting_def
      split: option.splits process_state.splits if_splits)

lemma work_phase_inv:
  assumes "rt_inv env s" "\<not> free (rt_work s)"
  shows "rt_joining s = None" "rt_scan s = Scan_off" "rt_jobs s = []"
    "rt_work s = W_discard \<or> rt_work s = W_report \<Longrightarrow> discarding s \<and> cstate (rt_ctl s) = kStopping"
    "rt_work s = W_collect w got \<or> rt_work s = W_notify w r \<Longrightarrow>
       handed_over env s \<and> cstate (rt_ctl s) \<in> {kProcessing, kStopping}"
    "rt_work s = W_recheck w r \<Longrightarrow> rt_samples s = [] \<and> cstate (rt_ctl s) \<in> {kIdle, kAlarm, kStopping}"
  using assms
  by (auto simp: rt_inv_def producing_def handed_over_def discarding_def resting_def
      split: option.splits process_state.splits if_splits)

lemma rt_inv_stopping:
  "controller_inv (rt_ctl s) \<Longrightarrow> rt_joining s = None \<Longrightarrow> cstate (rt_ctl s) = kStopping \<Longrightarrow>
     producing env s \<or> handed_over env s \<or> discarding s \<Longrightarrow> rt_inv env s"
  by (simp add: rt_inv_def)

lemma end_line_inv:
  assumes "rt_inv env s" "rt_step env (Line_ends b) s = Some (s', out)"
  shows "rt_inv env s'"
proof -
  from assms(2) obtain w k where sc: "rt_scan s = Scan_line w k" "s' = s\<lparr>rt_scan := Scan_push w k b (rt_abort s)\<rparr>"
    by (auto simp: end_line_def split: scan_phase.splits)
  have "controller_inv (rt_ctl s)" using assms(1) by (simp add: rt_inv_def)
  then show ?thesis using scan_phase_inv(1,2) [OF assms(1) sc(1)] sc
    by (auto simp: rt_inv_def producing_def own_wafer_def)
qed

lemma scan_alarm_inv:
  assumes "rt_inv env s" "rt_step env (Scan_alarm k) s = Some (s', out)"
  shows "rt_inv env s'"
proof -
  from assms(2) obtain w l t where sc: "rt_scan s = Scan_line w l" "s' = s\<lparr>rt_ctl := (rt_ctl s)\<lparr>alarms := t\<rparr>\<rparr>"
    by (auto simp: scan_alarm_def split: scan_phase.splits prod.splits)
  have "controller_inv (rt_ctl s)" using assms(1) by (simp add: rt_inv_def)
  then show ?thesis using scan_phase_inv(1,2) [OF assms(1) sc(1)] sc
    by (auto simp: rt_inv_def controller_inv_def phases_update own_wafer_def)
qed

lemma scan_step_inv:
  assumes "rt_inv env s" "rt_step env Scan_goes_on s = Some (s', out)"
  shows "rt_inv env s'"
proof -
  have i: "controller_inv (rt_ctl s)" using assms(1) by (simp add: rt_inv_def)
  note ph = scan_phase_inv [OF assms(1) refl]
  show ?thesis
  proof (cases "rt_scan s")
    case (Scan_push w k b a)
    then show ?thesis using assms(2) ph(1,2) i
      by (auto simp: rt_inv_def producing_def discarding_def own_wafer_def scan_step_def from_line_def split: if_splits)
  next
    case (Scan_notify w)
    from Scan_notify assms(2) obtain s1 where "call_controller env (Scan_complete w) s = Some (s1, out)"
      and s': "s' = s1\<lparr>rt_scan := Scan_queue w\<rparr>" by (auto simp: scan_step_def)
    from this(1) i obtain r c es where c: "rt_joining s = None" "controller_inv c"
      "controller_call (re_order env) (Scan_complete w) (rt_ctl s) = (r, c, es)"
      "s1 = fold apply_effect es (s\<lparr>rt_ctl := c\<rparr>)" by (auto elim: call_controller_inv)
    note p = scan_complete_plain [OF c(3) i]
    show ?thesis using ph(2) c p Scan_notify s' plain_apply [of es]
      by (auto simp: rt_inv_def producing_def handed_over_def own_wafer_def)
  next
    case (Scan_queue w)
    then show ?thesis using assms(2) ph(1,3) i
      by (auto simp: rt_inv_def handed_over_def own_wafer_def scan_step_def split: if_splits)
  next
    case Scan_stopped
    then show ?thesis using assms(2) ph(1,4) i
      by (auto simp: rt_inv_def discarding_def scan_step_def split: if_splits)
  qed (use assms(2) in \<open>simp_all add: scan_step_def\<close>)
qed

lemma output_phases:
  assumes "free (rt_work s)"
  defines "s' \<equiv> \<lambda>l d. s\<lparr>rt_last_dir := l, rt_work := W_pop, rt_disk := d\<rparr>"
  shows "producing env (s' l d) = producing env s" "handed_over env (s' l d) = handed_over env s"
    "discarding (s' l d) = discarding s" "resting (s' l d) = resting s"
  using assms(1) by (simp_all add: s'_def rt_phases cong: scan_phase.case_cong)

lemma output_step_inv:
  assumes "rt_inv env s" "output_step env mkdir ms w r s = Some (s', out)" "rt_work s = W_output w r"
  shows "rt_inv env s'"
proof -
  have "\<exists>d l. s' = s\<lparr>rt_last_dir := l, rt_work := W_pop, rt_disk := d\<rparr>"
  proof (cases mkdir)
    case None
    then show ?thesis using assms(2) by (auto simp: output_step_def Let_def)
  next
    case (Some e)
    then have "s' = s\<lparr>rt_last_dir := path_append (re_run_dir env) w, rt_work := W_pop, rt_disk := rt_disk s\<rparr>"
      using assms(2) by (auto simp: output_step_def Let_def)
    then show ?thesis by blast
  qed
  then obtain d l where "s' = s\<lparr>rt_last_dir := l, rt_work := W_pop, rt_disk := d\<rparr>" by blast
  moreover have f: "free (rt_work s)" by (simp add: assms(3))
  ultimately show ?thesis
    using assms(1) by (simp add: rt_inv_def output_phases [OF f] own_wafer_def cong: process_state.case_cong option.case_cong)
qed

lemma work_step_inv:
  assumes "rt_inv env s" "rt_step env (Work mkdir ms) s = Some (s', out)"
  shows "rt_inv env s'"
proof -
  have i: "controller_inv (rt_ctl s)" using assms(1) by (simp add: rt_inv_def)
  note ph = work_phase_inv [OF assms(1)]
  show ?thesis
  proof (cases "rt_work s")
    case W_pop
    then obtain j js where j: "rt_jobs s = j # js"
      using assms(2) by (auto simp: work_step_def split: list.splits)
    have "rt_joining s = None" "handed_over env s \<and> cstate (rt_ctl s) \<in> {kProcessing, kStopping} \<or>
        discarding s \<and> cstate (rt_ctl s) = kStopping"
      using assms(1) W_pop j
      by (auto simp: rt_inv_def producing_def resting_def split: option.splits process_state.splits)
    then show ?thesis using assms(2) i W_pop j
      by (auto simp: rt_inv_def handed_over_def discarding_def own_wafer_def work_step_def
          split: if_splits work_item.splits)
  next
    case W_discard
    then show ?thesis using assms(2) ph i
      by (auto simp: rt_inv_def discarding_def work_step_def split: list.splits)
  next
    case (W_collect w got)
    have full: "rt_samples s = []" if "\<not> length got < line_count env"
    proof -
      have "got @ rt_samples s = rt_run s" "length (rt_run s) = line_count env"
        using W_collect ph(5) [of w got] by (auto simp: handed_over_def split: if_splits)
      with that show ?thesis by (metis add_le_same_cancel1 leI le_zero_eq length_0_conv length_append)
    qed
    from W_collect show ?thesis using assms(2) ph i full
      by (auto simp: rt_inv_def handed_over_def discarding_def own_wafer_def work_step_def stop_seen_def
          split: list.splits if_splits)
  next
    case (W_recheck w r)
    then show ?thesis using assms(2) ph i
      by (auto simp: rt_inv_def resting_def discarding_def work_step_def stop_seen_def split: if_splits)
  next
    case (W_notify w r)
    from W_notify assms(2) obtain s1 where "call_controller env (result_call (re_config env) r) s = Some (s1, out)"
      and s': "s' = s1\<lparr>rt_work := W_recheck w r\<rparr>" by (auto simp: work_step_def)
    from this(1) i obtain x c es where c: "rt_joining s = None" "controller_inv c"
      "controller_call (re_order env) (result_call (re_config env) r) (rt_ctl s) = (x, c, es)"
      "s1 = fold apply_effect es (s\<lparr>rt_ctl := c\<rparr>)" by (auto elim: call_controller_inv)
    note p = result_call_plain [OF c(3) i]
    show ?thesis using ph c p W_notify s' plain_apply [of es]
      by (auto simp: rt_inv_def resting_def handed_over_def discarding_def own_wafer_def)
  next
    case W_report
    from W_report assms(2) obtain s1 where "call_controller env Stage_stopped s = Some (s1, out)"
      and s': "s' = s1\<lparr>rt_work := W_pop\<rparr>" by (auto simp: work_step_def)
    from this(1) i obtain x c es where c: "rt_joining s = None" "controller_inv c"
      "controller_call (re_order env) Stage_stopped (rt_ctl s) = (x, c, es)"
      "s1 = fold apply_effect es (s\<lparr>rt_ctl := c\<rparr>)" by (auto elim: call_controller_inv)
    note p = stage_stopped_plain [OF c(3) i]
    show ?thesis using ph c p W_report s' plain_apply [of es]
      by (auto simp: rt_inv_def resting_def discarding_def)
  next
    case (W_output w r)
    then show ?thesis using output_step_inv [OF assms(1)] assms(2) by (simp add: work_step_def)
  qed
qed

interpretation rtm: event_machine "\<lambda>s. \<exists>d. s = new_runtime d" "calm_step env" "rt_inv env" for env
proof
  fix s e s' out
  show "rt_inv env s" if "\<exists>d. s = new_runtime d" using that new_runtime_inv by blast
  show "rt_inv env s'" if "rt_inv env s" "calm_step env e s = Some (s', out)"
  proof -
    have st: "rt_step env e s = Some (s', out)" "\<not> hasty e s"
      using that(2) by (simp_all add: calm_step_def split: if_splits)
    show ?thesis
    proof (cases e)
      case (Command x1)
      then show ?thesis using command_inv that(1) st by blast
    next
      case Joined
      then show ?thesis using join_inv that(1) st(1) by blast
    next
      case (Line_ends b)
      then show ?thesis using end_line_inv that(1) st(1) by blast
    next
      case Scan_goes_on
      then show ?thesis using scan_step_inv that(1) st(1) by blast
    next
      case (Scan_alarm k)
      then show ?thesis using scan_alarm_inv that(1) st(1) by blast
    next
      case (Work x y)
      then show ?thesis using work_step_inv that(1) st(1) by blast
    qed
  qed
qed

section \<open>What the analysis sees\<close>

text \<open>
  C32. A result belongs to its wafer. Whatever the interleaving of commands, aborts, scan thread and processing
  thread, short of a hasty Start: when the processing thread is about to report a result, it was computed
  from exactly the blocks the scan thread of the current wafer has pushed, one for each line, in order,
  and none is left in the queue for the next run.
\<close>

theorem analysis_of_own_run:
  assumes "reach (\<lambda>s. \<exists>d. s = new_runtime d) (calm_step env) s" "rt_work s = W_notify w r"
  shows "w = current_wafer_id (rt_ctl s) \<and> length (rt_run s) = line_count env \<and> rt_samples s = [] \<and>
    run_pipeline (re_lib env) (rt_run s) (re_config env) = Some r"
proof -
  have "handed_over env s" using work_phase_inv(5) [OF rtm.reach_inv [OF assms(1)]] assms(2) by simp
  then show ?thesis using assms(2) by (auto simp: handed_over_def own_wafer_def split: if_splits)
qed

definition one_line_config :: config where
  "one_line_config = default_config\<lparr>cf_scan := (cf_scan default_config)\<lparr>sn_lines := 1\<rparr>\<rparr>"

definition blank_block :: sample_block where
  "blank_block = \<lparr>sb_line_index = 0, sb_angle_rad = 0, sb_positions_m = [], sb_heights_m = [], sb_timestamps = []\<rparr>"

definition one_line_env :: rt_env where
  "one_line_env =
     \<lparr>re_lib = \<lparr>hypot = f8_add, atan2 = f8_sub\<rparr>, re_config = one_line_config, re_run_dir = ''out/run'',
      re_order = id, re_dump = (\<lambda>_. ''{}''), re_png = (\<lambda>_ _ d. (True, d))\<rparr>"

lemma one_line_result:
  "\<exists>r. run_pipeline (re_lib one_line_env) [blank_block] (re_config one_line_env) = Some r \<and>
     qg_issue (pr_quality r) = kNone \<and> pr_outlier_removed_fraction r = 0 \<and> \<not> pr_any_dropout r"
proof -
  obtain r0 where r0: "run_pipeline (re_lib one_line_env) [] default_config = Some r0" "qg_issue (pr_quality r0) = kNone"
    using no_line_no_issue by blast
  have f: "filter_line c blank_block = \<lparr>fr_angle_rad = 0, fr_samples = [], fr_removed_count = 0, fr_removed_fraction = 0\<rparr>" for c
    by (simp add: filter_line_def blank_block_def apply_edge_exclusion_def apply_outlier_rejection_def
        kept_indices_def Let_def)
  have l: "fit_line \<lparr>fr_angle_rad = 0, fr_samples = [], fr_removed_count = 0, fr_removed_fraction = 0\<rparr> = no_fit"
    by (simp add: fit_line_def no_sums_def no_fit_def)
  let ?n = "pipeline_numbers one_line_config [filter_line one_line_config blank_block] [no_fit]"
  have n: "pr_quality ?n = pr_quality (pipeline_numbers default_config [] [])"
    by (simp add: pipeline_numbers_def one_line_config_def combine_lines_def max_rms_def no_fit_def Let_def)
  have "build_wafer_map lm [no_fit] = build_wafer_map lm []" for lm
    by (rule ext)+ (simp add: build_wafer_map_def no_fit_def)
  then show ?thesis
    using r0 n
    by (auto simp: run_pipeline_def f l one_line_env_def one_line_config_def pipeline_numbers_def fraction_def
        count_flag_def Let_def split: if_splits)
qed

definition one_line_schedule :: "rt_event list" where
  "one_line_schedule =
     [Command (ui_command (StartCommand ''W001'' 1)), Joined, Line_ends blank_block, Scan_goes_on, Scan_goes_on,
      Scan_goes_on, Work None 0, Work None 0, Work None 0]"

definition empty_disk :: disk where
  "empty_disk = \<lparr>dk_files = \<lambda>_. None, dk_no_open = \<lambda>_. False, dk_room = \<lambda>_. 0\<rparr>"

lemmas call_simps = handle_command_def transition_def Let_def process_apply_simps new_controller_def new_machine_def
  mode_allows_start_def mode_allows_host_command_def default_guards_def notify_scan_complete_def
  notify_processing_result_def notify_stage_stopped_def ui_command_def

lemma one_line_lines: "line_count one_line_env = 1"
  by (simp add: line_count_def one_line_env_def one_line_config_def)

lemma one_line_run:
  assumes "run_pipeline (re_lib one_line_env) [blank_block] (re_config one_line_env) = Some r"
  shows "\<exists>s outs. run (calm_step one_line_env) one_line_schedule (new_runtime empty_disk) = Some (s, outs) \<and>
    rt_work s = W_notify ''W001'' r \<and> rt_run s = [blank_block]"
  using assms
  by (simp add: one_line_schedule_def new_runtime_def calm_step_def call_controller_def call_simps join_step_def
      from_line_def one_line_lines end_line_def scan_step_def work_step_def kJobsCapacity_def stop_seen_def)

theorem analysis_of_own_run_witness:
  "\<exists>s r. reach (\<lambda>s. \<exists>d. s = new_runtime d) (calm_step one_line_env) s \<and> rt_work s = W_notify ''W001'' r \<and>
     run_pipeline (re_lib one_line_env) [blank_block] (re_config one_line_env) = Some r"
proof -
  obtain r where "run_pipeline (re_lib one_line_env) [blank_block] (re_config one_line_env) = Some r"
    using one_line_result by blast
  from one_line_run [OF this] obtain s outs
    where s: "run (calm_step one_line_env) one_line_schedule (new_runtime empty_disk) = Some (s, outs)"
      "rt_work s = W_notify ''W001'' r" "rt_run s = [blank_block]" by blast
  have "reach (\<lambda>s. \<exists>d. s = new_runtime d) (calm_step one_line_env) s"
    by (rule run_reach [OF reach_init s(1)]) blast
  with s analysis_of_own_run [OF this s(2)] show ?thesis by auto
qed

section \<open>Coming to rest\<close>



















section \<open>The hasty Start\<close>

text \<open>
  What \<open>calm_step\<close> leaves out can happen: a Start, a whole scan and an Abort between the report of a result and
  the second look at the state. The processing thread then takes the stop of the new run for its own, the
  machine is Idle again while that scan thread is still about to call the controller, and the next Start
  makes the controller wait for the thread that waits for it.
\<close>

definition hasty_schedule :: "rt_event list" where
  "hasty_schedule =
     one_line_schedule @
     [Work None 0, Command (ui_command (StartCommand ''W002'' 1)), Joined, Line_ends blank_block, Scan_goes_on,
      Command (ui_command AbortCommand), Work None 0, Work None 0, Command (ui_command (StartCommand ''W003'' 1))]"

definition deadlocked :: "runtime \<Rightarrow> bool" where
  "deadlocked s \<longleftrightarrow> rt_joining s \<noteq> None \<and> (case rt_scan s of Scan_notify w \<Rightarrow> True | _ \<Rightarrow> False)"

lemma hasty_start_deadlocks:
  "\<exists>s outs. run (rt_step one_line_env) hasty_schedule (new_runtime empty_disk) = Some (s, outs) \<and> deadlocked s"
proof -
  obtain r where r: "run_pipeline (re_lib one_line_env) [blank_block] (re_config one_line_env) = Some r"
    "qg_issue (pr_quality r) = kNone" "pr_outlier_removed_fraction r = 0" "\<not> pr_any_dropout r"
    using one_line_result by blast
  have "\<not> f8_less (an_outlier_fraction_alarm (cf_analysis (re_config one_line_env))) 0"
    by (simp add: one_line_env_def one_line_config_def default_config_def default_analysis_def f8_eval f8_less_def f8_key_def)
  then have "alarm_verdict (re_config one_line_env) r = None" using r by (simp add: alarm_verdict_def)
  with r(1) show ?thesis
    by (simp add: hasty_schedule_def one_line_schedule_def new_runtime_def call_controller_def call_simps join_step_def
      from_line_def one_line_lines end_line_def scan_step_def work_step_def kJobsCapacity_def stop_seen_def
      result_call_def deadlocked_def)
qed

lemma deadlock_forever:
  assumes "deadlocked s" "rt_step env e s = Some (s', out)"
  shows "deadlocked s'"
proof (cases e)
  case (Work mkdir ms)
  then have w: "work_step env mkdir ms s = Some (s', out)" using assms(2) by simp
  show ?thesis
  proof (cases "rt_work s")
    case (W_output x r)
    then show ?thesis using w assms(1)
      by (cases mkdir) (auto simp: work_step_def output_step_def deadlocked_def Let_def)
  qed (use w assms(1) in \<open>auto simp: work_step_def deadlocked_def call_controller_def
      split: if_splits list.splits work_item.splits\<close>)
qed (use assms in \<open>auto simp: deadlocked_def call_controller_def join_step_def end_line_def scan_step_def scan_alarm_def
    split: scan_phase.splits option.splits if_splits prod.splits\<close>)

end
