(* ===== verification/Spec2Isabelle.thy ===== *)
theory Spec2Isabelle
  imports Secs2_Factory Gem_Dialogue Spsc_Ring_Correct Host_Runner Event_Bus Hsms_Server Scan_Thread Fit_Pool
    Machine_Runtime
begin

text \<open>
  StressScan-Sim: a verification library of a simulated film-stress metrology tool (C++17).

  \<^bold>\<open>The program.\<close> A machine scans wafers with a laser, fits curvature to every scanned line, turns it into
  film stress and reports it to an operator and, over SECS/GEM, to a factory host. Its parts, bottom up:

  \<^item> \<^verbatim>\<open>ssim_core\<close>: results, the two queues between threads, the event bus, the alarm table, the process state
    machine, the controller that is the only writer of machine state, the facade on it, the configuration.
  \<^item> \<^verbatim>\<open>ssim_analysis\<close>: filters, line fit, stress, quality gates, wafer map.
  \<^item> \<^verbatim>\<open>ssim_secsgem\<close>: SECS-II items and their codec, HSMS frames, session and server, the GEM service.
  \<^item> \<^verbatim>\<open>host_sim\<close>: the host side as a script interpreter on its own connection.
  \<^item> \<^verbatim>\<open>ssim_hw\<close>, \<^verbatim>\<open>machine\<close>, \<^verbatim>\<open>app_cli\<close>, \<^verbatim>\<open>app_qt\<close>: simulated hardware, the composition root and the programs.

  \<^bold>\<open>Shared theories.\<close>

  \<^item> \<open>Prelude\<close>: machine integers, \<^verbatim>\<open>Result<T>\<close> (\<^verbatim>\<open>core/result.hpp\<close>), big-endian bytes.
  \<^item> \<open>Event_Machine\<close>: the locales \<open>event_machine\<close> (an invariant of every reachable state) and \<open>live_machine\<close>
    (moreover every call returns); interpreted for the session, the controller, the GEM service, the event
    bus, the server, the fit pool and the runtime.
  \<^item> \<open>Queue_Spec\<close>: the bounded closable FIFO queue as an abstract machine over labels, with the locales
    \<open>bounded_fifo\<close> and \<open>closing_fifo\<close>; interpreted for both queue implementations.
  \<^item> \<open>Std_Map\<close>: \<^verbatim>\<open>std::map\<close> behind the locale \<open>keyed_store\<close>. \<open>Std_Text\<close>, \<open>Std_Float\<close>, \<open>Std_Double\<close>, \<open>Std_Rounding\<close>,
    \<open>Std_Ratio\<close>: what the program uses of the C library's texts and of IEEE doubles, bit for bit.

  \<^bold>\<open>Components.\<close> One theory each; definitions keep the names of the source.

  \<^item> \<open>Secs2_Item\<close>, \<open>Secs2_Codec\<close>, \<open>Secs2_Factory\<close>, \<open>Secs2_Text\<close> (\<^verbatim>\<open>secsgem/secs2/\<close>): decoding inverts encoding,
    never reads past its input, never builds more than the input pays for, and detects truncation; the
    catalogue lookup gives the verdict it is meant to give; log texts are printable.
  \<^item> \<open>Hsms_Frame\<close>, \<open>Hsms_Session\<close>, \<open>Hsms_Server\<close> (\<^verbatim>\<open>secsgem/hsms/\<close>): frames survive any cutting into reads within a
    bounded buffer; the session keeps its invariant, returns from every call and accounts for every
    transaction; the server serves one connection at a time and ignores late completions.
  \<^item> \<open>Gem_Identifiers\<close>, \<open>Gem_Messages\<close>, \<open>Gem_Service\<close>, \<open>Gem_Dialogue\<close> (\<^verbatim>\<open>secsgem/gem/\<close>): builders and parsers are
    inverse, each host message gets exactly the answer its content calls for, remote commands run exactly when
    allowed, nothing is sent unasked outside an established communication.
  \<^item> \<open>Process_State\<close>, \<open>Alarms\<close>, \<open>Controller\<close>, \<open>Machine_Api\<close> (\<^verbatim>\<open>core/\<close>): the transition table, every change of an
    alarm announced exactly once whichever threads make it (in which order is not promised: a clear can overtake
    its set), published transitions as one path of the table, balanced runs, buttons that agree with what the
    controller accepts.
  \<^item> \<open>Bounded_Queue\<close>, \<open>Spsc_Ring\<close>, \<open>Spsc_Ring_Correct\<close> (\<^verbatim>\<open>core/queue.hpp\<close>, \<^verbatim>\<open>core/spsc_ring_queue.hpp\<close>): every
    interleaving refines the abstract queue; threads settle and no wake-up is lost.
  \<^item> \<open>Event_Bus\<close> (\<^verbatim>\<open>core/event_bus.cpp\<close>): after an unsubscribe the handler runs nowhere.
  \<^item> \<open>Host_Pattern\<close>, \<open>Host_Script\<close>, \<open>Host_Runner\<close> (\<^verbatim>\<open>host_sim/\<close>): the script language reads back what is written,
    and a wait takes the first matching message without losing others, and never outlasts its deadline.
  \<^item> \<open>Config\<close> (\<^verbatim>\<open>core/config.cpp\<close>): a configuration that loads is inside the ranges \<^verbatim>\<open>validate\<close> knows of.
  \<^item> \<open>Analysis_Filter\<close>, \<open>Analysis_Fit\<close> (\<^verbatim>\<open>analysis/\<close>): the fast outlier filter equals the one it replaced, the
    filters account for every sample, and the quality verdict of the pipeline is pinned down case by case.
  \<^item> \<open>Fit_Pool\<close> (\<^verbatim>\<open>analysis/fit_pool.cpp\<close>): fitting on the pool is fitting serially, and every call comes back.
  \<^item> \<open>Hardware\<close>, \<open>Scan_Thread\<close> (\<^verbatim>\<open>hw/\<close>): wafer, stage, laser and faults; a scan ends and hands over one consistent
    block per line, reports percentages, and clears its stall alarm itself.
  \<^item> \<open>Writers\<close> (\<^verbatim>\<open>analysis/writers/\<close>): CSV, JSON and the picture of the map; painting stays inside its buffer.
  \<^item> \<open>Run_Directory\<close>, \<open>Machine_Runtime\<close> (\<^verbatim>\<open>machine/\<close>): a run gets a fresh directory; controller, scan thread and
    processing thread together: a result comes from the blocks of its own wafer, and every run ends. Both
    hold short of one race between a Start and the end of the run before, which is shown to deadlock.

  \<^bold>\<open>Bounds and fuel.\<close> The item parser of the host scripts carries fuel, twice the length of the text plus 2,
  shown never to run out. Loops that may not end are \<open>partial_function (option)\<close>: the allocation of system bytes
  is shown to return while a number is free, the rounding of the ring capacity for capacities up to \<open>2\<^sup>6\<^sup>3\<close>. The
  generation counter of the server is assumed not to have wrapped, which takes \<open>2\<^sup>6\<^sup>4\<close> connections. Lists and
  byte strings are shorter than \<^verbatim>\<open>SIZE_MAX\<close>.

  \<^bold>\<open>Concurrency.\<close> Components that are confined to one thread are functions on their state. The queues, the
  event bus and the fit pool are step functions whose steps are critical sections, accesses to shared variables and
  notifications, in any interleaving; memory is sequentially consistent, and at most one thread at a time is inside
  \<^verbatim>\<open>close\<close> of the ring. The alarm table is a step function too, with an announcement as a step after the critical
  section; where the controller or the scan thread uses it, \<open>Controller\<close> and \<open>Scan_Thread\<close> follow the calls of that one
  thread. In the runtime a step is a call of the controller, an operation on a queue, or what a thread does between
  two of them. A remote command looks at the machine and submits in one step; in the code another task may come in
  between, which the controller catches by checking again. Time points are unbounded integers.

  \<^bold>\<open>Parameters.\<close> Code outside the repository is an argument: the JSON library (\<open>json_api\<close>), \<^verbatim>\<open>hypot\<close> and \<^verbatim>\<open>atan2\<close>
  (\<open>libm\<close>), sine and cosine (\<open>trig\<close>), random numbers (\<open>random_lib\<close>), the PNG encoder and the text of JSON values,
  the networking library (which operation completes next and how), the operating system of the host
  client (a list of answers), the iteration order of hash maps.

  \<^bold>\<open>Not modelled.\<close> Of the runtime, the construction of the host link, its log lines and the shutdown; the logger's
  files and the clocks, on whose contents nothing depends; the command-line programs, which read options and
  print; and the Qt panel, whose only rules are modelled with the facade.
\<close>

end
